(* ===== verification/Prelude.thy ===== *)
theory Prelude
  imports Main "HOL-Library.Word"
begin

unbundle bit_operations_syntax

text \<open>
  Shared vocabulary of the development: Rust's integer types, the ways a Rust function of
  the program can panic, the sequencing of fallible steps, and the generic lemmas on lists,
  words and bounded searches that the component theories use.

  The program is built with \<^verbatim>\<open>cargo build\<close> (the development profile), so arithmetic on
  machine integers is checked: an addition, subtraction, multiplication or shift amount out
  of range panics.  \<open>usize\<close> values that index arrays or count objects are modelled as
  \<^typ>\<open>nat\<close> with those checks written out; words that are used bitwise are
  \<open>'a word\<close> values.
\<close>

section \<open>Types and panics\<close>

type_synonym u8 = "8 word"
type_synonym u16 = "16 word"
type_synonym u32 = "32 word"
type_synonym u64 = "64 word"
type_synonym usize = nat

datatype panic =
    AssertFailed
  | UnwrapNone
  | UnwrapErr
  | IndexOutOfBounds
  | ArithOverflow
  | ExplicitPanic
  | BadPointer
  | SelfDeadlock

text \<open>\<^const>\<open>BadPointer\<close> stands for the use of a raw address at which no object lives; in the source that
  is undefined behaviour, and no theorem relies on what happens after it.  \<^const>\<open>SelfDeadlock\<close> stands for a
  thread that waits for a spin lock it holds itself, and so for ever.\<close>

text \<open>A step that may panic: \<^term>\<open>Inl\<close> the panic, \<^term>\<open>Inr\<close> the value.\<close>

type_synonym 'a res = "panic + 'a"

fun rbind :: "'a res \<Rightarrow> ('a \<Rightarrow> 'b res) \<Rightarrow> 'b res" where
  "rbind (Inl e) f = Inl e"
| "rbind (Inr x) f = f x"

definition guard_res :: "bool \<Rightarrow> panic \<Rightarrow> unit res" where
  "guard_res b e = (if b then Inr () else Inl e)"

text \<open>\<open>Option::unwrap\<close>, and indexing of a Rust array or slice.\<close>

fun unwrap :: "'a option \<Rightarrow> 'a res" where
  "unwrap None = Inl UnwrapNone"
| "unwrap (Some x) = Inr x"

definition index_res :: "'a list \<Rightarrow> usize \<Rightarrow> 'a res" where
  "index_res xs i = (if i < length xs then Inr (xs ! i) else Inl IndexOutOfBounds)"

definition store_res :: "'a list \<Rightarrow> usize \<Rightarrow> 'a \<Rightarrow> 'a list res" where
  "store_res xs i x = (if i < length xs then Inr (xs[i := x]) else Inl IndexOutOfBounds)"

text \<open>Checked \<open>usize\<close> arithmetic (64-bit target).\<close>

definition add_usize :: "usize \<Rightarrow> usize \<Rightarrow> usize res" where
  "add_usize a b = (if a + b < 2 ^ 64 then Inr (a + b) else Inl ArithOverflow)"

definition sub_usize :: "usize \<Rightarrow> usize \<Rightarrow> usize res" where
  "sub_usize a b = (if b \<le> a then Inr (a - b) else Inl ArithOverflow)"

definition mul_usize :: "usize \<Rightarrow> usize \<Rightarrow> usize res" where
  "mul_usize a b = (if a * b < 2 ^ 64 then Inr (a * b) else Inl ArithOverflow)"

text \<open>\<^verbatim>\<open>Layout::from_size_align(..).expect(..)\<close>: a size that, rounded up to the alignment, exceeds the
  largest signed value is refused.\<close>

definition layout_from_size_align :: "usize \<Rightarrow> usize \<Rightarrow> usize res" where
  "layout_from_size_align sz align = (if sz + align \<le> 2 ^ 63 then Inr sz else Inl UnwrapErr)"

text \<open>A fallible step for every element of a list, in order.\<close>

fun rmap :: "('a \<Rightarrow> 'b res) \<Rightarrow> 'a list \<Rightarrow> 'b list res" where
  "rmap f [] = Inr []"
| "rmap f (x # xs) = rbind (f x) (\<lambda>y. rbind (rmap f xs) (\<lambda>ys. Inr (y # ys)))"

section \<open>Bounded search\<close>

text \<open>\<open>(lo..hi).find(p)\<close>: the first index of the half-open range that satisfies \<open>p\<close>.\<close>

function range_find :: "(nat \<Rightarrow> bool) \<Rightarrow> nat \<Rightarrow> nat \<Rightarrow> nat option" where
  "range_find p lo hi =
     (if lo < hi then (if p lo then Some lo else range_find p (Suc lo) hi) else None)"
  by pat_completeness auto
termination
  by (relation "measure (\<lambda>(p, lo, hi). hi - lo)") auto

declare range_find.simps [simp del]

text \<open>\<open>u64::trailing_zeros\<close> and \<open>u64::trailing_ones\<close>: 64 on the all-zero (all-one) word.\<close>

definition trailing_zeros :: "u64 \<Rightarrow> usize" where
  "trailing_zeros w = (case range_find (\<lambda>i. bit w i) 0 64 of None \<Rightarrow> 64 | Some i \<Rightarrow> i)"

definition trailing_ones :: "u64 \<Rightarrow> usize" where
  "trailing_ones w = (case range_find (\<lambda>i. \<not> bit w i) 0 64 of None \<Rightarrow> 64 | Some i \<Rightarrow> i)"

section \<open>Lemmas on fallible steps\<close>

named_theorems res_elims \<open>inversion of successful fallible steps\<close>
named_theorems res_defs \<open>definitions of the primitive fallible steps\<close>

declare guard_res_def [res_defs] index_res_def [res_defs] store_res_def [res_defs]
  add_usize_def [res_defs] sub_usize_def [res_defs] mul_usize_def [res_defs]

lemma rbind_Inr_iff [simp]: "rbind m f = Inr y \<longleftrightarrow> (\<exists>x. m = Inr x \<and> f x = Inr y)"
  by (cases m) auto

lemma rbind_Inl_iff: "rbind m f = Inl e \<longleftrightarrow> m = Inl e \<or> (\<exists>x. m = Inr x \<and> f x = Inl e)"
  by (cases m) auto

lemma rbind_assoc: "rbind (rbind m f) g = rbind m (\<lambda>x. rbind (f x) g)"
  by (cases m) auto

lemma rbind_cong [fundef_cong]:
  "m = m' \<Longrightarrow> (\<And>x. m' = Inr x \<Longrightarrow> f x = f' x) \<Longrightarrow> rbind m f = rbind m' f'"
  by (cases m') auto

text \<open>A result that is unwrapped: \<^verbatim>\<open>Result::unwrap\<close> and \<^verbatim>\<open>expect\<close>.\<close>

lemma unwrapped_Inr_iff: "(case s of Inl e \<Rightarrow> Inl k | Inr x \<Rightarrow> F x) = Inr y \<longleftrightarrow> (\<exists>x. s = Inr x \<and> F x = Inr y)"
  by (cases s) auto

lemma guard_res_Inr_iff [simp]: "guard_res b e = Inr u \<longleftrightarrow> b"
  by (simp add: guard_res_def)

lemma unwrap_Inr_iff [simp]: "unwrap x = Inr y \<longleftrightarrow> x = Some y"
  by (cases x) auto

lemma index_res_Inr_iff [simp]: "index_res xs i = Inr x \<longleftrightarrow> i < length xs \<and> x = xs ! i"
  by (auto simp: index_res_def)

lemma store_res_Inr_iff [simp]: "store_res xs i x = Inr ys \<longleftrightarrow> i < length xs \<and> ys = xs[i := x]"
  by (auto simp: store_res_def)

lemma add_usize_Inr_iff [simp]: "add_usize a b = Inr c \<longleftrightarrow> a + b < 2 ^ 64 \<and> c = a + b"
  by (auto simp: add_usize_def)

lemma sub_usize_Inr_iff [simp]: "sub_usize a b = Inr c \<longleftrightarrow> b \<le> a \<and> c = a - b"
  by (auto simp: sub_usize_def)

lemma mul_usize_Inr_iff [simp]: "mul_usize a b = Inr c \<longleftrightarrow> a * b < 2 ^ 64 \<and> c = a * b"
  by (auto simp: mul_usize_def)

lemma all_less_Suc: "(\<forall>i < Suc n. P i) \<longleftrightarrow> P 0 \<and> (\<forall>i<n. P (Suc i))"
  using less_Suc_eq_0_disj by auto

lemma rmap_Inr_iff: "rmap f xs = Inr ys \<longleftrightarrow> length ys = length xs \<and> (\<forall>i<length xs. f (xs ! i) = Inr (ys ! i))"
proof (induction xs arbitrary: ys)
  case (Cons x xs)
  then show ?case by (cases ys) (auto simp: all_less_Suc)
qed auto

lemma rmap_Inl: "rmap f xs = Inl e \<Longrightarrow> \<exists>x\<in>set xs. f x = Inl e"
  by (induction xs) (auto simp: rbind_Inl_iff)

section \<open>Lemmas on the bounded search\<close>

lemma range_find_Some_iff:
  "range_find p lo hi = Some i \<longleftrightarrow> lo \<le> i \<and> i < hi \<and> p i \<and> (\<forall>j. lo \<le> j \<and> j < i \<longrightarrow> \<not> p j)"
proof (induction p lo hi rule: range_find.induct)
  case (1 p lo hi)
  show ?case
  proof (cases "lo < hi \<and> \<not> p lo")
    case True
    with "1.IH" have "range_find p lo hi = Some i \<longleftrightarrow>
        Suc lo \<le> i \<and> i < hi \<and> p i \<and> (\<forall>j. Suc lo \<le> j \<and> j < i \<longrightarrow> \<not> p j)"
      by (simp add: range_find.simps [of p lo hi])
    also have "\<dots> \<longleftrightarrow> lo \<le> i \<and> i < hi \<and> p i \<and> (\<forall>j. lo \<le> j \<and> j < i \<longrightarrow> \<not> p j)"
      using True by (metis Suc_le_eq le_eq_less_or_eq)
    finally show ?thesis .
  next
    case False
    then show ?thesis by (auto simp: range_find.simps [of p lo hi])
  qed
qed

lemma range_find_None_iff: "range_find p lo hi = None \<longleftrightarrow> (\<forall>i. lo \<le> i \<and> i < hi \<longrightarrow> \<not> p i)"
proof (induction p lo hi rule: range_find.induct)
  case (1 p lo hi)
  show ?case
  proof (cases "lo < hi \<and> \<not> p lo")
    case True
    with "1.IH" show ?thesis
      by (simp add: range_find.simps [of p lo hi]) (metis Suc_le_eq le_eq_less_or_eq)
  next
    case False
    then show ?thesis by (auto simp: range_find.simps [of p lo hi])
  qed
qed

section \<open>Machine words as indices\<close>

lemma unat_of_nat_small: "n < 2 ^ LENGTH('a) \<Longrightarrow> unat (of_nat n :: 'a :: len word) = n"
  by (simp add: unat_of_nat take_bit_nat_eq_self)

lemma unat_small_u32: "i < 4096 \<Longrightarrow> unat (of_nat i :: u32) = i"
  by (simp add: unat_of_nat take_bit_nat_eq_self)

lemma ex_nat_split: "(\<exists>n :: nat. P n) \<longleftrightarrow> P 0 \<or> (\<exists>n. P (Suc n))"
  by (metis not0_implies_Suc)

lemma unat_less_exp_iff: "unat (w :: 'a :: len word) < 2 ^ n \<longleftrightarrow> (\<forall>j\<ge>n. \<not> bit w j)"
proof -
  have "unat w < 2 ^ n \<longleftrightarrow> take_bit n (unat w) = unat w" by (simp add: take_bit_nat_eq_self_iff)
  also have "\<dots> \<longleftrightarrow> (\<forall>j\<ge>n. \<not> bit w j)" by (auto simp: bit_eq_iff bit_simps not_less [symmetric])
  finally show ?thesis .
qed

lemma unat_mod_exp_iff: "unat (w :: 'a :: len word) mod 2 ^ n = 0 \<longleftrightarrow> (\<forall>j<n. \<not> bit w j)"
proof -
  have "unat w mod 2 ^ n = take_bit n (unat w)" by (simp add: take_bit_eq_mod)
  then have "unat w mod 2 ^ n = 0 \<longleftrightarrow> (\<forall>j. \<not> bit (take_bit n (unat w)) j)" by (simp add: bit_eq_iff)
  also have "\<dots> \<longleftrightarrow> (\<forall>j<n. \<not> bit w j)" by (auto simp: bit_simps)
  finally show ?thesis .
qed

section \<open>Bounded runs\<close>

text \<open>A run of bounded length that can always go on until the end reaches the end.\<close>

lemma bounded_run_ends:
  assumes "\<forall>n s. (R ^^ n) a s \<longrightarrow> n \<le> N \<and> ((\<exists>s'. R s s') \<or> Q s)"
  shows "\<exists>n s. (R ^^ n) a s \<and> Q s"
proof (rule ccontr)
  assume no: "\<not> (\<exists>n s. (R ^^ n) a s \<and> Q s)"
  have "\<exists>s. (R ^^ n) a s" for n
  proof (induction n)
    case (Suc n)
    then obtain s where "(R ^^ n) a s" by blast
    moreover from this obtain s' where "R s s'" using assms no by blast
    ultimately show ?case by (auto intro: relpowp_Suc_I)
  qed simp
  then obtain s where "(R ^^ Suc N) a s" by blast
  then show False using assms by fastforce
qed

end
