(* ===== verification/Ring_Buffer.thy ===== *)
theory Ring_Buffer
  imports Prelude
begin

text \<open>
  \<^verbatim>\<open>RingBuffer<T, SIZE>\<close> (the executor's ready queues) and \<^verbatim>\<open>SafeRingBuffer<T, SIZE>\<close> (the
  request and reply queues shared between threads) of \<^verbatim>\<open>async_runtime/src/utils.rs\<close>.
  \<open>SIZE\<close> is the length of the data array.  Both refine a bounded FIFO list, stated as the
  locale \<open>bounded_queue\<close>; the first keeps one slot free, the second uses its counter and
  fills every slot.
\<close>

section \<open>Model\<close>

record 'a ring_buffer =
  rb_data :: "'a list"
  rb_start :: usize
  rb_end :: usize

definition rb_new :: "nat \<Rightarrow> 'a \<Rightarrow> 'a ring_buffer" where
  "rb_new SIZE dflt = \<lparr>rb_data = replicate SIZE dflt, rb_start = 0, rb_end = 0\<rparr>"

definition rb_size :: "'a ring_buffer \<Rightarrow> usize" where
  "rb_size r = (rb_end r + length (rb_data r) - rb_start r) mod length (rb_data r)"

definition rb_empty :: "'a ring_buffer \<Rightarrow> bool" where
  "rb_empty r \<longleftrightarrow> rb_end r = rb_start r"

definition rb_full :: "'a ring_buffer \<Rightarrow> bool" where
  "rb_full r \<longleftrightarrow> (rb_end r + 1) mod length (rb_data r) = rb_start r"

definition rb_push :: "'a ring_buffer \<Rightarrow> 'a \<Rightarrow> (unit + 'a ring_buffer) res" where
  "rb_push r item =
     (if \<not> rb_full r
      then rbind (store_res (rb_data r) (rb_end r) item) (\<lambda>d.
        Inr (Inr (r\<lparr>rb_data := d, rb_end := (rb_end r + 1) mod length (rb_data r)\<rparr>)))
      else Inr (Inl ()))"

definition rb_pop :: "'a ring_buffer \<Rightarrow> ('a option \<times> 'a ring_buffer) res" where
  "rb_pop r =
     (if \<not> rb_empty r
      then rbind (index_res (rb_data r) (rb_start r)) (\<lambda>ans.
        Inr (Some ans, r\<lparr>rb_start := (rb_start r + 1) mod length (rb_data r)\<rparr>))
      else Inr (None, r))"

record 'a safe_ring_buffer =
  srb_data :: "'a list"
  srb_start :: usize
  srb_end :: usize
  srb_count :: usize

definition srb_new :: "nat \<Rightarrow> 'a \<Rightarrow> 'a safe_ring_buffer" where
  "srb_new SIZE dflt =
     \<lparr>srb_data = replicate SIZE dflt, srb_start = 0, srb_end = 0, srb_count = 0\<rparr>"

definition pop_safe :: "'a safe_ring_buffer \<Rightarrow> ('a option \<times> 'a safe_ring_buffer) res" where
  "pop_safe r =
     (if srb_count r \<noteq> 0
      then rbind (index_res (srb_data r) (srb_start r)) (\<lambda>item.
        Inr (Some item,
          r\<lparr>srb_start := (srb_start r + 1) mod length (srb_data r), srb_count := srb_count r - 1\<rparr>))
      else Inr (None, r))"

definition push_safe :: "'a safe_ring_buffer \<Rightarrow> 'a \<Rightarrow> (unit + 'a safe_ring_buffer) res" where
  "push_safe r item =
     (if srb_count r \<noteq> length (srb_data r)
      then rbind (store_res (srb_data r) (srb_end r) item) (\<lambda>d.
        Inr (Inr (r\<lparr>srb_data := d, srb_end := (srb_end r + 1) mod length (srb_data r),
                    srb_count := (srb_count r + 1) mod 2 ^ 64\<rparr>)))
      else Inr (Inl ()))"

text \<open>Abstraction functions and representation invariants.\<close>

definition ring_seq :: "'a list \<Rightarrow> nat \<Rightarrow> nat \<Rightarrow> 'a list" where
  "ring_seq d s n = map (\<lambda>i. d ! ((s + i) mod length d)) [0..<n]"

definition rb_list :: "'a ring_buffer \<Rightarrow> 'a list" where
  "rb_list r = ring_seq (rb_data r) (rb_start r) (rb_size r)"

definition rb_wf :: "'a ring_buffer \<Rightarrow> bool" where
  "rb_wf r \<longleftrightarrow> rb_start r < length (rb_data r) \<and> rb_end r < length (rb_data r)"

definition srb_list :: "'a safe_ring_buffer \<Rightarrow> 'a list" where
  "srb_list r = ring_seq (srb_data r) (srb_start r) (srb_count r)"

definition srb_wf :: "'a safe_ring_buffer \<Rightarrow> bool" where
  "srb_wf r \<longleftrightarrow> srb_start r < length (srb_data r) \<and> srb_count r \<le> length (srb_data r) \<and>
     srb_end r = (srb_start r + srb_count r) mod length (srb_data r) \<and> length (srb_data r) < 2 ^ 64"

section \<open>Clients of a queue: filling and draining\<close>

fun push_all :: "('q \<Rightarrow> 'a \<Rightarrow> (unit + 'q) res) \<Rightarrow> 'q \<Rightarrow> 'a list \<Rightarrow> (unit + 'q) res" where
  "push_all push q [] = Inr (Inr q)"
| "push_all push q (x # xs) =
     rbind (push q x) (\<lambda>r. case r of Inl u \<Rightarrow> Inr (Inl u) | Inr q' \<Rightarrow> push_all push q' xs)"

fun pop_many :: "('q \<Rightarrow> ('a option \<times> 'q) res) \<Rightarrow> 'q \<Rightarrow> nat \<Rightarrow> ('a list \<times> 'q) res" where
  "pop_many pop q 0 = Inr ([], q)"
| "pop_many pop q (Suc n) =
     rbind (pop q) (\<lambda>(r, q'). case r of None \<Rightarrow> Inr ([], q')
       | Some x \<Rightarrow> rbind (pop_many pop q' n) (\<lambda>(xs, q''). Inr (x # xs, q'')))"

section \<open>The contract of a bounded queue\<close>

locale bounded_queue =
  fixes push :: "'q \<Rightarrow> 'a \<Rightarrow> (unit + 'q) res"
    and pop :: "'q \<Rightarrow> ('a option \<times> 'q) res"
    and contents :: "'q \<Rightarrow> 'a list"
    and invar :: "'q \<Rightarrow> bool"
    and capacity :: "'q \<Rightarrow> nat"
  assumes contents_bound: "invar q \<Longrightarrow> length (contents q) \<le> capacity q"
    and push_full: "invar q \<Longrightarrow> length (contents q) = capacity q \<Longrightarrow> push q x = Inr (Inl ())"
    and push_ok: "invar q \<Longrightarrow> length (contents q) < capacity q \<Longrightarrow>
      \<exists>q'. push q x = Inr (Inr q') \<and> invar q' \<and> capacity q' = capacity q \<and>
        contents q' = contents q @ [x]"
    and pop_empty: "invar q \<Longrightarrow> contents q = [] \<Longrightarrow> pop q = Inr (None, q)"
    and pop_ok: "invar q \<Longrightarrow> contents q = x # xs \<Longrightarrow>
      \<exists>q'. pop q = Inr (Some x, q') \<and> invar q' \<and> capacity q' = capacity q \<and> contents q' = xs"
begin

lemma push_no_panic: "invar q \<Longrightarrow> \<exists>r. push q x = Inr r"
  using contents_bound push_full push_ok by (metis le_neq_implies_less)

lemma pop_no_panic: "invar q \<Longrightarrow> \<exists>r. pop q = Inr r"
  using pop_empty pop_ok by (metis list.exhaust)

lemma push_Inr: "invar q \<Longrightarrow> push q x = Inr (Inr q') \<Longrightarrow>
    invar q' \<and> capacity q' = capacity q \<and> contents q' = contents q @ [x]"
  using contents_bound push_full push_ok
  by (metis Inl_Inr_False Inr_inject le_neq_implies_less)

lemma pop_Some: "invar q \<Longrightarrow> pop q = Inr (Some x, q') \<Longrightarrow>
    invar q' \<and> capacity q' = capacity q \<and> contents q = x # contents q'"
  using pop_empty pop_ok
  by (metis Inr_inject fst_conv list.exhaust option.distinct(1) option.inject prod.inject)

lemma pop_None: "invar q \<Longrightarrow> pop q = Inr (None, q') \<Longrightarrow> contents q = [] \<and> q' = q"
  using pop_empty pop_ok
  by (metis Inr_inject list.exhaust option.distinct(1) prod.inject)

lemma push_all_ok:
  "invar q \<Longrightarrow> length (contents q) + length xs \<le> capacity q \<Longrightarrow>
    \<exists>q'. push_all push q xs = Inr (Inr q') \<and> invar q' \<and> capacity q' = capacity q \<and>
      contents q' = contents q @ xs"
proof (induction xs arbitrary: q)
  case Nil
  then show ?case by simp
next
  case (Cons x xs)
  then obtain q1 where q1: "push q x = Inr (Inr q1)" "invar q1" "capacity q1 = capacity q"
    "contents q1 = contents q @ [x]"
    using push_ok [of q x] by auto
  with Cons.IH [of q1] Cons.prems show ?case by auto
qed

lemma pop_many_ok:
  "invar q \<Longrightarrow> contents q = xs @ ys \<Longrightarrow>
    \<exists>q'. pop_many pop q (length xs) = Inr (xs, q') \<and> invar q' \<and> capacity q' = capacity q \<and>
      contents q' = ys"
proof (induction xs arbitrary: q)
  case Nil
  then show ?case by auto
next
  case (Cons x xs)
  then obtain q1 where q1: "pop q = Inr (Some x, q1)" "invar q1" "capacity q1 = capacity q"
    "contents q1 = xs @ ys"
    using pop_ok [of q x "xs @ ys"] by auto
  with Cons.IH [of q1] show ?case by auto
qed

lemma fifo:
  assumes "invar q" and "contents q = []" and "length xs \<le> capacity q"
  shows "\<exists>q' q''. push_all push q xs = Inr (Inr q') \<and> pop_many pop q' (length xs) = Inr (xs, q'') \<and>
    pop q'' = Inr (None, q'')"
proof -
  obtain q' where q': "push_all push q xs = Inr (Inr q')" "invar q'" "contents q' = xs @ []"
    using push_all_ok [of q xs] assms by auto
  with pop_many_ok [OF q'(2,3)] show ?thesis using pop_empty by blast
qed

end

section \<open>Modular indexing\<close>

lemma ring_seq_length [simp]: "length (ring_seq d s n) = n"
  by (simp add: ring_seq_def)

lemma ring_seq_0 [simp]: "ring_seq d s 0 = []"
  by (simp add: ring_seq_def)

lemma mod_add_inj:
  assumes "(s + i) mod L = (s + n) mod (L :: nat)" and "i \<le> n" and "n < L"
  shows "i = n"
proof -
  from assms(1,2) have "L dvd (s + n) - (s + i)"
    by (metis add_left_mono mod_eq_dvd_iff_nat)
  then have "L dvd n - i" by simp
  with assms(2,3) show ?thesis by (metis diff_diff_cancel diff_zero dvd_imp_le gr_zeroI leD less_imp_diff_less)
qed

lemma ring_seq_push:
  assumes "n < length d"
  shows "ring_seq (d[(s + n) mod length d := x]) s (Suc n) = ring_seq d s n @ [x]"
proof -
  have "(s + n) mod length d \<noteq> (s + i) mod length d" if "i < n" for i
    using mod_add_inj [of s i "length d" n] that assms by auto
  moreover have "0 < length d" using assms by linarith
  ultimately show ?thesis using assms by (auto simp: ring_seq_def)
qed

lemma ring_seq_pop:
  assumes "s < length d"
  shows "ring_seq d s (Suc n) = d ! s # ring_seq d ((s + 1) mod length d) n"
proof -
  have "ring_seq d s (Suc n) = d ! s # map (\<lambda>i. d ! ((s + Suc i) mod length d)) [0..<n]"
    using assms by (simp add: ring_seq_def upt_conv_Cons map_Suc_upt [symmetric] del: upt_Suc)
  then show ?thesis using assms by (simp add: ring_seq_def mod_simps)
qed

lemma mod_wrap_diff:
  assumes "s < L" and "e < (L :: nat)"
  shows "(s + (e + L - s) mod L) mod L = e" and "(e + L - s) mod L < L"
proof -
  have "(s + (e + L - s) mod L) mod L = (s + (e + L - s)) mod L" by (simp add: mod_simps)
  also have "\<dots> = e" using assms by simp
  finally show "(s + (e + L - s) mod L) mod L = e" .
qed (use assms in simp)

section \<open>The ready-queue ring refines a bounded queue\<close>

lemma rb_new_wf: "0 < SIZE \<Longrightarrow> rb_wf (rb_new SIZE x)"
  and rb_new_list [simp]: "rb_list (rb_new SIZE x) = []"
  by (simp_all add: rb_wf_def rb_new_def rb_list_def rb_size_def)

lemma rb_list_length [simp]: "length (rb_list r) = rb_size r"
  by (simp add: rb_list_def)

lemma rb_size_bound: "rb_wf r \<Longrightarrow> rb_size r < length (rb_data r)"
  by (auto simp: rb_size_def rb_wf_def intro!: mod_less_divisor)

lemma rb_end_size: "rb_wf r \<Longrightarrow> rb_end r = (rb_start r + rb_size r) mod length (rb_data r)"
  by (simp add: rb_size_def rb_wf_def mod_wrap_diff)

lemma rb_sizeI:
  assumes "rb_wf r" and "n < length (rb_data r)"
    and "rb_end r = (rb_start r + n) mod length (rb_data r)"
  shows "rb_size r = n"
proof -
  have "(rb_start r + n) mod length (rb_data r) = (rb_start r + rb_size r) mod length (rb_data r)"
    using assms(3) rb_end_size [OF assms(1)] by simp
  then show ?thesis
    using mod_add_inj [of "rb_start r" n] mod_add_inj [of "rb_start r" "rb_size r"]
      rb_size_bound [OF assms(1)] assms(2) by (metis linear)
qed

lemma rb_empty_iff: "rb_wf r \<Longrightarrow> rb_empty r \<longleftrightarrow> rb_list r = []"
proof -
  assume wf: "rb_wf r"
  have "rb_list r = [] \<longleftrightarrow> rb_size r = 0" by (metis length_0_conv rb_list_length)
  then show ?thesis
    using rb_end_size [OF wf] wf rb_size_bound [OF wf]
      mod_add_inj [of "rb_start r" 0 "length (rb_data r)" "rb_size r"]
    by (auto simp: rb_empty_def rb_wf_def)
qed

lemma rb_full_iff: "rb_wf r \<Longrightarrow> rb_full r \<longleftrightarrow> rb_size r = length (rb_data r) - 1"
proof -
  assume wf: "rb_wf r"
  let ?L = "length (rb_data r)"
  have L: "rb_size r < ?L" "rb_start r < ?L" using wf rb_size_bound by (auto simp: rb_wf_def)
  have "rb_full r \<longleftrightarrow> (rb_start r + Suc (rb_size r)) mod ?L = rb_start r"
    by (subst rb_full_def, subst rb_end_size [OF wf]) (simp add: mod_simps)
  also have "\<dots> \<longleftrightarrow> Suc (rb_size r) = ?L"
  proof (cases "Suc (rb_size r) = ?L")
    case True
    then show ?thesis using L by simp
  next
    case False
    with L have "Suc (rb_size r) < ?L" by simp
    with L mod_add_inj [of "rb_start r" 0 ?L "Suc (rb_size r)"] show ?thesis by auto
  qed
  finally show ?thesis using L by auto
qed

lemma rb_push_step:
  assumes wf: "rb_wf r" and room: "rb_size r < length (rb_data r) - 1"
  shows "\<exists>r'. rb_push r x = Inr (Inr r') \<and> rb_wf r' \<and> length (rb_data r') = length (rb_data r) \<and>
    rb_list r' = rb_list r @ [x]"
proof -
  let ?L = "length (rb_data r)"
  let ?r = "r\<lparr>rb_data := (rb_data r)[rb_end r := x], rb_end := (rb_end r + 1) mod ?L\<rparr>"
  have L: "rb_end r < ?L" "rb_start r < ?L" "0 < ?L" using wf by (auto simp: rb_wf_def)
  have wf': "rb_wf ?r" using L by (simp add: rb_wf_def)
  have "rb_end ?r = (rb_start ?r + Suc (rb_size r)) mod length (rb_data ?r)"
    by (subst rb_end_size [OF wf]) (simp add: rb_end_size [OF wf] mod_simps)
  then have size: "rb_size ?r = Suc (rb_size r)"
    using room by (intro rb_sizeI [OF wf']) simp_all
  have "rb_push r x = Inr (Inr ?r)"
    using wf room by (simp add: rb_push_def rb_full_iff store_res_def rb_wf_def)
  moreover have "rb_list ?r = rb_list r @ [x]"
    using ring_seq_push [of "rb_size r" "rb_data r" "rb_start r" x] room rb_end_size [OF wf] size
    by (simp add: rb_list_def)
  ultimately show ?thesis using wf' by auto
qed

lemma rb_pop_step:
  assumes wf: "rb_wf r" and c: "rb_list r = x # xs"
  shows "\<exists>r'. rb_pop r = Inr (Some x, r') \<and> rb_wf r' \<and> length (rb_data r') = length (rb_data r) \<and>
    rb_list r' = xs"
proof -
  let ?L = "length (rb_data r)"
  let ?r = "r\<lparr>rb_start := (rb_start r + 1) mod ?L\<rparr>"
  have L: "rb_end r < ?L" "rb_start r < ?L" "0 < ?L" using wf by (auto simp: rb_wf_def)
  obtain n where n: "rb_size r = Suc n" using c by (metis length_Suc_conv rb_list_length)
  have end': "rb_end r = (rb_start ?r + n) mod ?L" "n < ?L"
    using rb_end_size [OF wf] n rb_size_bound [OF wf] by (simp_all add: mod_simps)
  have wf': "rb_wf ?r" using L by (simp add: rb_wf_def)
  have size: "rb_size ?r = n"
    using end' by (intro rb_sizeI [OF wf']) simp_all
  have seq: "ring_seq (rb_data r) (rb_start r) (Suc n) = x # xs" using c n by (simp add: rb_list_def)
  then have "x = rb_data r ! rb_start r" "rb_list ?r = xs"
    using ring_seq_pop [OF L(2), of n] size by (auto simp: rb_list_def)
  moreover have "rb_pop r = Inr (Some (rb_data r ! rb_start r), ?r)"
    using rb_empty_iff [OF wf] c L by (simp add: rb_pop_def index_res_def)
  ultimately show ?thesis using wf' by auto
qed

interpretation rb: bounded_queue rb_push rb_pop rb_list rb_wf "\<lambda>r. length (rb_data r) - 1"
proof (unfold_locales, goal_cases)
  case (1 q)
  then show ?case using rb_size_bound [of q] by simp
next
  case (2 q x)
  then show ?case by (simp add: rb_push_def rb_full_iff)
next
  case (3 q x)
  then show ?case using rb_push_step [of q x] by (metis rb_list_length)
next
  case (4 q)
  then show ?case by (simp add: rb_pop_def rb_empty_iff)
next
  case (5 q x xs)
  then show ?case using rb_pop_step [of q x xs] by metis
qed

section \<open>The counted ring refines a bounded queue\<close>

lemma srb_new_wf: "0 < SIZE \<Longrightarrow> SIZE < 2 ^ 64 \<Longrightarrow> srb_wf (srb_new SIZE x)"
  and srb_new_list [simp]: "srb_list (srb_new SIZE x) = []"
  by (simp_all add: srb_wf_def srb_new_def srb_list_def)

lemma srb_list_length [simp]: "length (srb_list r) = srb_count r"
  by (simp add: srb_list_def)

lemma srb_push_step:
  assumes wf: "srb_wf r" and room: "srb_count r < length (srb_data r)"
  shows "\<exists>r'. push_safe r x = Inr (Inr r') \<and> srb_wf r' \<and> length (srb_data r') = length (srb_data r) \<and>
    srb_list r' = srb_list r @ [x]"
proof -
  let ?L = "length (srb_data r)"
  let ?r = "r\<lparr>srb_data := (srb_data r)[srb_end r := x], srb_end := (srb_end r + 1) mod ?L,
    srb_count := (srb_count r + 1) mod 2 ^ 64\<rparr>"
  have L: "srb_start r < ?L" "srb_end r = (srb_start r + srb_count r) mod ?L" "?L < 2 ^ 64"
    using wf by (auto simp: srb_wf_def)
  then have e: "srb_end r < ?L" by (metis length_0_conv length_greater_0_conv less_nat_zero_code mod_less_divisor)
  have cnt: "(srb_count r + 1) mod 2 ^ 64 = Suc (srb_count r)" using room L by simp
  have "push_safe r x = Inr (Inr ?r)"
    using room e by (simp add: push_safe_def store_res_def)
  moreover have "srb_wf ?r"
    using L room cnt by (simp add: srb_wf_def mod_simps)
  moreover have "srb_list ?r = srb_list r @ [x]"
    using ring_seq_push [OF room, of "srb_start r" x] L cnt by (simp add: srb_list_def)
  ultimately show ?thesis by auto
qed

lemma srb_pop_step:
  assumes wf: "srb_wf r" and c: "srb_list r = x # xs"
  shows "\<exists>r'. pop_safe r = Inr (Some x, r') \<and> srb_wf r' \<and> length (srb_data r') = length (srb_data r) \<and>
    srb_list r' = xs"
proof -
  let ?L = "length (srb_data r)"
  let ?r = "r\<lparr>srb_start := (srb_start r + 1) mod ?L, srb_count := srb_count r - 1\<rparr>"
  have L: "srb_start r < ?L" "srb_count r \<le> ?L" "srb_end r = (srb_start r + srb_count r) mod ?L" "?L < 2 ^ 64"
    using wf by (auto simp: srb_wf_def)
  obtain n where n: "srb_count r = Suc n" using c by (metis length_Suc_conv srb_list_length)
  have "pop_safe r = Inr (Some (srb_data r ! srb_start r), ?r)"
    using n L by (simp add: pop_safe_def index_res_def)
  moreover have "srb_wf ?r"
    using L n by (auto simp: srb_wf_def mod_simps intro!: mod_less_divisor)
  moreover have "x = srb_data r ! srb_start r \<and> srb_list ?r = xs"
    using c ring_seq_pop [OF L(1), of n] n by (simp add: srb_list_def)
  ultimately show ?thesis by auto
qed

interpretation srb: bounded_queue push_safe pop_safe srb_list srb_wf "\<lambda>r. length (srb_data r)"
proof (unfold_locales, goal_cases)
  case (1 q)
  then show ?case by (simp add: srb_wf_def)
next
  case (2 q x)
  then show ?case by (simp add: push_safe_def)
next
  case (3 q x)
  then show ?case using srb_push_step [of q x] by (metis srb_list_length)
next
  case (4 q)
  then have "srb_count q = 0" by (metis length_0_conv srb_list_length)
  then show ?case by (simp add: pop_safe_def)
next
  case (5 q x xs)
  then show ?case using srb_pop_step [of q x xs] by metis
qed

section \<open>Properties\<close>

text \<open>A new \<^verbatim>\<open>RingBuffer\<close> of a given size takes one item less than its size; they come
  out in the order they went in, then \<^verbatim>\<open>pop\<close> returns \<^verbatim>\<open>None\<close>; while they are all in, a further
  \<^verbatim>\<open>push\<close> returns the error and changes nothing.  No index is out of bounds on the way.\<close>

theorem ring_buffer_fifo:
  assumes "0 < SIZE" and "length xs \<le> SIZE - 1"
  shows "\<exists>q q'. push_all rb_push (rb_new SIZE dflt) xs = Inr (Inr q) \<and> rb_size q = length xs \<and>
    pop_many rb_pop q (length xs) = Inr (xs, q') \<and> rb_pop q' = Inr (None, q') \<and>
    (length xs = SIZE - 1 \<longrightarrow> rb_push q y = Inr (Inl ()))"
proof -
  have new: "rb_wf (rb_new SIZE dflt)" "rb_list (rb_new SIZE dflt) = []" "length (rb_data (rb_new SIZE dflt)) = SIZE"
    using rb_new_wf [OF assms(1)] assms(1) by (simp_all add: rb_list_def rb_size_def rb_new_def)
  obtain q where q: "push_all rb_push (rb_new SIZE dflt) xs = Inr (Inr q)" "rb_wf q"
    "length (rb_data q) - 1 = SIZE - 1" "rb_list q = xs"
    using rb.push_all_ok [OF new(1), of xs] new assms(2) by auto
  obtain q' where q': "pop_many rb_pop q (length xs) = Inr (xs, q')" "rb_wf q'" "rb_list q' = []"
    using rb.pop_many_ok [OF q(2), of xs "[]"] q(4) by auto
  have "rb_size q = length xs" using q(4) rb_list_length [of q] by simp
  with q q' rb.pop_empty [OF q'(2,3)] rb.push_full [OF q(2)] show ?thesis by auto
qed

theorem ring_buffer_fifo_witness:
  "\<exists>q q'. push_all rb_push (rb_new 4 0) [5, 6, 7 :: nat] = Inr (Inr q) \<and> rb_size q = 3 \<and>
    pop_many rb_pop q 3 = Inr ([5, 6, 7], q') \<and> rb_pop q' = Inr (None, q') \<and> rb_push q 8 = Inr (Inl ())"
  using ring_buffer_fifo [of 4 "[5, 6, 7 :: nat]" 0 8]
  by (simp add: numeral_3_eq_3 del: push_all.simps pop_many.simps)

text \<open>A new \<^verbatim>\<open>SafeRingBuffer\<close> of a given size, run sequentially, takes as many items as its
  size, hands them back in order, and refuses one more.\<close>

theorem safe_ring_buffer_fifo:
  assumes "0 < SIZE" and "SIZE < 2 ^ 64" and "length xs \<le> SIZE"
  shows "\<exists>q q'. push_all push_safe (srb_new SIZE dflt) xs = Inr (Inr q) \<and>
    pop_many pop_safe q (length xs) = Inr (xs, q') \<and> pop_safe q' = Inr (None, q') \<and>
    (length xs = SIZE \<longrightarrow> push_safe q y = Inr (Inl ()))"
proof -
  have new: "srb_wf (srb_new SIZE dflt)" "srb_list (srb_new SIZE dflt) = []" "length (srb_data (srb_new SIZE dflt)) = SIZE"
    using srb_new_wf [OF assms(1,2)] by (simp_all add: srb_list_def srb_new_def)
  obtain q where q: "push_all push_safe (srb_new SIZE dflt) xs = Inr (Inr q)" "srb_wf q"
    "length (srb_data q) = SIZE" "srb_list q = xs"
    using srb.push_all_ok [OF new(1), of xs] new assms(3) by auto
  obtain q' where q': "pop_many pop_safe q (length xs) = Inr (xs, q')" "srb_wf q'" "srb_list q' = []"
    using srb.pop_many_ok [OF q(2), of xs "[]"] q(4) by auto
  with q srb.pop_empty [OF q'(2,3)] srb.push_full [OF q(2)] show ?thesis by auto
qed

theorem safe_ring_buffer_fifo_witness:
  "\<exists>q q'. push_all push_safe (srb_new 3 0) [5, 6, 7 :: nat] = Inr (Inr q) \<and>
    pop_many pop_safe q 3 = Inr ([5, 6, 7], q') \<and> pop_safe q' = Inr (None, q') \<and> push_safe q 8 = Inr (Inl ())"
  using safe_ring_buffer_fifo [of 3 "[5, 6, 7 :: nat]" 0 8]
  by (simp add: numeral_3_eq_3 del: push_all.simps pop_many.simps)

end
