(* ===== verification/Spsc.thy ===== *)
theory Spsc
  imports Ring_Buffer
begin

text \<open>
  \<^verbatim>\<open>SafeRingBuffer\<close> is shared by two threads (a client and a server, or the root task and the
  kernel), and \<^verbatim>\<open>push_safe\<close> and \<^verbatim>\<open>pop_safe\<close> are not atomic: each loads the counter, touches the
  data array, moves its index and finally updates the counter.  This theory interleaves those
  statements of one producer and one consumer in any order, on a sequentially consistent
  memory, and shows that the queue still delivers every item once and in order.

  \<open>sp_sent\<close> and \<open>sp_recv\<close> are history variables: the items whose push and pop have completed.
\<close>

section \<open>Model\<close>

text \<open>Where a call stands: after its test of the counter, each statement is one step.\<close>

datatype 'a push_pc = PIdle | PWrite 'a | PAdvance 'a | PCount 'a

datatype 'a pop_pc = CIdle | CRead | CAdvance 'a | CCount 'a

record 'a spsc =
  sp_buf :: "'a safe_ring_buffer"
  sp_push :: "'a push_pc"
  sp_pop :: "'a pop_pc"
  sp_sent :: "'a list"
  sp_recv :: "'a list"

definition spsc_init :: "nat \<Rightarrow> 'a \<Rightarrow> 'a spsc" where
  "spsc_init SIZE dflt =
     \<lparr>sp_buf = srb_new SIZE dflt, sp_push = PIdle, sp_pop = CIdle, sp_sent = [], sp_recv = []\<rparr>"

inductive push_step :: "'a spsc \<Rightarrow> 'a spsc \<Rightarrow> bool" where
  push_test: "sp_push s = PIdle \<Longrightarrow> srb_count (sp_buf s) \<noteq> length (srb_data (sp_buf s)) \<Longrightarrow>
    push_step s (s\<lparr>sp_push := PWrite x\<rparr>)"
| push_write: "sp_push s = PWrite x \<Longrightarrow> store_res (srb_data (sp_buf s)) (srb_end (sp_buf s)) x = Inr d \<Longrightarrow>
    push_step s (s\<lparr>sp_buf := (sp_buf s)\<lparr>srb_data := d\<rparr>, sp_push := PAdvance x\<rparr>)"
| push_advance: "sp_push s = PAdvance x \<Longrightarrow>
    push_step s (s\<lparr>sp_buf := (sp_buf s)\<lparr>srb_end := (srb_end (sp_buf s) + 1) mod length (srb_data (sp_buf s))\<rparr>,
      sp_push := PCount x\<rparr>)"
| push_count: "sp_push s = PCount x \<Longrightarrow>
    push_step s (s\<lparr>sp_buf := (sp_buf s)\<lparr>srb_count := (srb_count (sp_buf s) + 1) mod 2 ^ 64\<rparr>,
      sp_push := PIdle, sp_sent := sp_sent s @ [x]\<rparr>)"

inductive pop_step :: "'a spsc \<Rightarrow> 'a spsc \<Rightarrow> bool" where
  pop_test: "sp_pop s = CIdle \<Longrightarrow> srb_count (sp_buf s) \<noteq> 0 \<Longrightarrow> pop_step s (s\<lparr>sp_pop := CRead\<rparr>)"
| pop_read: "sp_pop s = CRead \<Longrightarrow> index_res (srb_data (sp_buf s)) (srb_start (sp_buf s)) = Inr x \<Longrightarrow>
    pop_step s (s\<lparr>sp_pop := CAdvance x\<rparr>)"
| pop_advance: "sp_pop s = CAdvance x \<Longrightarrow>
    pop_step s (s\<lparr>sp_buf := (sp_buf s)\<lparr>srb_start := (srb_start (sp_buf s) + 1) mod length (srb_data (sp_buf s))\<rparr>,
      sp_pop := CCount x\<rparr>)"
| pop_count: "sp_pop s = CCount x \<Longrightarrow>
    pop_step s (s\<lparr>sp_buf := (sp_buf s)\<lparr>srb_count := (srb_count (sp_buf s) + (2 ^ 64 - 1)) mod 2 ^ 64\<rparr>,
      sp_pop := CIdle, sp_recv := sp_recv s @ [x]\<rparr>)"

inductive spsc_reach :: "nat \<Rightarrow> 'a \<Rightarrow> 'a spsc \<Rightarrow> bool" for SIZE :: nat and dflt :: 'a where
  spsc_start: "spsc_reach SIZE dflt (spsc_init SIZE dflt)"
| spsc_push: "spsc_reach SIZE dflt s \<Longrightarrow> push_step s t \<Longrightarrow> spsc_reach SIZE dflt t"
| spsc_pop: "spsc_reach SIZE dflt s \<Longrightarrow> pop_step s t \<Longrightarrow> spsc_reach SIZE dflt t"

section \<open>The invariant of every interleaving\<close>

text \<open>
  With \<open>T\<close> completed pushes and \<open>H\<close> completed pops, the counter is \<open>T - H\<close>, the live
  items sit at the positions \<open>H, \<dots>, T - 1\<close> modulo the size, and an operation in
  progress owns exactly one slot: a push the slot \<open>T\<close>, a pop the slot \<open>H\<close>.
\<close>

definition spsc_inv :: "nat \<Rightarrow> 'a spsc \<Rightarrow> bool" where
  "spsc_inv L s \<longleftrightarrow>
     (let b = sp_buf s; T = length (sp_sent s); H = length (sp_recv s) in
      length (srb_data b) = L \<and> 0 < L \<and> L < 2 ^ 64 \<and>
      H \<le> T \<and> T \<le> H + L \<and> srb_count b = T - H \<and> take H (sp_sent s) = sp_recv s \<and>
      (\<forall>i. H \<le> i \<and> i < T \<longrightarrow> srb_data b ! (i mod L) = sp_sent s ! i) \<and>
      srb_end b = (case sp_push s of PCount x \<Rightarrow> Suc T | _ \<Rightarrow> T) mod L \<and>
      srb_start b = (case sp_pop s of CCount x \<Rightarrow> Suc H | _ \<Rightarrow> H) mod L \<and>
      (sp_push s \<noteq> PIdle \<longrightarrow> T < H + L) \<and> (sp_pop s \<noteq> CIdle \<longrightarrow> H < T) \<and>
      (\<forall>x. sp_push s = PAdvance x \<or> sp_push s = PCount x \<longrightarrow> srb_data b ! (T mod L) = x) \<and>
      (\<forall>x. sp_pop s = CAdvance x \<or> sp_pop s = CCount x \<longrightarrow> x = sp_sent s ! H))"

lemma spsc_init_inv: "0 < SIZE \<Longrightarrow> SIZE < 2 ^ 64 \<Longrightarrow> spsc_inv SIZE (spsc_init SIZE dflt)"
  by (simp add: spsc_inv_def spsc_init_def srb_new_def)

text \<open>A slot in use is never the slot being written.\<close>

lemma slot_distinct:
  assumes "H \<le> i" and "i < T" and "T < H + L"
  shows "i mod L \<noteq> T mod (L :: nat)"
proof -
  from assms have "T - i < L" "i + (T - i) = T" "T - i \<noteq> 0" by linarith+
  then show ?thesis using mod_add_inj [of i 0 L "T - i"] by auto
qed

lemma push_step_inv:
  assumes "push_step s t" and "spsc_inv L s"
  shows "spsc_inv L t"
  using assms
proof (induction rule: push_step.induct)
  case (push_test s x)
  then show ?case by (auto simp: spsc_inv_def Let_def)
next
  case (push_write s x d)
  then show ?case
    by (auto simp: spsc_inv_def Let_def slot_distinct [THEN not_sym] split: pop_pc.splits)
next
  case (push_advance s x)
  then show ?case by (auto simp: spsc_inv_def Let_def mod_simps)
next
  case (push_count s x)
  then have "length (sp_sent s) - length (sp_recv s) + 1 < 2 ^ 64"
    by (auto simp: spsc_inv_def Let_def)
  with push_count show ?case
    by (auto simp: spsc_inv_def Let_def nth_append less_Suc_eq Suc_diff_le)
qed

lemma pop_step_inv:
  assumes "pop_step s t" and "spsc_inv L s"
  shows "spsc_inv L t"
  using assms
proof (induction rule: pop_step.induct)
  case (pop_test s)
  then show ?case by (auto simp: spsc_inv_def Let_def)
next
  case (pop_read s x)
  then show ?case by (auto simp: spsc_inv_def Let_def)
next
  case (pop_advance s x)
  then show ?case by (auto simp: spsc_inv_def Let_def mod_simps split: push_pc.splits)
next
  case (pop_count s x)
  then have "0 < srb_count (sp_buf s)" "srb_count (sp_buf s) < 2 ^ 64"
    by (auto simp: spsc_inv_def Let_def)
  then have "(srb_count (sp_buf s) + (2 ^ 64 - 1)) mod 2 ^ 64 = srb_count (sp_buf s) - 1"
    by (cases "srb_count (sp_buf s)") auto
  with pop_count show ?case
    by (auto simp: spsc_inv_def Let_def take_Suc_conv_app_nth)
qed

lemma spsc_reach_inv:
  assumes "spsc_reach SIZE dflt s" and "0 < SIZE" and "SIZE < 2 ^ 64"
  shows "spsc_inv SIZE s"
  using assms
proof (induction rule: spsc_reach.induct)
  case spsc_start
  then show ?case by (rule spsc_init_inv)
next
  case (spsc_push s t)
  then show ?case by (blast intro: push_step_inv)
next
  case (spsc_pop s t)
  then show ?case by (blast intro: pop_step_inv)
qed

section \<open>A call that is not interrupted is the atomic operation\<close>

lemma push_steps_atomic:
  assumes "sp_push s = PIdle" and "push_safe (sp_buf s) x = Inr (Inr b)"
  shows "push_step\<^sup>*\<^sup>* s (s\<lparr>sp_buf := b, sp_sent := sp_sent s @ [x]\<rparr>)"
proof -
  let ?b = "sp_buf s"
  let ?d = "(srb_data ?b)[srb_end ?b := x]" and ?e = "(srb_end ?b + 1) mod length (srb_data ?b)"
  have room: "srb_count ?b \<noteq> length (srb_data ?b)" "srb_end ?b < length (srb_data ?b)"
    and b: "b = ?b\<lparr>srb_data := ?d, srb_end := ?e, srb_count := (srb_count ?b + 1) mod 2 ^ 64\<rparr>"
    using assms(2) by (auto simp: push_safe_def split: if_splits)
  let ?s1 = "s\<lparr>sp_push := PWrite x\<rparr>"
  let ?s2 = "?s1\<lparr>sp_buf := ?b\<lparr>srb_data := ?d\<rparr>, sp_push := PAdvance x\<rparr>"
  let ?s3 = "?s2\<lparr>sp_buf := ?b\<lparr>srb_data := ?d, srb_end := ?e\<rparr>, sp_push := PCount x\<rparr>"
  have "push_step s ?s1" using assms(1) room by (intro push_step.push_test)
  moreover have "push_step ?s1 ?s2"
    using push_step.push_write [of ?s1 x ?d] room by (simp add: store_res_def)
  moreover have "push_step ?s2 ?s3"
    using push_step.push_advance [of ?s2 x] by simp
  moreover have "push_step ?s3 (s\<lparr>sp_buf := b, sp_sent := sp_sent s @ [x]\<rparr>)"
    using push_step.push_count [of ?s3 x] assms(1) b by (cases s) simp
  ultimately show ?thesis by (meson converse_rtranclp_into_rtranclp rtranclp.rtrancl_refl)
qed

lemma pop_steps_atomic:
  assumes "sp_pop s = CIdle" and "pop_safe (sp_buf s) = Inr (Some x, b)"
    and "srb_count (sp_buf s) \<le> 2 ^ 64 - 1"
  shows "pop_step\<^sup>*\<^sup>* s (s\<lparr>sp_buf := b, sp_recv := sp_recv s @ [x]\<rparr>)"
proof -
  let ?b = "sp_buf s"
  let ?e = "(srb_start ?b + 1) mod length (srb_data ?b)"
  have item: "srb_count ?b \<noteq> 0" "srb_start ?b < length (srb_data ?b)" "x = srb_data ?b ! srb_start ?b"
    and b: "b = ?b\<lparr>srb_start := ?e, srb_count := srb_count ?b - 1\<rparr>"
    using assms(2) by (auto simp: pop_safe_def split: if_splits)
  have cnt: "(srb_count ?b + (2 ^ 64 - 1)) mod 2 ^ 64 = srb_count ?b - 1"
    using item(1) assms(3) by (cases "srb_count ?b") auto
  let ?s1 = "s\<lparr>sp_pop := CRead\<rparr>"
  let ?s2 = "?s1\<lparr>sp_pop := CAdvance x\<rparr>"
  let ?s3 = "?s2\<lparr>sp_buf := ?b\<lparr>srb_start := ?e\<rparr>, sp_pop := CCount x\<rparr>"
  have "pop_step s ?s1" using assms(1) item by (intro pop_step.pop_test)
  moreover have "pop_step ?s1 ?s2"
    using pop_step.pop_read [of ?s1 x] item by (simp add: index_res_def)
  moreover have "pop_step ?s2 ?s3"
    using pop_step.pop_advance [of ?s2 x] by simp
  moreover have "pop_step ?s3 (s\<lparr>sp_buf := b, sp_recv := sp_recv s @ [x]\<rparr>)"
    using pop_step.pop_count [of ?s3 x] assms(1) b cnt by (cases s) simp
  ultimately show ?thesis by (meson converse_rtranclp_into_rtranclp rtranclp.rtrancl_refl)
qed

lemma spsc_reach_pushes: "push_step\<^sup>*\<^sup>* s t \<Longrightarrow> spsc_reach SIZE dflt s \<Longrightarrow> spsc_reach SIZE dflt t"
  by (induction rule: rtranclp_induct) (auto intro: spsc_reach.spsc_push)

text \<open>The live items of an interleaved state, read off the data array.\<close>

lemma spsc_contents:
  assumes "spsc_inv L s" and "sp_pop s = CIdle"
  shows "srb_list (sp_buf s) = drop (length (sp_recv s)) (sp_sent s)"
proof (rule nth_equalityI)
  show "length (srb_list (sp_buf s)) = length (drop (length (sp_recv s)) (sp_sent s))"
    using assms by (simp add: spsc_inv_def Let_def)
next
  fix i
  assume i: "i < length (srb_list (sp_buf s))"
  let ?H = "length (sp_recv s)"
  have "srb_data (sp_buf s) ! ((?H + i) mod L) = sp_sent s ! (?H + i)"
    using assms i by (simp add: spsc_inv_def Let_def)
  then show "srb_list (sp_buf s) ! i = drop ?H (sp_sent s) ! i"
    using assms i by (auto simp: spsc_inv_def Let_def srb_list_def ring_seq_def mod_simps)
qed

lemma spsc_one_push:
  "\<exists>s. spsc_reach 2 (0 :: nat) s \<and> sp_sent s = [7] \<and> sp_recv s = [] \<and> sp_push s = PIdle \<and> sp_pop s = CIdle"
proof -
  let ?s = "spsc_init 2 (0 :: nat)"
  obtain b where "push_safe (sp_buf ?s) 7 = Inr (Inr b)"
    using srb.push_ok [of "sp_buf ?s" 7] srb_new_wf [of 2 "0 :: nat"]
    by (auto simp: spsc_init_def srb_new_def srb_list_def)
  then have "push_step\<^sup>*\<^sup>* ?s (?s\<lparr>sp_buf := b, sp_sent := [7]\<rparr>)"
    using push_steps_atomic [of ?s 7 b] by (simp add: spsc_init_def)
  then show ?thesis
    using spsc_reach_pushes [OF _ spsc_reach.spsc_start]
    by (intro exI [of _ "?s\<lparr>sp_buf := b, sp_sent := [7]\<rparr>"]) (auto simp: spsc_init_def)
qed

section \<open>Runs\<close>

text \<open>A run is an interleaving, \<^const>\<open>True\<close> for a step of the producer.  How many of its own steps an operation in
  progress still has to make.\<close>

fun spsc_run :: "bool list \<Rightarrow> 'a spsc \<Rightarrow> 'a spsc \<Rightarrow> bool" where
  "spsc_run [] s t = (t = s)"
| "spsc_run (b # bs) s t = (\<exists>u. (if b then push_step s u else pop_step s u) \<and> spsc_run bs u t)"

fun push_left :: "'a push_pc \<Rightarrow> nat" where
  "push_left PIdle = 0" | "push_left (PWrite x) = 3" | "push_left (PAdvance x) = 2" | "push_left (PCount x) = 1"

fun pop_left :: "'a pop_pc \<Rightarrow> nat" where
  "pop_left CIdle = 0" | "pop_left CRead = 3" | "pop_left (CAdvance x) = 2" | "pop_left (CCount x) = 1"

fun push_items :: "'a push_pc \<Rightarrow> 'a list" where
  "push_items PIdle = []" | "push_items (PWrite x) = [x]" | "push_items (PAdvance x) = [x]" | "push_items (PCount x) = [x]"

lemma left_idle [simp]: "push_left p = 0 \<longleftrightarrow> p = PIdle" "pop_left c = 0 \<longleftrightarrow> c = CIdle"
  by (cases p; simp) (cases c; simp)

lemma push_step_own:
  assumes "push_step s u" and "sp_push s \<noteq> PIdle"
  shows "push_left (sp_push s) = Suc (push_left (sp_push u)) \<and> sp_sent u @ push_items (sp_push u) = sp_sent s @ push_items (sp_push s) \<and>
    (sp_push u \<noteq> PIdle \<longrightarrow> sp_sent u = sp_sent s)"
  using assms by (auto elim!: push_step.cases)

lemma pop_step_own:
  assumes "pop_step s u" and "sp_pop s \<noteq> CIdle"
  shows "pop_left (sp_pop s) = Suc (pop_left (sp_pop u)) \<and> length (sp_recv u) = length (sp_recv s) + (if sp_pop u = CIdle then 1 else 0) \<and>
    (sp_pop u \<noteq> CIdle \<longrightarrow> sp_recv u = sp_recv s)"
  using assms by (auto elim!: pop_step.cases)

text \<open>The other side leaves an operation in progress alone.\<close>

lemma push_step_other: "push_step s u \<Longrightarrow> sp_pop u = sp_pop s \<and> sp_recv u = sp_recv s \<and> (\<exists>xs. sp_sent u = sp_sent s @ xs)"
  by (auto elim!: push_step.cases)

lemma pop_step_other: "pop_step s u \<Longrightarrow> sp_push u = sp_push s \<and> sp_sent u = sp_sent s"
  by (auto elim!: pop_step.cases)

lemma push_run:
  assumes "spsc_run bs s t" and "length (filter id bs) \<le> push_left (sp_push s)"
  shows "push_left (sp_push s) = push_left (sp_push t) + length (filter id bs) \<and>
    sp_sent t @ push_items (sp_push t) = sp_sent s @ push_items (sp_push s) \<and> (sp_push t \<noteq> PIdle \<longrightarrow> sp_sent t = sp_sent s)"
  using assms
proof (induction bs arbitrary: s)
  case (Cons b bs)
  then obtain u where u: "if b then push_step s u else pop_step s u" "spsc_run bs u t" by auto
  show ?case
  proof (cases b)
    case True
    with Cons.prems(2) have "sp_push s \<noteq> PIdle" by auto
    with push_step_own [of s u] u True Cons.IH [OF u(2)] Cons.prems(2) show ?thesis by auto
  next
    case False
    with pop_step_other [of s u] u Cons.IH [OF u(2)] Cons.prems(2) show ?thesis by auto
  qed
qed simp

lemma pop_run:
  assumes "spsc_run bs s t" and "length (filter Not bs) \<le> pop_left (sp_pop s)"
  shows "pop_left (sp_pop s) = pop_left (sp_pop t) + length (filter Not bs) \<and>
    length (sp_recv t) = length (sp_recv s) + (if sp_pop t = CIdle \<and> sp_pop s \<noteq> CIdle then 1 else 0) \<and> (sp_pop t \<noteq> CIdle \<longrightarrow> sp_recv t = sp_recv s)"
  using assms
proof (induction bs arbitrary: s)
  case (Cons b bs)
  then obtain u where u: "if b then push_step s u else pop_step s u" "spsc_run bs u t" by auto
  show ?case
  proof (cases b)
    case True
    with push_step_other [of s u] u Cons.IH [OF u(2)] Cons.prems(2) show ?thesis by auto
  next
    case False
    with Cons.prems(2) have "sp_pop s \<noteq> CIdle" by auto
    with pop_step_own [of s u] u False Cons.IH [OF u(2)] Cons.prems(2) show ?thesis by (auto split: if_splits)
  qed
qed simp

lemma spsc_run_reach: "spsc_run bs s t \<Longrightarrow> spsc_reach SIZE dflt s \<Longrightarrow> spsc_reach SIZE dflt t"
  by (induction bs arbitrary: s) (auto split: if_splits intro: spsc_reach.intros)

lemma spsc_run_sent: "spsc_run bs s t \<Longrightarrow> \<exists>xs. sp_sent t = sp_sent s @ xs"
proof (induction bs arbitrary: s)
  case (Cons b bs)
  then obtain u where u: "if b then push_step s u else pop_step s u" "spsc_run bs u t" by auto
  then have "\<exists>xs. sp_sent u = sp_sent s @ xs" using push_step_other [of s u] pop_step_other [of s u] by (cases b) auto
  with Cons.IH [OF u(2)] show ?case by auto
qed simp

text \<open>A step of an operation in progress, and of one that has room or an item, is always possible.\<close>

lemma push_enabled:
  assumes inv: "spsc_inv L s" and "sp_push s \<noteq> PIdle \<or> length (sp_sent s) < length (sp_recv s) + L"
  shows "\<exists>t. push_step s t"
proof (cases "sp_push s")
  case PIdle
  with assms have "srb_count (sp_buf s) \<noteq> length (srb_data (sp_buf s))" by (auto simp: spsc_inv_def Let_def)
  with PIdle show ?thesis by (blast intro: push_step.intros)
next
  case (PWrite x)
  moreover have "srb_end (sp_buf s) < length (srb_data (sp_buf s))" using inv by (auto simp: spsc_inv_def Let_def split: push_pc.splits)
  ultimately show ?thesis using push_step.push_write [of s x] by (auto simp: store_res_def)
qed (blast intro: push_step.intros)+

lemma pop_enabled:
  assumes inv: "spsc_inv L s" and "sp_pop s \<noteq> CIdle \<or> length (sp_recv s) < length (sp_sent s)"
  shows "\<exists>t. pop_step s t"
proof (cases "sp_pop s")
  case CIdle
  with assms have "srb_count (sp_buf s) \<noteq> 0" by (auto simp: spsc_inv_def Let_def)
  with CIdle show ?thesis by (blast intro: pop_step.intros)
next
  case CRead
  moreover have "srb_start (sp_buf s) < length (srb_data (sp_buf s))" using inv by (auto simp: spsc_inv_def Let_def split: pop_pc.splits)
  ultimately show ?thesis using pop_step.pop_read [of s] by (auto simp: index_res_def)
qed (blast intro: pop_step.intros)+

lemma spsc_received:
  assumes inv: "spsc_inv L s" "spsc_inv L t" and "sp_sent t = sp_sent s @ xs" and "length (sp_recv t) = Suc (length (sp_recv s))"
    and "sp_pop s \<noteq> CIdle"
  shows "sp_recv t = sp_recv s @ [sp_sent s ! length (sp_recv s)]"
proof -
  have s: "take (length (sp_recv s)) (sp_sent s) = sp_recv s" "length (sp_recv s) < length (sp_sent s)"
    using inv(1) assms(5) by (auto simp: spsc_inv_def Let_def)
  have "sp_recv t = take (Suc (length (sp_recv s))) (sp_sent s @ xs)"
    using inv(2) assms(3,4) by (simp add: spsc_inv_def Let_def)
  with s show ?thesis by (simp add: take_Suc_conv_app_nth)
qed

section \<open>Properties\<close>

text \<open>C4. In every interleaving of one producer and one consumer of a \<^verbatim>\<open>SafeRingBuffer\<close>, the items
  popped so far are exactly the first items pushed, in order and without loss or duplication;
  never more than \<open>SIZE\<close> items are in flight; and whenever no pop is in progress the buffer
  holds exactly the items pushed and not yet popped.\<close>

theorem spsc_fifo:
  assumes "spsc_reach SIZE dflt s" and "0 < SIZE" and "SIZE < 2 ^ 64"
  shows "sp_recv s = take (length (sp_recv s)) (sp_sent s)
    \<and> length (sp_sent s) \<le> length (sp_recv s) + SIZE
    \<and> (sp_pop s = CIdle \<longrightarrow> srb_list (sp_buf s) = drop (length (sp_recv s)) (sp_sent s))"
proof -
  from assms have inv: "spsc_inv SIZE s" by (rule spsc_reach_inv)
  then have "take (length (sp_recv s)) (sp_sent s) = sp_recv s"
    and "length (sp_sent s) \<le> length (sp_recv s) + SIZE"
    by (simp_all add: spsc_inv_def Let_def)
  with spsc_contents [OF inv] show ?thesis by simp
qed

theorem spsc_fifo_witness:
  "\<exists>s. spsc_reach 2 (0 :: nat) s \<and> sp_sent s = [7] \<and> sp_pop s = CIdle
    \<and> sp_recv s = take (length (sp_recv s)) [7]
    \<and> srb_list (sp_buf s) = drop (length (sp_recv s)) [7]"
proof -
  obtain s where s: "spsc_reach 2 (0 :: nat) s" "sp_sent s = [7]" "sp_pop s = CIdle"
    using spsc_one_push by blast
  have "sp_recv s = take (length (sp_recv s)) (sp_sent s)"
    and "srb_list (sp_buf s) = drop (length (sp_recv s)) (sp_sent s)"
    using spsc_fifo [OF s(1)] s(3) by auto
  with s show ?thesis by auto
qed

text \<open>C23. Both operations are wait-free.  Take any interleaving that starts in a reachable state.  As long as the producer
  has made fewer steps in it than its push has left (at most three), the push is in progress and its next step is
  possible; as soon as it has made them all, the push is done and its item is the next one sent, however many steps the
  consumer made in between.  The same holds for a pop, whose item is the oldest one not yet received.  And a new push
  (pop) can be started by an idle side whenever fewer than \<open>SIZE\<close> items (any item) are in flight.\<close>

theorem spsc_progress:
  assumes "spsc_reach SIZE dflt s" and "0 < SIZE" and "SIZE < 2 ^ 64" and "spsc_run bs s t"
  defines "m \<equiv> length (filter id bs)" and "n \<equiv> length (filter Not bs)"
  shows "push_left (sp_push s) \<le> 3 \<and> pop_left (sp_pop s) \<le> 3 \<and>
    (m < push_left (sp_push s) \<longrightarrow> sp_push t \<noteq> PIdle \<and> sp_sent t = sp_sent s \<and> (\<exists>u. push_step t u)) \<and>
    (m = push_left (sp_push s) \<longrightarrow> sp_push t = PIdle \<and> sp_sent t = sp_sent s @ push_items (sp_push s)) \<and>
    (n < pop_left (sp_pop s) \<longrightarrow> sp_pop t \<noteq> CIdle \<and> sp_recv t = sp_recv s \<and> (\<exists>u. pop_step t u)) \<and>
    (n = pop_left (sp_pop s) \<longrightarrow> sp_pop t = CIdle \<and>
       sp_recv t = sp_recv s @ (if sp_pop s = CIdle then [] else [sp_sent s ! length (sp_recv s)])) \<and>
    (sp_push t = PIdle \<and> length (sp_sent t) < length (sp_recv t) + SIZE \<longrightarrow> (\<exists>u. push_step t u)) \<and>
    (sp_pop t = CIdle \<and> length (sp_recv t) < length (sp_sent t) \<longrightarrow> (\<exists>u. pop_step t u))"
proof -
  have inv: "spsc_inv SIZE s" "spsc_inv SIZE t"
    using spsc_reach_inv [OF assms(1-3)] spsc_reach_inv [OF spsc_run_reach [OF assms(4,1)] assms(2,3)] by auto
  note push = push_run [OF assms(4), folded m_def] and pop = pop_run [OF assms(4), folded n_def]
  have "push_left (sp_push s) \<le> 3" "pop_left (sp_pop s) \<le> 3" by (cases "sp_push s"; simp) (cases "sp_pop s"; simp)
  moreover have "m < push_left (sp_push s) \<longrightarrow> sp_push t \<noteq> PIdle \<and> sp_sent t = sp_sent s \<and> (\<exists>u. push_step t u)"
  proof
    assume m: "m < push_left (sp_push s)"
    then have "sp_push t \<noteq> PIdle" using push left_idle(1) [of "sp_push t"] by linarith
    with push m push_enabled [OF inv(2)] show "sp_push t \<noteq> PIdle \<and> sp_sent t = sp_sent s \<and> (\<exists>u. push_step t u)" by auto
  qed
  moreover have "m = push_left (sp_push s) \<longrightarrow> sp_push t = PIdle \<and> sp_sent t = sp_sent s @ push_items (sp_push s)"
    using push left_idle(1) [of "sp_push t"] by auto
  moreover have "n < pop_left (sp_pop s) \<longrightarrow> sp_pop t \<noteq> CIdle \<and> sp_recv t = sp_recv s \<and> (\<exists>u. pop_step t u)"
  proof
    assume n: "n < pop_left (sp_pop s)"
    then have "sp_pop t \<noteq> CIdle" using pop left_idle(2) [of "sp_pop t"] by linarith
    with pop n pop_enabled [OF inv(2)] show "sp_pop t \<noteq> CIdle \<and> sp_recv t = sp_recv s \<and> (\<exists>u. pop_step t u)" by auto
  qed
  moreover have "n = pop_left (sp_pop s) \<longrightarrow> sp_pop t = CIdle \<and>
       sp_recv t = sp_recv s @ (if sp_pop s = CIdle then [] else [sp_sent s ! length (sp_recv s)])"
  proof
    assume "n = pop_left (sp_pop s)"
    with pop have t: "sp_pop t = CIdle" "length (sp_recv t) = length (sp_recv s) + (if sp_pop s = CIdle then 0 else 1)" by auto
    obtain xs where xs: "sp_sent t = sp_sent s @ xs" using spsc_run_sent [OF assms(4)] by blast
    have "sp_recv t = sp_recv s" if "sp_pop s = CIdle"
      using inv t(2) that xs by (auto simp: spsc_inv_def Let_def)
    with spsc_received [OF inv xs] t show "sp_pop t = CIdle \<and>
       sp_recv t = sp_recv s @ (if sp_pop s = CIdle then [] else [sp_sent s ! length (sp_recv s)])" by auto
  qed
  ultimately show ?thesis using push_enabled [OF inv(2)] pop_enabled [OF inv(2)] by auto
qed

text \<open>A pop that has passed its test, while the producer starts a push in between.\<close>

theorem spsc_progress_witness:
  "\<exists>s t. spsc_reach 2 (0 :: nat) s \<and> sp_pop s = CRead \<and> sp_recv s = [] \<and> spsc_run [False, True, False] s t \<and> sp_pop t \<noteq> CIdle \<and>
     (\<exists>u. pop_step t u \<and> sp_pop u = CIdle \<and> sp_recv u = [7])"
proof -
  obtain s0 where s0: "spsc_reach 2 (0 :: nat) s0" "sp_sent s0 = [7]" "sp_recv s0 = []" "sp_push s0 = PIdle" "sp_pop s0 = CIdle"
    using spsc_one_push by blast
  have "spsc_inv 2 s0" using s0(1) by (rule spsc_reach_inv) auto
  then have "srb_count (sp_buf s0) \<noteq> 0" using s0 by (simp add: spsc_inv_def Let_def)
  let ?s = "s0\<lparr>sp_pop := CRead\<rparr>"
  have r: "spsc_reach 2 0 ?s" using s0 \<open>srb_count (sp_buf s0) \<noteq> 0\<close> by (intro spsc_reach.spsc_pop [OF s0(1)] pop_step.pop_test)
  note prog = spsc_progress [OF r, simplified]
  obtain t1 where t1: "pop_step ?s t1" using prog [of "[]" ?s] by auto
  then have "sp_push t1 = PIdle" "sp_sent t1 = [7]" "sp_recv t1 = []"
    using pop_step_other [OF t1] pop_step_own [OF t1] s0 prog [of "[False]" t1] by auto
  then obtain t2 where t2: "push_step t1 t2" using prog [of "[False]" t1] t1 by auto
  then obtain t where t: "pop_step t2 t" using prog [of "[False, True]" t2] t1 by auto
  have run: "spsc_run [False, True, False] ?s t" using t1 t2 t by auto
  then obtain u where u: "pop_step t u" and t': "sp_pop t \<noteq> CIdle" using prog [of "[False, True, False]" t] by auto
  have "spsc_run [False, True, False, False] ?s u" using t1 t2 t u by auto
  then have "sp_pop u = CIdle" "sp_recv u = [7]" using prog [of "[False, True, False, False]" u] s0 by auto
  with r run u t' s0 show ?thesis by (intro exI [of _ ?s] exI [of _ t]) auto
qed

end
