(* ===== verification/Ipc_Item.thy ===== *)
theory Ipc_Item
  imports Ring_Buffer
begin

text \<open>
  The messages of the asynchronous interfaces: the label encodings of
  \<^verbatim>\<open>async_runtime/src/message_info.rs\<close>, and the items, item queues and shared buffers of
  \<^verbatim>\<open>async_runtime/src/new_buffer.rs\<close>.
\<close>

section \<open>Labels\<close>

datatype async_message_label =
    UntypedRetype | PutChar | RISCVPageTableMap | RISCVPageTableUnmap | RISCVPageMap
  | RISCVPageUnmap | RISCVPageGetAddress | CNodeRevoke | CNodeDelete | CNodeCancelBadgedSends
  | CNodeCopy | CNodeMint | CNodeMove | CNodeMutate | CNodeRotate | TCBBindNotification
  | TCBUnbindNotification | PutString | UnknownLabel

fun label_to_u32 :: "async_message_label \<Rightarrow> u32" where
  "label_to_u32 UntypedRetype = 0"
| "label_to_u32 PutChar = 1"
| "label_to_u32 RISCVPageTableMap = 2"
| "label_to_u32 RISCVPageTableUnmap = 3"
| "label_to_u32 RISCVPageMap = 4"
| "label_to_u32 RISCVPageUnmap = 5"
| "label_to_u32 RISCVPageGetAddress = 6"
| "label_to_u32 CNodeRevoke = 7"
| "label_to_u32 CNodeDelete = 8"
| "label_to_u32 CNodeCancelBadgedSends = 9"
| "label_to_u32 CNodeCopy = 10"
| "label_to_u32 CNodeMint = 11"
| "label_to_u32 CNodeMove = 12"
| "label_to_u32 CNodeMutate = 13"
| "label_to_u32 CNodeRotate = 14"
| "label_to_u32 TCBBindNotification = 15"
| "label_to_u32 TCBUnbindNotification = 16"
| "label_to_u32 PutString = 17"
| "label_to_u32 UnknownLabel = 18"

definition label_from_u32 :: "u32 \<Rightarrow> async_message_label" where
  "label_from_u32 v =
     (if v = 0 then UntypedRetype
      else if v = 1 then PutChar
      else if v = 2 then RISCVPageTableMap
      else if v = 3 then RISCVPageTableUnmap
      else if v = 4 then RISCVPageMap
      else if v = 5 then RISCVPageTableUnmap
      else if v = 6 then RISCVPageGetAddress
      else if v = 7 then CNodeRevoke
      else if v = 8 then CNodeDelete
      else if v = 9 then CNodeCancelBadgedSends
      else if v = 10 then CNodeCopy
      else if v = 11 then CNodeMint
      else if v = 12 then CNodeMove
      else if v = 13 then CNodeMutate
      else if v = 14 then CNodeRotate
      else if v = 15 then TCBBindNotification
      else if v = 16 then TCBUnbindNotification
      else if v = 17 then PutString
      else UnknownLabel)"

datatype async_error_label = NoError | SyscallError

fun error_to_u16 :: "async_error_label \<Rightarrow> u16" where
  "error_to_u16 NoError = 0"
| "error_to_u16 SyscallError = 1"

definition error_from_u16 :: "u16 \<Rightarrow> async_error_label" where
  "error_from_u16 v = (if v = 0 then NoError else SyscallError)"

section \<open>Items, queues and buffers\<close>

type_synonym coroutine_id = u32

definition MAX_ITEM_NUM :: nat where "MAX_ITEM_NUM = 4096"
definition MAX_IPC_MSG_LEN :: nat where "MAX_IPC_MSG_LEN = 16"

record ipc_item =
  item_cid :: coroutine_id
  item_msg_info :: u32
  item_extend_msg :: "u16 list"

definition item_default :: ipc_item where
  "item_default = \<lparr>item_cid = 0, item_msg_info = 0, item_extend_msg = replicate MAX_IPC_MSG_LEN 0\<rparr>"

definition item_new :: ipc_item where
  "item_new = \<lparr>item_cid = 0, item_msg_info = 0, item_extend_msg = replicate MAX_IPC_MSG_LEN 0\<rparr>"

definition item_from :: "coroutine_id \<Rightarrow> u32 \<Rightarrow> ipc_item" where
  "item_from cid msg =
     \<lparr>item_cid = cid, item_msg_info = msg, item_extend_msg = replicate MAX_IPC_MSG_LEN 0\<rparr>"

type_synonym items_queue = "ipc_item safe_ring_buffer"

definition items_queue_new :: items_queue where
  "items_queue_new = srb_new MAX_ITEM_NUM item_default"

definition write_free_item :: "items_queue \<Rightarrow> ipc_item \<Rightarrow> (unit + items_queue) res" where
  "write_free_item q item = push_safe q item"

definition get_first_item :: "items_queue \<Rightarrow> (ipc_item option \<times> items_queue) res" where
  "get_first_item q = pop_safe q"

record new_buffer =
  nb_recv_req_status :: bool
  nb_recv_reply_status :: bool
  nb_req_items :: items_queue
  nb_res_items :: items_queue

definition new_buffer_new :: new_buffer where
  "new_buffer_new =
     \<lparr>nb_recv_req_status = False, nb_recv_reply_status = False,
      nb_req_items = items_queue_new, nb_res_items = items_queue_new\<rparr>"

text \<open>The queues of a buffer are well formed and have the capacity the type gives them.\<close>

definition iq_wf :: "items_queue \<Rightarrow> bool" where
  "iq_wf q \<longleftrightarrow> srb_wf q \<and> length (srb_data q) = MAX_ITEM_NUM"

definition nb_wf :: "new_buffer \<Rightarrow> bool" where
  "nb_wf b \<longleftrightarrow> iq_wf (nb_req_items b) \<and> iq_wf (nb_res_items b)"

lemma items_queue_new_wf: "iq_wf items_queue_new" and items_queue_new_list: "srb_list items_queue_new = []"
  by (simp_all add: iq_wf_def items_queue_new_def MAX_ITEM_NUM_def srb_new_wf) (simp add: srb_new_def)

lemma new_buffer_new_wf: "nb_wf new_buffer_new"
  by (simp add: nb_wf_def new_buffer_new_def items_queue_new_wf)

text \<open>An items queue is a bounded FIFO of 4096 items.\<close>

interpretation iq: bounded_queue write_free_item get_first_item srb_list iq_wf "\<lambda>_. MAX_ITEM_NUM"
proof (unfold_locales, goal_cases)
  case (1 q)
  then show ?case by (simp add: iq_wf_def srb_wf_def)
next
  case (2 q x)
  then show ?case by (simp add: iq_wf_def write_free_item_def push_safe_def)
next
  case (3 q x)
  then show ?case using srb.push_ok [of q x] by (auto simp: iq_wf_def write_free_item_def)
next
  case (4 q)
  then show ?case using srb.pop_empty [of q] by (simp add: iq_wf_def get_first_item_def)
next
  case (5 q x xs)
  then show ?case using srb.pop_ok [of q x xs] by (auto simp: iq_wf_def get_first_item_def)
qed

section \<open>Properties of the labels\<close>

text \<open>C24. Encoding a message label as \<^verbatim>\<open>u32\<close> and decoding it again is the identity for every
  label except \<^verbatim>\<open>RISCVPageUnmap\<close>: the decoder maps its code 5 to \<^verbatim>\<open>RISCVPageTableUnmap\<close>.\<close>

theorem label_roundtrip:
  "(label_from_u32 (label_to_u32 l) = l \<longleftrightarrow> l \<noteq> RISCVPageUnmap)
   \<and> label_from_u32 (label_to_u32 RISCVPageUnmap) = RISCVPageTableUnmap"
  by (cases l) (simp_all add: label_from_u32_def)

text \<open>The encoding of message labels is injective, codes beyond the known ones decode to
  \<^verbatim>\<open>UnknownLabel\<close>, and the error labels round-trip.\<close>

theorem label_encoding_injective:
  "(label_to_u32 l = label_to_u32 l' \<longleftrightarrow> l = l')
   \<and> (label_from_u32 v = UnknownLabel \<longleftrightarrow> 17 < v)
   \<and> error_from_u16 (error_to_u16 e) = e"
proof -
  have "label_to_u32 l = label_to_u32 l' \<longleftrightarrow> l = l'"
    by (cases l; cases l'; simp)
  moreover have "v \<in> {0, 1, 2, 3, 4, 5, 6, 7, 8, 9, 10, 11, 12, 13, 14, 15, 16, 17}" if "v \<le> 17"
  proof -
    have "unat v \<le> 17" using that by (simp add: word_le_nat_alt)
    then have "unat v \<in> set [0..<18]" by simp
    then have "unat v \<in> {0, 1, 2, 3, 4, 5, 6, 7, 8, 9, 10, 11, 12, 13, 14, 15, 16, 17}"
      by (simp add: upt_rec eval_nat_numeral)
    then show ?thesis by (simp add: word_unat_eq_iff)
  qed
  then have "label_from_u32 v = UnknownLabel \<longleftrightarrow> 17 < v"
    by (fastforce simp: label_from_u32_def not_le [symmetric])
  moreover have "error_from_u16 (error_to_u16 e) = e"
    by (cases e) (simp_all add: error_from_u16_def)
  ultimately show ?thesis by blast
qed

end
