(* ===== verification/Notify.thy ===== *)
theory Notify
  imports Ipc_Item
begin

text \<open>
  The notification protocol between a client and a server that share a request queue and the
  flag \<^verbatim>\<open>recv_req_status\<close>, at the granularity of its memory operations and for every
  interleaving.

  The client is \<^verbatim>\<open>seL4_Call_with_item\<close> (\<^verbatim>\<open>src/async_lib.rs\<close>): it writes the item, reads the flag,
  and when the flag is clear sets it and sends a user interrupt; then it waits for the reply.
  The server is the request loop of \<^verbatim>\<open>nw_recv_req_coroutine\<close> (\<^verbatim>\<open>src/net/mod.rs\<close>): it takes items until
  there is none, clears the flag and yields; the interrupt wakes it.  The queue is the list
  that theory \<open>Spsc\<close> shows it to be.  The client goes on when the server has taken its item.
\<close>

section \<open>Model\<close>

datatype 'a client_pc = NIdle | NPushed 'a | NStore 'a | NSignal 'a | NWait 'a
datatype server_pc = SLoop | SEmpty | SCleared | SAsleep

record 'a notify =
  n_queue :: "'a list"
  n_flag :: bool
  n_pending :: bool
  n_client :: "'a client_pc"
  n_server :: server_pc
  n_sent :: "'a list"
  n_taken :: "'a list"

definition notify_init :: "'a notify" where
  "notify_init = \<lparr>n_queue = [], n_flag = False, n_pending = False, n_client = NIdle, n_server = SLoop,
     n_sent = [], n_taken = []\<rparr>"

inductive client_step :: "'a notify \<Rightarrow> 'a notify \<Rightarrow> bool" where
  c_push: "n_client s = NIdle \<Longrightarrow>
    client_step s (s\<lparr>n_queue := n_queue s @ [x], n_sent := n_sent s @ [x], n_client := NPushed x\<rparr>)"
| c_load_false: "n_client s = NPushed x \<Longrightarrow> \<not> n_flag s \<Longrightarrow> client_step s (s\<lparr>n_client := NStore x\<rparr>)"
| c_load_true: "n_client s = NPushed x \<Longrightarrow> n_flag s \<Longrightarrow> client_step s (s\<lparr>n_client := NWait x\<rparr>)"
| c_store: "n_client s = NStore x \<Longrightarrow> client_step s (s\<lparr>n_flag := True, n_client := NSignal x\<rparr>)"
| c_signal: "n_client s = NSignal x \<Longrightarrow> client_step s (s\<lparr>n_pending := True, n_client := NWait x\<rparr>)"
| c_reply: "n_client s = NWait x \<Longrightarrow> n_taken s = n_sent s \<Longrightarrow> client_step s (s\<lparr>n_client := NIdle\<rparr>)"

inductive server_step :: "'a notify \<Rightarrow> 'a notify \<Rightarrow> bool" where
  s_take: "n_server s = SLoop \<Longrightarrow> n_queue s = x # xs \<Longrightarrow>
    server_step s (s\<lparr>n_queue := xs, n_taken := n_taken s @ [x]\<rparr>)"
| s_none: "n_server s = SLoop \<Longrightarrow> n_queue s = [] \<Longrightarrow> server_step s (s\<lparr>n_server := SEmpty\<rparr>)"
| s_clear: "n_server s = SEmpty \<Longrightarrow> server_step s (s\<lparr>n_flag := False, n_server := SCleared\<rparr>)"
| s_yield: "n_server s = SCleared \<Longrightarrow> server_step s (s\<lparr>n_server := SAsleep\<rparr>)"
| s_wake: "n_server s = SAsleep \<Longrightarrow> n_pending s \<Longrightarrow> server_step s (s\<lparr>n_pending := False, n_server := SLoop\<rparr>)"

inductive notify_reach :: "'a notify \<Rightarrow> bool" where
  reach_init: "notify_reach notify_init"
| reach_client: "notify_reach s \<Longrightarrow> client_step s s' \<Longrightarrow> notify_reach s'"
| reach_server: "notify_reach s \<Longrightarrow> server_step s s' \<Longrightarrow> notify_reach s'"

inductive_cases client_stepE: "client_step s s'"
inductive_cases server_stepE: "server_step s s'"

definition notify_stuck :: "'a notify \<Rightarrow> bool" where
  "notify_stuck s \<longleftrightarrow> (\<nexists>s'. client_step s s' \<or> server_step s s')"

section \<open>Invariant\<close>

definition notify_inv :: "'a notify \<Rightarrow> bool" where
  "notify_inv s \<longleftrightarrow> n_taken s @ n_queue s = n_sent s \<and>
     (\<not> n_pending s \<and> n_server s \<in> {SCleared, SAsleep} \<and> (\<forall>x. n_client s \<noteq> NSignal x) \<longrightarrow> \<not> n_flag s) \<and>
     (n_client s = NIdle \<longrightarrow> n_queue s = [])"

lemma notify_inv_client: "client_step s s' \<Longrightarrow> notify_inv s \<Longrightarrow> notify_inv s'"
  by (erule client_stepE) (auto simp: notify_inv_def)

lemma notify_inv_server: "server_step s s' \<Longrightarrow> notify_inv s \<Longrightarrow> notify_inv s'"
  by (erule server_stepE) (auto simp: notify_inv_def)

lemma notify_reach_inv: "notify_reach s \<Longrightarrow> notify_inv s"
  by (induction rule: notify_reach.induct)
    (auto simp: notify_inv_client notify_inv_server, simp add: notify_inv_def notify_init_def)

lemma stuck_iff:
  "notify_stuck s \<longleftrightarrow> (\<exists>x. n_client s = NWait x) \<and> n_taken s \<noteq> n_sent s \<and> n_server s = SAsleep \<and> \<not> n_pending s"
proof -
  have "(\<nexists>s'. client_step s s') \<longleftrightarrow> (\<exists>x. n_client s = NWait x) \<and> n_taken s \<noteq> n_sent s"
    by (cases "n_client s"; cases "n_flag s") (auto elim!: client_stepE intro: client_step.intros)
  moreover have "(\<nexists>s'. server_step s s') \<longleftrightarrow> n_server s = SAsleep \<and> \<not> n_pending s"
    by (cases "n_server s"; cases "n_queue s") (auto elim!: server_stepE intro: server_step.intros)
  ultimately show ?thesis by (auto simp: notify_stuck_def)
qed

section \<open>Properties\<close>

text \<open>A schedule: the first call goes through; the server finds the queue empty; the second call
  reads the flag, still set, before the server clears it.\<close>

lemma notify_race:
  "notify_reach \<lparr>n_queue = [b], n_flag = False, n_pending = False, n_client = NWait b, n_server = SAsleep,
     n_sent = [a, b], n_taken = [a]\<rparr>"
proof -
  let ?s = "\<lambda>q f p c v st tk. \<lparr>n_queue = q, n_flag = f, n_pending = p, n_client = c, n_server = v, n_sent = st, n_taken = tk\<rparr>"
  note cl = reach_client and sv = reach_server
  have 0: "notify_reach (?s [] False False NIdle SLoop [] [])" using reach_init by (simp add: notify_init_def)
  have 1: "notify_reach (?s [] False False NIdle SEmpty [] [])" using sv [OF 0 s_none] by simp
  have 2: "notify_reach (?s [] False False NIdle SCleared [] [])" using sv [OF 1 s_clear] by simp
  have 3: "notify_reach (?s [] False False NIdle SAsleep [] [])" using sv [OF 2 s_yield] by simp
  have 4: "notify_reach (?s [a] False False (NPushed a) SAsleep [a] [])" using cl [OF 3 c_push [of _ a]] by simp
  have 5: "notify_reach (?s [a] False False (NStore a) SAsleep [a] [])" using cl [OF 4 c_load_false [of _ a]] by simp
  have 6: "notify_reach (?s [a] True False (NSignal a) SAsleep [a] [])" using cl [OF 5 c_store [of _ a]] by simp
  have 7: "notify_reach (?s [a] True True (NWait a) SAsleep [a] [])" using cl [OF 6 c_signal [of _ a]] by simp
  have 8: "notify_reach (?s [a] True False (NWait a) SLoop [a] [])" using sv [OF 7 s_wake] by simp
  have 9: "notify_reach (?s [] True False (NWait a) SLoop [a] [a])" using sv [OF 8 s_take [of _ a "[]"]] by simp
  have 10: "notify_reach (?s [] True False NIdle SLoop [a] [a])" using cl [OF 9 c_reply [of _ a]] by simp
  have 11: "notify_reach (?s [] True False NIdle SEmpty [a] [a])" using sv [OF 10 s_none] by simp
  have 12: "notify_reach (?s [b] True False (NPushed b) SEmpty [a, b] [a])" using cl [OF 11 c_push [of _ b]] by simp
  have 13: "notify_reach (?s [b] True False (NWait b) SEmpty [a, b] [a])" using cl [OF 12 c_load_true [of _ b]] by simp
  have 14: "notify_reach (?s [b] False False (NWait b) SCleared [a, b] [a])" using sv [OF 13 s_clear] by simp
  show ?thesis using sv [OF 14 s_yield] by simp
qed

text \<open>In every interleaving the items the server takes are the first ones the client sent,
  in order, and while the server sleeps, or is about to, with no interrupt pending or about
  to be sent, the flag is clear, so that the next request does send an interrupt.\<close>

theorem notify_next_request_signals:
  assumes "notify_reach s"
  shows "n_taken s @ n_queue s = n_sent s \<and>
    (n_server s = SAsleep \<and> \<not> n_pending s \<and> (\<forall>x. n_client s \<noteq> NSignal x) \<longrightarrow> \<not> n_flag s)"
  using notify_reach_inv [OF assms] by (auto simp: notify_inv_def)

theorem notify_next_request_signals_witness:
  "\<exists>s :: nat notify. notify_reach s \<and> n_server s = SAsleep \<and> n_taken s = [1] \<and> n_queue s = [2] \<and> n_sent s = [1, 2] \<and> \<not> n_flag s"
proof -
  let ?s = "\<lparr>n_queue = [2], n_flag = False, n_pending = False, n_client = NWait 2, n_server = SAsleep,
     n_sent = [1, 2], n_taken = [1]\<rparr> :: nat notify"
  show ?thesis
    using notify_next_request_signals [OF notify_race [of "2 :: nat" 1]] notify_race [of "2 :: nat" 1]
    by (intro exI [of _ ?s]) simp
qed

text \<open>C25. The protocol can lose a notification: there is an interleaving after which the client
  waits for the reply to a request that is in the queue, the server sleeps with no
  interrupt pending, and neither can take a step.\<close>

theorem notify_lost_wakeup:
  "\<exists>s :: nat notify. notify_reach s \<and> n_queue s \<noteq> [] \<and> n_server s = SAsleep \<and> \<not> n_pending s \<and> notify_stuck s"
proof -
  let ?s = "\<lparr>n_queue = [2], n_flag = False, n_pending = False, n_client = NWait 2, n_server = SAsleep,
     n_sent = [1, 2], n_taken = [1]\<rparr> :: nat notify"
  have "notify_stuck ?s" by (simp add: stuck_iff)
  with notify_race [of "2 :: nat" 1] show ?thesis by (intro exI [of _ ?s]) simp
qed

end
