(* ===== verification/Image_Utils.thy ===== *)
theory Image_Utils
  imports Prelude
begin

text \<open>
  \<^verbatim>\<open>src/image_utils.rs\<close>: which frame capability backs a page of the root task's own image, and the
  translation between virtual and physical addresses of the heap.  The linker symbols, the
  boot information and the size of a frame are fields of the state; the kernel's answer to
  \<^verbatim>\<open>frame_get_address\<close> is a parameter.
\<close>

section \<open>Model\<close>

record image_utils =
  im_executable_start :: usize
  im_end :: usize
  im_frames_start :: usize
  im_frames_end :: usize
  im_granule_size :: usize
  im_heap_mem :: usize
  im_heap_p_v_offset :: usize

definition round_down :: "usize \<Rightarrow> usize \<Rightarrow> usize" where
  "round_down n b = n - n mod b"

text \<open>\<^verbatim>\<open>usize::next_multiple_of\<close>.\<close>

definition next_multiple_of :: "usize \<Rightarrow> usize \<Rightarrow> usize res" where
  "next_multiple_of n b = (if n mod b = 0 then Inr n else add_usize n (b - n mod b))"

definition get_user_image_footprint :: "image_utils \<Rightarrow> (usize \<times> usize) res" where
  "get_user_image_footprint im =
     rbind (next_multiple_of (im_end im) (im_granule_size im)) (\<lambda>e.
     Inr (round_down (im_executable_start im) (im_granule_size im), e))"

definition get_user_image_frame_slot :: "image_utils \<Rightarrow> usize \<Rightarrow> usize res" where
  "get_user_image_frame_slot im vaddr =
     rbind (guard_res (vaddr mod im_granule_size im = 0) AssertFailed) (\<lambda>_.
     rbind (get_user_image_footprint im) (\<lambda>(s, e).
     let num_user_frames = im_frames_end im - im_frames_start im in
     rbind (mul_usize num_user_frames (im_granule_size im)) (\<lambda>size.
     rbind (guard_res (e - s = size) AssertFailed) (\<lambda>_.
     rbind (sub_usize vaddr s) (\<lambda>d.
     let ix = d div im_granule_size im in
     add_usize (im_frames_start im) ix)))))"

definition get_user_image_frame_paddr :: "(usize \<Rightarrow> unit + usize) \<Rightarrow> image_utils \<Rightarrow> usize \<Rightarrow> usize res" where
  "get_user_image_frame_paddr frame_get_address im vaddr =
     (let offset = vaddr mod 4096; new_vaddr = vaddr - offset in
      rbind (get_user_image_frame_slot im new_vaddr) (\<lambda>frame_cap.
      case frame_get_address frame_cap of
        Inl e \<Rightarrow> Inl UnwrapErr
      | Inr paddr \<Rightarrow> add_usize paddr offset))"

definition image_init :: "(usize \<Rightarrow> unit + usize) \<Rightarrow> image_utils \<Rightarrow> image_utils res" where
  "image_init frame_get_address im =
     rbind (get_user_image_frame_paddr frame_get_address im (im_heap_mem im)) (\<lambda>paddr_start.
     rbind (sub_usize paddr_start (im_heap_mem im)) (\<lambda>off.
     Inr (im\<lparr>im_heap_p_v_offset := off\<rparr>)))"

definition get_heap_paddr :: "image_utils \<Rightarrow> usize \<Rightarrow> usize res" where
  "get_heap_paddr im vaddr = add_usize vaddr (im_heap_p_v_offset im)"

definition get_heap_vaddr :: "image_utils \<Rightarrow> usize \<Rightarrow> usize res" where
  "get_heap_vaddr im paddr = sub_usize paddr (im_heap_p_v_offset im)"

section \<open>Frames of the image\<close>

text \<open>A boot state: the frame capabilities cover exactly the pages of the image.\<close>

definition image_ok :: "image_utils \<Rightarrow> bool" where
  "image_ok im \<longleftrightarrow> im_granule_size im = 4096 \<and> im_executable_start im \<le> im_end im \<and> im_end im + 4096 < 2 ^ 64 \<and>
     im_frames_start im \<le> im_frames_end im \<and> im_frames_end im < 2 ^ 64 \<and>
     get_user_image_footprint im =
       Inr (round_down (im_executable_start im) 4096,
            round_down (im_executable_start im) 4096 + (im_frames_end im - im_frames_start im) * 4096)"

definition image_start :: "image_utils \<Rightarrow> usize" where
  "image_start im = round_down (im_executable_start im) 4096"

definition image_stop :: "image_utils \<Rightarrow> usize" where
  "image_stop im = image_start im + (im_frames_end im - im_frames_start im) * 4096"

lemma round_down_dvd: "b dvd round_down n b"
  by (simp add: round_down_def dvd_minus_mod)

lemma frame_slot_eq:
  assumes ok: "image_ok im" and v: "vaddr mod 4096 = 0" "image_start im \<le> vaddr" "vaddr < image_stop im"
  shows "get_user_image_frame_slot im vaddr = Inr (im_frames_start im + (vaddr - image_start im) div 4096)"
    and "im_frames_start im + (vaddr - image_start im) div 4096 < im_frames_end im"
proof -
  let ?n = "im_frames_end im - im_frames_start im" and ?ix = "(vaddr - image_start im) div 4096"
  have "vaddr - image_start im < ?n * 4096" using v by (simp add: image_stop_def)
  then have ix: "?ix < ?n" by (simp add: less_mult_imp_div_less)
  then show lt: "im_frames_start im + ?ix < im_frames_end im" by simp
  have bound: "im_frames_end im < 2 ^ 64" using ok by (simp add: image_ok_def)
  have fp: "get_user_image_footprint im = Inr (image_start im, image_start im + ?n * 4096)"
    using ok by (simp add: image_ok_def image_start_def)
  then obtain e where "next_multiple_of (im_end im) 4096 = Inr e" "e = image_start im + ?n * 4096"
    using ok by (auto simp: get_user_image_footprint_def image_ok_def)
  moreover have "e < 2 ^ 64"
    using calculation(1) ok by (auto simp: next_multiple_of_def image_ok_def split: if_splits)
  ultimately have "?n * 4096 < 2 ^ 64" by simp
  then show "get_user_image_frame_slot im vaddr = Inr (im_frames_start im + ?ix)"
    using ok fp v lt bound
    by (simp add: get_user_image_frame_slot_def image_ok_def guard_res_def mul_usize_def sub_usize_def add_usize_def Let_def)
qed

text \<open>Pages of the image, and the page an address is in.\<close>

lemma image_start_aligned: "image_start im mod 4096 = 0"
  using round_down_dvd [of 4096 "im_executable_start im"] by (simp add: image_start_def mod_eq_0_iff_dvd)

lemma image_stop_aligned: "image_stop im mod 4096 = 0"
  using image_start_aligned [of im] by (simp add: image_stop_def)

lemma page_in_image:
  assumes "image_start im \<le> v" and "v < image_stop im"
  shows "image_start im \<le> v - v mod 4096" and "v - v mod 4096 < image_stop im" and "(v - v mod 4096) mod 4096 = 0"
proof -
  show "image_start im \<le> v - v mod 4096"
  proof -
    have "image_start im = image_start im div 4096 * 4096" using image_start_aligned [of im] by (metis add.right_neutral div_mult_mod_eq)
    also have "\<dots> \<le> v div 4096 * 4096" using assms(1) by (simp add: div_le_mono)
    also have "\<dots> = v - v mod 4096" by (simp add: minus_mod_eq_div_mult)
    finally show ?thesis .
  qed
  show "v - v mod 4096 < image_stop im" using assms(2) by simp
  show "(v - v mod 4096) mod 4096 = 0" by (metis minus_mod_eq_div_mult mod_mult_self2_is_0)
qed

text \<open>The kernel mapped the image to consecutive physical frames.\<close>

definition contiguous :: "(usize \<Rightarrow> unit + usize) \<Rightarrow> usize \<Rightarrow> image_utils \<Rightarrow> bool" where
  "contiguous fga base im \<longleftrightarrow> (\<forall>slot. im_frames_start im \<le> slot \<and> slot < im_frames_end im \<longrightarrow>
     fga slot = Inr (base + (slot - im_frames_start im) * 4096)) \<and>
     base + (im_frames_end im - im_frames_start im) * 4096 < 2 ^ 64"

lemma frame_paddr_eq:
  assumes ok: "image_ok im" and c: "contiguous fga base im" and v: "image_start im \<le> v" "v < image_stop im"
  shows "get_user_image_frame_paddr fga im v = Inr (base + (v - image_start im))"
    and "base + (v - image_start im) < 2 ^ 64"
proof -
  let ?p = "v - v mod 4096" and ?n = "im_frames_end im - im_frames_start im"
  note page = page_in_image [OF v]
  note slot = frame_slot_eq [OF ok page(3,1,2)]
  have al: "(?p - image_start im) div 4096 * 4096 = ?p - image_start im"
    by (rule dvd_div_mult_self, rule dvd_diff_nat)
      (use page(3) image_start_aligned [of im] in \<open>simp_all only: mod_eq_0_iff_dvd\<close>)
  have lt: "v - image_start im < ?n * 4096" using v by (simp add: image_stop_def)
  have bound: "base + ?n * 4096 < 2 ^ 64" using c by (simp add: contiguous_def)
  show b: "base + (v - image_start im) < 2 ^ 64" using lt bound by linarith
  have "fga (im_frames_start im + (?p - image_start im) div 4096) = Inr (base + (?p - image_start im))"
    using c slot(2) al by (simp add: contiguous_def)
  moreover have "base + (?p - image_start im) + v mod 4096 = base + (v - image_start im)"
    using page(1) mod_less_eq_dividend [of v 4096] by linarith
  ultimately show "get_user_image_frame_paddr fga im v = Inr (base + (v - image_start im))"
    using slot(1) b by (simp add: get_user_image_frame_paddr_def Let_def add_usize_def)
qed

section \<open>Properties\<close>

text \<open>On a boot state whose frame capabilities cover the image, every page of the image has a
  frame slot inside the user-image range, two addresses get the same slot only when they
  are the same page, and every slot of the range is some page's; nothing panics.\<close>

theorem user_image_slots_bijective:
  assumes "image_ok im"
  shows "\<exists>slot. bij_betw slot {v. v mod 4096 = 0 \<and> image_start im \<le> v \<and> v < image_stop im} {im_frames_start im..<im_frames_end im} \<and>
    (\<forall>v. v mod 4096 = 0 \<and> image_start im \<le> v \<and> v < image_stop im \<longrightarrow> get_user_image_frame_slot im v = Inr (slot v))"
proof -
  let ?A = "{v. v mod 4096 = 0 \<and> image_start im \<le> v \<and> v < image_stop im}"
  let ?f = "\<lambda>v. im_frames_start im + (v - image_start im) div 4096"
  let ?g = "\<lambda>s. image_start im + (s - im_frames_start im) * 4096"
  have "bij_betw ?f ?A {im_frames_start im..<im_frames_end im}"
  proof (rule bij_betw_byWitness [where f' = ?g])
    show "\<forall>v\<in>?A. ?g (?f v) = v"
    proof
      fix v assume "v \<in> ?A"
      then have "4096 dvd v - image_start im" "image_start im \<le> v"
        using image_start_aligned [of im] by (auto intro!: dvd_diff_nat simp: mod_eq_0_iff_dvd)
      then show "?g (?f v) = v" by simp
    qed
    show "\<forall>s\<in>{im_frames_start im..<im_frames_end im}. ?f (?g s) = s" by simp
    show "?f ` ?A \<subseteq> {im_frames_start im..<im_frames_end im}" using frame_slot_eq(2) [OF assms] by auto
    show "?g ` {im_frames_start im..<im_frames_end im} \<subseteq> ?A"
      using image_start_aligned [of im] by (auto simp: image_stop_def)
  qed
  moreover have "\<forall>v. v mod 4096 = 0 \<and> image_start im \<le> v \<and> v < image_stop im \<longrightarrow> get_user_image_frame_slot im v = Inr (?f v)"
    using frame_slot_eq(1) [OF assms] by auto
  ultimately show ?thesis by (intro exI conjI)
qed

text \<open>An image of 16 pages.\<close>

definition image_example :: image_utils where
  "image_example = \<lparr>im_executable_start = 65546, im_end = 131072, im_frames_start = 100, im_frames_end = 116,
     im_granule_size = 4096, im_heap_mem = 69632, im_heap_p_v_offset = 0\<rparr>"

lemma image_example_ok: "image_ok image_example" and image_example_start: "image_start image_example = 65536"
  and image_example_stop: "image_stop image_example = 131072"
  by (simp_all add: image_ok_def image_example_def image_start_def image_stop_def round_down_def
      get_user_image_footprint_def next_multiple_of_def)

theorem user_image_slots_bijective_witness:
  "\<exists>slot. bij_betw slot {v. v mod 4096 = 0 \<and> 65536 \<le> v \<and> v < 131072} {100..<116} \<and>
     (\<forall>v. v mod 4096 = 0 \<and> 65536 \<le> v \<and> v < 131072 \<longrightarrow> get_user_image_frame_slot image_example v = Inr (slot v))"
  using user_image_slots_bijective [OF image_example_ok]
  by (simp add: image_example_start image_example_stop) (simp add: image_example_def)

text \<open>When the kernel backed the image with consecutive frames, the constant offset computed
  by \<^verbatim>\<open>init\<close> translates every image address from the heap's start on as the kernel does, and
  \<^verbatim>\<open>get_heap_vaddr\<close> inverts \<^verbatim>\<open>get_heap_paddr\<close>.\<close>

theorem heap_translation:
  assumes ok: "image_ok im" and c: "contiguous fga base im" and heap: "image_start im \<le> im_heap_mem im" "im_heap_mem im < image_stop im"
    and up: "im_heap_mem im \<le> base + (im_heap_mem im - image_start im)" and v: "im_heap_mem im \<le> v" "v < image_stop im"
  shows "\<exists>im' paddr. image_init fga im = Inr im' \<and> get_heap_paddr im' v = Inr paddr \<and>
    get_user_image_frame_paddr fga im v = Inr paddr \<and> get_heap_vaddr im' paddr = Inr v"
proof -
  have v': "image_start im \<le> v" using heap v by simp
  note h = frame_paddr_eq [OF ok c heap] and pv = frame_paddr_eq [OF ok c v' v(2)]
  let ?off = "base + (im_heap_mem im - image_start im) - im_heap_mem im"
  let ?im = "im\<lparr>im_heap_p_v_offset := ?off\<rparr>"
  have eq: "v + ?off = base + (v - image_start im)" using up v heap by linarith
  have "image_init fga im = Inr ?im" using h(1) up by (simp add: image_init_def sub_usize_def)
  moreover have "get_heap_paddr ?im v = Inr (base + (v - image_start im))"
    using eq pv(2) by (simp add: get_heap_paddr_def add_usize_def)
  moreover have "get_heap_vaddr ?im (base + (v - image_start im)) = Inr v"
    using eq by (simp add: get_heap_vaddr_def sub_usize_def flip: eq)
  ultimately show ?thesis using pv(1) by blast
qed

theorem heap_translation_witness:
  "\<exists>im' paddr. image_init (\<lambda>slot. Inr (2147483648 + (slot - 100) * 4096)) image_example = Inr im' \<and>
     get_heap_paddr im' 70000 = Inr paddr \<and> get_heap_vaddr im' paddr = Inr 70000"
proof -
  have c: "contiguous (\<lambda>slot. Inr (2147483648 + (slot - 100) * 4096)) 2147483648 image_example"
    by (simp add: contiguous_def image_example_def)
  show ?thesis
    using heap_translation [OF image_example_ok c, of 70000]
    by (auto simp: image_example_start image_example_stop) (auto simp: image_example_def)
qed

end
