(* ===== verification/Object_Allocator.thy ===== *)
theory Object_Allocator
  imports Image_Utils
begin

unbundle bit_operations_syntax

text \<open>
  \<^verbatim>\<open>src/object_allocator.rs\<close>: kernel objects are made by giving each its own untyped region (the
  first unused one that is large enough) and the next empty slot of the capability space.
  What the boot information says, the sizes of objects, the addresses that the heap hands
  out and whether a kernel invocation succeeds are parameters; the invocations themselves
  are recorded in a list, the latest last.
\<close>

section \<open>Model\<close>

datatype blueprint = BNotification | BEndpoint | BTCB | B4KPage | BPageTable | BMegaPage | BUntyped nat

record user_context =
  uc_pc :: u64
  uc_sp :: u64
  uc_tp :: u64
  uc_gp :: u64
  uc_s0 :: u64
  uc_s1 :: u64
  uc_a0 :: u64
  uc_a1 :: u64

datatype kcall =
    Retype (kc_untyped: nat) (kc_blueprint: blueprint) (kc_dest: nat) (kc_count: nat)
  | TcbConfigure nat nat nat nat
  | TcbSetSchedParams nat nat
  | TcbReadRegisters nat
  | TcbWriteAllRegisters nat user_context
  | TcbSetAffinity nat nat
  | TcbResume nat
  | TcbBindNotification nat nat
  | PageTableMap nat usize
  | FrameMap nat usize
  | IrqControlGet nat nat
  | IrqSetNotification nat nat
  | FrameUnmap nat
  | CNodeMint nat nat nat
  | RegisterReceiver nat nat
  | RegisterAsyncSyscall nat nat

record kernel =
  k_physical_size_bits :: "blueprint \<Rightarrow> nat"
  k_endpoint_bits :: nat
  k_page_bits :: nat
  k_tcb_bits :: nat
  k_accepts :: "kcall \<Rightarrow> bool"
  k_registers :: "nat \<Rightarrow> user_context"
  k_gp :: u64
  k_mega_bits :: nat
  k_frame_address :: "nat \<Rightarrow> unit + usize"

record untyped_desc =
  ud_is_device :: bool
  ud_size_bits :: nat
  ud_paddr :: usize

record boot_info =
  bi_untyped_list :: "untyped_desc list"
  bi_untyped_start :: usize
  bi_empty_start :: usize
  bi_empty_end :: usize

record used_untyped_desc =
  uu_desc :: untyped_desc
  uu_used :: bool

record object_allocator =
  oa_untyped_list :: "used_untyped_desc list"
  oa_untyped_start :: usize
  oa_empty_start :: usize
  oa_empty_end :: usize
  oa_calls :: "kcall list"

definition oa_default :: object_allocator where
  "oa_default = \<lparr>oa_untyped_list = [], oa_untyped_start = 0, oa_empty_start = 0, oa_empty_end = 0, oa_calls = []\<rparr>"

definition oa_new :: "boot_info \<Rightarrow> object_allocator" where
  "oa_new bi =
     \<lparr>oa_untyped_list = map (\<lambda>d. \<lparr>uu_desc = d, uu_used = False\<rparr>) (bi_untyped_list bi),
      oa_untyped_start = bi_untyped_start bi,
      oa_empty_start = bi_empty_start bi, oa_empty_end = bi_empty_end bi, oa_calls = []\<rparr>"

definition oa_init :: "object_allocator \<Rightarrow> boot_info \<Rightarrow> object_allocator" where
  "oa_init oa bi =
     oa\<lparr>oa_untyped_list := map (\<lambda>d. \<lparr>uu_desc = d, uu_used = False\<rparr>) (bi_untyped_list bi),
        oa_untyped_start := bi_untyped_start bi,
        oa_empty_start := bi_empty_start bi, oa_empty_end := bi_empty_end bi\<rparr>"

definition get_the_first_untyped_slot :: "kernel \<Rightarrow> object_allocator \<Rightarrow> blueprint \<Rightarrow> (usize \<times> object_allocator) res" where
  "get_the_first_untyped_slot k oa bp =
     rbind (unwrap (range_find (\<lambda>i. let u = oa_untyped_list oa ! i in
         \<not> ud_is_device (uu_desc u) \<and> k_physical_size_bits k bp \<le> ud_size_bits (uu_desc u) \<and> uu_used u = False)
       0 (length (oa_untyped_list oa)))) (\<lambda>idx.
     rbind (add_usize (oa_untyped_start oa) idx) (\<lambda>slot.
     Inr (slot, oa\<lparr>oa_untyped_list := (oa_untyped_list oa)[idx := (oa_untyped_list oa ! idx)\<lparr>uu_used := True\<rparr>]\<rparr>)))"

definition get_empty_slot :: "object_allocator \<Rightarrow> (usize \<times> object_allocator) res" where
  "get_empty_slot oa =
     (if oa_empty_start oa < oa_empty_end oa
      then Inr (oa_empty_start oa, oa\<lparr>oa_empty_start := oa_empty_start oa + 1\<rparr>)
      else Inl UnwrapNone)"

text \<open>A kernel invocation: recorded, and accepted or not.\<close>

definition invoke :: "kernel \<Rightarrow> kcall \<Rightarrow> object_allocator \<Rightarrow> (unit + unit) \<times> object_allocator" where
  "invoke k c oa = (if k_accepts k c then Inr () else Inl (), oa\<lparr>oa_calls := oa_calls oa @ [c]\<rparr>)"

text \<open>The five single-object allocators differ in the blueprint only.\<close>

definition alloc_object :: "kernel \<Rightarrow> blueprint \<Rightarrow> object_allocator \<Rightarrow> ((unit + usize) \<times> object_allocator) res" where
  "alloc_object k bp oa =
     rbind (get_the_first_untyped_slot k oa bp) (\<lambda>(untyped, oa1).
     rbind (get_empty_slot oa1) (\<lambda>(slot, oa2).
     case invoke k (Retype untyped bp slot 1) oa2 of
       (Inl e, oa3) \<Rightarrow> Inr (Inl (), oa3)
     | (Inr u, oa3) \<Rightarrow> Inr (Inr slot, oa3)))"

definition alloc_ntfn :: "kernel \<Rightarrow> object_allocator \<Rightarrow> ((unit + usize) \<times> object_allocator) res" where
  "alloc_ntfn k oa = alloc_object k BNotification oa"

definition alloc_ep :: "kernel \<Rightarrow> object_allocator \<Rightarrow> ((unit + usize) \<times> object_allocator) res" where
  "alloc_ep k oa = alloc_object k BEndpoint oa"

definition alloc_frame :: "kernel \<Rightarrow> object_allocator \<Rightarrow> ((unit + usize) \<times> object_allocator) res" where
  "alloc_frame k oa = alloc_object k B4KPage oa"

definition alloc_tcb :: "kernel \<Rightarrow> object_allocator \<Rightarrow> ((unit + usize) \<times> object_allocator) res" where
  "alloc_tcb k oa = alloc_object k BTCB oa"

definition alloc_page_table :: "kernel \<Rightarrow> object_allocator \<Rightarrow> ((unit + usize) \<times> object_allocator) res" where
  "alloc_page_table k oa = alloc_object k BPageTable oa"

text \<open>The allocators of \<open>2 ^ cnt_bits\<close> objects take one untyped region and a run of slots.\<close>

primrec skip_slots :: "nat \<Rightarrow> object_allocator \<Rightarrow> object_allocator res" where
  "skip_slots 0 oa = Inr oa"
| "skip_slots (Suc n) oa = rbind (get_empty_slot oa) (\<lambda>(s, oa'). skip_slots n oa')"

definition alloc_many :: "kernel \<Rightarrow> blueprint \<Rightarrow> nat \<Rightarrow> nat \<Rightarrow> object_allocator \<Rightarrow> (usize list \<times> object_allocator) res" where
  "alloc_many k bp obj_bits cnt_bits oa =
     rbind (guard_res (cnt_bits < 64) ArithOverflow) (\<lambda>_.
     let cnt = 2 ^ cnt_bits in
     rbind (get_the_first_untyped_slot k oa (BUntyped (obj_bits + cnt_bits))) (\<lambda>(untyped, oa1).
     rbind (get_empty_slot oa1) (\<lambda>(slot, oa2).
     rbind (skip_slots (cnt - 1) oa2) (\<lambda>oa3.
     case invoke k (Retype untyped bp slot cnt) oa3 of
       (Inl e, oa4) \<Rightarrow> Inl UnwrapErr
     | (Inr u, oa4) \<Rightarrow> Inr (map (\<lambda>i. slot + i) [0..<cnt], oa4)))))"

definition alloc_many_ep :: "kernel \<Rightarrow> nat \<Rightarrow> object_allocator \<Rightarrow> (usize list \<times> object_allocator) res" where
  "alloc_many_ep k cnt_bits oa = alloc_many k BEndpoint (k_endpoint_bits k) cnt_bits oa"

definition alloc_many_frame :: "kernel \<Rightarrow> nat \<Rightarrow> object_allocator \<Rightarrow> (usize list \<times> object_allocator) res" where
  "alloc_many_frame k cnt_bits oa = alloc_many k B4KPage (k_page_bits k) cnt_bits oa"

definition alloc_many_tcb :: "kernel \<Rightarrow> nat \<Rightarrow> object_allocator \<Rightarrow> (usize list \<times> object_allocator) res" where
  "alloc_many_tcb k cnt_bits oa = alloc_many k BTCB (k_tcb_bits k) cnt_bits oa"

text \<open>The question-mark operator on a kernel result, and \<^verbatim>\<open>unwrap\<close> on one.\<close>

type_synonym 'a kres = "((unit + 'a) \<times> object_allocator) res"

definition kbind :: "'a kres \<Rightarrow> ('a \<Rightarrow> object_allocator \<Rightarrow> 'b kres) \<Rightarrow> 'b kres" where
  "kbind m f = rbind m (\<lambda>(r, oa). case r of Inl e \<Rightarrow> Inr (Inl (), oa) | Inr x \<Rightarrow> f x oa)"

definition kcall_res :: "kernel \<Rightarrow> kcall \<Rightarrow> object_allocator \<Rightarrow> unit kres" where
  "kcall_res k c oa = Inr (invoke k c oa)"

definition kunwrap :: "'a kres \<Rightarrow> ('a \<times> object_allocator) res" where
  "kunwrap m = rbind m (\<lambda>(r, oa). case r of Inl e \<Rightarrow> Inl UnwrapErr | Inr x \<Rightarrow> Inr (x, oa))"

text \<open>The thread pointer of a new thread: the given number of pages below the top of its stack of
  \<open>pages\<close> pages, rounded down to a page.\<close>

definition thread_pointer :: "nat \<Rightarrow> nat \<Rightarrow> usize \<Rightarrow> u64 res" where
  "thread_pointer pages below ptr =
     (let raw_sp = of_nat (ptr + 4096 * pages) :: u64 in
      if raw_sp < of_nat (4096 * below) then Inl ArithOverflow
      else Inr ((raw_sp - of_nat (4096 * below)) AND NOT (push_bit 12 1 - 1)))"

definition thread_context :: "kernel \<Rightarrow> user_context \<Rightarrow> u64 \<Rightarrow> u64 \<Rightarrow> usize \<Rightarrow> usize \<Rightarrow> user_context" where
  "thread_context k uc tp func args ipc_buffer_addr =
     uc\<lparr>uc_tp := tp, uc_pc := func, uc_sp := tp AND NOT (16 - 1), uc_s0 := 0, uc_s1 := 0,
        uc_gp := k_gp k, uc_a0 := of_nat args, uc_a1 := of_nat ipc_buffer_addr\<rparr>"

text \<open>\<^verbatim>\<open>create_thread\<close>; \<open>ipc_buffer_addr\<close> and \<open>stack\<close> are the pointers that \<^verbatim>\<open>alloc_zeroed\<close> returned.\<close>

definition create_thread ::
  "kernel \<Rightarrow> image_utils \<Rightarrow> usize \<Rightarrow> usize \<Rightarrow> u64 \<Rightarrow> usize \<Rightarrow> usize \<Rightarrow> usize \<Rightarrow> bool \<Rightarrow> object_allocator \<Rightarrow> usize kres" where
  "create_thread k im ipc_buffer_addr stack func args prio affinity resume oa =
     (if ipc_buffer_addr = 0 then Inl ExplicitPanic
      else
        rbind (get_user_image_frame_slot im ipc_buffer_addr) (\<lambda>ipc_buffer_cap.
        kbind (alloc_tcb k oa) (\<lambda>tcb oa1.
        kbind (alloc_ep k oa1) (\<lambda>ep oa2.
        kbind (kcall_res k (TcbConfigure tcb ep ipc_buffer_addr ipc_buffer_cap) oa2) (\<lambda>_ oa3.
        kbind (kcall_res k (TcbSetSchedParams tcb prio) oa3) (\<lambda>_ oa4.
        kbind (kcall_res k (TcbReadRegisters tcb) oa4) (\<lambda>_ oa5.
        if stack = 0 then Inl ExplicitPanic
        else
          rbind (thread_pointer 256 128 stack) (\<lambda>tp.
          kbind (kcall_res k (TcbWriteAllRegisters tcb
            (thread_context k (k_registers k tcb) tp func args ipc_buffer_addr)) oa5) (\<lambda>_ oa6.
          kbind (kcall_res k (TcbSetAffinity tcb affinity) oa6) (\<lambda>_ oa7.
          if resume
          then kbind (kcall_res k (TcbResume tcb) oa7) (\<lambda>_ oa8. Inr (Inr tcb, oa8))
          else Inr (Inr tcb, oa7)))))))))))"

text \<open>The body of the loop of \<^verbatim>\<open>create_many_threads\<close>; its stacks are smaller and every failure
  panics.\<close>

definition setup_thread ::
  "kernel \<Rightarrow> image_utils \<Rightarrow> usize \<Rightarrow> usize \<Rightarrow> usize \<Rightarrow> usize \<Rightarrow> u64 \<Rightarrow> usize \<Rightarrow> usize \<Rightarrow> usize \<Rightarrow> bool \<Rightarrow>
   object_allocator \<Rightarrow> object_allocator res" where
  "setup_thread k im tcb ep ipc_buffer_addr stack func arg prio affinity resume oa =
     (if ipc_buffer_addr = 0 then Inl ExplicitPanic
      else
        rbind (get_user_image_frame_slot im ipc_buffer_addr) (\<lambda>ipc_buffer_cap.
        rbind (kunwrap (kcall_res k (TcbConfigure tcb ep ipc_buffer_addr ipc_buffer_cap) oa)) (\<lambda>(_, oa1).
        rbind (kunwrap (kcall_res k (TcbSetSchedParams tcb prio) oa1)) (\<lambda>(_, oa2).
        rbind (kunwrap (kcall_res k (TcbReadRegisters tcb) oa2)) (\<lambda>(_, oa3).
        if stack = 0 then Inl ExplicitPanic
        else
          rbind (thread_pointer 64 32 stack) (\<lambda>tp.
          rbind (kunwrap (kcall_res k (TcbWriteAllRegisters tcb
            (thread_context k (k_registers k tcb) tp func arg ipc_buffer_addr)) oa3)) (\<lambda>(_, oa4).
          rbind (kunwrap (kcall_res k (TcbSetAffinity tcb affinity) oa4)) (\<lambda>(_, oa5).
          if resume
          then rbind (kunwrap (kcall_res k (TcbResume tcb) oa5)) (\<lambda>(_, oa6). Inr oa6)
          else Inr oa5))))))))"

fun setup_threads ::
  "kernel \<Rightarrow> image_utils \<Rightarrow> u64 \<Rightarrow> usize \<Rightarrow> usize \<Rightarrow> bool \<Rightarrow> (usize \<times> usize \<times> usize \<times> usize \<times> usize) list \<Rightarrow>
   object_allocator \<Rightarrow> object_allocator res" where
  "setup_threads k im func prio affinity resume [] oa = Inr oa"
| "setup_threads k im func prio affinity resume ((tcb, ep, ipc, stack, arg) # ts) oa =
     rbind (setup_thread k im tcb ep ipc stack func arg prio affinity resume oa) (\<lambda>oa'.
     setup_threads k im func prio affinity resume ts oa')"

text \<open>\<open>mem\<close> is the list of the pointers to IPC buffer and stack that each round of the loop obtains.\<close>

definition create_many_threads ::
  "kernel \<Rightarrow> image_utils \<Rightarrow> nat \<Rightarrow> u64 \<Rightarrow> usize list \<Rightarrow> usize \<Rightarrow> usize \<Rightarrow> bool \<Rightarrow> (usize \<times> usize) list \<Rightarrow>
   object_allocator \<Rightarrow> (usize list \<times> object_allocator) res" where
  "create_many_threads k im cnt_bits func args prio affinity resume mem oa =
     rbind (guard_res (cnt_bits < 64) ArithOverflow) (\<lambda>_.
     rbind (guard_res (length args = 2 ^ cnt_bits) AssertFailed) (\<lambda>_.
     rbind (alloc_many_ep k cnt_bits oa) (\<lambda>(eps, oa1).
     rbind (alloc_many_tcb k cnt_bits oa1) (\<lambda>(tcbs, oa2).
     rbind (setup_threads k im func prio affinity resume
       (map (\<lambda>i. (tcbs ! i, eps ! i, fst (mem ! i), snd (mem ! i), args ! i)) [0..<2 ^ cnt_bits]) oa2) (\<lambda>oa3.
     Inr (tcbs, oa3))))))"

section \<open>Slots and regions handed out\<close>

text \<open>The destination slots of the retype invocations made so far, and the regions they consumed.\<close>

definition retypes :: "object_allocator \<Rightarrow> kcall list" where
  "retypes oa = filter (\<lambda>c. case c of Retype u b d n \<Rightarrow> True | _ \<Rightarrow> False) (oa_calls oa)"

definition call_slots :: "kcall \<Rightarrow> nat set" where
  "call_slots c = (case c of Retype u b d n \<Rightarrow> {d..<d + n} | _ \<Rightarrow> {})"

definition used_regions :: "object_allocator \<Rightarrow> nat set" where
  "used_regions oa = {oa_untyped_start oa + i |i. i < length (oa_untyped_list oa) \<and> uu_used (oa_untyped_list oa ! i)}"

text \<open>The invariant: every region is consumed by at most one invocation, which it is large enough
  for, and the destination ranges are below the next empty slot and pairwise disjoint.\<close>

definition oa_wf :: "kernel \<Rightarrow> object_allocator \<Rightarrow> bool" where
  "oa_wf k oa \<longleftrightarrow> oa_empty_start oa \<le> oa_empty_end oa \<and>
     (\<forall>c\<in>set (retypes oa). call_slots c \<subseteq> {..<oa_empty_start oa} \<and> kc_untyped c \<in> used_regions oa) \<and>
     distinct (map kc_untyped (retypes oa)) \<and>
     (\<forall>i j. i < j \<and> j < length (retypes oa) \<longrightarrow> call_slots (retypes oa ! i) \<inter> call_slots (retypes oa ! j) = {})"

text \<open>The first region that fits.\<close>

definition fits :: "kernel \<Rightarrow> object_allocator \<Rightarrow> blueprint \<Rightarrow> nat \<Rightarrow> bool" where
  "fits k oa bp i \<longleftrightarrow> i < length (oa_untyped_list oa) \<and> \<not> ud_is_device (uu_desc (oa_untyped_list oa ! i)) \<and>
     k_physical_size_bits k bp \<le> ud_size_bits (uu_desc (oa_untyped_list oa ! i)) \<and> \<not> uu_used (oa_untyped_list oa ! i)"

lemma get_untyped_Inr:
  assumes "get_the_first_untyped_slot k oa bp = Inr (slot, oa')"
  shows "\<exists>idx. fits k oa bp idx \<and> (\<forall>j<idx. \<not> fits k oa bp j) \<and> slot = oa_untyped_start oa + idx \<and>
    oa' = oa\<lparr>oa_untyped_list := (oa_untyped_list oa)[idx := (oa_untyped_list oa ! idx)\<lparr>uu_used := True\<rparr>]\<rparr> \<and>
    slot \<notin> used_regions oa \<and> used_regions oa' = insert slot (used_regions oa)"
proof -
  from assms obtain idx where f: "fits k oa bp idx" "\<forall>j<idx. \<not> fits k oa bp j" and slot: "slot = oa_untyped_start oa + idx"
    and oa': "oa' = oa\<lparr>oa_untyped_list := (oa_untyped_list oa)[idx := (oa_untyped_list oa ! idx)\<lparr>uu_used := True\<rparr>]\<rparr>"
    by (auto simp: get_the_first_untyped_slot_def range_find_Some_iff fits_def Let_def)
  moreover have "slot \<notin> used_regions oa" using f(1) by (auto simp: used_regions_def slot fits_def)
  moreover have "used_regions oa' = insert slot (used_regions oa)"
    using f(1) by (auto simp: used_regions_def oa' slot fits_def nth_list_update split: if_splits)
  ultimately show ?thesis by blast
qed

lemma get_untyped_ok:
  assumes "fits k oa bp i" and "oa_untyped_start oa + length (oa_untyped_list oa) < 2 ^ 64"
  shows "\<exists>r. get_the_first_untyped_slot k oa bp = Inr r"
proof -
  let ?p = "\<lambda>i. let u = oa_untyped_list oa ! i in
         \<not> ud_is_device (uu_desc u) \<and> k_physical_size_bits k bp \<le> ud_size_bits (uu_desc u) \<and> uu_used u = False"
  have "range_find ?p 0 (length (oa_untyped_list oa)) \<noteq> None"
    using assms(1) by (auto simp: range_find_None_iff fits_def Let_def)
  then obtain idx where idx: "range_find ?p 0 (length (oa_untyped_list oa)) = Some idx" by blast
  then have "idx < length (oa_untyped_list oa)" by (simp add: range_find_Some_iff)
  with idx assms(2) show ?thesis by (simp add: get_the_first_untyped_slot_def add_usize_def)
qed

lemma skip_slots_Inr:
  "skip_slots n oa = Inr oa' \<longleftrightarrow> (n = 0 \<or> oa_empty_start oa + n \<le> oa_empty_end oa) \<and> oa' = oa\<lparr>oa_empty_start := oa_empty_start oa + n\<rparr>"
proof (induction n arbitrary: oa)
  case (Suc n)
  show ?case
  proof (cases "oa_empty_start oa < oa_empty_end oa")
    case True
    then show ?thesis using Suc [of "oa\<lparr>oa_empty_start := oa_empty_start oa + 1\<rparr>"] by (auto simp: get_empty_slot_def)
  next
    case False
    then show ?thesis by (simp add: get_empty_slot_def)
  qed
qed auto

lemma used_regions_frame [simp]:
  "used_regions (oa\<lparr>oa_calls := cs\<rparr>) = used_regions oa"
  "used_regions (oa\<lparr>oa_empty_start := s\<rparr>) = used_regions oa"
  by (simp_all add: used_regions_def)

lemma oa_wf_retype:
  assumes wf: "oa_wf k oa" and u: "u \<notin> used_regions oa"
    and oa': "used_regions oa' = insert u (used_regions oa)" "oa_empty_start oa' = oa_empty_start oa + n"
      "oa_empty_start oa' \<le> oa_empty_end oa'" "oa_calls oa' = oa_calls oa @ [Retype u bp (oa_empty_start oa) n]"
  shows "oa_wf k oa'"
proof -
  let ?c = "Retype u bp (oa_empty_start oa) n"
  have r: "retypes oa' = retypes oa @ [?c]" by (simp add: retypes_def oa'(4))
  have old: "call_slots c \<subseteq> {..<oa_empty_start oa} \<and> kc_untyped c \<in> used_regions oa" if "c \<in> set (retypes oa)" for c
    using wf that by (simp add: oa_wf_def)
  have dis: "call_slots (retypes oa ! i) \<inter> call_slots ?c = {}" if "i < length (retypes oa)" for i
    using old [of "retypes oa ! i"] that by (fastforce simp: call_slots_def)
  have "\<forall>c\<in>set (retypes oa'). call_slots c \<subseteq> {..<oa_empty_start oa'} \<and> kc_untyped c \<in> used_regions oa'"
    using old by (fastforce simp: r oa' call_slots_def)
  moreover have "distinct (map kc_untyped (retypes oa'))"
    using wf old u by (auto simp: r oa_wf_def)
  moreover have "\<forall>i j. i < j \<and> j < length (retypes oa') \<longrightarrow> call_slots (retypes oa' ! i) \<inter> call_slots (retypes oa' ! j) = {}"
    using wf dis by (auto simp: r oa_wf_def nth_append less_Suc_eq)
  ultimately show ?thesis using oa'(3) by (simp add: oa_wf_def)
qed

lemma oa_wf_other_call:
  assumes "oa_wf k oa" and "\<not> (\<exists>u b d n. c = Retype u b d n)"
  shows "oa_wf k (oa\<lparr>oa_calls := oa_calls oa @ [c]\<rparr>)"
proof -
  have "retypes (oa\<lparr>oa_calls := oa_calls oa @ [c]\<rparr>) = retypes oa"
    using assms(2) by (auto simp: retypes_def split: kcall.splits)
  then show ?thesis using assms(1) by (simp add: oa_wf_def)
qed

lemma oa_new_wf: "bi_empty_start bi \<le> bi_empty_end bi \<Longrightarrow> oa_wf k (oa_new bi)"
  by (simp add: oa_wf_def oa_new_def retypes_def)

section \<open>Single objects\<close>

text \<open>What \<open>alloc_object\<close> did when it returned: the first region that fits and the next empty slot
  are consumed by one retype invocation, also when the kernel refuses it.\<close>

definition allocated :: "kernel \<Rightarrow> blueprint \<Rightarrow> object_allocator \<Rightarrow> (unit + usize) \<Rightarrow> object_allocator \<Rightarrow> bool" where
  "allocated k bp oa r oa' \<longleftrightarrow> oa_wf k oa' \<and> oa_empty_start oa' = oa_empty_start oa + 1 \<and>
     oa_empty_end oa' = oa_empty_end oa \<and>
     (\<exists>idx u. fits k oa bp idx \<and> (\<forall>j<idx. \<not> fits k oa bp j) \<and> u = oa_untyped_start oa + idx \<and> u \<notin> used_regions oa \<and>
       oa_calls oa' = oa_calls oa @ [Retype u bp (oa_empty_start oa) 1] \<and>
       r = (if k_accepts k (Retype u bp (oa_empty_start oa) 1) then Inr (oa_empty_start oa) else Inl ()))"

lemma alloc_object_inv:
  assumes wf: "oa_wf k oa" and a: "alloc_object k bp oa = Inr (r, oa')"
  shows "allocated k bp oa r oa'"
proof -
  obtain u oa1 where g: "get_the_first_untyped_slot k oa bp = Inr (u, oa1)"
    and rest: "oa_empty_start oa1 < oa_empty_end oa1"
      "(case invoke k (Retype u bp (oa_empty_start oa1) 1) (oa1\<lparr>oa_empty_start := oa_empty_start oa1 + 1\<rparr>) of
       (Inl e, oa3) \<Rightarrow> Inr (Inl (), oa3) | (Inr x, oa3) \<Rightarrow> Inr (Inr (oa_empty_start oa1), oa3)) = (Inr (r, oa') :: _ res)"
    using a by (auto simp: alloc_object_def get_empty_slot_def split: if_splits)
  from get_untyped_Inr [OF g] obtain idx where idx: "fits k oa bp idx" "\<forall>j<idx. \<not> fits k oa bp j" "u = oa_untyped_start oa + idx"
    and oa1: "oa1 = oa\<lparr>oa_untyped_list := (oa_untyped_list oa)[idx := (oa_untyped_list oa ! idx)\<lparr>uu_used := True\<rparr>]\<rparr>"
    and u: "u \<notin> used_regions oa" "used_regions oa1 = insert u (used_regions oa)" by blast
  have same: "oa_empty_start oa1 = oa_empty_start oa" "oa_empty_end oa1 = oa_empty_end oa" "oa_calls oa1 = oa_calls oa"
    by (simp_all add: oa1)
  let ?c = "Retype u bp (oa_empty_start oa) 1"
  have r: "r = (if k_accepts k ?c then Inr (oa_empty_start oa) else Inl ())"
    and oa': "oa' = oa1\<lparr>oa_empty_start := oa_empty_start oa1 + 1, oa_calls := oa_calls oa @ [?c]\<rparr>"
    using rest(2) same by (auto simp: invoke_def split: if_splits)
  have "oa_wf k oa'"
    by (rule oa_wf_retype [OF wf u(1), of _ 1 bp]) (use u(2) rest(1) same in \<open>simp_all add: oa'\<close>)
  then show ?thesis using idx u r same by (auto simp: allocated_def oa')
qed

lemma alloc_object_ok:
  assumes "fits k oa bp i" and "oa_untyped_start oa + length (oa_untyped_list oa) < 2 ^ 64"
    and "oa_empty_start oa < oa_empty_end oa"
  shows "\<exists>r oa'. alloc_object k bp oa = Inr (r, oa')"
proof -
  obtain u oa1 where g: "get_the_first_untyped_slot k oa bp = Inr (u, oa1)" using get_untyped_ok [OF assms(1,2)] by auto
  have "oa_empty_start oa1 = oa_empty_start oa" "oa_empty_end oa1 = oa_empty_end oa" using get_untyped_Inr [OF g] by auto
  with g assms(3) show ?thesis
    by (simp add: alloc_object_def get_empty_slot_def split: prod.splits sum.splits)
qed

text \<open>The object allocators return whenever an unused region of sufficient size and an empty slot
  are left; they then use the first such region and the next slot, neither of which any
  earlier object has, in one retype invocation, and report the kernel's verdict.  A refused
  invocation consumes both for good.\<close>

theorem alloc_tcb_correct:
  assumes "oa_wf k oa" and "fits k oa BTCB i" and "oa_untyped_start oa + length (oa_untyped_list oa) < 2 ^ 64"
    and "oa_empty_start oa < oa_empty_end oa"
  shows "\<exists>r oa'. alloc_tcb k oa = Inr (r, oa') \<and> allocated k BTCB oa r oa'"
  using alloc_object_ok [OF assms(2-4)] alloc_object_inv [OF assms(1)] unfolding alloc_tcb_def by metis

text \<open>A kernel and boot information: regions of 12, 4 (a device) and 11 bits.\<close>

definition kernel_example :: kernel where
  "kernel_example = \<lparr>k_physical_size_bits = (\<lambda>b. case b of BUntyped n \<Rightarrow> n | BTCB \<Rightarrow> 11 | B4KPage \<Rightarrow> 12 | BPageTable \<Rightarrow> 12 | _ \<Rightarrow> 6),
     k_endpoint_bits = 4, k_page_bits = 12, k_tcb_bits = 11, k_accepts = (\<lambda>_. True),
     k_registers = (\<lambda>_. \<lparr>uc_pc = 0, uc_sp = 0, uc_tp = 0, uc_gp = 0, uc_s0 = 0, uc_s1 = 0, uc_a0 = 0, uc_a1 = 0\<rparr>), k_gp = 7,
     k_mega_bits = 21, k_frame_address = (\<lambda>_. Inl ())\<rparr>"

definition boot_example :: boot_info where
  "boot_example = \<lparr>bi_untyped_list = [\<lparr>ud_is_device = True, ud_size_bits = 20, ud_paddr = 0\<rparr>, \<lparr>ud_is_device = False, ud_size_bits = 4, ud_paddr = 0\<rparr>,
     \<lparr>ud_is_device = False, ud_size_bits = 12, ud_paddr = 0\<rparr>, \<lparr>ud_is_device = False, ud_size_bits = 11, ud_paddr = 0\<rparr>],
     bi_untyped_start = 50, bi_empty_start = 200, bi_empty_end = 400\<rparr>"

lemma boot_example_wf: "oa_wf kernel_example (oa_new boot_example)"
  by (rule oa_new_wf) (simp add: boot_example_def)

theorem alloc_tcb_correct_witness:
  "\<exists>r oa'. alloc_tcb kernel_example (oa_new boot_example) = Inr (r, oa') \<and>
     allocated kernel_example BTCB (oa_new boot_example) r oa'"
  by (rule alloc_tcb_correct [OF boot_example_wf, of 2])
    (simp_all add: fits_def oa_new_def boot_example_def kernel_example_def)

section \<open>Many objects\<close>

lemma alloc_many_inv:
  assumes wf: "oa_wf k oa" and a: "alloc_many k bp ob cb oa = Inr (slots, oa')"
  shows "cb < 64 \<and> oa_wf k oa' \<and> slots = map (\<lambda>i. oa_empty_start oa + i) [0..<2 ^ cb] \<and>
    oa_empty_start oa' = oa_empty_start oa + 2 ^ cb \<and> oa_empty_start oa' \<le> oa_empty_end oa \<and>
    (\<exists>idx u. fits k oa (BUntyped (ob + cb)) idx \<and> (\<forall>j<idx. \<not> fits k oa (BUntyped (ob + cb)) j) \<and>
      u = oa_untyped_start oa + idx \<and> u \<notin> used_regions oa \<and>
      oa_calls oa' = oa_calls oa @ [Retype u bp (oa_empty_start oa) (2 ^ cb)])"
proof -
  let ?n = "2 ^ cb :: nat"
  have n: "Suc (?n - 1) = ?n" by simp
  obtain u oa1 where cb: "cb < 64" and g: "get_the_first_untyped_slot k oa (BUntyped (ob + cb)) = Inr (u, oa1)"
    and e: "oa_empty_start oa1 < oa_empty_end oa1"
    and sk: "?n - 1 = 0 \<or> oa_empty_start oa1 + 1 + (?n - 1) \<le> oa_empty_end oa1"
    and acc: "k_accepts k (Retype u bp (oa_empty_start oa1) ?n)" and slots: "slots = map (\<lambda>i. oa_empty_start oa1 + i) [0..<?n]"
    and oa': "oa' = oa1\<lparr>oa_empty_start := oa_empty_start oa1 + 1 + (?n - 1), oa_calls := oa_calls oa1 @ [Retype u bp (oa_empty_start oa1) ?n]\<rparr>"
    using a by (auto simp: alloc_many_def get_empty_slot_def skip_slots_Inr invoke_def Let_def split: if_splits)
  from get_untyped_Inr [OF g] obtain idx where idx: "fits k oa (BUntyped (ob + cb)) idx" "\<forall>j<idx. \<not> fits k oa (BUntyped (ob + cb)) j"
      "u = oa_untyped_start oa + idx"
    and oa1: "oa1 = oa\<lparr>oa_untyped_list := (oa_untyped_list oa)[idx := (oa_untyped_list oa ! idx)\<lparr>uu_used := True\<rparr>]\<rparr>"
    and u: "u \<notin> used_regions oa" "used_regions oa1 = insert u (used_regions oa)" by blast
  have same: "oa_empty_start oa1 = oa_empty_start oa" "oa_empty_end oa1 = oa_empty_end oa" "oa_calls oa1 = oa_calls oa"
    by (simp_all add: oa1)
  have st: "oa_empty_start oa' = oa_empty_start oa + ?n" "oa_empty_end oa' = oa_empty_end oa" using same n by (simp_all add: oa')
  have le: "oa_empty_start oa + ?n \<le> oa_empty_end oa"
    using sk e same n by (cases "?n - 1 = 0") linarith+
  have "oa_wf k oa'"
    by (rule oa_wf_retype [OF wf u(1), of _ ?n bp]) (use u(2) same st le in \<open>simp_all add: oa'\<close>)
  then show ?thesis using idx u same st le cb slots by (auto simp: oa')
qed

text \<open>When \<^verbatim>\<open>alloc_many_ep\<close> returns, the endpoints are the next \<open>2 ^ cnt_bits\<close> consecutive slots, all
  distinct and inside the empty range, made by one invocation from one region that is large
  enough for all of them together and that no other object uses.\<close>

theorem alloc_many_ep_correct:
  assumes "oa_wf k oa" and "alloc_many_ep k cnt_bits oa = Inr (slots, oa')"
  shows "oa_wf k oa' \<and> length slots = 2 ^ cnt_bits \<and> distinct slots \<and>
    set slots = {oa_empty_start oa..<oa_empty_start oa'} \<and> oa_empty_start oa' \<le> oa_empty_end oa \<and>
    (\<exists>idx. fits k oa (BUntyped (k_endpoint_bits k + cnt_bits)) idx \<and>
      oa_calls oa' = oa_calls oa @ [Retype (oa_untyped_start oa + idx) BEndpoint (oa_empty_start oa) (2 ^ cnt_bits)])"
proof -
  from alloc_many_inv [OF assms(1) assms(2) [unfolded alloc_many_ep_def]] have
    a: "oa_wf k oa'" "slots = map (\<lambda>i. oa_empty_start oa + i) [0..<2 ^ cnt_bits]" "oa_empty_start oa' = oa_empty_start oa + 2 ^ cnt_bits"
    "oa_empty_start oa' \<le> oa_empty_end oa"
    "\<exists>idx. fits k oa (BUntyped (k_endpoint_bits k + cnt_bits)) idx \<and>
      oa_calls oa' = oa_calls oa @ [Retype (oa_untyped_start oa + idx) BEndpoint (oa_empty_start oa) (2 ^ cnt_bits)]" by auto
  have "set slots = {oa_empty_start oa..<oa_empty_start oa'}"
    using image_add_atLeastLessThan [of "oa_empty_start oa" 0 "2 ^ cnt_bits"] by (simp add: a(2,3) add.commute)
  moreover have "distinct slots" by (simp add: a(2) distinct_map inj_on_def)
  ultimately show ?thesis using a by auto
qed

theorem alloc_many_ep_correct_witness:
  "\<exists>slots oa'. alloc_many_ep kernel_example 3 (oa_new boot_example) = Inr (slots, oa') \<and> set slots = {200..<208} \<and> distinct slots"
proof -
  have "fits kernel_example (oa_new boot_example) (BUntyped 7) 2"
    by (simp add: fits_def oa_new_def boot_example_def kernel_example_def)
  then obtain u oa1 where g: "get_the_first_untyped_slot kernel_example (oa_new boot_example) (BUntyped 7) = Inr (u, oa1)"
    using get_untyped_ok [of kernel_example "oa_new boot_example" "BUntyped 7" 2] by (auto simp: oa_new_def boot_example_def)
  have oa1: "oa_empty_start oa1 = 200" "oa_empty_end oa1 = 400"
    using get_untyped_Inr [OF g] by (auto simp: oa_new_def boot_example_def)
  have ge: "get_empty_slot oa1 = Inr (200, oa1\<lparr>oa_empty_start := 201\<rparr>)" using oa1 by (simp add: get_empty_slot_def)
  have sk: "skip_slots 7 (oa1\<lparr>oa_empty_start := 201\<rparr>) = Inr (oa1\<lparr>oa_empty_start := 208\<rparr>)" using oa1 by (simp add: skip_slots_Inr)
  obtain slots oa' where a: "alloc_many_ep kernel_example 3 (oa_new boot_example) = Inr (slots, oa')"
    using g ge sk by (simp add: alloc_many_ep_def alloc_many_def guard_res_def Let_def invoke_def kernel_example_def)
  have "oa_empty_start oa' = 208"
    using alloc_many_inv [OF boot_example_wf a [unfolded alloc_many_ep_def]] by (simp add: oa_new_def boot_example_def)
  with alloc_many_ep_correct [OF boot_example_wf a] a show ?thesis by (auto simp: oa_new_def boot_example_def)
qed

section \<open>Threads\<close>

lemma page_mask: "(push_bit 12 1 - 1 :: u64) = mask 12"
  by (simp add: mask_eq_decr_exp)

text \<open>On a page-aligned stack the thread pointer is exactly in the middle.\<close>

lemma thread_pointer_middle:
  assumes "ptr mod 4096 = 0" and "ptr + 4096 * pages < 2 ^ 64" and "below \<le> pages"
  shows "thread_pointer pages below ptr = Inr (of_nat (ptr + 4096 * (pages - below)))"
proof -
  let ?top = "of_nat (ptr + 4096 * pages) :: u64" and ?tp = "of_nat (ptr + 4096 * (pages - below)) :: u64"
  have sub: "?top - of_nat (4096 * below) = ?tp"
  proof -
    have "ptr + 4096 * pages = (ptr + 4096 * (pages - below)) + 4096 * below" using assms(3) by (simp add: algebra_simps)
    then have "?top = ?tp + of_nat (4096 * below)" by (metis of_nat_add)
    then show ?thesis by simp
  qed
  have ut: "unat ?top = ptr + 4096 * pages" using assms(2) by (intro unat_of_nat_small) simp
  have "4096 * below \<le> ptr + 4096 * pages" using assms(3) by (simp add: trans_le_add2)
  moreover have "unat (of_nat (4096 * below) :: u64) = 4096 * below"
    using assms(2,3) by (intro unat_of_nat_small) simp
  ultimately have ge: "\<not> ?top < of_nat (4096 * below)" using ut by (simp add: word_less_nat_alt)
  have "(ptr + 4096 * (pages - below)) mod 2 ^ 12 = 0" using assms(1) by simp
  moreover have utp: "unat ?tp = ptr + 4096 * (pages - below)"
  proof (intro unat_of_nat_small)
    have "ptr + 4096 * (pages - below) \<le> ptr + 4096 * pages" by simp
    also have "\<dots> < 2 ^ LENGTH(64)" using assms(2) by simp
    finally show "ptr + 4096 * (pages - below) < 2 ^ LENGTH(64)" .
  qed
  ultimately have "\<forall>j<12. \<not> bit ?tp j" using unat_mod_exp_iff [of ?tp 12] by simp
  then have "?tp AND NOT (mask 12) = ?tp" by (intro bit_eqI) (auto simp: bit_simps)
  then show ?thesis unfolding thread_pointer_def Let_def page_mask sub using ge by (simp only: if_False)
qed

lemma aligned_16:
  assumes "n mod 4096 = 0" and "n < 2 ^ 64"
  shows "(of_nat n :: u64) AND NOT (16 - 1) = of_nat n"
proof -
  have "unat (of_nat n :: u64) = n" using assms(2) by (intro unat_of_nat_small) simp
  then have "\<forall>j<12. \<not> bit (of_nat n :: u64) j" using unat_mod_exp_iff [of "of_nat n :: u64" 12] assms(1) by simp
  moreover have m: "(16 - 1 :: u64) = mask 4" by (simp add: mask_eq_decr_exp)
  ultimately show ?thesis unfolding m by (intro bit_eqI) (auto simp: bit_simps)
qed

lemma kbind_Inr_Inr: "kbind m f = Inr (Inr y, oa') \<longleftrightarrow> (\<exists>x oa. m = Inr (Inr x, oa) \<and> f x oa = Inr (Inr y, oa'))"
proof (cases m)
  case (Inr p)
  then show ?thesis by (cases p; cases "fst p") (auto simp: kbind_def)
qed (simp add: kbind_def)

lemma kcall_res_Inr: "kcall_res k c oa = Inr (Inr u, oa') \<longleftrightarrow> k_accepts k c \<and> oa' = oa\<lparr>oa_calls := oa_calls oa @ [c]\<rparr>"
  by (auto simp: kcall_res_def invoke_def)

lemma allocated_Inr:
  assumes "allocated k bp oa (Inr slot) oa'"
  shows "oa_wf k oa' \<and> slot = oa_empty_start oa \<and> oa_empty_start oa' = oa_empty_start oa + 1 \<and>
    (\<exists>u. u \<notin> used_regions oa \<and> oa_calls oa' = oa_calls oa @ [Retype u bp slot 1])"
  using assms by (auto simp: allocated_def split: if_splits)

text \<open>C28. When \<^verbatim>\<open>create_thread\<close> succeeds, it has made, in this order, a thread control block and an
  endpoint in fresh consecutive slots from two different regions, configured the thread with
  its IPC buffer, set its priority, read and written its registers, set its affinity and, if
  asked, resumed it.  On a page-aligned stack of 256 pages its stack pointer and thread
  pointer are the middle of the stack, its entry point and arguments those passed.\<close>

theorem create_thread_success:
  assumes wf: "oa_wf k oa" and c: "create_thread k im ipc stack func args prio affinity resume oa = Inr (Inr tcb, oa')"
    and st: "stack mod 4096 = 0" "stack + 4096 * 256 < 2 ^ 64"
  shows "oa_wf k oa' \<and> tcb = oa_empty_start oa \<and> stack \<noteq> 0 \<and>
    (\<exists>u1 u2 cap ctx. u1 \<noteq> u2 \<and> get_user_image_frame_slot im ipc = Inr cap \<and>
      oa_calls oa' = oa_calls oa @ [Retype u1 BTCB tcb 1, Retype u2 BEndpoint (tcb + 1) 1, TcbConfigure tcb (tcb + 1) ipc cap,
        TcbSetSchedParams tcb prio, TcbReadRegisters tcb, TcbWriteAllRegisters tcb ctx, TcbSetAffinity tcb affinity] @
        (if resume then [TcbResume tcb] else []) \<and>
      uc_tp ctx = of_nat (stack + 4096 * 128) \<and> uc_sp ctx = of_nat (stack + 4096 * 128) \<and> uc_pc ctx = func \<and>
      uc_a0 ctx = of_nat args \<and> uc_a1 ctx = of_nat ipc)"
proof -
  let ?tp = "of_nat (stack + 4096 * 128) :: u64"
  have tp: "thread_pointer 256 128 stack = Inr ?tp" using thread_pointer_middle [OF st, of 128] by simp
  let ?ctx = "thread_context k (k_registers k tcb) ?tp func args ipc"
  from c obtain cap oa1 ep oa2 where cap: "get_user_image_frame_slot im ipc = Inr cap"
    and t: "alloc_tcb k oa = Inr (Inr tcb, oa1)" and e: "alloc_ep k oa1 = Inr (Inr ep, oa2)" and st0: "stack \<noteq> 0"
    and oa': "oa' = oa2\<lparr>oa_calls := oa_calls oa2 @ [TcbConfigure tcb ep ipc cap, TcbSetSchedParams tcb prio, TcbReadRegisters tcb,
      TcbWriteAllRegisters tcb ?ctx, TcbSetAffinity tcb affinity] @ (if resume then [TcbResume tcb] else [])\<rparr>"
    by (auto simp: create_thread_def kbind_Inr_Inr kcall_res_Inr tp split: if_splits)
  from allocated_Inr [OF alloc_object_inv [OF wf t [unfolded alloc_tcb_def]]] obtain u1 where
    wf1: "oa_wf k oa1" and tcb: "tcb = oa_empty_start oa" and s1: "oa_empty_start oa1 = oa_empty_start oa + 1"
    and c1: "oa_calls oa1 = oa_calls oa @ [Retype u1 BTCB tcb 1]" by blast
  from allocated_Inr [OF alloc_object_inv [OF wf1 e [unfolded alloc_ep_def]]] obtain u2 where
    wf2: "oa_wf k oa2" and ep: "ep = tcb + 1" and u2: "u2 \<notin> used_regions oa1"
    and c2: "oa_calls oa2 = oa_calls oa1 @ [Retype u2 BEndpoint ep 1]" using s1 tcb by auto
  have "Retype u1 BTCB tcb 1 \<in> set (retypes oa1)" by (simp add: retypes_def c1)
  then have "u1 \<in> used_regions oa1" using wf1 by (fastforce simp: oa_wf_def)
  then have ne: "u1 \<noteq> u2" using u2 by blast
  have "retypes oa' = retypes oa2" by (simp add: retypes_def oa')
  then have wf': "oa_wf k oa'" using wf2 by (simp add: oa_wf_def oa')
  have "(stack + 4096 * 128) mod 4096 = 0" "stack + 4096 * 128 < 2 ^ 64" using st by (simp only: mod_mult_self2) (use st in simp)
  then have "?tp AND NOT (16 - 1) = ?tp" by (rule aligned_16)
  then have "uc_tp ?ctx = ?tp" "uc_sp ?ctx = ?tp" "uc_pc ?ctx = func" "uc_a0 ?ctx = of_nat args" "uc_a1 ?ctx = of_nat ipc"
    by (simp_all add: thread_context_def)
  then show ?thesis using wf' tcb st0 cap ne ep by (auto simp: oa' c1 c2)
qed

lemmas alloc_eval = alloc_tcb_def alloc_ep_def alloc_object_def get_the_first_untyped_slot_def get_empty_slot_def invoke_def
  range_find.simps Let_def add_usize_def

lemma create_thread_example:
  "\<exists>oa'. create_thread kernel_example image_example 69632 1048576 4096 9 255 0 True (oa_new boot_example) = Inr (Inr 200, oa')"
proof -
  have slot: "get_user_image_frame_slot image_example 69632 = Inr 101"
    using frame_slot_eq(1) [OF image_example_ok, of 69632]
    by (simp add: image_example_start image_example_stop) (simp add: image_example_def)
  have tp: "thread_pointer 256 128 1048576 = Inr (of_nat (1048576 + 4096 * 128))"
    using thread_pointer_middle [of 1048576 256 128] by simp
  obtain oa1 where t: "alloc_tcb kernel_example (oa_new boot_example) = Inr (Inr 200, oa1)"
    and oa1: "oa_untyped_list oa1 = [\<lparr>uu_desc = \<lparr>ud_is_device = True, ud_size_bits = 20, ud_paddr = 0\<rparr>, uu_used = False\<rparr>,
      \<lparr>uu_desc = \<lparr>ud_is_device = False, ud_size_bits = 4, ud_paddr = 0\<rparr>, uu_used = False\<rparr>,
      \<lparr>uu_desc = \<lparr>ud_is_device = False, ud_size_bits = 12, ud_paddr = 0\<rparr>, uu_used = True\<rparr>,
      \<lparr>uu_desc = \<lparr>ud_is_device = False, ud_size_bits = 11, ud_paddr = 0\<rparr>, uu_used = False\<rparr>]"
      "oa_untyped_start oa1 = 50" "oa_empty_start oa1 = 201" "oa_empty_end oa1 = 400"
    by (simp add: alloc_eval kernel_example_def oa_new_def boot_example_def)
  obtain oa2 where e: "alloc_ep kernel_example oa1 = Inr (Inr 201, oa2)"
    using oa1 by (simp add: alloc_eval kernel_example_def)
  show ?thesis
    using slot tp t e by (simp add: create_thread_def kbind_def kcall_res_def invoke_def kernel_example_def)
qed

theorem create_thread_success_witness:
  "\<exists>oa' u1 u2 cap ctx. create_thread kernel_example image_example 69632 1048576 4096 9 255 0 True (oa_new boot_example) = Inr (Inr 200, oa') \<and>
     oa_calls oa' = [Retype u1 BTCB 200 1, Retype u2 BEndpoint 201 1, TcbConfigure 200 201 69632 cap,
     TcbSetSchedParams 200 255, TcbReadRegisters 200, TcbWriteAllRegisters 200 ctx, TcbSetAffinity 200 0, TcbResume 200] \<and>
     u1 \<noteq> u2 \<and> uc_sp ctx = of_nat (1048576 + 4096 * 128)"
proof -
  obtain oa' where c: "create_thread kernel_example image_example 69632 1048576 4096 9 255 0 True (oa_new boot_example) = Inr (Inr 200, oa')"
    using create_thread_example by blast
  from create_thread_success [OF boot_example_wf c] obtain u1 u2 cap ctx where
    "u1 \<noteq> u2" "oa_calls oa' = oa_calls (oa_new boot_example) @ [Retype u1 BTCB 200 1, Retype u2 BEndpoint (200 + 1) 1,
      TcbConfigure 200 (200 + 1) 69632 cap, TcbSetSchedParams 200 255, TcbReadRegisters 200, TcbWriteAllRegisters 200 ctx,
      TcbSetAffinity 200 0] @ (if True then [TcbResume 200] else [])" "uc_sp ctx = of_nat (1048576 + 4096 * 128)"
    by auto
  moreover have "oa_calls (oa_new boot_example) = []" by (simp add: oa_new_def)
  ultimately show ?thesis using c by simp
qed

section \<open>A pool of four regions\<close>

text \<open>The allocator of concrete runs: four regions of 20 bits.\<close>

definition region :: "bool \<Rightarrow> used_untyped_desc" where
  "region used = \<lparr>uu_desc = \<lparr>ud_is_device = False, ud_size_bits = 20, ud_paddr = 0\<rparr>, uu_used = used\<rparr>"

definition pool_boot :: boot_info where
  "pool_boot = \<lparr>bi_untyped_list = map uu_desc (map region [False, False, False, False]),
     bi_untyped_start = 50, bi_empty_start = 200, bi_empty_end = 1000\<rparr>"

text \<open>The allocator with some of its regions used.\<close>

definition regions_used :: "bool list \<Rightarrow> usize \<Rightarrow> object_allocator \<Rightarrow> bool" where
  "regions_used us slot oa \<longleftrightarrow> oa_untyped_list oa = map region us \<and> oa_untyped_start oa = 50 \<and> oa_empty_start oa = slot \<and> oa_empty_end oa = 1000"

lemma pool_boot_regions: "regions_used [False, False, False, False] 200 (oa_new pool_boot)"
  by (simp add: regions_used_def oa_new_def pool_boot_def region_def)

lemma regions_invoke [simp]: "regions_used us slot (snd (invoke k c oa)) = regions_used us slot oa"
  by (simp add: regions_used_def invoke_def)

lemma region_taken:
  assumes oa: "regions_used (replicate m True @ False # us) slot oa" and b: "k_physical_size_bits kernel_example bp \<le> 20" and m: "m < 100"
  shows "\<exists>oa'. get_the_first_untyped_slot kernel_example oa bp = Inr (50 + m, oa') \<and> regions_used (replicate (Suc m) True @ us) slot oa'"
proof -
  have l: "oa_untyped_list oa = map region (replicate m True) @ region False # map region us" using oa by (simp add: regions_used_def)
  have "range_find (\<lambda>i. let u = oa_untyped_list oa ! i in
         \<not> ud_is_device (uu_desc u) \<and> k_physical_size_bits kernel_example bp \<le> ud_size_bits (uu_desc u) \<and> uu_used u = False) 0 (length (oa_untyped_list oa)) = Some m"
    unfolding range_find_Some_iff l using b by (auto simp: nth_append region_def)
  moreover have "(oa_untyped_list oa)[m := (oa_untyped_list oa ! m)\<lparr>uu_used := True\<rparr>] = map region (replicate (Suc m) True @ us)"
    by (simp add: l list_update_append nth_append region_def replicate_app_Cons_same)
  ultimately show ?thesis using oa m by (simp add: get_the_first_untyped_slot_def regions_used_def add_usize_def)
qed

lemma kernel_accepts: "k_accepts kernel_example c"
  by (simp add: kernel_example_def)

lemma object_allocated:
  assumes oa: "regions_used (replicate m True @ False # us) slot oa" and b: "k_physical_size_bits kernel_example bp \<le> 20" and m: "m < 100" "slot < 1000"
  shows "\<exists>oa'. alloc_object kernel_example bp oa = Inr (Inr slot, oa') \<and> regions_used (replicate (Suc m) True @ us) (slot + 1) oa'"
proof -
  obtain oa1 where g: "get_the_first_untyped_slot kernel_example oa bp = Inr (50 + m, oa1)"
    and oa1: "regions_used (replicate (Suc m) True @ us) slot oa1"
    using region_taken [OF oa b m(1)] by blast
  have e: "get_empty_slot oa1 = Inr (slot, oa1\<lparr>oa_empty_start := slot + 1\<rparr>)" using oa1 m(2) by (simp add: get_empty_slot_def regions_used_def)
  have "alloc_object kernel_example bp oa = Inr (Inr slot, snd (invoke kernel_example (Retype (50 + m) bp slot 1) (oa1\<lparr>oa_empty_start := slot + 1\<rparr>)))"
    unfolding alloc_object_def g by (simp add: e invoke_def kernel_accepts)
  then show ?thesis using oa1 by (intro exI) (auto simp: regions_used_def invoke_def)
qed

lemma frames_allocated:
  assumes oa: "regions_used (replicate m True @ False # us) slot oa" and m: "m < 100" "slot + 256 < 1000"
  shows "\<exists>oa'. alloc_many_frame kernel_example 8 oa = Inr (map (\<lambda>i. slot + i) [0..<256], oa') \<and> regions_used (replicate (Suc m) True @ us) (slot + 256) oa'"
proof -
  obtain oa1 where g: "get_the_first_untyped_slot kernel_example oa (BUntyped 20) = Inr (50 + m, oa1)"
    and oa1: "regions_used (replicate (Suc m) True @ us) slot oa1"
    using region_taken [OF oa _ m(1), of "BUntyped 20"] by (auto simp: kernel_example_def)
  have "skip_slots 255 (oa1\<lparr>oa_empty_start := Suc slot\<rparr>) = Inr (oa1\<lparr>oa_empty_start := slot + 256\<rparr>)"
    using oa1 m(2) by (simp add: skip_slots_Inr regions_used_def)
  then show ?thesis
    using g oa1 m(2) unfolding alloc_many_frame_def alloc_many_def Let_def
    by (simp add: guard_res_def get_empty_slot_def invoke_def regions_used_def kernel_example_def del: upt_Suc)
qed

end
