(* ===== verification/Index_Allocator.thy ===== *)
theory Index_Allocator
  imports Prelude
begin

unbundle bit_operations_syntax

text \<open>
  \<^verbatim>\<open>IndexAllocator<SIZE>\<close> of \<^verbatim>\<open>async_runtime/src/utils.rs\<close>: a byte bitmap that hands out the
  least free index.  The coroutine identifiers, the user-interrupt vectors and the DMA
  buffers of the program are all managed by instances of it.  The locale \<open>index_pool\<close>
  states the contract its clients rely on.
\<close>

section \<open>Model\<close>

record index_allocator =
  ia_bitmap :: "u8 list"

definition ia_new :: "nat \<Rightarrow> index_allocator" where
  "ia_new SIZE = \<lparr>ia_bitmap = replicate ((SIZE + 7) div 8) 0\<rparr>"

definition ia_allocate :: "nat \<Rightarrow> index_allocator \<Rightarrow> usize option \<times> index_allocator" where
  "ia_allocate SIZE a =
     (let bm = ia_bitmap a in
      case range_find (\<lambda>i. bm ! (i div 8) AND push_bit (i mod 8) 1 = 0) 0 SIZE of
        None \<Rightarrow> (None, a)
      | Some index \<Rightarrow>
          (Some index,
           a\<lparr>ia_bitmap := bm[index div 8 := bm ! (index div 8) OR push_bit (index mod 8) 1]\<rparr>))"

definition ia_release :: "index_allocator \<Rightarrow> usize \<Rightarrow> index_allocator res" where
  "ia_release a index =
     (let bm = ia_bitmap a in
      rbind (index_res bm (index div 8)) (\<lambda>b.
      Inr (a\<lparr>ia_bitmap := bm[index div 8 := b AND NOT (push_bit (index mod 8) 1)]\<rparr>)))"

text \<open>The indices in use, and the shape the array type gives the bitmap.\<close>

definition ia_used :: "nat \<Rightarrow> index_allocator \<Rightarrow> nat set" where
  "ia_used SIZE a = {i. i < SIZE \<and> bit (ia_bitmap a ! (i div 8)) (i mod 8)}"

definition ia_wf :: "nat \<Rightarrow> index_allocator \<Rightarrow> bool" where
  "ia_wf SIZE a \<longleftrightarrow> length (ia_bitmap a) = (SIZE + 7) div 8"

section \<open>The contract of an index pool\<close>

locale index_pool =
  fixes alloc :: "'p \<Rightarrow> nat option \<times> 'p"
    and release :: "'p \<Rightarrow> nat \<Rightarrow> 'p res"
    and used :: "'p \<Rightarrow> nat set"
    and invar :: "'p \<Rightarrow> bool"
    and cap :: nat
  assumes used_bound: "invar p \<Longrightarrow> used p \<subseteq> {..<cap}"
    and alloc_None: "invar p \<Longrightarrow> alloc p = (None, p') \<Longrightarrow> p' = p \<and> used p = {..<cap}"
    and alloc_Some: "invar p \<Longrightarrow> alloc p = (Some i, p') \<Longrightarrow>
      invar p' \<and> i < cap \<and> i \<notin> used p \<and> {..<i} \<subseteq> used p \<and> used p' = insert i (used p)"
    and release_ok: "invar p \<Longrightarrow> i < cap \<Longrightarrow>
      \<exists>p'. release p i = Inr p' \<and> invar p' \<and> used p' = used p - {i}"
begin

lemma used_finite: "invar p \<Longrightarrow> finite (used p)"
  using used_bound finite_subset by blast

lemma alloc_least:
  assumes "invar p" and "alloc p = (Some i, p')"
  shows "i \<le> card (used p)"
proof -
  from assms have "{..<i} \<subseteq> used p" by (auto dest: alloc_Some)
  then have "card {..<i} \<le> card (used p)"
    using assms(1) by (intro card_mono used_finite)
  then show ?thesis by simp
qed

lemma alloc_total:
  assumes "invar p" and "card (used p) < cap"
  shows "\<exists>i p'. alloc p = (Some i, p') \<and> invar p' \<and> i \<le> card (used p) \<and> i \<notin> used p \<and>
    used p' = insert i (used p)"
proof -
  obtain r p' where r: "alloc p = (r, p')" by (cases "alloc p")
  have "r \<noteq> None"
  proof
    assume "r = None"
    with r assms(1) have "used p = {..<cap}" by (auto dest: alloc_None)
    with assms(2) show False by simp
  qed
  then obtain i where "alloc p = (Some i, p')" using r by auto
  with assms(1) show ?thesis using alloc_Some alloc_least by blast
qed

lemma alloc_full: "invar p \<Longrightarrow> fst (alloc p) = None \<longleftrightarrow> used p = {..<cap}"
proof -
  assume inv: "invar p"
  obtain r p' where r: "alloc p = (r, p')" by (cases "alloc p")
  show ?thesis
  proof (cases r)
    case None
    with r inv show ?thesis by (auto dest: alloc_None)
  next
    case (Some i)
    with r inv alloc_Some [of p i p'] show ?thesis by auto
  qed
qed

lemma alloc_release:
  assumes "invar p" and "alloc p = (Some i, p')"
  shows "\<exists>p''. release p' i = Inr p'' \<and> used p'' = used p"
proof -
  from assms have a: "invar p'" "i < cap" "i \<notin> used p" "used p' = insert i (used p)"
    by (auto dest: alloc_Some)
  from release_ok [OF a(1,2)] obtain p'' where "release p' i = Inr p''" "used p'' = used p' - {i}"
    by blast
  with a show ?thesis by simp
qed

end

section \<open>The byte bitmap implements the contract\<close>

lemma ia_index_bound: "i < SIZE \<Longrightarrow> i div 8 < (SIZE + 7) div (8 :: nat)"
  by linarith

lemma ia_new_wf: "ia_wf SIZE (ia_new SIZE)" and ia_new_used: "ia_used SIZE (ia_new SIZE) = {}"
  by (auto simp: ia_wf_def ia_new_def ia_used_def ia_index_bound)

lemma div_mod_8_eq_iff: "(j :: nat) div 8 = i div 8 \<Longrightarrow> j mod 8 = i mod 8 \<Longrightarrow> j = i"
  by (metis div_mult_mod_eq)

lemma ia_used_set_bit:
  assumes "ia_wf SIZE a" and "i < SIZE"
  shows "ia_used SIZE (a\<lparr>ia_bitmap := (ia_bitmap a)[i div 8 := ia_bitmap a ! (i div 8) OR push_bit (i mod 8) 1]\<rparr>)
    = insert i (ia_used SIZE a)"
  using assms ia_index_bound [OF assms(2)]
  by (auto simp: ia_used_def ia_wf_def nth_list_update bit_simps dest: div_mod_8_eq_iff split: if_splits)

lemma ia_used_clear_bit:
  assumes "ia_wf SIZE a" and "i < SIZE"
  shows "ia_used SIZE (a\<lparr>ia_bitmap := (ia_bitmap a)[i div 8 := ia_bitmap a ! (i div 8) AND NOT (push_bit (i mod 8) 1)]\<rparr>)
    = ia_used SIZE a - {i}"
  using assms ia_index_bound [OF assms(2)]
  by (auto simp: ia_used_def ia_wf_def nth_list_update bit_simps dest: div_mod_8_eq_iff split: if_splits)

interpretation ia: index_pool "ia_allocate SIZE" ia_release "ia_used SIZE" "ia_wf SIZE" SIZE
  for SIZE :: nat
proof (unfold_locales, goal_cases)
  case (1 p)
  show ?case by (auto simp: ia_used_def)
next
  case (2 p p')
  then show ?case
    by (auto simp: ia_allocate_def Let_def range_find_None_iff ia_used_def and_exp_eq_0_iff_not_bit
        split: option.splits)
next
  case (3 p i p')
  then have "range_find (\<lambda>i. ia_bitmap p ! (i div 8) AND push_bit (i mod 8) 1 = 0) 0 SIZE = Some i"
    and p': "p' = p\<lparr>ia_bitmap := (ia_bitmap p)[i div 8 := ia_bitmap p ! (i div 8) OR push_bit (i mod 8) 1]\<rparr>"
    by (auto simp: ia_allocate_def Let_def split: option.splits)
  then have i: "i < SIZE" "\<not> bit (ia_bitmap p ! (i div 8)) (i mod 8)"
    "\<And>j. j < i \<Longrightarrow> bit (ia_bitmap p ! (j div 8)) (j mod 8)"
    by (auto simp: range_find_Some_iff and_exp_eq_0_iff_not_bit)
  with p' 3 show ?case
    using ia_used_set_bit [OF 3(1) i(1)] by (auto simp: ia_used_def ia_wf_def)
next
  case (4 p i)
  then show ?case
    using ia_used_clear_bit [OF 4] ia_index_bound [OF 4(2)]
    by (auto simp: ia_release_def Let_def index_res_def ia_wf_def)
qed

section \<open>Property\<close>

text \<open>\<^verbatim>\<open>allocate\<close> returns \<^verbatim>\<open>None\<close> exactly when every index is in use, and otherwise the least
  index not in use, which it marks; \<^verbatim>\<open>release\<close> of that index gives the old set back.\<close>

theorem index_allocator_correct:
  assumes "ia_wf SIZE a"
  shows "case ia_allocate SIZE a of
      (None, a') \<Rightarrow> a' = a \<and> ia_used SIZE a = {..<SIZE}
    | (Some i, a') \<Rightarrow> i < SIZE \<and> i = (LEAST j. j \<notin> ia_used SIZE a) \<and> ia_wf SIZE a' \<and>
        ia_used SIZE a' = insert i (ia_used SIZE a) \<and>
        (\<exists>a''. ia_release a' i = Inr a'' \<and> ia_used SIZE a'' = ia_used SIZE a)"
proof (cases "ia_allocate SIZE a")
  case (Pair r a')
  show ?thesis
  proof (cases r)
    case None
    with Pair ia.alloc_None [OF assms, of a'] show ?thesis by simp
  next
    case (Some i)
    with Pair have al: "ia_allocate SIZE a = (Some i, a')" by simp
    note spec = ia.alloc_Some [OF assms al]
    then have "i = (LEAST j. j \<notin> ia_used SIZE a)"
      by (intro Least_equality [symmetric]) (auto simp: not_le [symmetric])
    with al spec ia.alloc_release [OF assms al] show ?thesis by simp
  qed
qed

theorem index_allocator_correct_witness:
  "ia_used 10 (ia_new 10) = {} \<and> fst (ia_allocate 10 (ia_new 10)) = Some 0 \<and>
   ia_used 10 (snd (ia_allocate 10 (ia_new 10))) = {0}"
proof -
  have "{..<10 :: nat} \<noteq> {}" by (simp add: lessThan_empty_iff)
  then show ?thesis
    using index_allocator_correct [OF ia_new_wf [of 10]]
    by (auto simp: ia_new_used split: prod.splits option.splits)
qed

end
