(* ===== verification/Bitmaps.thy ===== *)
theory Bitmaps
  imports Prelude
begin

unbundle bit_operations_syntax

text \<open>
  The \<^verbatim>\<open>BitMap\<close> trait of \<^verbatim>\<open>async_runtime/src/utils.rs\<close> and its two implementations: the flat
  \<^verbatim>\<open>BitMap64\<close> (the executor's priority bitmap) and the two-level \<^verbatim>\<open>BitMap4096\<close>.  The trait is
  the locale \<open>bitmap\<close>, a bitmap being a finite set of positions below its capacity.
\<close>

section \<open>Model\<close>

record bitmap64 =
  bm_data :: u64

definition bm64_new :: bitmap64 where
  "bm64_new = \<lparr>bm_data = 0\<rparr>"

definition bm64_empty :: "bitmap64 \<Rightarrow> bool" where
  "bm64_empty b \<longleftrightarrow> bm_data b = 0"

definition bm64_set :: "bitmap64 \<Rightarrow> usize \<Rightarrow> bitmap64 res" where
  "bm64_set b pos =
     (if pos < 64 then Inr (b\<lparr>bm_data := bm_data b OR push_bit pos 1\<rparr>) else Inl AssertFailed)"

definition bm64_get :: "bitmap64 \<Rightarrow> usize \<Rightarrow> bool res" where
  "bm64_get b pos =
     (if pos < 64 then Inr (bm_data b AND push_bit pos 1 \<noteq> 0) else Inl ArithOverflow)"

definition bm64_clear :: "bitmap64 \<Rightarrow> usize \<Rightarrow> bitmap64 res" where
  "bm64_clear b pos =
     (if pos < 64 then Inr (b\<lparr>bm_data := bm_data b AND NOT (push_bit pos 1)\<rparr>) else Inl AssertFailed)"

definition bm64_find_first_one :: "bitmap64 \<Rightarrow> usize" where
  "bm64_find_first_one b = trailing_zeros (bm_data b)"

definition bm64_find_first_zero :: "bitmap64 \<Rightarrow> usize" where
  "bm64_find_first_zero b = trailing_ones (bm_data b)"

record bitmap4096 =
  bm_l1 :: bitmap64
  bm_l2 :: "bitmap64 list"

definition bm4096_new :: bitmap4096 where
  "bm4096_new = \<lparr>bm_l1 = bm64_new, bm_l2 = replicate 64 bm64_new\<rparr>"

definition bm4096_empty :: "bitmap4096 \<Rightarrow> bool" where
  "bm4096_empty b \<longleftrightarrow> bm64_empty (bm_l1 b)"

definition bm4096_set :: "bitmap4096 \<Rightarrow> usize \<Rightarrow> bitmap4096 res" where
  "bm4096_set b pos =
     (let l1_index = drop_bit 6 pos; l2_index = pos AND 63 in
      rbind (bm64_set (bm_l1 b) l1_index) (\<lambda>l1.
      rbind (index_res (bm_l2 b) l1_index) (\<lambda>w.
      rbind (bm64_set w l2_index) (\<lambda>w'.
      Inr (b\<lparr>bm_l1 := l1, bm_l2 := (bm_l2 b)[l1_index := w']\<rparr>)))))"

definition bm4096_get :: "bitmap4096 \<Rightarrow> usize \<Rightarrow> bool res" where
  "bm4096_get b pos =
     (let l1_index = drop_bit 6 pos; l2_index = pos AND 63 in
      rbind (bm64_get (bm_l1 b) l1_index) (\<lambda>present.
      if present then rbind (index_res (bm_l2 b) l1_index) (\<lambda>w. bm64_get w l2_index)
      else Inr False))"

definition bm4096_clear :: "bitmap4096 \<Rightarrow> usize \<Rightarrow> bitmap4096 res" where
  "bm4096_clear b pos =
     (let l1_index = drop_bit 6 pos; l2_index = pos AND 63 in
      rbind (index_res (bm_l2 b) l1_index) (\<lambda>w.
      rbind (bm64_clear w l2_index) (\<lambda>w'.
      let l2 = (bm_l2 b)[l1_index := w'] in
      if bm_data w' = 0
      then rbind (bm64_clear (bm_l1 b) l1_index) (\<lambda>l1. Inr (b\<lparr>bm_l1 := l1, bm_l2 := l2\<rparr>))
      else Inr (b\<lparr>bm_l2 := l2\<rparr>))))"

definition bm4096_find_first_one :: "bitmap4096 \<Rightarrow> usize" where
  "bm4096_find_first_one b =
     (let l1_index = bm64_find_first_one (bm_l1 b) in
      if l1_index = 64 then push_bit 6 64
      else let l2_index = bm64_find_first_one (bm_l2 b ! l1_index) in
        push_bit 6 l1_index + l2_index)"

definition bm4096_find_first_zero :: "bitmap4096 \<Rightarrow> usize" where
  "bm4096_find_first_zero b =
     (case range_find (\<lambda>l1_index. bm64_find_first_zero (bm_l2 b ! l1_index) < 64) 0 64 of
        Some l1_index \<Rightarrow> push_bit 6 l1_index + bm64_find_first_zero (bm_l2 b ! l1_index)
      | None \<Rightarrow> 64 * 64)"

definition bm4096_fetch :: "bitmap4096 \<Rightarrow> (usize option \<times> bitmap4096) res" where
  "bm4096_fetch b =
     (let pos = bm4096_find_first_one b in
      if pos \<ge> 4096 then Inr (None, b)
      else rbind (bm4096_clear b pos) (\<lambda>b'. Inr (Some pos, b')))"

text \<open>The positions a bitmap holds, and the invariant of the two-level form.\<close>

definition bm64_elems :: "bitmap64 \<Rightarrow> nat set" where
  "bm64_elems b = {i. i < 64 \<and> bit (bm_data b) i}"

definition bm4096_elems :: "bitmap4096 \<Rightarrow> nat set" where
  "bm4096_elems b = {i. i < 4096 \<and> i mod 64 \<in> bm64_elems (bm_l2 b ! (i div 64))}"

definition bm4096_wf :: "bitmap4096 \<Rightarrow> bool" where
  "bm4096_wf b \<longleftrightarrow> length (bm_l2 b) = 64 \<and>
     (\<forall>i<64. i \<in> bm64_elems (bm_l1 b) \<longleftrightarrow> bm64_elems (bm_l2 b ! i) \<noteq> {})"

section \<open>The trait as an interface\<close>

locale bitmap =
  fixes bset :: "'b \<Rightarrow> nat \<Rightarrow> 'b res"
    and bget :: "'b \<Rightarrow> nat \<Rightarrow> bool res"
    and bclear :: "'b \<Rightarrow> nat \<Rightarrow> 'b res"
    and first_one :: "'b \<Rightarrow> nat"
    and first_zero :: "'b \<Rightarrow> nat"
    and elems :: "'b \<Rightarrow> nat set"
    and invar :: "'b \<Rightarrow> bool"
    and cap :: nat
  assumes elems_bound: "invar b \<Longrightarrow> elems b \<subseteq> {..<cap}"
    and set_spec: "invar b \<Longrightarrow> i < cap \<Longrightarrow>
      \<exists>b'. bset b i = Inr b' \<and> invar b' \<and> elems b' = insert i (elems b)"
    and get_spec: "invar b \<Longrightarrow> i < cap \<Longrightarrow> bget b i = Inr (i \<in> elems b)"
    and clear_spec: "invar b \<Longrightarrow> i < cap \<Longrightarrow>
      \<exists>b'. bclear b i = Inr b' \<and> invar b' \<and> elems b' = elems b - {i}"
    and first_one_empty: "invar b \<Longrightarrow> elems b = {} \<Longrightarrow> first_one b = cap"
    and first_one_in: "invar b \<Longrightarrow> elems b \<noteq> {} \<Longrightarrow> first_one b \<in> elems b"
    and first_one_le: "invar b \<Longrightarrow> i \<in> elems b \<Longrightarrow> first_one b \<le> i"
    and first_zero_spec: "invar b \<Longrightarrow>
      first_zero b \<notin> elems b \<and> first_zero b \<le> cap \<and> {..<first_zero b} \<subseteq> elems b"
begin

lemma first_one_cap_iff: "invar b \<Longrightarrow> first_one b = cap \<longleftrightarrow> elems b = {}"
  using elems_bound first_one_empty first_one_in by fastforce

lemma first_one_Min:
  assumes "invar b" and "elems b \<noteq> {}"
  shows "first_one b = Min (elems b)"
proof -
  have "finite (elems b)"
    using elems_bound [OF assms(1)] finite_subset by blast
  then show ?thesis
    using assms first_one_in first_one_le by (intro Min_eqI [symmetric]) auto
qed

lemma first_one_set:
  assumes "invar b" and "i < cap" and "bset b i = Inr b'"
  shows "first_one b' = min i (first_one b)"
proof -
  from set_spec [OF assms(1,2)] assms(3) have b': "invar b'" "elems b' = insert i (elems b)"
    by auto
  have "first_one b' \<in> elems b'" using b' by (intro first_one_in) auto
  moreover have "first_one b' \<le> i" using b' by (intro first_one_le) auto
  moreover have "\<And>j. j \<in> elems b \<Longrightarrow> first_one b' \<le> j" using b' by (intro first_one_le) auto
  moreover have "\<And>j. j \<in> elems b \<Longrightarrow> first_one b \<le> j" using assms(1) by (rule first_one_le)
  ultimately show ?thesis
    using assms b' first_one_in [OF assms(1)] first_one_empty [OF assms(1)]
    by (cases "elems b = {}") (force simp: min_def)+
qed

lemma set_get:
  assumes "invar b" and "i < cap" and "j < cap" and "bset b i = Inr b'"
  shows "bget b' j = Inr (j = i \<or> bget b j = Inr True)"
  using set_spec [OF assms(1,2)] get_spec assms by auto

lemma clear_get:
  assumes "invar b" and "i < cap" and "j < cap" and "bclear b i = Inr b'"
  shows "bget b' j = Inr (j \<noteq> i \<and> bget b j = Inr True)"
  using clear_spec [OF assms(1,2)] get_spec assms by auto

lemma first_zero_cap_iff: "invar b \<Longrightarrow> first_zero b = cap \<longleftrightarrow> elems b = {..<cap}"
  using elems_bound first_zero_spec by fastforce

end

section \<open>The flat bitmap\<close>

lemma trailing_zeros_cases:
  "trailing_zeros w = 64 \<and> (\<forall>i<64. \<not> bit w i) \<or>
   trailing_zeros w < 64 \<and> bit w (trailing_zeros w) \<and> (\<forall>i<trailing_zeros w. \<not> bit w i)"
  by (auto simp: trailing_zeros_def range_find_None_iff range_find_Some_iff split: option.split)

lemma trailing_ones_cases:
  "trailing_ones w = 64 \<and> (\<forall>i<64. bit w i) \<or>
   trailing_ones w < 64 \<and> \<not> bit w (trailing_ones w) \<and> (\<forall>i<trailing_ones w. bit w i)"
  by (auto simp: trailing_ones_def range_find_None_iff range_find_Some_iff split: option.split)

lemma bm64_elems_empty_iff: "bm64_elems b = {} \<longleftrightarrow> bm_data b = 0"
  by (auto simp: bm64_elems_def bit_eq_iff bit_simps)

lemma bm64_new_elems [simp]: "bm64_elems bm64_new = {}"
  by (simp add: bm64_elems_def bm64_new_def)

interpretation bm64: bitmap bm64_set bm64_get bm64_clear bm64_find_first_one bm64_find_first_zero
  bm64_elems "\<lambda>_. True" 64
proof (unfold_locales, goal_cases)
  case (2 b i)
  then show ?case by (auto simp: bm64_set_def bm64_elems_def bit_simps)
next
  case (3 b i)
  then show ?case by (simp add: bm64_get_def bm64_elems_def and_exp_eq_0_iff_not_bit)
next
  case (4 b i)
  then show ?case by (auto simp: bm64_clear_def bm64_elems_def bit_simps)
next
  case (5 b)
  then show ?case
    using trailing_zeros_cases [of "bm_data b"] by (auto simp: bm64_elems_def bm64_find_first_one_def)
next
  case (6 b)
  then show ?case
    using trailing_zeros_cases [of "bm_data b"] by (auto simp: bm64_elems_def bm64_find_first_one_def)
next
  case (7 b i)
  then show ?case
    using trailing_zeros_cases [of "bm_data b"]
    by (auto simp: bm64_elems_def bm64_find_first_one_def not_le [symmetric])
next
  case (8 b)
  show ?case
    using trailing_ones_cases [of "bm_data b"]
    by (auto simp: bm64_elems_def bm64_find_first_zero_def)
qed (auto simp: bm64_elems_def)

lemma bm64_first_one_bound: "bm64_find_first_one b \<le> 64"
  using trailing_zeros_cases [of "bm_data b"] by (auto simp: bm64_find_first_one_def)

section \<open>The two-level bitmap\<close>

lemma low_six_bits: "(n :: nat) AND 63 = n mod 64"
proof -
  have "n AND mask 6 = n mod 2 ^ 6" by (simp add: take_bit_eq_mask [symmetric] take_bit_eq_mod)
  moreover have "mask 6 = (63 :: nat)" by (simp add: mask_eq_exp_minus_1)
  ultimately show ?thesis by simp
qed

lemma high_bits: "drop_bit 6 (n :: nat) = n div 64" and shift_six: "push_bit 6 (n :: nat) = 64 * n"
  by (simp_all add: drop_bit_eq_div push_bit_eq_mult)

lemmas pos_split = low_six_bits high_bits shift_six

lemma pos_64_eq_iff: "(j :: nat) div 64 = i div 64 \<Longrightarrow> j mod 64 = i mod 64 \<Longrightarrow> j = i"
  by (metis div_mult_mod_eq)

lemma pos_64_bound: "i < 4096 \<Longrightarrow> i div 64 < (64 :: nat)" "i mod 64 < (64 :: nat)"
  by simp_all

lemma pos_64_le:
  assumes "k \<le> i div 64" and "k = i div 64 \<Longrightarrow> r \<le> i mod 64" and "r < (64 :: nat)"
  shows "64 * k + r \<le> i"
proof -
  have "i = 64 * (i div 64) + i mod 64" by simp
  then show ?thesis using assms by (cases "k = i div 64") linarith+
qed

lemma pos_64_less:
  assumes "i < 64 * k + r" and "\<not> i div 64 < k" and "r < (64 :: nat)"
  shows "i div 64 = k \<and> i mod 64 < r"
proof -
  have "i = 64 * (i div 64) + i mod 64" by simp
  then show ?thesis using assms by linarith
qed

lemma bm4096_new_wf: "bm4096_wf bm4096_new" and bm4096_new_elems: "bm4096_elems bm4096_new = {}"
  by (auto simp: bm4096_wf_def bm4096_new_def bm4096_elems_def)

lemma bm4096_wf_first:
  assumes "bm4096_wf b" and "i \<in> bm4096_elems b"
  shows "i div 64 \<in> bm64_elems (bm_l1 b)"
proof -
  from assms(2) have "i div 64 < 64" "bm64_elems (bm_l2 b ! (i div 64)) \<noteq> {}"
    by (auto simp: bm4096_elems_def)
  with assms(1) show ?thesis by (auto simp: bm4096_wf_def)
qed

lemma bm4096_set_step:
  assumes wf: "bm4096_wf b" and i: "i < 4096"
  shows "\<exists>b'. bm4096_set b i = Inr b' \<and> bm4096_wf b' \<and> bm4096_elems b' = insert i (bm4096_elems b)"
proof -
  let ?k = "i div 64" and ?r = "i mod 64"
  have k: "?k < 64" "?r < 64" using i by auto
  obtain l1 where l1: "bm64_set (bm_l1 b) ?k = Inr l1" "bm64_elems l1 = insert ?k (bm64_elems (bm_l1 b))"
    using bm64.set_spec k by blast
  obtain w where w: "bm64_set (bm_l2 b ! ?k) ?r = Inr w"
    "bm64_elems w = insert ?r (bm64_elems (bm_l2 b ! ?k))"
    using bm64.set_spec k by blast
  let ?b = "b\<lparr>bm_l1 := l1, bm_l2 := (bm_l2 b)[?k := w]\<rparr>"
  have "bm4096_set b i = Inr ?b"
    using wf k l1 w by (simp add: bm4096_set_def pos_split bm4096_wf_def index_res_def)
  moreover have "bm4096_wf ?b"
    using wf k l1 w by (auto simp: bm4096_wf_def nth_list_update)
  moreover have "bm4096_elems ?b = insert i (bm4096_elems b)"
    using wf k w i
    by (auto simp: bm4096_elems_def bm4096_wf_def nth_list_update dest: pos_64_eq_iff split: if_splits)
  ultimately show ?thesis by blast
qed

lemma bm4096_clear_step:
  assumes wf: "bm4096_wf b" and i: "i < 4096"
  shows "\<exists>b'. bm4096_clear b i = Inr b' \<and> bm4096_wf b' \<and> bm4096_elems b' = bm4096_elems b - {i}"
proof -
  let ?k = "i div 64" and ?r = "i mod 64"
  have k: "?k < 64" "?r < 64" using i by auto
  obtain l1 where l1: "bm64_clear (bm_l1 b) ?k = Inr l1" "bm64_elems l1 = bm64_elems (bm_l1 b) - {?k}"
    using bm64.clear_spec k by blast
  obtain w where w: "bm64_clear (bm_l2 b ! ?k) ?r = Inr w"
    "bm64_elems w = bm64_elems (bm_l2 b ! ?k) - {?r}"
    using bm64.clear_spec k by blast
  define b' where "b' = (if bm_data w = 0 then b\<lparr>bm_l1 := l1, bm_l2 := (bm_l2 b)[?k := w]\<rparr>
     else b\<lparr>bm_l2 := (bm_l2 b)[?k := w]\<rparr>)"
  have "bm4096_clear b i = Inr b'"
    using wf k l1 w by (simp add: bm4096_clear_def pos_split bm4096_wf_def index_res_def b'_def)
  moreover have "bm4096_wf b'"
    using wf k l1 w by (auto simp: bm4096_wf_def nth_list_update b'_def bm64_elems_empty_iff [symmetric])
  moreover have "bm4096_elems b' = bm4096_elems b - {i}"
    using wf k w i
    by (auto simp: bm4096_elems_def bm4096_wf_def nth_list_update b'_def
        dest: pos_64_eq_iff split: if_splits)
  ultimately show ?thesis by blast
qed

lemma bm4096_first_one_ne:
  assumes wf: "bm4096_wf b" and ne: "bm64_elems (bm_l1 b) \<noteq> {}"
  shows "bm4096_find_first_one b \<in> bm4096_elems b \<and>
    (\<forall>i \<in> bm4096_elems b. bm4096_find_first_one b \<le> i)"
proof -
  let ?k = "bm64_find_first_one (bm_l1 b)"
  let ?r = "bm64_find_first_one (bm_l2 b ! ?k)"
  have kin: "?k \<in> bm64_elems (bm_l1 b)" using ne by (intro bm64.first_one_in) auto
  then have k: "?k < 64" by (auto simp: bm64_elems_def)
  with wf kin have w: "bm64_elems (bm_l2 b ! ?k) \<noteq> {}" by (auto simp: bm4096_wf_def)
  then have rin: "?r \<in> bm64_elems (bm_l2 b ! ?k)" by (intro bm64.first_one_in) auto
  then have r: "?r < 64" by (auto simp: bm64_elems_def)
  have eq: "bm4096_find_first_one b = 64 * ?k + ?r"
    using k by (simp add: bm4096_find_first_one_def Let_def pos_split)
  have "64 * ?k + ?r \<le> i" if "i \<in> bm4096_elems b" for i
  proof -
    have "?k \<le> i div 64"
      using bm4096_wf_first [OF wf that] by (intro bm64.first_one_le) auto
    moreover have "?r \<le> i mod 64" if "?k = i div 64"
      using that \<open>i \<in> bm4096_elems b\<close> by (intro bm64.first_one_le) (auto simp: bm4096_elems_def)
    ultimately show ?thesis using r by (rule pos_64_le)
  qed
  moreover have "64 * ?k + ?r \<in> bm4096_elems b"
    using k r rin by (simp add: bm4096_elems_def)
  ultimately show ?thesis by (simp add: eq)
qed

lemma bm4096_l1_empty_iff: "bm4096_wf b \<Longrightarrow> bm64_elems (bm_l1 b) = {} \<longleftrightarrow> bm4096_elems b = {}"
  using bm4096_first_one_ne bm4096_wf_first by blast

lemma bm4096_first_zero:
  assumes wf: "bm4096_wf b"
  shows "bm4096_find_first_zero b \<notin> bm4096_elems b \<and> bm4096_find_first_zero b \<le> 4096 \<and>
    {..<bm4096_find_first_zero b} \<subseteq> bm4096_elems b"
proof (cases "range_find (\<lambda>k. bm64_find_first_zero (bm_l2 b ! k) < 64) 0 64")
  case None
  then have "\<And>k. k < 64 \<Longrightarrow> bm64_elems (bm_l2 b ! k) = {..<64}"
    using bm64.first_zero_spec bm64.first_zero_cap_iff
    by (metis le_neq_implies_less range_find_None_iff zero_le)
  with None show ?thesis
    by (auto simp: bm4096_find_first_zero_def bm4096_elems_def)
next
  case (Some k)
  let ?r = "bm64_find_first_zero (bm_l2 b ! k)"
  from Some have k: "k < 64" "?r < 64" and low: "\<And>j. j < k \<Longrightarrow> \<not> bm64_find_first_zero (bm_l2 b ! j) < 64"
    by (auto simp: range_find_Some_iff)
  have full: "bm64_elems (bm_l2 b ! j) = {..<64}" if "j < k" for j
    using low [OF that] bm64.first_zero_spec [of "bm_l2 b ! j"] bm64.first_zero_cap_iff [of "bm_l2 b ! j"]
    by force
  have eq: "bm4096_find_first_zero b = 64 * k + ?r"
    using Some by (simp add: bm4096_find_first_zero_def pos_split)
  have "i \<in> bm4096_elems b" if "i < 64 * k + ?r" for i
  proof (cases "i div 64 < k")
    case True
    with k that full show ?thesis by (auto simp: bm4096_elems_def)
  next
    case False
    with that k have "i div 64 = k" "i mod 64 < ?r" by (auto dest: pos_64_less)
    with k that bm64.first_zero_spec [of "bm_l2 b ! k"] show ?thesis
      by (auto simp: bm4096_elems_def)
  qed
  with eq k bm64.first_zero_spec [of "bm_l2 b ! k"] show ?thesis
    by (auto simp: bm4096_elems_def)
qed

interpretation bm4096: bitmap bm4096_set bm4096_get bm4096_clear bm4096_find_first_one
  bm4096_find_first_zero bm4096_elems bm4096_wf 4096
proof (unfold_locales, goal_cases)
  case (1 b)
  show ?case by (auto simp: bm4096_elems_def)
next
  case (3 b i)
  then show ?case
    using bm4096_wf_first [OF 3(1)]
    by (auto simp: bm4096_get_def pos_split bm64.get_spec index_res_def bm4096_wf_def bm4096_elems_def Let_def)
next
  case (5 b)
  then have "bm64_find_first_one (bm_l1 b) = 64"
    by (simp add: bm64.first_one_empty bm4096_l1_empty_iff)
  then show ?case by (simp add: bm4096_find_first_one_def pos_split)
next
  case (6 b)
  then show ?case using bm4096_first_one_ne bm4096_l1_empty_iff by blast
next
  case (7 b i)
  then show ?case using bm4096_first_one_ne bm4096_l1_empty_iff by blast
qed (simp_all add: bm4096_set_step bm4096_clear_step bm4096_first_zero)

lemma bm4096_empty_iff: "bm4096_wf b \<Longrightarrow> bm4096_empty b \<longleftrightarrow> bm4096_elems b = {}"
  by (simp add: bm4096_empty_def bm64_empty_def bm64_elems_empty_iff [symmetric] bm4096_l1_empty_iff)

section \<open>Property\<close>

text \<open>Sequences of updates, on the two-level bitmap and on the set it stands for.\<close>

datatype bm_op = BSet nat | BClear nat

primrec bm_op_pos :: "bm_op \<Rightarrow> nat" where
  "bm_op_pos (BSet i) = i"
| "bm_op_pos (BClear i) = i"

primrec bm4096_step :: "bitmap4096 \<Rightarrow> bm_op \<Rightarrow> bitmap4096 res" where
  "bm4096_step b (BSet i) = bm4096_set b i"
| "bm4096_step b (BClear i) = bm4096_clear b i"

primrec bm4096_run :: "bitmap4096 \<Rightarrow> bm_op list \<Rightarrow> bitmap4096 res" where
  "bm4096_run b [] = Inr b"
| "bm4096_run b (x # xs) = rbind (bm4096_step b x) (\<lambda>b'. bm4096_run b' xs)"

primrec set_step :: "nat set \<Rightarrow> bm_op \<Rightarrow> nat set" where
  "set_step S (BSet i) = insert i S"
| "set_step S (BClear i) = S - {i}"

lemma bm4096_run_set:
  assumes "bm4096_wf b" and "\<forall>x\<in>set xs. bm_op_pos x < 4096"
  shows "\<exists>b'. bm4096_run b xs = Inr b' \<and> bm4096_wf b' \<and> bm4096_elems b' = foldl set_step (bm4096_elems b) xs"
  using assms
proof (induction xs arbitrary: b)
  case (Cons x xs)
  have "\<exists>b1. bm4096_step b x = Inr b1 \<and> bm4096_wf b1 \<and> bm4096_elems b1 = set_step (bm4096_elems b) x"
    using Cons.prems bm4096.set_spec bm4096.clear_spec by (cases x) auto
  then obtain b1 where b1: "bm4096_step b x = Inr b1" "bm4096_wf b1" "bm4096_elems b1 = set_step (bm4096_elems b) x"
    by blast
  with Cons.IH [OF b1(2)] Cons.prems(2) show ?case by auto
qed simp

lemma bm4096_fetch_min:
  assumes wf: "bm4096_wf b"
  shows "\<exists>b'. bm4096_fetch b = Inr (if bm4096_elems b = {} then None else Some (Min (bm4096_elems b)), b') \<and>
    bm4096_elems b' = bm4096_elems b - {Min (bm4096_elems b)}"
proof (cases "bm4096_elems b = {}")
  case True
  then show ?thesis using bm4096.first_one_empty [OF wf] by (simp add: bm4096_fetch_def Let_def)
next
  case False
  have m: "bm4096_find_first_one b = Min (bm4096_elems b)" using bm4096.first_one_Min [OF wf False] .
  have "bm4096_find_first_one b < 4096" using bm4096.first_one_in [OF wf False] by (auto simp: bm4096_elems_def)
  with bm4096.clear_spec [OF wf this] False m show ?thesis by (auto simp: bm4096_fetch_def Let_def)
qed

text \<open>C18. The two-level bitmap refines a set of positions: after any sequence of \<^verbatim>\<open>set\<close> and
  \<^verbatim>\<open>clear\<close> calls below 4096 (none of which panics), \<^verbatim>\<open>get\<close> tests membership,
  \<^verbatim>\<open>find_first_one\<close> is the minimum (4096 when there is none), every position below
  \<^verbatim>\<open>find_first_zero\<close> is in the set and it is not, \<^verbatim>\<open>empty\<close> tests emptiness and \<^verbatim>\<open>fetch\<close>
  removes the minimum.\<close>

theorem bitmap4096_refines_set:
  assumes "\<forall>x\<in>set xs. bm_op_pos x < 4096"
  defines "S \<equiv> foldl set_step {} xs"
  shows "\<exists>b. bm4096_run bm4096_new xs = Inr b \<and>
    (\<forall>i<4096. bm4096_get b i = Inr (i \<in> S)) \<and>
    bm4096_find_first_one b = (if S = {} then 4096 else Min S) \<and>
    bm4096_find_first_zero b \<notin> S \<and> {..<bm4096_find_first_zero b} \<subseteq> S \<and>
    bm4096_empty b = (S = {}) \<and>
    (\<exists>b'. bm4096_fetch b = Inr (if S = {} then None else Some (Min S), b') \<and> bm4096_elems b' = S - {Min S})"
proof -
  obtain b where b: "bm4096_run bm4096_new xs = Inr b" "bm4096_wf b" "bm4096_elems b = S"
    using bm4096_run_set [OF bm4096_new_wf assms(1)] by (auto simp: bm4096_new_elems S_def)
  note wf = b(2)
  have "bm4096_find_first_one b = (if S = {} then 4096 else Min S)"
    using bm4096.first_one_empty [OF wf] bm4096.first_one_Min [OF wf] b(3) by simp
  with b bm4096.get_spec [OF wf] bm4096.first_zero_spec [OF wf] bm4096_empty_iff [OF wf] bm4096_fetch_min [OF wf]
  show ?thesis unfolding b(3) by blast
qed

theorem bitmap4096_refines_set_witness:
  "\<exists>b. bm4096_run bm4096_new [BSet 4095, BSet 70, BSet 3, BClear 3] = Inr b \<and> bm4096_find_first_one b = 70"
proof -
  have S: "foldl set_step {} [BSet 4095, BSet 70, BSet 3, BClear 3] = {70, 4095}" by auto
  show ?thesis
    using bitmap4096_refines_set [of "[BSet 4095, BSet 70, BSet 3, BClear 3]"] unfolding S by auto
qed

end
