(* ===== verification/Executor.thy ===== *)
theory Executor
  imports Index_Allocator Bitmaps Ipc_Item
begin

unbundle bit_operations_syntax

text \<open>
  The coroutine runtime: \<^verbatim>\<open>async_runtime/src/coroutine.rs\<close>, \<^verbatim>\<open>async_runtime/src/executor.rs\<close> and the
  free functions of \<^verbatim>\<open>async_runtime/src/lib.rs\<close>, which all act on the thread's executor.

  An \<^verbatim>\<open>Arc<Coroutine>\<close> is modelled as the position of the coroutine in \<^verbatim>\<open>tasks_bak\<close>, the vector
  to which every spawned coroutine is pushed and from which none is removed, so that the state
  of a future lives in one place however many \<^verbatim>\<open>Arc\<close>s refer to it.  The thread-local
  \<^verbatim>\<open>CID_ALLOCATOR\<close> is kept beside the executor's own fields.  The waker of a coroutine does
  nothing in the source (\<^verbatim>\<open>wake\<close> and \<^verbatim>\<open>wake_by_ref\<close> are empty) and is left out.  A future is a
  state of an arbitrary type \<open>'f\<close>; polling it is a parameter, which may use the executor and a
  world \<open>'w\<close> of everything else.
\<close>

section \<open>Model\<close>

definition MAX_TASK_NUM :: nat where "MAX_TASK_NUM = 2048"
definition MAX_PRIO_NUM :: nat where "MAX_PRIO_NUM = 8"
definition CID_NUM :: nat where "CID_NUM = 4096"

record 'f coroutine =
  co_cid :: coroutine_id
  co_prio :: usize
  co_future :: 'f

record 'f executor =
  ex_ready_queue :: "coroutine_id ring_buffer list"
  ex_prio_bitmap :: bitmap64
  ex_coroutine_num :: usize
  ex_current :: "coroutine_id option"
  ex_tasks :: "usize option list"
  ex_delay_wake_cids :: u64
  ex_tasks_bak :: "'f coroutine list"
  ex_cid_allocator :: index_allocator

definition executor_new :: "'f executor" where
  "executor_new =
     \<lparr>ex_ready_queue = replicate MAX_PRIO_NUM (rb_new MAX_TASK_NUM 0),
      ex_prio_bitmap = bm64_new,
      ex_coroutine_num = 0,
      ex_current = None,
      ex_tasks = replicate MAX_TASK_NUM None,
      ex_delay_wake_cids = 0,
      ex_tasks_bak = [],
      ex_cid_allocator = ia_new CID_NUM\<rparr>"

text \<open>\<^verbatim>\<open>Executor::init\<close> overwrites the executor; the thread's identifier allocator stays.\<close>

definition executor_init :: "'f executor \<Rightarrow> 'f executor" where
  "executor_init ex = executor_new\<lparr>ex_cid_allocator := ex_cid_allocator ex\<rparr>"

definition get_ready_num :: "'f executor \<Rightarrow> usize" where
  "get_ready_num ex = rb_size (ex_ready_queue ex ! 2)"

definition cid_generate :: "'f executor \<Rightarrow> (coroutine_id \<times> 'f executor) res" where
  "cid_generate ex =
     (case ia_allocate CID_NUM (ex_cid_allocator ex) of (r, a) \<Rightarrow>
      rbind (unwrap r) (\<lambda>cid. Inr (of_nat cid, ex\<lparr>ex_cid_allocator := a\<rparr>)))"

definition cid_release :: "'f executor \<Rightarrow> coroutine_id \<Rightarrow> 'f executor res" where
  "cid_release ex cid =
     rbind (ia_release (ex_cid_allocator ex) (unat cid)) (\<lambda>a. Inr (ex\<lparr>ex_cid_allocator := a\<rparr>))"

definition coroutine_new :: "'f executor \<Rightarrow> 'f \<Rightarrow> usize \<Rightarrow> ('f coroutine \<times> 'f executor) res" where
  "coroutine_new ex future prio =
     rbind (cid_generate ex) (\<lambda>(cid, ex').
     Inr (\<lparr>co_cid = cid, co_prio = prio, co_future = future\<rparr>, ex'))"

text \<open>\<^verbatim>\<open>self.ready_queue[prio].push(&cid).unwrap()\<close>, in \<^verbatim>\<open>spawn\<close> and in \<^verbatim>\<open>wake\<close>.\<close>

definition push_ready :: "'f executor \<Rightarrow> usize \<Rightarrow> coroutine_id \<Rightarrow> 'f executor res" where
  "push_ready ex prio cid =
     rbind (index_res (ex_ready_queue ex) prio) (\<lambda>q.
     rbind (rb_push q cid) (\<lambda>r. case r of
       Inl u \<Rightarrow> Inl UnwrapErr
     | Inr q' \<Rightarrow> Inr (ex\<lparr>ex_ready_queue := (ex_ready_queue ex)[prio := q']\<rparr>)))"

definition spawn :: "'f executor \<Rightarrow> 'f \<Rightarrow> usize \<Rightarrow> (coroutine_id \<times> 'f executor) res" where
  "spawn ex future prio =
     rbind (coroutine_new ex future prio) (\<lambda>(task, ex1).
     let cid = co_cid task in
     rbind (bm64_set (ex_prio_bitmap ex1) prio) (\<lambda>bm.
     rbind (push_ready (ex1\<lparr>ex_prio_bitmap := bm\<rparr>) prio cid) (\<lambda>ex2.
     rbind (store_res (ex_tasks ex2) (unat cid) (Some (length (ex_tasks_bak ex2)))) (\<lambda>tasks.
     rbind (add_usize (ex_coroutine_num ex2) 1) (\<lambda>num.
     Inr (cid, ex2\<lparr>ex_tasks := tasks, ex_coroutine_num := num,
                   ex_tasks_bak := ex_tasks_bak ex2 @ [task]\<rparr>))))))"

definition is_empty :: "'f executor \<Rightarrow> bool" where
  "is_empty ex \<longleftrightarrow> ex_coroutine_num ex = 0"

definition wake :: "'f executor \<Rightarrow> coroutine_id \<Rightarrow> 'f executor res" where
  "wake ex cid =
     rbind (index_res (ex_tasks ex) (unat cid)) (\<lambda>op_task. case op_task of
       None \<Rightarrow> Inr ex
     | Some task \<Rightarrow>
         let prio = co_prio (ex_tasks_bak ex ! task) in
         rbind (bm64_set (ex_prio_bitmap ex) prio) (\<lambda>bm.
         push_ready (ex\<lparr>ex_prio_bitmap := bm\<rparr>) prio cid))"

definition delay_wake :: "'f executor \<Rightarrow> coroutine_id \<Rightarrow> 'f executor res" where
  "delay_wake ex cid =
     (if cid < 64 then Inr (ex\<lparr>ex_delay_wake_cids := ex_delay_wake_cids ex OR push_bit (unat cid) 1\<rparr>)
      else Inl AssertFailed)"

lemma drop_bit_1_less:
  assumes "(w :: 'a :: len word) \<noteq> 0"
  shows "unat (drop_bit 1 (w AND m)) < unat w" and "unat (drop_bit 1 w) < unat w"
proof -
  have half: "unat (drop_bit 1 v) = unat v div 2" for v :: "'a word"
  proof -
    have "unat (drop_bit 1 v) = drop_bit 1 (unat v)" by (rule unat_drop_bit_eq)
    then show ?thesis by (simp add: drop_bit_eq_div)
  qed
  have "0 < unat w" using assms by (simp add: unat_gt_0)
  moreover have "unat (w AND m) \<le> unat w" using word_and_le2 [of w m] by (simp add: word_le_nat_alt)
  ultimately show "unat (drop_bit 1 (w AND m)) < unat w" "unat (drop_bit 1 w) < unat w"
    unfolding half by linarith+
qed

text \<open>The \<^verbatim>\<open>while\<close> loop of \<^verbatim>\<open>actual_wake\<close>; \<open>index\<close> is also a shift amount.\<close>

function actual_wake_loop :: "u64 \<Rightarrow> nat \<Rightarrow> 'f executor \<Rightarrow> 'f executor res" where
  "actual_wake_loop delay_wake_cids index ex =
     (if delay_wake_cids = 0 then Inr ex
      else if delay_wake_cids AND 1 \<noteq> 0
      then rbind (wake ex (of_nat index)) (\<lambda>ex'.
        rbind (guard_res (index < 64) ArithOverflow) (\<lambda>_.
        actual_wake_loop (drop_bit 1 (delay_wake_cids AND NOT (push_bit index 1))) (index + 1) ex'))
      else actual_wake_loop (drop_bit 1 delay_wake_cids) (index + 1) ex)"
  by pat_completeness auto

termination
proof (relation "measure (\<lambda>(d, i, ex). unat d)", goal_cases)
  case (2 d i ex x u)
  then show ?case using drop_bit_1_less(1) [of d] by (simp del: drop_bit_and)
next
  case (3 d i ex)
  then show ?case using drop_bit_1_less(2) [of d] by simp
qed simp

declare actual_wake_loop.simps [simp del]

definition actual_wake :: "'f executor \<Rightarrow> 'f executor res" where
  "actual_wake ex = actual_wake_loop (ex_delay_wake_cids ex) 0 (ex\<lparr>ex_delay_wake_cids := 0\<rparr>)"

definition switch_possible :: "'f executor \<Rightarrow> (bool \<times> 'f executor) res" where
  "switch_possible ex =
     rbind (actual_wake ex) (\<lambda>ex'.
     rbind (unwrap (ex_current ex')) (\<lambda>cur.
     rbind (index_res (ex_tasks ex') (unat cur)) (\<lambda>t.
     rbind (unwrap t) (\<lambda>task.
     let prio = bm64_find_first_one (ex_prio_bitmap ex') in
     Inr (prio < co_prio (ex_tasks_bak ex' ! task), ex')))))"

definition fetch :: "'f executor \<Rightarrow> (usize option \<times> 'f executor) res" where
  "fetch ex0 =
     rbind (actual_wake ex0) (\<lambda>ex.
     let prio = bm64_find_first_one (ex_prio_bitmap ex) in
     if prio = 64 then Inr (None, ex)
     else
       rbind (index_res (ex_ready_queue ex) prio) (\<lambda>q.
       rbind (rb_pop q) (\<lambda>(r, q').
       let ex1 = ex\<lparr>ex_ready_queue := (ex_ready_queue ex)[prio := q']\<rparr> in
       case r of
         None \<Rightarrow> Inr (None, ex1)
       | Some cid \<Rightarrow>
           rbind (index_res (ex_tasks ex1) (unat cid)) (\<lambda>t. case t of
             None \<Rightarrow> Inr (None, ex1)
           | Some task \<Rightarrow>
               let ex2 = ex1\<lparr>ex_current := Some cid\<rparr> in
               if rb_empty q'
               then rbind (bm64_clear (ex_prio_bitmap ex2) prio) (\<lambda>bm.
                 Inr (Some task, ex2\<lparr>ex_prio_bitmap := bm\<rparr>))
               else Inr (Some task, ex2)))))"

definition remove_task :: "'f executor \<Rightarrow> coroutine_id \<Rightarrow> 'f executor res" where
  "remove_task ex cid =
     rbind (store_res (ex_tasks ex) (unat cid) None) (\<lambda>tasks.
     rbind (sub_usize (ex_coroutine_num ex) 1) (\<lambda>num.
     cid_release (ex\<lparr>ex_tasks := tasks, ex_coroutine_num := num\<rparr>) cid))"

text \<open>Polling, and the two run loops.  Fuel counts the tasks fetched.\<close>

datatype poll_result = Ready | Pending

type_synonym ('f, 'w) poll_fn = "'f \<Rightarrow> 'f executor \<Rightarrow> 'w \<Rightarrow> (poll_result \<times> 'f \<times> 'f executor \<times> 'w) res"

definition execute :: "('f, 'w) poll_fn \<Rightarrow> usize \<Rightarrow> 'f executor \<Rightarrow> 'w \<Rightarrow> (poll_result \<times> 'f executor \<times> 'w) res" where
  "execute poll task ex w =
     rbind (poll (co_future (ex_tasks_bak ex ! task)) ex w) (\<lambda>(p, fut, ex', w').
     Inr (p, ex'\<lparr>ex_tasks_bak := (ex_tasks_bak ex')[task := (ex_tasks_bak ex' ! task)\<lparr>co_future := fut\<rparr>]\<rparr>, w'))"

fun run_until_blocked :: "('f, 'w) poll_fn \<Rightarrow> nat \<Rightarrow> 'f executor \<Rightarrow> 'w \<Rightarrow> ('f executor \<times> 'w) res option" where
  "run_until_blocked poll 0 ex w = None"
| "run_until_blocked poll (Suc fuel) ex w =
     (case fetch ex of
        Inl e \<Rightarrow> Some (Inl e)
      | Inr (None, ex1) \<Rightarrow> Some (Inr (ex1, w))
      | Inr (Some task, ex1) \<Rightarrow>
          let cid = co_cid (ex_tasks_bak ex1 ! task) in
          (case execute poll task ex1 w of
             Inl e \<Rightarrow> Some (Inl e)
           | Inr (Ready, ex2, w2) \<Rightarrow>
               (case remove_task ex2 cid of
                  Inl e \<Rightarrow> Some (Inl e)
                | Inr ex3 \<Rightarrow> run_until_blocked poll fuel ex3 w2)
           | Inr (Pending, ex2, w2) \<Rightarrow> run_until_blocked poll fuel ex2 w2))"

text \<open>The body of the loop of \<^verbatim>\<open>run_until_blocked\<close>; the boolean says whether the loop goes on.\<close>

definition run_turn :: "('f, 'w) poll_fn \<Rightarrow> 'f executor \<Rightarrow> 'w \<Rightarrow> (bool \<times> 'f executor \<times> 'w) res" where
  "run_turn poll ex w =
     rbind (fetch ex) (\<lambda>(r, ex1). case r of
       None \<Rightarrow> Inr (False, ex1, w)
     | Some task \<Rightarrow>
         let cid = co_cid (ex_tasks_bak ex1 ! task) in
         rbind (execute poll task ex1 w) (\<lambda>(p, ex2, w2). case p of
           Ready \<Rightarrow> rbind (remove_task ex2 cid) (\<lambda>ex3. Inr (True, ex3, w2))
         | Pending \<Rightarrow> Inr (True, ex2, w2)))"

fun run_until_complete :: "('f, 'w) poll_fn \<Rightarrow> nat \<Rightarrow> 'f executor \<Rightarrow> 'w \<Rightarrow> ('f executor \<times> 'w) res option" where
  "run_until_complete poll 0 ex w = None"
| "run_until_complete poll (Suc fuel) ex w =
     (if is_empty ex then Some (Inr (ex, w))
      else case run_until_blocked poll (Suc fuel) ex w of
        None \<Rightarrow> None
      | Some (Inl e) \<Rightarrow> Some (Inl e)
      | Some (Inr (ex', w')) \<Rightarrow> run_until_complete poll fuel ex' w')"

text \<open>The crate's free functions fix the default priority and read the current coroutine.\<close>

definition coroutine_spawn :: "'f executor \<Rightarrow> 'f \<Rightarrow> (coroutine_id \<times> 'f executor) res" where
  "coroutine_spawn ex future = spawn ex future 1"

definition coroutine_get_current :: "'f executor \<Rightarrow> coroutine_id res" where
  "coroutine_get_current ex = unwrap (ex_current ex)"

section \<open>Views of the state, and the invariant\<close>

definition live :: "'f executor \<Rightarrow> nat set" where
  "live ex = {i. i < MAX_TASK_NUM \<and> ex_tasks ex ! i \<noteq> None}"

definition ready :: "'f executor \<Rightarrow> nat \<Rightarrow> coroutine_id list" where
  "ready ex p = rb_list (ex_ready_queue ex ! p)"

definition queues_wf :: "'f executor \<Rightarrow> bool" where
  "queues_wf ex \<longleftrightarrow> length (ex_ready_queue ex) = MAX_PRIO_NUM \<and>
     (\<forall>p<MAX_PRIO_NUM. rb_wf (ex_ready_queue ex ! p) \<and> length (rb_data (ex_ready_queue ex ! p)) = MAX_TASK_NUM) \<and>
     bm64_elems (ex_prio_bitmap ex) \<subseteq> {..<MAX_PRIO_NUM} \<and>
     (\<forall>p<MAX_PRIO_NUM. ready ex p \<noteq> [] \<longrightarrow> p \<in> bm64_elems (ex_prio_bitmap ex)) \<and>
     (\<forall>p<MAX_PRIO_NUM. \<forall>c\<in>set (ready ex p). unat c < MAX_TASK_NUM)"

definition tasks_wf :: "'f executor \<Rightarrow> bool" where
  "tasks_wf ex \<longleftrightarrow> length (ex_tasks ex) = MAX_TASK_NUM \<and>
     (\<forall>i<MAX_TASK_NUM. \<forall>h. ex_tasks ex ! i = Some h \<longrightarrow>
        h < length (ex_tasks_bak ex) \<and> co_cid (ex_tasks_bak ex ! h) = of_nat i \<and>
        co_prio (ex_tasks_bak ex ! h) < MAX_PRIO_NUM) \<and>
     ia_wf CID_NUM (ex_cid_allocator ex) \<and> ia_used CID_NUM (ex_cid_allocator ex) = live ex \<and>
     ex_coroutine_num ex = card (live ex)"

definition ex_wf :: "'f executor \<Rightarrow> bool" where
  "ex_wf ex \<longleftrightarrow> queues_wf ex \<and> tasks_wf ex"

definition prio_of :: "'f executor \<Rightarrow> nat \<Rightarrow> nat" where
  "prio_of ex i = co_prio (ex_tasks_bak ex ! the (ex_tasks ex ! i))"

section \<open>Frame lemmas\<close>

lemmas ex_consts = MAX_TASK_NUM_def MAX_PRIO_NUM_def CID_NUM_def

lemma queues_wf_frame [simp]:
  "queues_wf (ex\<lparr>ex_tasks := t\<rparr>) = queues_wf ex"
  "queues_wf (ex\<lparr>ex_coroutine_num := n\<rparr>) = queues_wf ex"
  "queues_wf (ex\<lparr>ex_current := c\<rparr>) = queues_wf ex"
  "queues_wf (ex\<lparr>ex_delay_wake_cids := d\<rparr>) = queues_wf ex"
  "queues_wf (ex\<lparr>ex_tasks_bak := b\<rparr>) = queues_wf ex"
  "queues_wf (ex\<lparr>ex_cid_allocator := a\<rparr>) = queues_wf ex"
  by (simp_all add: queues_wf_def ready_def)

lemma ready_frame [simp]:
  "ready (ex\<lparr>ex_tasks := t\<rparr>) = ready ex"
  "ready (ex\<lparr>ex_coroutine_num := n\<rparr>) = ready ex"
  "ready (ex\<lparr>ex_current := c\<rparr>) = ready ex"
  "ready (ex\<lparr>ex_delay_wake_cids := d\<rparr>) = ready ex"
  "ready (ex\<lparr>ex_tasks_bak := b\<rparr>) = ready ex"
  "ready (ex\<lparr>ex_cid_allocator := a\<rparr>) = ready ex"
  "ready (ex\<lparr>ex_prio_bitmap := bm\<rparr>) = ready ex"
  by (simp_all add: ready_def fun_eq_iff)

lemma live_frame [simp]:
  "live (ex\<lparr>ex_ready_queue := rq\<rparr>) = live ex"
  "live (ex\<lparr>ex_prio_bitmap := bm\<rparr>) = live ex"
  "live (ex\<lparr>ex_coroutine_num := n\<rparr>) = live ex"
  "live (ex\<lparr>ex_current := c\<rparr>) = live ex"
  "live (ex\<lparr>ex_delay_wake_cids := d\<rparr>) = live ex"
  "live (ex\<lparr>ex_tasks_bak := b\<rparr>) = live ex"
  "live (ex\<lparr>ex_cid_allocator := a\<rparr>) = live ex"
  by (simp_all add: live_def)

lemma tasks_wf_frame [simp]:
  "tasks_wf (ex\<lparr>ex_ready_queue := rq\<rparr>) = tasks_wf ex"
  "tasks_wf (ex\<lparr>ex_prio_bitmap := bm\<rparr>) = tasks_wf ex"
  "tasks_wf (ex\<lparr>ex_current := c\<rparr>) = tasks_wf ex"
  "tasks_wf (ex\<lparr>ex_delay_wake_cids := d\<rparr>) = tasks_wf ex"
  by (simp_all add: tasks_wf_def)

lemma prio_of_frame [simp]:
  "prio_of (ex\<lparr>ex_ready_queue := rq\<rparr>) = prio_of ex"
  "prio_of (ex\<lparr>ex_prio_bitmap := bm\<rparr>) = prio_of ex"
  "prio_of (ex\<lparr>ex_current := c\<rparr>) = prio_of ex"
  "prio_of (ex\<lparr>ex_delay_wake_cids := d\<rparr>) = prio_of ex"
  "prio_of (ex\<lparr>ex_coroutine_num := n\<rparr>) = prio_of ex"
  "prio_of (ex\<lparr>ex_cid_allocator := a\<rparr>) = prio_of ex"
  by (simp_all add: prio_of_def fun_eq_iff)

lemma live_finite [simp]: "finite (live ex)"
  by (simp add: live_def)

lemma live_card: "card (live ex) \<le> MAX_TASK_NUM"
  using card_mono [of "{..<MAX_TASK_NUM}" "live ex"] by (auto simp: live_def)

lemma live_less: "i \<in> live ex \<Longrightarrow> i < MAX_TASK_NUM"
  by (simp add: live_def)

lemma live_task:
  assumes "tasks_wf ex" and "i \<in> live ex"
  shows "\<exists>h. ex_tasks ex ! i = Some h \<and> h < length (ex_tasks_bak ex) \<and>
    co_cid (ex_tasks_bak ex ! h) = of_nat i \<and> prio_of ex i = co_prio (ex_tasks_bak ex ! h) \<and>
    prio_of ex i < MAX_PRIO_NUM"
proof -
  from assms(2) obtain h where h: "i < MAX_TASK_NUM" "ex_tasks ex ! i = Some h"
    by (auto simp: live_def)
  with assms(1) show ?thesis by (auto simp: tasks_wf_def prio_of_def)
qed

lemma executor_new_wf: "ex_wf executor_new"
  by (auto simp: ex_wf_def queues_wf_def tasks_wf_def executor_new_def ready_def ex_consts
      rb_new_wf live_def ia_new_wf ia_new_used) (simp add: rb_new_def)

lemma executor_new_live [simp]: "live executor_new = {}"
  and executor_new_ready [simp]: "p < MAX_PRIO_NUM \<Longrightarrow> ready executor_new p = []"
  and executor_new_elems [simp]: "bm64_elems (ex_prio_bitmap executor_new) = {}"
  and executor_new_delay [simp]: "ex_delay_wake_cids executor_new = 0"
  by (simp_all add: live_def executor_new_def ready_def)

section \<open>Making a coroutine ready\<close>

text \<open>Setting the priority bit and pushing to the ready queue, as \<^verbatim>\<open>spawn\<close> and \<^verbatim>\<open>wake\<close> do.\<close>

lemma push_ready_Inr:
  assumes "push_ready ex prio cid = Inr ex'"
  shows "prio < length (ex_ready_queue ex) \<and> (\<exists>q'. rb_push (ex_ready_queue ex ! prio) cid = Inr (Inr q') \<and>
    ex' = ex\<lparr>ex_ready_queue := (ex_ready_queue ex)[prio := q']\<rparr>)"
proof -
  from assms obtain r where "prio < length (ex_ready_queue ex)" "rb_push (ex_ready_queue ex ! prio) cid = Inr r"
    "(case r of Inl u \<Rightarrow> Inl UnwrapErr
      | Inr q' \<Rightarrow> Inr (ex\<lparr>ex_ready_queue := (ex_ready_queue ex)[prio := q']\<rparr>)) = Inr ex'"
    by (auto simp: push_ready_def)
  then show ?thesis by (cases r) auto
qed

lemma enqueue_inv:
  assumes wf: "queues_wf ex" and p: "prio < MAX_PRIO_NUM" and c: "unat cid < MAX_TASK_NUM"
    and bm: "bm64_set (ex_prio_bitmap ex) prio = Inr bm"
    and push: "push_ready (ex\<lparr>ex_prio_bitmap := bm\<rparr>) prio cid = Inr ex'"
  shows "\<exists>rq. ex' = ex\<lparr>ex_prio_bitmap := bm, ex_ready_queue := rq\<rparr> \<and> queues_wf ex' \<and>
    bm64_elems bm = insert prio (bm64_elems (ex_prio_bitmap ex)) \<and>
    (\<forall>p<MAX_PRIO_NUM. ready ex' p = (if p = prio then ready ex p @ [cid] else ready ex p))"
proof -
  let ?q = "ex_ready_queue ex ! prio"
  have q: "rb_wf ?q" "length (rb_data ?q) = MAX_TASK_NUM" "length (ex_ready_queue ex) = MAX_PRIO_NUM"
    using wf p by (auto simp: queues_wf_def)
  from push obtain q' where q': "rb_push ?q cid = Inr (Inr q')"
    and ex': "ex' = ex\<lparr>ex_prio_bitmap := bm, ex_ready_queue := (ex_ready_queue ex)[prio := q']\<rparr>"
    using push_ready_Inr [OF push] by auto
  have "rb_wf q' \<and> length (rb_data q') - 1 = length (rb_data ?q) - 1 \<and> rb_list q' = rb_list ?q @ [cid]"
    using rb.push_Inr [OF q(1) q'] by simp
  then have new: "rb_wf q'" "length (rb_data q') = MAX_TASK_NUM" "rb_list q' = rb_list ?q @ [cid]"
    using q(2) by (auto simp: ex_consts)
  have elems: "bm64_elems bm = insert prio (bm64_elems (ex_prio_bitmap ex))"
    using bm64.set_spec [of prio "ex_prio_bitmap ex"] bm p by (auto simp: ex_consts)
  have ready': "ready ex' p = (if p = prio then ready ex p @ [cid] else ready ex p)" if "p < MAX_PRIO_NUM" for p
    using that new q(3) by (simp add: ex' ready_def)
  have "queues_wf ex'"
    using wf new elems p c q(3) ready'
    by (auto simp: queues_wf_def ex' nth_list_update split: if_splits)
  with ex' elems ready' show ?thesis by auto
qed

lemma enqueue_ok:
  assumes wf: "queues_wf ex" and p: "prio < MAX_PRIO_NUM"
    and room: "length (ready ex prio) < MAX_TASK_NUM - 1"
  shows "\<exists>bm ex'. bm64_set (ex_prio_bitmap ex) prio = Inr bm \<and>
    push_ready (ex\<lparr>ex_prio_bitmap := bm\<rparr>) prio cid = Inr ex'"
proof -
  obtain bm where "bm64_set (ex_prio_bitmap ex) prio = Inr bm"
    using bm64.set_spec [of prio "ex_prio_bitmap ex"] p by (auto simp: ex_consts)
  moreover obtain q' where "rb_push (ex_ready_queue ex ! prio) cid = Inr (Inr q')"
    using wf p room rb.push_ok [of "ex_ready_queue ex ! prio" cid] by (auto simp: queues_wf_def ready_def)
  ultimately show ?thesis
    using wf p by (auto simp: push_ready_def index_res_def queues_wf_def)
qed

lemma enqueue_full:
  assumes wf: "queues_wf ex" and p: "prio < MAX_PRIO_NUM"
    and full: "length (ready ex prio) = MAX_TASK_NUM - 1"
  shows "push_ready (ex\<lparr>ex_prio_bitmap := bm\<rparr>) prio cid = Inl UnwrapErr"
  using wf p full rb.push_full [of "ex_ready_queue ex ! prio" cid]
  by (auto simp: push_ready_def index_res_def queues_wf_def ready_def)

section \<open>Waking\<close>

lemma wake_absent:
  "tasks_wf ex \<Longrightarrow> unat cid < MAX_TASK_NUM \<Longrightarrow> unat cid \<notin> live ex \<Longrightarrow> wake ex cid = Inr ex"
  by (auto simp: wake_def index_res_def tasks_wf_def live_def)

lemma wake_live:
  assumes "tasks_wf ex" and "unat cid \<in> live ex"
  shows "wake ex cid = rbind (bm64_set (ex_prio_bitmap ex) (prio_of ex (unat cid)))
    (\<lambda>bm. push_ready (ex\<lparr>ex_prio_bitmap := bm\<rparr>) (prio_of ex (unat cid)) cid)"
proof -
  obtain h where "ex_tasks ex ! unat cid = Some h" "prio_of ex (unat cid) = co_prio (ex_tasks_bak ex ! h)"
    using live_task [OF assms] by blast
  with assms show ?thesis
    using live_less [OF assms(2)] by (simp add: wake_def index_res_def tasks_wf_def Let_def)
qed

text \<open>What a successful wake did.\<close>

lemma wake_inv:
  assumes wf: "ex_wf ex" and w: "wake ex cid = Inr ex'"
  shows "unat cid < MAX_TASK_NUM \<and> ex_wf ex' \<and>
    (\<exists>bm rq. ex' = ex\<lparr>ex_prio_bitmap := bm, ex_ready_queue := rq\<rparr> \<and>
      bm64_elems bm = (if unat cid \<in> live ex then insert (prio_of ex (unat cid)) (bm64_elems (ex_prio_bitmap ex))
        else bm64_elems (ex_prio_bitmap ex))) \<and>
    (\<forall>p<MAX_PRIO_NUM. ready ex' p =
      (if unat cid \<in> live ex \<and> p = prio_of ex (unat cid) then ready ex p @ [cid] else ready ex p))"
proof -
  have c: "unat cid < MAX_TASK_NUM" using w wf by (auto simp: wake_def ex_wf_def tasks_wf_def)
  show ?thesis
  proof (cases "unat cid \<in> live ex")
    case False
    then have "ex' = ex" using wake_absent [of ex cid] wf c w by (auto simp: ex_wf_def)
    moreover have "ex = ex\<lparr>ex_prio_bitmap := ex_prio_bitmap ex, ex_ready_queue := ex_ready_queue ex\<rparr>" by simp
    ultimately show ?thesis using c wf False by metis
  next
    case True
    let ?p = "prio_of ex (unat cid)"
    have p: "?p < MAX_PRIO_NUM" using live_task True wf by (auto simp: ex_wf_def)
    obtain bm where bm: "bm64_set (ex_prio_bitmap ex) ?p = Inr bm"
      "push_ready (ex\<lparr>ex_prio_bitmap := bm\<rparr>) ?p cid = Inr ex'"
      using w [unfolded wake_live [OF conjunct2 [OF wf [unfolded ex_wf_def]] True]] by auto
    from enqueue_inv [OF _ p c bm] wf obtain rq where
      "ex' = ex\<lparr>ex_prio_bitmap := bm, ex_ready_queue := rq\<rparr>" "queues_wf ex'"
      "bm64_elems bm = insert ?p (bm64_elems (ex_prio_bitmap ex))"
      "\<forall>p<MAX_PRIO_NUM. ready ex' p = (if p = ?p then ready ex p @ [cid] else ready ex p)"
      by (auto simp: ex_wf_def)
    then show ?thesis using wf c True by (auto simp: ex_wf_def)
  qed
qed

lemma wake_ok:
  assumes "ex_wf ex" and "unat cid < MAX_TASK_NUM"
    and "unat cid \<in> live ex \<Longrightarrow> length (ready ex (prio_of ex (unat cid))) < MAX_TASK_NUM - 1"
  shows "\<exists>ex'. wake ex cid = Inr ex'"
proof (cases "unat cid \<in> live ex")
  case True
  with assms live_task [of ex "unat cid"] enqueue_ok [of ex "prio_of ex (unat cid)" cid] show ?thesis
    by (auto simp: wake_live ex_wf_def)
next
  case False
  with assms show ?thesis by (auto simp: wake_absent ex_wf_def)
qed

section \<open>Spawning\<close>

lemma cid_generate_ok:
  assumes "tasks_wf ex"
  shows "\<exists>i a. cid_generate ex = Inr (of_nat i, ex\<lparr>ex_cid_allocator := a\<rparr>) \<and> i \<le> card (live ex) \<and>
    i < CID_NUM \<and> i \<notin> live ex \<and> {..<i} \<subseteq> live ex \<and> ia_wf CID_NUM a \<and> ia_used CID_NUM a = insert i (live ex)"
proof -
  have wf: "ia_wf CID_NUM (ex_cid_allocator ex)" and used: "ia_used CID_NUM (ex_cid_allocator ex) = live ex"
    using assms by (auto simp: tasks_wf_def)
  moreover have "card (live ex) < CID_NUM" using live_card [of ex] by (simp add: ex_consts)
  ultimately obtain i a where i: "ia_allocate CID_NUM (ex_cid_allocator ex) = (Some i, a)"
    using ia.alloc_total by metis
  then show ?thesis
    using ia.alloc_Some [OF wf i] ia.alloc_least [OF wf i] used by (auto simp: cid_generate_def)
qed

text \<open>What a successful \<^verbatim>\<open>spawn\<close> did.\<close>

definition spawned :: "'f executor \<Rightarrow> 'f \<Rightarrow> usize \<Rightarrow> coroutine_id \<Rightarrow> 'f executor \<Rightarrow> bool" where
  "spawned ex future prio cid ex' \<longleftrightarrow>
     prio < MAX_PRIO_NUM \<and> unat cid < MAX_TASK_NUM \<and> unat cid \<notin> live ex \<and> {..<unat cid} \<subseteq> live ex \<and>
     ex_wf ex' \<and> live ex' = insert (unat cid) (live ex) \<and>
     ex_tasks ex' = (ex_tasks ex)[unat cid := Some (length (ex_tasks_bak ex))] \<and>
     ex_tasks_bak ex' = ex_tasks_bak ex @ [\<lparr>co_cid = cid, co_prio = prio, co_future = future\<rparr>] \<and>
     (\<forall>p<MAX_PRIO_NUM. ready ex' p = (if p = prio then ready ex p @ [cid] else ready ex p)) \<and>
     bm64_elems (ex_prio_bitmap ex') = insert prio (bm64_elems (ex_prio_bitmap ex)) \<and>
     ex_current ex' = ex_current ex \<and> ex_delay_wake_cids ex' = ex_delay_wake_cids ex"

lemma tasks_wf_spawned:
  assumes wf: "tasks_wf ex" and i: "i < MAX_TASK_NUM" "i \<notin> live ex" "prio < MAX_PRIO_NUM"
    and a: "ia_wf CID_NUM a" "ia_used CID_NUM a = insert i (live ex)"
    and ex': "ex_tasks ex' = (ex_tasks ex)[i := Some (length (ex_tasks_bak ex))]"
      "ex_tasks_bak ex' = ex_tasks_bak ex @ [\<lparr>co_cid = of_nat i, co_prio = prio, co_future = future\<rparr>]"
      "ex_cid_allocator ex' = a" "ex_coroutine_num ex' = Suc (ex_coroutine_num ex)"
  shows "tasks_wf ex' \<and> live ex' = insert i (live ex)"
proof -
  have len: "length (ex_tasks ex) = MAX_TASK_NUM" using wf by (simp add: tasks_wf_def)
  have live': "live ex' = insert i (live ex)"
    using i len by (auto simp: live_def ex' nth_list_update)
  have "h < length (ex_tasks_bak ex') \<and> co_cid (ex_tasks_bak ex' ! h) = of_nat j \<and>
      co_prio (ex_tasks_bak ex' ! h) < MAX_PRIO_NUM"
    if "j < MAX_TASK_NUM" "ex_tasks ex' ! j = Some h" for j h
  proof (cases "j = i")
    case True
    with that i len show ?thesis by (auto simp: ex' nth_append)
  next
    case False
    with that have "ex_tasks ex ! j = Some h" by (simp add: ex')
    with that(1) wf show ?thesis by (auto simp: tasks_wf_def ex' nth_append)
  qed
  then show ?thesis
    using wf live' a i by (simp add: tasks_wf_def ex')
qed

lemma spawn_inv:
  assumes wf: "ex_wf ex" and s: "spawn ex future prio = Inr (cid, ex')"
  shows "spawned ex future prio cid ex'"
proof -
  from wf have q: "queues_wf ex" and t: "tasks_wf ex" by (auto simp: ex_wf_def)
  obtain i a where gen: "cid_generate ex = Inr (of_nat i, ex\<lparr>ex_cid_allocator := a\<rparr>)"
    and i: "i < CID_NUM" "i \<notin> live ex" "{..<i} \<subseteq> live ex"
    and a: "ia_wf CID_NUM a" "ia_used CID_NUM a = insert i (live ex)"
    using cid_generate_ok [OF t] by auto
  let ?task = "\<lparr>co_cid = of_nat i, co_prio = prio, co_future = future\<rparr>"
  let ?ex1 = "ex\<lparr>ex_cid_allocator := a\<rparr>"
  from s gen obtain bm ex2 where bm: "bm64_set (ex_prio_bitmap ?ex1) prio = Inr bm"
    and push: "push_ready (?ex1\<lparr>ex_prio_bitmap := bm\<rparr>) prio (of_nat i) = Inr ex2"
    and cid: "cid = of_nat i" and bound: "unat cid < length (ex_tasks ex2)"
    and ex': "ex' = ex2\<lparr>ex_tasks := (ex_tasks ex2)[unat cid := Some (length (ex_tasks_bak ex2))],
        ex_coroutine_num := ex_coroutine_num ex2 + 1, ex_tasks_bak := ex_tasks_bak ex2 @ [?task]\<rparr>"
    by (auto simp: spawn_def coroutine_new_def Let_def)
  have u: "unat cid = i" using i cid by (simp add: unat_small_u32 ex_consts)
  have prio: "prio < MAX_PRIO_NUM" and tasks2: "ex_tasks ex2 = ex_tasks ex"
    using push_ready_Inr [OF push] q by (auto simp: queues_wf_def)
  have small: "i < MAX_TASK_NUM" using bound tasks2 t u by (simp add: tasks_wf_def)
  have "queues_wf ?ex1" using q by simp
  from enqueue_inv [OF this prio _ bm push] small u cid obtain rq where
    ex2: "ex2 = ?ex1\<lparr>ex_prio_bitmap := bm, ex_ready_queue := rq\<rparr>" and q2: "queues_wf ex2"
    and el: "bm64_elems bm = insert prio (bm64_elems (ex_prio_bitmap ex))"
    and rd: "\<forall>p<MAX_PRIO_NUM. ready ex2 p = (if p = prio then ready ex p @ [of_nat i] else ready ex p)"
    by auto
  have "tasks_wf ex' \<and> live ex' = insert i (live ex)"
    by (rule tasks_wf_spawned [OF t small i(2) prio a, where future = future])
      (simp_all add: ex' ex2 cid u [unfolded cid])
  then show ?thesis
    using q2 prio small i u el rd cid by (simp add: spawned_def ex_wf_def ex' ex2)
qed

lemma spawn_ok:
  assumes wf: "ex_wf ex" and p: "prio < MAX_PRIO_NUM" and n: "card (live ex) < MAX_TASK_NUM"
    and room: "length (ready ex prio) < MAX_TASK_NUM - 1"
  shows "\<exists>cid ex'. spawn ex future prio = Inr (cid, ex')"
proof -
  from wf have q: "queues_wf ex" and t: "tasks_wf ex" by (auto simp: ex_wf_def)
  obtain i a where gen: "cid_generate ex = Inr (of_nat i, ex\<lparr>ex_cid_allocator := a\<rparr>)" and i: "i \<le> card (live ex)"
    using cid_generate_ok [OF t] by blast
  have u: "unat (of_nat i :: u32) = i" using i n by (simp add: unat_small_u32 ex_consts)
  obtain bm ex2 where bm: "bm64_set (ex_prio_bitmap ex) prio = Inr bm"
    and push: "push_ready (ex\<lparr>ex_cid_allocator := a, ex_prio_bitmap := bm\<rparr>) prio (of_nat i) = Inr ex2"
    using enqueue_ok [of "ex\<lparr>ex_cid_allocator := a\<rparr>" prio "of_nat i"] q p room by auto
  have "ex_tasks ex2 = ex_tasks ex" "ex_coroutine_num ex2 = ex_coroutine_num ex"
    using push_ready_Inr [OF push] by auto
  then have "unat (of_nat i :: u32) < length (ex_tasks ex2)" "ex_coroutine_num ex2 + 1 < 2 ^ 64"
    using t u i n by (auto simp: tasks_wf_def ex_consts)
  then show ?thesis
    using gen bm push
    by (simp add: spawn_def coroutine_new_def Let_def store_res_def add_usize_def)
qed

end
