(* ===== verification/Async_Lib.thy ===== *)
theory Async_Lib
  imports Executor
begin

unbundle bit_operations_syntax

text \<open>
  \<^verbatim>\<open>src/async_lib.rs\<close>: the client side of asynchronous IPC and of asynchronous system calls.
  A thread keeps its executor, the allocator of user-interrupt vectors, the map from sender
  identifiers to shared buffers (raw addresses, 0 meaning none), the slot in which a waker
  leaves a value for each coroutine, and the map from interrupt vectors to the coroutines to
  wake.  The shared buffers live in a store indexed by their address.  What leaves the
  thread, user interrupts and wake-ups of the kernel's system-call handler, is recorded in a
  list of signals, the latest last.

  An \<^verbatim>\<open>async fn\<close> is cut at its \<^verbatim>\<open>await\<close>: one definition for what runs before the coroutine is
  suspended and one for what runs when it is polled again.
\<close>

section \<open>State\<close>

type_synonym sender_id = "64 word"

definition MAX_UINT_VEC :: nat where "MAX_UINT_VEC = 64"
definition SYSCALL_SENDER :: sender_id where "SYSCALL_SENDER = 63"

datatype signal = Uipi u64 | WakeSyscallHandler

record 'f thread =
  th_exec :: "'f executor"
  th_uint_vec_allocator :: index_allocator
  th_uint_trigger :: usize
  th_sender_map :: "usize list"
  th_immediate_value :: "ipc_item option list"
  th_wake_map :: "usize \<rightharpoonup> coroutine_id"
  th_buffers :: "usize \<rightharpoonup> new_buffer"
  th_submit_syscall_cnt :: usize
  th_reply_count :: usize
  th_signals :: "signal list"

definition thread_new :: "(usize \<rightharpoonup> new_buffer) \<Rightarrow> 'f thread" where
  "thread_new bufs =
     \<lparr>th_exec = executor_new, th_uint_vec_allocator = ia_new MAX_UINT_VEC, th_uint_trigger = 0,
      th_sender_map = replicate 64 0, th_immediate_value = replicate MAX_TASK_NUM None,
      th_wake_map = Map.empty, th_buffers = bufs, th_submit_syscall_cnt = 0, th_reply_count = 0, th_signals = []\<rparr>"

text \<open>\<^verbatim>\<open>AsyncArgs\<close>; what two threads that set up a channel share.  Its lock is not a field: a step of a
  thread under the lock is one step.  The shared buffer is its address.\<close>

record async_args =
  aa_req_ntfn :: "u64 option"
  aa_reply_ntfn :: "u64 option"
  aa_server_sender_id :: "sender_id option"
  aa_client_sender_id :: "sender_id option"
  aa_child_tcb :: "u64 option"
  aa_ipc_new_buffer :: "usize option"
  aa_server_ready :: bool

definition async_args_new :: async_args where
  "async_args_new =
     \<lparr>aa_req_ntfn = None, aa_reply_ntfn = None, aa_server_sender_id = None, aa_client_sender_id = None,
      aa_child_tcb = None, aa_ipc_new_buffer = None, aa_server_ready = False\<rparr>"

section \<open>Registration\<close>

definition register_recv_cid :: "'f thread \<Rightarrow> coroutine_id \<Rightarrow> usize option \<times> 'f thread" where
  "register_recv_cid th cid =
     (case ia_allocate MAX_UINT_VEC (th_uint_vec_allocator th) of
        (Some vec, a) \<Rightarrow>
          (Some vec, th\<lparr>th_uint_vec_allocator := a, th_wake_map := (th_wake_map th)(vec \<mapsto> cid)\<rparr>)
      | (None, a) \<Rightarrow> (None, th\<lparr>th_uint_vec_allocator := a\<rparr>))"

text \<open>The outcome of the kernel's registration, \<open>registered\<close>, is a parameter.\<close>

definition register_sender_buffer ::
  "'f thread \<Rightarrow> (unit + u64) \<Rightarrow> usize \<Rightarrow> ((unit + sender_id) \<times> 'f thread) res" where
  "register_sender_buffer th registered new_buffer =
     (case registered of
        Inr sid \<Rightarrow>
          rbind (store_res (th_sender_map th) (unat sid) new_buffer) (\<lambda>sm.
          Inr (Inr sid, th\<lparr>th_sender_map := sm\<rparr>))
      | Inl e \<Rightarrow> Inr (Inl (), th))"

definition register_async_syscall_buffer :: "'f thread \<Rightarrow> usize \<Rightarrow> 'f thread res" where
  "register_async_syscall_buffer th new_buffer_ptr =
     rbind (store_res (th_sender_map th) 63 new_buffer_ptr) (\<lambda>sm. Inr (th\<lparr>th_sender_map := sm\<rparr>))"

section \<open>Waking\<close>

definition wake_recv_coroutine :: "'f thread \<Rightarrow> usize \<Rightarrow> ((unit + unit) \<times> 'f thread) res" where
  "wake_recv_coroutine th vec =
     (case th_wake_map th vec of
        Some cid \<Rightarrow> rbind (delay_wake (th_exec th) cid) (\<lambda>ex. Inr (Inr (), th\<lparr>th_exec := ex\<rparr>))
      | None \<Rightarrow> Inr (Inl (), th))"

text \<open>The loop of the interrupt handlers over the pending bits.\<close>

function uintr_loop :: "u64 \<Rightarrow> usize \<Rightarrow> 'f thread \<Rightarrow> 'f thread res" where
  "uintr_loop local bit_index th =
     (if local = 0 then Inr th
      else if local AND 1 = 1
      then rbind (wake_recv_coroutine th bit_index) (\<lambda>(r, th'). case r of
             Inl u \<Rightarrow> Inl UnwrapErr
           | Inr u \<Rightarrow> uintr_loop (drop_bit 1 local) (bit_index + 1) th')
      else uintr_loop (drop_bit 1 local) (bit_index + 1) th)"
  by pat_completeness auto
termination
  by (relation "measure (\<lambda>(l, i, th). unat l)") (auto intro: drop_bit_1_less(2) [unfolded One_nat_def])

declare uintr_loop.simps [simp del]

definition uintr_handler :: "'f thread \<Rightarrow> u64 \<Rightarrow> (u64 \<times> 'f thread) res" where
  "uintr_handler th irqs =
     rbind (add_usize (th_uint_trigger th) 1) (\<lambda>n.
     rbind (uintr_loop irqs 0 (th\<lparr>th_uint_trigger := n\<rparr>)) (\<lambda>th'.
     Inr (0, th')))"

text \<open>\<^verbatim>\<open>uintr_handler2\<close> also prints a line, and is the same otherwise.\<close>

definition uintr_handler2 :: "'f thread \<Rightarrow> u64 \<Rightarrow> (u64 \<times> 'f thread) res" where
  "uintr_handler2 th irqs =
     rbind (add_usize (th_uint_trigger th) 1) (\<lambda>n.
     rbind (uintr_loop irqs 0 (th\<lparr>th_uint_trigger := n\<rparr>)) (\<lambda>th'.
     Inr (0, th')))"

definition wake_with_value :: "'f thread \<Rightarrow> coroutine_id \<Rightarrow> ipc_item \<Rightarrow> 'f thread res" where
  "wake_with_value th cid item =
     rbind (store_res (th_immediate_value th) (unat cid) (Some item)) (\<lambda>iv.
     rbind (wake (th_exec th) cid) (\<lambda>ex.
     Inr (th\<lparr>th_immediate_value := iv, th_exec := ex\<rparr>)))"

section \<open>Suspension\<close>

text \<open>\<^verbatim>\<open>YieldHelper\<close> is pending at its first poll and ready at the second; \<^verbatim>\<open>yield_now\<close> then takes the
  value left for the current coroutine.\<close>

definition yield_helper_poll :: "bool \<Rightarrow> poll_result \<times> bool" where
  "yield_helper_poll polled = (if polled = False then (Pending, True) else (Ready, polled))"

definition yield_now_resume :: "'f thread \<Rightarrow> (ipc_item option \<times> 'f thread) res" where
  "yield_now_resume th =
     rbind (coroutine_get_current (th_exec th)) (\<lambda>cid.
     rbind (index_res (th_immediate_value th) (unat cid)) (\<lambda>v.
     Inr (v, th\<lparr>th_immediate_value := (th_immediate_value th)[unat cid := None]\<rparr>)))"

text \<open>\<^verbatim>\<open>possible_switch\<close> up to its \<^verbatim>\<open>yield_now\<close>; the boolean says whether it is suspended there.\<close>

definition possible_switch :: "'f thread \<Rightarrow> (bool \<times> 'f thread) res" where
  "possible_switch th =
     rbind (switch_possible (th_exec th)) (\<lambda>(sw, ex).
     if sw
     then rbind (coroutine_get_current ex) (\<lambda>cid.
       rbind (wake ex cid) (\<lambda>ex'. Inr (True, th\<lparr>th_exec := ex'\<rparr>)))
     else Inr (False, th\<lparr>th_exec := ex\<rparr>))"

section \<open>Calls and sends\<close>

definition convert_option_mut_ref :: "'f thread \<Rightarrow> usize \<Rightarrow> new_buffer option res" where
  "convert_option_mut_ref th ptr =
     (if ptr = 0 then Inr None
      else case th_buffers th ptr of None \<Rightarrow> Inl BadPointer | Some nb \<Rightarrow> Inr (Some nb))"

definition write_request :: "new_buffer \<Rightarrow> ipc_item \<Rightarrow> new_buffer res" where
  "write_request nb item =
     rbind (write_free_item (nb_req_items nb) item) (\<lambda>r. case r of
       Inl u \<Rightarrow> Inl UnwrapErr
     | Inr q \<Rightarrow> Inr (nb\<lparr>nb_req_items := q\<rparr>))"

text \<open>\<^verbatim>\<open>seL4_Call_with_item\<close> up to \<^verbatim>\<open>yield_now\<close>: \<^const>\<open>False\<close> when there is no buffer, and the call
  returns \<^verbatim>\<open>Err\<close> at once.\<close>

definition seL4_Call_with_item :: "'f thread \<Rightarrow> sender_id \<Rightarrow> ipc_item \<Rightarrow> (bool \<times> 'f thread) res" where
  "seL4_Call_with_item th sid item =
     rbind (index_res (th_sender_map th) (unat sid)) (\<lambda>ptr.
     rbind (convert_option_mut_ref th ptr) (\<lambda>b. case b of
       None \<Rightarrow> Inr (False, th)
     | Some nb \<Rightarrow>
         rbind (write_request nb item) (\<lambda>nb1.
         if nb_recv_req_status nb1 = False
         then
           let th1 = th\<lparr>th_buffers := (th_buffers th)(ptr \<mapsto> nb1\<lparr>nb_recv_req_status := True\<rparr>)\<rparr> in
           if sid \<noteq> SYSCALL_SENDER
           then Inr (True, th1\<lparr>th_signals := th_signals th1 @ [Uipi sid]\<rparr>)
           else rbind (add_usize (th_submit_syscall_cnt th1) 1) (\<lambda>n.
             Inr (True, th1\<lparr>th_submit_syscall_cnt := n, th_signals := th_signals th1 @ [WakeSyscallHandler]\<rparr>))
         else Inr (True, th\<lparr>th_buffers := (th_buffers th)(ptr \<mapsto> nb1)\<rparr>))))"

definition seL4_Call_with_item_resume :: "'f thread \<Rightarrow> ((unit + ipc_item) \<times> 'f thread) res" where
  "seL4_Call_with_item_resume th =
     rbind (yield_now_resume th) (\<lambda>(v, th'). case v of
       Some r \<Rightarrow> Inr (Inr r, th')
     | None \<Rightarrow> Inr (Inl (), th'))"

definition seL4_Send_with_item :: "'f thread \<Rightarrow> sender_id \<Rightarrow> ipc_item \<Rightarrow> ((unit + ipc_item) \<times> 'f thread) res" where
  "seL4_Send_with_item th sid item =
     rbind (index_res (th_sender_map th) (unat sid)) (\<lambda>ptr.
     rbind (convert_option_mut_ref th ptr) (\<lambda>b. case b of
       None \<Rightarrow> Inr (Inl (), th)
     | Some nb \<Rightarrow>
         rbind (write_request nb item) (\<lambda>nb1.
         if nb_recv_req_status nb1 = False
         then
           let th1 = th\<lparr>th_buffers := (th_buffers th)(ptr \<mapsto> nb1\<lparr>nb_recv_req_status := True\<rparr>)\<rparr> in
           if sid \<noteq> SYSCALL_SENDER
           then Inr (Inl (), th1\<lparr>th_signals := th_signals th1 @ [Uipi sid]\<rparr>)
           else Inr (Inl (), th1\<lparr>th_signals := th_signals th1 @ [WakeSyscallHandler]\<rparr>)
         else Inr (Inl (), th\<lparr>th_buffers := (th_buffers th)(ptr \<mapsto> nb1)\<rparr>))))"

text \<open>\<^verbatim>\<open>seL4_Call\<close> wraps a message-info word; only its first word is sent and replaced.\<close>

definition seL4_Call :: "'f thread \<Rightarrow> sender_id \<Rightarrow> u64 \<Rightarrow> (bool \<times> 'f thread) res" where
  "seL4_Call th sid message_info =
     rbind (coroutine_get_current (th_exec th)) (\<lambda>cid.
     seL4_Call_with_item th sid (item_from cid (ucast message_info)))"

definition seL4_Call_resume :: "'f thread \<Rightarrow> ((unit + u64) \<times> 'f thread) res" where
  "seL4_Call_resume th =
     rbind (seL4_Call_with_item_resume th) (\<lambda>(r, th'). case r of
       Inr res \<Rightarrow> Inr (Inr (ucast (item_msg_info res)), th')
     | Inl e \<Rightarrow> Inr (Inl (), th'))"

section \<open>Receiving replies\<close>

definition res_count :: "usize \<Rightarrow> 'f thread \<Rightarrow> nat" where
  "res_count ptr th = (case th_buffers th ptr of None \<Rightarrow> 0 | Some nb \<Rightarrow> srb_count (nb_res_items nb))"

lemma wake_with_value_buffers:
  "wake_with_value th cid item = Inr th' \<Longrightarrow> th_buffers th' = th_buffers th"
  by (auto simp: wake_with_value_def)

lemma get_first_item_count:
  "get_first_item q = Inr (Some x, q') \<Longrightarrow> srb_count q' < srb_count q"
  by (auto simp: get_first_item_def pop_safe_def split: if_splits)

text \<open>
  The loop of \<^verbatim>\<open>recv_reply_coroutine\<close> and \<^verbatim>\<open>recv_reply_coroutine_async_syscall\<close> from one suspension
  to the next: every reply in the buffer is left for its coroutine, which is woken; an
  empty queue clears \<^verbatim>\<open>recv_reply_status\<close> and suspends.  \<open>reply_count\<close> is the function's static
  counter.
\<close>

function recv_reply_loop :: "usize \<Rightarrow> usize \<Rightarrow> usize \<Rightarrow> 'f thread \<Rightarrow> (poll_result \<times> usize \<times> 'f thread) res" where
  "recv_reply_loop ptr reply_num reply_count th =
     (case th_buffers th ptr of
        None \<Rightarrow> Inl BadPointer
      | Some nb \<Rightarrow>
          rbind (get_first_item (nb_res_items nb)) (\<lambda>(r, q). case r of
            Some item \<Rightarrow>
              rbind (wake_with_value (th\<lparr>th_buffers := (th_buffers th)(ptr \<mapsto> nb\<lparr>nb_res_items := q\<rparr>)\<rparr>)
                (item_cid item) item) (\<lambda>th1.
              rbind (add_usize reply_count 1) (\<lambda>n.
              if n = reply_num then Inr (Ready, n, th1)
              else recv_reply_loop ptr reply_num n th1))
          | None \<Rightarrow>
              Inr (Pending, reply_count,
                th\<lparr>th_buffers := (th_buffers th)(ptr \<mapsto> nb\<lparr>nb_res_items := q, nb_recv_reply_status := False\<rparr>)\<rparr>)))"
  by pat_completeness auto

termination
proof (relation "measure (\<lambda>(ptr, reply_num, n, th). res_count ptr th)", goal_cases)
  case (2 ptr reply_num reply_count th nb y r q item th1 n)
  then have w: "wake_with_value (th\<lparr>th_buffers := (th_buffers th)(ptr \<mapsto> nb\<lparr>nb_res_items := q\<rparr>)\<rparr>) (item_cid item) item = Inr th1"
    and g: "get_first_item (nb_res_items nb) = Inr (Some item, q)" and nb: "th_buffers th ptr = Some nb"
    by auto
  then show ?case
    using wake_with_value_buffers [OF w] get_first_item_count [OF g] by (simp add: res_count_def)
qed simp

declare recv_reply_loop.simps [simp del]

text \<open>A poll of the coroutine: at the first poll the loop starts, at a later one \<^verbatim>\<open>yield_now\<close> returns
  first.  \<open>buffer\<close> is the \<^verbatim>\<open>ipc_new_buffer\<close> of the arguments.\<close>

definition recv_reply_coroutine_poll ::
  "usize option \<Rightarrow> usize \<Rightarrow> bool \<Rightarrow> usize \<Rightarrow> 'f thread \<Rightarrow> (poll_result \<times> usize \<times> 'f thread) res" where
  "recv_reply_coroutine_poll buffer reply_num first reply_count th =
     rbind (unwrap buffer) (\<lambda>ptr.
     if first then recv_reply_loop ptr reply_num reply_count th
     else rbind (yield_now_resume th) (\<lambda>(v, th'). recv_reply_loop ptr reply_num reply_count th'))"

text \<open>The variant for system calls keeps a thread-local counter and prints a decoded address,
  which has no effect on the state.\<close>

definition recv_reply_coroutine_async_syscall_poll ::
  "usize \<Rightarrow> usize \<Rightarrow> bool \<Rightarrow> 'f thread \<Rightarrow> (poll_result \<times> 'f thread) res" where
  "recv_reply_coroutine_async_syscall_poll ptr reply_num first th =
     rbind (if first then Inr th else rbind (yield_now_resume th) (\<lambda>(v, th'). Inr th')) (\<lambda>th0.
     rbind (recv_reply_loop ptr reply_num (th_reply_count th0) th0) (\<lambda>(p, n, th1).
     Inr (p, th1\<lparr>th_reply_count := n\<rparr>)))"

text \<open>The address that \<^verbatim>\<open>recv_reply_coroutine_async_syscall\<close> decodes from a reply: \<^verbatim>\<open>+\<close> binds tighter
  than \<^verbatim>\<open><<\<close>, so that each line shifts the sum.\<close>

definition decode_paddr :: "u16 list \<Rightarrow> u64" where
  "decode_paddr msg =
     (let paddr = 0;
          paddr = push_bit 48 (paddr + ucast (msg ! 1));
          paddr = push_bit 32 (paddr + ucast (msg ! 2));
          paddr = push_bit 16 (paddr + ucast (msg ! 3))
      in paddr + ucast (msg ! 4))"

section \<open>Invariant of a thread\<close>

definition th_wf :: "'f thread \<Rightarrow> bool" where
  "th_wf th \<longleftrightarrow> ex_wf (th_exec th) \<and> length (th_sender_map th) = 64 \<and> length (th_immediate_value th) = MAX_TASK_NUM \<and>
     ia_wf MAX_UINT_VEC (th_uint_vec_allocator th) \<and> dom (th_wake_map th) = ia_used MAX_UINT_VEC (th_uint_vec_allocator th) \<and>
     (\<forall>nb\<in>ran (th_buffers th). nb_wf nb)"

lemma thread_new_wf: "(\<forall>nb\<in>ran bufs. nb_wf nb) \<Longrightarrow> th_wf (thread_new bufs)"
  by (simp add: th_wf_def thread_new_def executor_new_wf ia_new_wf ia_new_used)

end
