(* ===== verification/Async_Syscall.thy ===== *)
theory Async_Syscall
  imports Async_Lib Image_Utils
begin

unbundle bit_operations_syntax

text \<open>
  The asynchronous system calls: the \<^verbatim>\<open>seL4_*\<close> functions of \<^verbatim>\<open>src/async_lib.rs\<close>, which pack their
  arguments into an item and submit it on sender identifier 63, and the wrappers of
  \<^verbatim>\<open>src/async_syscall.rs\<close>.  Capability pointers, rights and object types enter as the words the
  source takes out of them.  Each definition is the call up to its \<^verbatim>\<open>await\<close>; what the call
  returns afterwards is \<open>syscall_finish\<close>.
\<close>

section \<open>Model\<close>

text \<open>Writing words from index 0 on into an item's message.\<close>

definition set_words :: "u16 list \<Rightarrow> u16 list \<Rightarrow> u16 list" where
  "set_words ws msg = ws @ drop (length ws) msg"

definition syscall_item :: "coroutine_id \<Rightarrow> async_message_label \<Rightarrow> u16 list \<Rightarrow> ipc_item" where
  "syscall_item cid label ws =
     item_new\<lparr>item_cid := cid, item_msg_info := label_to_u32 label,
       item_extend_msg := set_words ws (item_extend_msg item_new)\<rparr>"

definition syscall_submit :: "'f thread \<Rightarrow> (coroutine_id \<Rightarrow> ipc_item) \<Rightarrow> (bool \<times> 'f thread) res" where
  "syscall_submit th item =
     rbind (coroutine_get_current (th_exec th)) (\<lambda>cid. seL4_Call_with_item th SYSCALL_SENDER (item cid))"

text \<open>The reply is discarded and every call returns \<^verbatim>\<open>Err(())\<close>.\<close>

definition syscall_finish :: "unit + ipc_item \<Rightarrow> unit + u64" where
  "syscall_finish reply = Inl ()"

definition item_untyped_retype :: "coroutine_id \<Rightarrow> u64 \<Rightarrow> u32 \<Rightarrow> u64 \<Rightarrow> u64 \<Rightarrow> u64 \<Rightarrow> u64 \<Rightarrow> u64 \<Rightarrow> u64 \<Rightarrow> ipc_item" where
  "item_untyped_retype cid service type size_bits root node_index node_depth node_offset num_objects =
     syscall_item cid UntypedRetype [ucast service, ucast type, ucast size_bits, ucast root, ucast node_index, ucast node_depth, ucast node_offset, ucast num_objects]"

definition seL4_Untyped_Retype :: "'f thread \<Rightarrow> u64 \<Rightarrow> u32 \<Rightarrow> u64 \<Rightarrow> u64 \<Rightarrow> u64 \<Rightarrow> u64 \<Rightarrow> u64 \<Rightarrow> u64 \<Rightarrow> (bool \<times> 'f thread) res" where
  "seL4_Untyped_Retype th service type size_bits root node_index node_depth node_offset num_objects =
     syscall_submit th (\<lambda>cid. item_untyped_retype cid service type size_bits root node_index node_depth node_offset num_objects)"

definition item_putchar :: "coroutine_id \<Rightarrow> u16 \<Rightarrow> ipc_item" where
  "item_putchar cid c =
     syscall_item cid PutChar [c]"

definition seL4_Putchar :: "'f thread \<Rightarrow> u16 \<Rightarrow> (bool \<times> 'f thread) res" where
  "seL4_Putchar th c =
     syscall_submit th (\<lambda>cid. item_putchar cid c)"

definition item_tcb_bind_notification :: "coroutine_id \<Rightarrow> u64 \<Rightarrow> u64 \<Rightarrow> ipc_item" where
  "item_tcb_bind_notification cid service notification =
     syscall_item cid TCBBindNotification [ucast service, ucast notification]"

definition seL4_TCB_Bind_Notification :: "'f thread \<Rightarrow> u64 \<Rightarrow> u64 \<Rightarrow> (bool \<times> 'f thread) res" where
  "seL4_TCB_Bind_Notification th service notification =
     syscall_submit th (\<lambda>cid. item_tcb_bind_notification cid service notification)"

definition item_tcb_unbind_notification :: "coroutine_id \<Rightarrow> u64 \<Rightarrow> ipc_item" where
  "item_tcb_unbind_notification cid service =
     syscall_item cid TCBUnbindNotification [ucast service]"

definition seL4_TCB_Unbind_Notification :: "'f thread \<Rightarrow> u64 \<Rightarrow> (bool \<times> 'f thread) res" where
  "seL4_TCB_Unbind_Notification th service =
     syscall_submit th (\<lambda>cid. item_tcb_unbind_notification cid service)"

definition item_cnode_delete :: "coroutine_id \<Rightarrow> u64 \<Rightarrow> u64 \<Rightarrow> u64 \<Rightarrow> ipc_item" where
  "item_cnode_delete cid service node_index node_depth =
     syscall_item cid CNodeDelete [ucast service, ucast node_index, ucast node_depth]"

definition seL4_CNode_Delete :: "'f thread \<Rightarrow> u64 \<Rightarrow> u64 \<Rightarrow> u64 \<Rightarrow> (bool \<times> 'f thread) res" where
  "seL4_CNode_Delete th service node_index node_depth =
     syscall_submit th (\<lambda>cid. item_cnode_delete cid service node_index node_depth)"

definition item_cnode_copy :: "coroutine_id \<Rightarrow> u64 \<Rightarrow> u64 \<Rightarrow> u64 \<Rightarrow> u64 \<Rightarrow> u64 \<Rightarrow> u64 \<Rightarrow> u64 \<Rightarrow> ipc_item" where
  "item_cnode_copy cid dest_root dest_index dest_depth src_root src_index src_depth cap_right =
     syscall_item cid CNodeCopy [ucast dest_root, ucast dest_index, ucast dest_depth, ucast src_root, ucast src_index, ucast src_depth, ucast cap_right]"

definition seL4_CNode_Copy :: "'f thread \<Rightarrow> u64 \<Rightarrow> u64 \<Rightarrow> u64 \<Rightarrow> u64 \<Rightarrow> u64 \<Rightarrow> u64 \<Rightarrow> u64 \<Rightarrow> (bool \<times> 'f thread) res" where
  "seL4_CNode_Copy th dest_root dest_index dest_depth src_root src_index src_depth cap_right =
     syscall_submit th (\<lambda>cid. item_cnode_copy cid dest_root dest_index dest_depth src_root src_index src_depth cap_right)"

definition item_cnode_mint :: "coroutine_id \<Rightarrow> u64 \<Rightarrow> u64 \<Rightarrow> u64 \<Rightarrow> u64 \<Rightarrow> u64 \<Rightarrow> u64 \<Rightarrow> u64 \<Rightarrow> u64 \<Rightarrow> ipc_item" where
  "item_cnode_mint cid dest_root dest_index dest_depth src_root src_index src_depth cap_right badge =
     syscall_item cid CNodeCopy [ucast dest_root, ucast dest_index, ucast dest_depth, ucast src_root, ucast src_index, ucast src_depth, ucast cap_right, ucast badge]"

definition seL4_CNode_Mint :: "'f thread \<Rightarrow> u64 \<Rightarrow> u64 \<Rightarrow> u64 \<Rightarrow> u64 \<Rightarrow> u64 \<Rightarrow> u64 \<Rightarrow> u64 \<Rightarrow> u64 \<Rightarrow> (bool \<times> 'f thread) res" where
  "seL4_CNode_Mint th dest_root dest_index dest_depth src_root src_index src_depth cap_right badge =
     syscall_submit th (\<lambda>cid. item_cnode_mint cid dest_root dest_index dest_depth src_root src_index src_depth cap_right badge)"

definition item_riscv_pagetable_map :: "coroutine_id \<Rightarrow> u64 \<Rightarrow> u64 \<Rightarrow> u64 \<Rightarrow> u64 \<Rightarrow> ipc_item" where
  "item_riscv_pagetable_map cid service vspace vaddr attrs =
     syscall_item cid RISCVPageTableMap [ucast service, ucast vspace, ucast (drop_bit 12 vaddr), ucast attrs]"

definition seL4_RISCV_PageTable_Map :: "'f thread \<Rightarrow> u64 \<Rightarrow> u64 \<Rightarrow> u64 \<Rightarrow> u64 \<Rightarrow> (bool \<times> 'f thread) res" where
  "seL4_RISCV_PageTable_Map th service vspace vaddr attrs =
     syscall_submit th (\<lambda>cid. item_riscv_pagetable_map cid service vspace vaddr attrs)"

definition item_riscv_pagetable_unmap :: "coroutine_id \<Rightarrow> u64 \<Rightarrow> ipc_item" where
  "item_riscv_pagetable_unmap cid service =
     syscall_item cid RISCVPageTableUnmap [ucast service]"

definition seL4_RISCV_PageTable_Unmap :: "'f thread \<Rightarrow> u64 \<Rightarrow> (bool \<times> 'f thread) res" where
  "seL4_RISCV_PageTable_Unmap th service =
     syscall_submit th (\<lambda>cid. item_riscv_pagetable_unmap cid service)"

definition item_riscv_page_map :: "coroutine_id \<Rightarrow> u64 \<Rightarrow> u64 \<Rightarrow> u64 \<Rightarrow> u64 \<Rightarrow> u64 \<Rightarrow> ipc_item" where
  "item_riscv_page_map cid service page_table vaddr rights attrs =
     syscall_item cid RISCVPageMap [ucast service, ucast page_table, ucast (drop_bit 12 vaddr), ucast rights, ucast attrs]"

definition seL4_RISCV_Page_Map :: "'f thread \<Rightarrow> u64 \<Rightarrow> u64 \<Rightarrow> u64 \<Rightarrow> u64 \<Rightarrow> u64 \<Rightarrow> (bool \<times> 'f thread) res" where
  "seL4_RISCV_Page_Map th service page_table vaddr rights attrs =
     syscall_submit th (\<lambda>cid. item_riscv_page_map cid service page_table vaddr rights attrs)"

definition item_riscv_page_unmap :: "coroutine_id \<Rightarrow> u64 \<Rightarrow> ipc_item" where
  "item_riscv_page_unmap cid service =
     syscall_item cid RISCVPageUnmap [ucast service]"

definition seL4_RISCV_Page_Unmap :: "'f thread \<Rightarrow> u64 \<Rightarrow> (bool \<times> 'f thread) res" where
  "seL4_RISCV_Page_Unmap th service =
     syscall_submit th (\<lambda>cid. item_riscv_page_unmap cid service)"

text \<open>\<^verbatim>\<open>seL4_Putstring\<close> sends its argument in rounds of seven words; \<open>i\<close> is the round.\<close>

definition putstring_item :: "coroutine_id \<Rightarrow> u16 list \<Rightarrow> nat \<Rightarrow> ipc_item res" where
  "putstring_item cid data i =
     (let len = length data; round = len div 7 in
      rbind (if i < round then Inr 7 else sub_usize len (7 * i)) (\<lambda>num.
      let offset = i * 7 in
      rbind (guard_res (num = 0 \<or> offset + num \<le> length data \<and> num < MAX_IPC_MSG_LEN) IndexOutOfBounds) (\<lambda>_.
      Inr (syscall_item cid PutString (of_nat num # take num (drop offset data))))))"

definition putstring_rounds :: "u16 list \<Rightarrow> nat" where
  "putstring_rounds data = length data div 7 + 1"

definition seL4_Putstring :: "'f thread \<Rightarrow> coroutine_id \<Rightarrow> u16 list \<Rightarrow> nat \<Rightarrow> (bool \<times> 'f thread) res" where
  "seL4_Putstring th cid data i =
     rbind (putstring_item cid data i) (\<lambda>item. seL4_Call_with_item th SYSCALL_SENDER item)"

definition item_page_get_address :: "coroutine_id \<Rightarrow> usize \<Rightarrow> ipc_item" where
  "item_page_get_address cid frame_cap = syscall_item cid RISCVPageGetAddress [of_nat frame_cap]"

definition seL4_RISCV_Page_Get_Address :: "image_utils \<Rightarrow> 'f thread \<Rightarrow> usize \<Rightarrow> (bool \<times> 'f thread) res" where
  "seL4_RISCV_Page_Get_Address im th vaddr =
     (let offset = vaddr mod 4096; new_vaddr = vaddr - offset in
      rbind (get_user_image_frame_slot im new_vaddr) (\<lambda>frame_cap.
      syscall_submit th (\<lambda>cid. item_page_get_address cid frame_cap)))"

section \<open>The wrappers\<close>

definition syscall_untyped_retype :: "'f thread \<Rightarrow> u64 \<Rightarrow> u32 \<Rightarrow> u64 \<Rightarrow> u64 \<Rightarrow> u64 \<Rightarrow> u64 \<Rightarrow> u64 \<Rightarrow> u64 \<Rightarrow> (bool \<times> 'f thread) res" where
  "syscall_untyped_retype th service type size_bits root node_index node_depth node_offset num_objects = seL4_Untyped_Retype th service type size_bits root node_index node_depth node_offset num_objects"

definition syscall_putchar :: "'f thread \<Rightarrow> u16 \<Rightarrow> (bool \<times> 'f thread) res" where
  "syscall_putchar th c = seL4_Putchar th c"

definition syscall_tcb_bind_notification :: "'f thread \<Rightarrow> u64 \<Rightarrow> u64 \<Rightarrow> (bool \<times> 'f thread) res" where
  "syscall_tcb_bind_notification th service notification = seL4_TCB_Bind_Notification th service notification"

definition syscall_tcb_unbind_notification :: "'f thread \<Rightarrow> u64 \<Rightarrow> (bool \<times> 'f thread) res" where
  "syscall_tcb_unbind_notification th service = seL4_TCB_Unbind_Notification th service"

definition syscall_cnode_delete :: "'f thread \<Rightarrow> u64 \<Rightarrow> u64 \<Rightarrow> u64 \<Rightarrow> (bool \<times> 'f thread) res" where
  "syscall_cnode_delete th service node_index node_depth = seL4_CNode_Delete th service node_index node_depth"

definition syscall_cnode_copy :: "'f thread \<Rightarrow> u64 \<Rightarrow> u64 \<Rightarrow> u64 \<Rightarrow> u64 \<Rightarrow> u64 \<Rightarrow> u64 \<Rightarrow> u64 \<Rightarrow> (bool \<times> 'f thread) res" where
  "syscall_cnode_copy th dest_root dest_index dest_depth src_root src_index src_depth cap_right = seL4_CNode_Copy th dest_root dest_index dest_depth src_root src_index src_depth cap_right"

definition syscall_cnode_mint :: "'f thread \<Rightarrow> u64 \<Rightarrow> u64 \<Rightarrow> u64 \<Rightarrow> u64 \<Rightarrow> u64 \<Rightarrow> u64 \<Rightarrow> u64 \<Rightarrow> u64 \<Rightarrow> (bool \<times> 'f thread) res" where
  "syscall_cnode_mint th dest_root dest_index dest_depth src_root src_index src_depth cap_right badge = seL4_CNode_Mint th dest_root dest_index dest_depth src_root src_index src_depth cap_right badge"

definition syscall_riscv_pagetable_map :: "'f thread \<Rightarrow> u64 \<Rightarrow> u64 \<Rightarrow> u64 \<Rightarrow> u64 \<Rightarrow> (bool \<times> 'f thread) res" where
  "syscall_riscv_pagetable_map th service vspace vaddr attrs = seL4_RISCV_PageTable_Map th service vspace vaddr attrs"

definition syscall_riscv_pagetable_unmap :: "'f thread \<Rightarrow> u64 \<Rightarrow> (bool \<times> 'f thread) res" where
  "syscall_riscv_pagetable_unmap th service = seL4_RISCV_PageTable_Unmap th service"

definition syscall_riscv_page_map :: "'f thread \<Rightarrow> u64 \<Rightarrow> u64 \<Rightarrow> u64 \<Rightarrow> u64 \<Rightarrow> u64 \<Rightarrow> (bool \<times> 'f thread) res" where
  "syscall_riscv_page_map th service page_table vaddr rights attrs = seL4_RISCV_Page_Map th service page_table vaddr rights attrs"

definition syscall_riscv_page_unmap :: "'f thread \<Rightarrow> u64 \<Rightarrow> (bool \<times> 'f thread) res" where
  "syscall_riscv_page_unmap th service = seL4_RISCV_Page_Unmap th service"

definition syscall_putstring :: "'f thread \<Rightarrow> coroutine_id \<Rightarrow> u16 list \<Rightarrow> nat \<Rightarrow> (bool \<times> 'f thread) res" where
  "syscall_putstring th cid data i = seL4_Putstring th cid data i"

definition syscall_riscv_page_get_address :: "image_utils \<Rightarrow> 'f thread \<Rightarrow> usize \<Rightarrow> (bool \<times> 'f thread) res" where
  "syscall_riscv_page_get_address im th vaddr = seL4_RISCV_Page_Get_Address im th vaddr"

section \<open>Properties\<close>

lemma syscall_item_simps [simp]:
  "item_cid (syscall_item cid l ws) = cid"
  "item_msg_info (syscall_item cid l ws) = label_to_u32 l"
  by (simp_all add: syscall_item_def)

lemma syscall_item_word:
  "i < length ws \<Longrightarrow> item_extend_msg (syscall_item cid l ws) ! i = ws ! i"
  by (simp add: syscall_item_def set_words_def nth_append)

lemma syscall_item_length: "length ws \<le> 16 \<Longrightarrow> length (item_extend_msg (syscall_item cid l ws)) = 16"
  by (simp add: syscall_item_def set_words_def item_new_def MAX_IPC_MSG_LEN_def)

text \<open>The label the receiver decodes is that of the call that was made for every system call
  below but two: \<^verbatim>\<open>seL4_CNode_Mint\<close> sends the label of a copy, so that a mint whose badge is 0 modulo
  65536 is the very item of the copy, and the label of \<^verbatim>\<open>seL4_RISCV_Page_Unmap\<close> decodes to the
  unmapping of a page table.\<close>

theorem syscall_labels:
  "label_from_u32 (item_msg_info (item_untyped_retype c a1 ty a2 a3 a4 a5 a6 a7)) = UntypedRetype \<and>
   label_from_u32 (item_msg_info (item_putchar c ch)) = PutChar \<and>
   label_from_u32 (item_msg_info (item_tcb_bind_notification c a1 a2)) = TCBBindNotification \<and>
   label_from_u32 (item_msg_info (item_tcb_unbind_notification c a1)) = TCBUnbindNotification \<and>
   label_from_u32 (item_msg_info (item_cnode_delete c a1 a2 a3)) = CNodeDelete \<and>
   label_from_u32 (item_msg_info (item_cnode_copy c a1 a2 a3 a4 a5 a6 a7)) = CNodeCopy \<and>
   label_from_u32 (item_msg_info (item_riscv_pagetable_map c a1 a2 a3 a4)) = RISCVPageTableMap \<and>
   label_from_u32 (item_msg_info (item_riscv_pagetable_unmap c a1)) = RISCVPageTableUnmap \<and>
   label_from_u32 (item_msg_info (item_riscv_page_map c a1 a2 a3 a4 a5)) = RISCVPageMap \<and>
   label_from_u32 (item_msg_info (item_page_get_address c n)) = RISCVPageGetAddress \<and>
   label_from_u32 (item_msg_info (item_cnode_mint c a1 a2 a3 a4 a5 a6 a7 badge)) = CNodeCopy \<and>
   item_cnode_mint c a1 a2 a3 a4 a5 a6 a7 (push_bit 16 badge) = item_cnode_copy c a1 a2 a3 a4 a5 a6 a7 \<and>
   label_from_u32 (item_msg_info (item_riscv_page_unmap c a1)) = RISCVPageTableUnmap"
proof -
  have "ucast (push_bit 16 badge) = (0 :: u16)" by (rule bit_eqI) (simp add: bit_simps)
  then have "item_cnode_mint c a1 a2 a3 a4 a5 a6 a7 (push_bit 16 badge) = item_cnode_copy c a1 a2 a3 a4 a5 a6 a7"
    by (simp add: item_cnode_mint_def item_cnode_copy_def syscall_item_def set_words_def item_new_def
        MAX_IPC_MSG_LEN_def eval_nat_numeral)
  then show ?thesis
    by (simp add: item_untyped_retype_def item_putchar_def item_tcb_bind_notification_def item_tcb_unbind_notification_def
        item_cnode_delete_def item_cnode_copy_def item_riscv_pagetable_map_def item_riscv_pagetable_unmap_def
        item_riscv_page_map_def item_page_get_address_def item_cnode_mint_def item_riscv_page_unmap_def label_from_u32_def)
qed

text \<open>A string item read the way \<^verbatim>\<open>seL4_Putstring\<close> fills it: the count, then that many words.\<close>

definition string_payload :: "ipc_item \<Rightarrow> u16 list" where
  "string_payload item = take (unat (item_extend_msg item ! 0)) (tl (item_extend_msg item))"

lemma putstring_item_ok:
  assumes "i < putstring_rounds data"
  shows "\<exists>item. putstring_item cid data i = Inr item \<and> item_cid item = cid \<and>
    label_from_u32 (item_msg_info item) = PutString \<and> length (item_extend_msg item) = 16 \<and>
    string_payload item = take 7 (drop (i * 7) data)"
proof -
  let ?num = "if i < length data div 7 then 7 else length data - 7 * i"
  have i: "i \<le> length data div 7" using assms by (simp add: putstring_rounds_def)
  then have le: "7 * i \<le> length data" by (metis div_le_dividend div_times_less_eq_dividend le_trans mult.commute mult_le_mono1)
  have num: "?num \<le> 7" "i * 7 + ?num \<le> length data"
    and tk: "take ?num (drop (i * 7) data) = take 7 (drop (i * 7) data)"
  proof -
    have "i * 7 + 7 \<le> length data" if "i < length data div 7"
      using that div_times_less_eq_dividend [of "length data" 7] by linarith
    moreover have "length data - 7 * i < 7" if "\<not> i < length data div 7"
    proof -
      have "i = length data div 7" using that i by simp
      then have "length data - 7 * i = length data mod 7" by (simp add: minus_mult_div_eq_mod)
      then show ?thesis by simp
    qed
    ultimately show "?num \<le> 7" "i * 7 + ?num \<le> length data" "take ?num (drop (i * 7) data) = take 7 (drop (i * 7) data)"
      using le by auto
  qed
  let ?item = "syscall_item cid PutString (of_nat ?num # take ?num (drop (i * 7) data))"
  have item: "putstring_item cid data i = Inr ?item"
    using num le by (auto simp: putstring_item_def Let_def sub_usize_def guard_res_def MAX_IPC_MSG_LEN_def)
  have len: "length (take ?num (drop (i * 7) data)) = ?num" using num(2) by auto
  have "unat (of_nat ?num :: u16) = ?num" using num(1) by (simp add: unat_of_nat take_bit_nat_eq_self)
  then have "string_payload ?item = take ?num (drop (i * 7) data)"
    using len by (simp add: string_payload_def syscall_item_def set_words_def)
  moreover have "length (item_extend_msg ?item) = 16" using num(1) len by (intro syscall_item_length) simp
  ultimately show ?thesis using item tk by (intro exI [of _ ?item]) (simp add: label_from_u32_def)
qed

lemma concat_chunks:
  "n * 7 \<le> length xs \<Longrightarrow> concat (map (\<lambda>i. take 7 (drop (i * 7) xs)) [0..<n]) = take (n * 7) xs"
proof (induction n)
  case (Suc n)
  have "take (n * 7) xs @ take 7 (drop (n * 7) xs) = take (n * 7 + 7) xs" by (simp add: take_add)
  with Suc show ?case by (simp add: add.commute)
qed simp

text \<open>C27. \<^verbatim>\<open>seL4_Putstring\<close> builds each of its rounds without panicking, every round carries at most
  seven words in an item addressed back to the caller, and the payloads the receiver reads
  are, in order, exactly the string; when the length is a multiple of seven the last round
  is an empty message.\<close>

theorem putstring_roundtrip:
  "\<exists>items. map (putstring_item cid data) [0..<putstring_rounds data] = map Inr items \<and>
     concat (map string_payload items) = data \<and>
     list_all (\<lambda>item. length (string_payload item) \<le> 7 \<and> item_cid item = cid) items \<and>
     (7 dvd length data \<longleftrightarrow> string_payload (last items) = [])"
proof -
  let ?n = "putstring_rounds data"
  obtain f where f: "\<forall>i<?n. putstring_item cid data i = Inr (f i) \<and> item_cid (f i) = cid \<and>
      string_payload (f i) = take 7 (drop (i * 7) data)"
    using putstring_item_ok [of _ data cid] by metis
  let ?items = "map f [0..<?n]"
  have "map (putstring_item cid data) [0..<?n] = map Inr ?items" using f by simp
  moreover have "concat (map string_payload ?items) = data"
  proof -
    let ?k = "length data div 7"
    let ?g = "\<lambda>i. take 7 (drop (i * 7) data)"
    have "map string_payload ?items = map ?g [0..<?n]" using f by simp
    also have "\<dots> = map ?g [0..<?k] @ [?g ?k]" by (simp add: putstring_rounds_def)
    finally have "concat (map string_payload ?items) = concat (map ?g [0..<?k]) @ ?g ?k" by (simp only: concat_append concat.simps append_Nil2)
    also have "\<dots> = take (?k * 7) data @ ?g ?k"
      using concat_chunks [of ?k data] by (simp only: div_times_less_eq_dividend)
    also have "\<dots> = take (?k * 7 + 7) data" by (simp add: take_add)
    also have "\<dots> = data" using dividend_less_times_div [of 7 "length data"] by simp
    finally show ?thesis .
  qed
  moreover have "list_all (\<lambda>item. length (string_payload item) \<le> 7 \<and> item_cid item = cid) ?items" using f by (auto simp: list_all_iff)
  moreover have "7 dvd length data \<longleftrightarrow> string_payload (last ?items) = []"
  proof -
    have "last ?items = f (length data div 7)" by (simp add: putstring_rounds_def)
    then have "string_payload (last ?items) = take 7 (drop (length data div 7 * 7) data)" using f by (simp add: putstring_rounds_def)
    then have "string_payload (last ?items) = [] \<longleftrightarrow> length data - length data div 7 * 7 = 0" by simp
    then show ?thesis by (simp add: minus_div_mult_eq_mod dvd_eq_mod_eq_0)
  qed
  ultimately show ?thesis by blast
qed

text \<open>A page-map request carries its virtual address as 16 bits of page number: the receiver
  that shifts them back gets the address exactly when it is page-aligned and below 256 MiB.\<close>

theorem page_map_vaddr_roundtrip:
  "push_bit 12 (ucast (item_extend_msg (item_riscv_page_map cid service pt vaddr rights attrs) ! 2)) = vaddr \<longleftrightarrow>
     unat vaddr mod 4096 = 0 \<and> unat vaddr < 2 ^ 28"
proof -
  have "item_extend_msg (item_riscv_page_map cid service pt vaddr rights attrs) ! 2 = ucast (drop_bit 12 vaddr)"
    by (simp add: item_riscv_page_map_def syscall_item_word)
  moreover have "push_bit 12 (ucast (ucast (drop_bit 12 vaddr) :: u16)) = vaddr \<longleftrightarrow> (\<forall>j. bit vaddr j \<longrightarrow> 12 \<le> j \<and> j < 28)"
  proof -
    have "bit (push_bit 12 (ucast (ucast (drop_bit 12 vaddr) :: u16)) :: u64) j \<longleftrightarrow> 12 \<le> j \<and> j < 28 \<and> bit vaddr j" for j
      by (auto simp: bit_simps)
    then have "push_bit 12 (ucast (ucast (drop_bit 12 vaddr) :: u16)) = vaddr \<longleftrightarrow>
        (\<forall>j. 12 \<le> j \<and> j < 28 \<and> bit vaddr j \<longleftrightarrow> bit vaddr j)" by (metis bit_eqI)
    then show ?thesis by blast
  qed
  moreover have "unat vaddr mod 4096 = 0 \<longleftrightarrow> (\<forall>j<12. \<not> bit vaddr j)" using unat_mod_exp_iff [of vaddr 12] by simp
  moreover have "unat vaddr < 2 ^ 28 \<longleftrightarrow> (\<forall>j\<ge>28. \<not> bit vaddr j)" by (rule unat_less_exp_iff)
  ultimately show ?thesis by (metis not_le)
qed

end
