(* ===== verification/Memory_Allocator.thy ===== *)
theory Memory_Allocator
  imports Object_Allocator Async_Syscall
begin

text \<open>
  \<^verbatim>\<open>src/memory_allocator.rs\<close>: a window of sixteen pages that are mapped and unmapped by address.
  A page has a slot; slots come from the recycled ones (a stack) or from a counter.  The
  asynchronous version suspends inside \<^verbatim>\<open>map_vaddr\<close> and \<^verbatim>\<open>unmap_vaddr\<close>, so each is a first half, up
  to its system call, and a second half.  The system calls, made on the frame of the slot,
  are recorded.  The synchronous version has the same fields and the same \<^verbatim>\<open>alloc_slot\<close>.
\<close>

section \<open>Model\<close>

definition START_ADDR :: usize where "START_ADDR = 33554432"
definition END_ADDR :: usize where "END_ADDR = 33619968"
definition PAGE_SIZE :: usize where "PAGE_SIZE = 4096"
definition MAX_PAGE_NUM :: usize where "MAX_PAGE_NUM = (END_ADDR - START_ADDR) div PAGE_SIZE"

text \<open>The requests: mapping a frame at an address, unmapping it, retyping an untyped region into a slot,
  and mapping a page table.\<close>

datatype page_req =
    MapReq usize usize
  | UnmapReq usize
  | RetypeReq usize blueprint usize
  | PageTableMapReq usize usize

record mem_allocator =
  ma_current :: usize
  ma_recycled :: "usize list"
  ma_frames :: "usize list"
  ma_mapped_vaddrs :: "usize list"
  ma_requests :: "page_req list"

definition ma_new :: mem_allocator where
  "ma_new = \<lparr>ma_current = 0, ma_recycled = [], ma_frames = replicate MAX_PAGE_NUM 0,
     ma_mapped_vaddrs = replicate MAX_PAGE_NUM 0, ma_requests = []\<rparr>"

text \<open>\<^verbatim>\<open>Vec::pop\<close> takes the last element.\<close>

definition alloc_slot :: "mem_allocator \<Rightarrow> usize option \<times> mem_allocator" where
  "alloc_slot ma =
     (if ma_recycled ma \<noteq> [] then (Some (last (ma_recycled ma)), ma\<lparr>ma_recycled := butlast (ma_recycled ma)\<rparr>)
      else if ma_current ma < MAX_PAGE_NUM then (Some (ma_current ma), ma\<lparr>ma_current := ma_current ma + 1\<rparr>)
      else (None, ma))"

text \<open>The frames that \<^verbatim>\<open>init\<close> obtains, one \<^verbatim>\<open>alloc_frame\<close> per page, and its page table, whose mapping may
  fail unnoticed; the asynchronous version takes regions and slots from the same allocator, retypes
  by system call and stores each frame once its call has returned.\<close>

fun alloc_frames :: "kernel \<Rightarrow> nat \<Rightarrow> object_allocator \<Rightarrow> (usize list \<times> object_allocator) res" where
  "alloc_frames k 0 oa = Inr ([], oa)"
| "alloc_frames k (Suc n) oa =
     rbind (kunwrap (alloc_frame k oa)) (\<lambda>(f, oa1).
     rbind (alloc_frames k n oa1) (\<lambda>(fs, oa2). Inr (f # fs, oa2)))"

definition sync_init :: "kernel \<Rightarrow> object_allocator \<Rightarrow> mem_allocator \<Rightarrow> (mem_allocator \<times> object_allocator) res" where
  "sync_init k oa ma =
     rbind (alloc_frames k MAX_PAGE_NUM oa) (\<lambda>(fs, oa1).
     rbind (kunwrap (alloc_page_table k oa1)) (\<lambda>(page_table, oa2).
     let vaddr = 0x2000000 in
     Inr (ma\<lparr>ma_frames := fs\<rparr>, snd (invoke k (PageTableMap page_table vaddr) oa2))))"

fun async_frames :: "kernel \<Rightarrow> nat \<Rightarrow> nat \<Rightarrow> object_allocator \<Rightarrow> mem_allocator \<Rightarrow> (mem_allocator \<times> object_allocator) res" where
  "async_frames k i 0 oa ma = Inr (ma, oa)"
| "async_frames k i (Suc n) oa ma =
     rbind (get_the_first_untyped_slot k oa B4KPage) (\<lambda>(untyped, oa1).
     rbind (get_empty_slot oa1) (\<lambda>(slot, oa2).
     rbind (store_res (ma_frames ma) i slot) (\<lambda>frames.
     async_frames k (Suc i) n oa2 (ma\<lparr>ma_requests := ma_requests ma @ [RetypeReq untyped B4KPage slot], ma_frames := frames\<rparr>))))"

definition async_init :: "kernel \<Rightarrow> object_allocator \<Rightarrow> mem_allocator \<Rightarrow> (mem_allocator \<times> object_allocator) res" where
  "async_init k oa ma =
     rbind (async_frames k 0 MAX_PAGE_NUM oa ma) (\<lambda>(ma1, oa1).
     rbind (get_the_first_untyped_slot k oa1 BPageTable) (\<lambda>(pt_untyped, oa2).
     rbind (get_empty_slot oa2) (\<lambda>(pt_slot, oa3).
     let vaddr = 0x2000000 in
     Inr (ma1\<lparr>ma_requests := ma_requests ma1 @ [RetypeReq pt_untyped BPageTable pt_slot, PageTableMapReq pt_slot vaddr]\<rparr>, oa3))))"

definition valid_vaddr :: "usize \<Rightarrow> bool" where
  "valid_vaddr vaddr \<longleftrightarrow> START_ADDR \<le> vaddr \<and> vaddr < END_ADDR \<and> vaddr mod 4096 = 0"

text \<open>\<^verbatim>\<open>map_vaddr\<close>: \<^const>\<open>Some\<close> slot when it goes on after the system call.\<close>

definition map_begin :: "mem_allocator \<Rightarrow> usize \<Rightarrow> (usize option \<times> mem_allocator) res" where
  "map_begin ma vaddr =
     (if valid_vaddr vaddr
      then case alloc_slot ma of
          (Some slot, ma1) \<Rightarrow>
            rbind (index_res (ma_frames ma1) slot) (\<lambda>frame.
            Inr (Some slot, ma1\<lparr>ma_requests := ma_requests ma1 @ [MapReq frame vaddr]\<rparr>))
        | (None, ma1) \<Rightarrow> Inr (None, ma1)
      else Inr (None, ma))"

definition map_finish :: "mem_allocator \<Rightarrow> usize \<Rightarrow> usize \<Rightarrow> mem_allocator res" where
  "map_finish ma slot vaddr =
     rbind (store_res (ma_mapped_vaddrs ma) slot vaddr) (\<lambda>m. Inr (ma\<lparr>ma_mapped_vaddrs := m\<rparr>))"

definition map_vaddr :: "mem_allocator \<Rightarrow> usize \<Rightarrow> mem_allocator res" where
  "map_vaddr ma vaddr =
     rbind (map_begin ma vaddr) (\<lambda>(s, ma1). case s of None \<Rightarrow> Inr ma1 | Some slot \<Rightarrow> map_finish ma1 slot vaddr)"

definition unmap_begin :: "mem_allocator \<Rightarrow> usize \<Rightarrow> (usize option \<times> mem_allocator) res" where
  "unmap_begin ma vaddr =
     (case range_find (\<lambda>i. vaddr = ma_mapped_vaddrs ma ! i) 0 (length (ma_mapped_vaddrs ma)) of
        None \<Rightarrow> Inr (None, ma)
      | Some index \<Rightarrow>
          rbind (index_res (ma_frames ma) index) (\<lambda>frame.
          Inr (Some index, ma\<lparr>ma_requests := ma_requests ma @ [UnmapReq frame]\<rparr>)))"

definition unmap_finish :: "mem_allocator \<Rightarrow> usize \<Rightarrow> mem_allocator res" where
  "unmap_finish ma index =
     rbind (store_res (ma_mapped_vaddrs ma) index 0) (\<lambda>m.
     Inr (ma\<lparr>ma_mapped_vaddrs := m, ma_recycled := ma_recycled ma @ [index]\<rparr>))"

definition unmap_vaddr :: "mem_allocator \<Rightarrow> usize \<Rightarrow> mem_allocator res" where
  "unmap_vaddr ma vaddr =
     rbind (unmap_begin ma vaddr) (\<lambda>(s, ma1). case s of None \<Rightarrow> Inr ma1 | Some index \<Rightarrow> unmap_finish ma1 index)"

definition single_test :: "mem_allocator \<Rightarrow> usize \<Rightarrow> mem_allocator res" where
  "single_test ma vaddr = rbind (map_vaddr ma vaddr) (\<lambda>ma1. unmap_vaddr ma1 vaddr)"

text \<open>The loop of \<^verbatim>\<open>run_sync_memory_alloc_test\<close>: its \<^verbatim>\<open>unmap_vaddr\<close> is an \<^verbatim>\<open>async fn\<close> whose future is
  dropped without being polled, which does nothing.\<close>

fun sync_test_loop :: "nat \<Rightarrow> usize \<Rightarrow> mem_allocator \<Rightarrow> mem_allocator res" where
  "sync_test_loop 0 vaddr ma = Inr ma"
| "sync_test_loop (Suc n) vaddr ma = rbind (map_vaddr ma vaddr) (\<lambda>ma1. sync_test_loop n (vaddr + PAGE_SIZE) ma1)"

definition run_sync_memory_alloc_test :: "kernel \<Rightarrow> object_allocator \<Rightarrow> mem_allocator \<Rightarrow> mem_allocator res" where
  "run_sync_memory_alloc_test k oa ma =
     rbind (sync_init k oa ma) (\<lambda>(ma1, oa1). sync_test_loop MAX_PAGE_NUM START_ADDR ma1)"

text \<open>\<^verbatim>\<open>run_async_memory_alloc_test\<close> sets the frames up and then only advances an address: the tests it
  would spawn are commented out.\<close>

fun async_test_loop :: "nat \<Rightarrow> usize \<Rightarrow> usize res" where
  "async_test_loop 0 vaddr = Inr vaddr"
| "async_test_loop (Suc n) vaddr = rbind (add_usize vaddr PAGE_SIZE) (async_test_loop n)"

definition run_async_memory_alloc_test ::
  "kernel \<Rightarrow> object_allocator \<Rightarrow> mem_allocator \<Rightarrow> (mem_allocator \<times> object_allocator) res" where
  "run_async_memory_alloc_test k oa ma =
     rbind (async_init k oa ma) (\<lambda>(ma1, oa1).
     rbind (async_test_loop MAX_PAGE_NUM START_ADDR) (\<lambda>vaddr. Inr (ma1, oa1)))"

record test_data =
  td_data :: usize

definition change_data :: "test_data \<Rightarrow> test_data" where
  "change_data td = td\<lparr>td_data := 10000000\<rparr>"

section \<open>Invariant\<close>

definition in_use :: "mem_allocator \<Rightarrow> nat set" where
  "in_use ma = {i. i < MAX_PAGE_NUM \<and> ma_mapped_vaddrs ma ! i \<noteq> 0}"

text \<open>What the setup of the asynchronous version submits: one retype per page, then the page table; the
  destination slots are consecutive and become the frames.\<close>

lemma async_frames_requests:
  assumes "async_frames k i n oa ma = Inr (ma', oa')"
  shows "ma_mapped_vaddrs ma' = ma_mapped_vaddrs ma \<and> length (ma_frames ma') = length (ma_frames ma) \<and>
    (\<exists>us. length us = n \<and> ma_requests ma' = ma_requests ma @ map (\<lambda>(u, s). RetypeReq u B4KPage s) (zip us [oa_empty_start oa..<oa_empty_start oa + n])) \<and>
    (\<forall>j. ma_frames ma' ! j = (if i \<le> j \<and> j < i + n then oa_empty_start oa + (j - i) else ma_frames ma ! j)) \<and>
    oa_empty_start oa' = oa_empty_start oa + n"
  using assms
proof (induction n arbitrary: i oa ma)
  case (Suc n)
  then obtain u oa1 where u: "get_the_first_untyped_slot k oa B4KPage = Inr (u, oa1)"
    and room: "oa_empty_start oa1 < oa_empty_end oa1" and i: "i < length (ma_frames ma)"
    and rest: "async_frames k (Suc i) n (oa1\<lparr>oa_empty_start := oa_empty_start oa1 + 1\<rparr>)
      (ma\<lparr>ma_requests := ma_requests ma @ [RetypeReq u B4KPage (oa_empty_start oa1)],
        ma_frames := (ma_frames ma)[i := oa_empty_start oa1]\<rparr>) = Inr (ma', oa')"
    by (auto simp: get_empty_slot_def split: if_splits)
  have s: "oa_empty_start oa1 = oa_empty_start oa" using get_untyped_Inr [OF u] by auto
  from Suc.IH [OF rest] obtain us where us: "length us = n"
      "ma_requests ma' = ma_requests ma @ [RetypeReq u B4KPage (oa_empty_start oa)] @
        map (\<lambda>(u, s). RetypeReq u B4KPage s) (zip us [Suc (oa_empty_start oa)..<Suc (oa_empty_start oa) + n])"
    by (auto simp: s)
  have "ma_requests ma' = ma_requests ma @
      map (\<lambda>(u, s). RetypeReq u B4KPage s) (zip (u # us) [oa_empty_start oa..<oa_empty_start oa + Suc n])"
    using us(2) by (simp add: upt_conv_Cons del: upt_Suc)
  moreover have "length (u # us) = Suc n" using us(1) by simp
  moreover have "ma_frames ma' ! j = (if i \<le> j \<and> j < i + Suc n then oa_empty_start oa + (j - i) else ma_frames ma ! j)" for j
    using Suc.IH [OF rest] i by (auto simp: s nth_list_update)
  moreover have "ma_mapped_vaddrs ma' = ma_mapped_vaddrs ma" "length (ma_frames ma') = length (ma_frames ma)"
      "oa_empty_start oa' = oa_empty_start oa + Suc n"
    using Suc.IH [OF rest] s by simp_all
  ultimately show ?case by blast
qed simp

text \<open>The asynchronous test maps no page.\<close>

lemma run_async_test_maps_nothing:
  assumes "run_async_memory_alloc_test k oa ma = Inr (ma', oa')" and "MapReq f v \<notin> set (ma_requests ma)"
  shows "MapReq f v \<notin> set (ma_requests ma') \<and> in_use ma' = in_use ma"
proof -
  obtain ma1 oa1 u s where a: "async_frames k 0 MAX_PAGE_NUM oa ma = Inr (ma1, oa1)"
    and ma': "ma' = ma1\<lparr>ma_requests := ma_requests ma1 @ [RetypeReq u BPageTable s, PageTableMapReq s 0x2000000]\<rparr>"
    using assms(1) by (auto simp: run_async_memory_alloc_test_def async_init_def)
  show ?thesis using async_frames_requests [OF a] assms(2) by (auto simp: ma' in_use_def)
qed

text \<open>The slots handed out and not recycled are those with an address.\<close>

definition ma_wf :: "mem_allocator \<Rightarrow> bool" where
  "ma_wf ma \<longleftrightarrow> length (ma_frames ma) = MAX_PAGE_NUM \<and> length (ma_mapped_vaddrs ma) = MAX_PAGE_NUM \<and>
     ma_current ma \<le> MAX_PAGE_NUM \<and> distinct (ma_recycled ma) \<and> set (ma_recycled ma) \<subseteq> {..<ma_current ma} \<and>
     in_use ma = {..<ma_current ma} - set (ma_recycled ma)"

lemma max_page_num [simp]: "MAX_PAGE_NUM = 16"
  by (simp add: MAX_PAGE_NUM_def START_ADDR_def END_ADDR_def PAGE_SIZE_def)

lemma ma_new_wf: "ma_wf ma_new"
  by (auto simp: ma_wf_def ma_new_def in_use_def)

lemma valid_vaddr_pos: "valid_vaddr v \<Longrightarrow> v \<noteq> 0"
  by (auto simp: valid_vaddr_def START_ADDR_def)

lemma alloc_slot_spec:
  assumes wf: "ma_wf ma"
  shows "if in_use ma = {..<16} then alloc_slot ma = (None, ma)
    else \<exists>slot ma1. alloc_slot ma = (Some slot, ma1) \<and> slot < 16 \<and> slot \<notin> in_use ma \<and>
      (\<exists>c r. ma1 = ma\<lparr>ma_current := c, ma_recycled := r\<rparr> \<and> c \<le> 16 \<and> distinct r \<and> set r \<subseteq> {..<c} \<and>
        insert slot (in_use ma) = {..<c} - set r)"
proof (cases "ma_recycled ma = []")
  case True
  show ?thesis
  proof (cases "ma_current ma < 16")
    case True
    let ?s = "ma_current ma"
    have "in_use ma = {..<?s}" using wf \<open>ma_recycled ma = []\<close> by (simp add: ma_wf_def)
    with True have i: "in_use ma \<noteq> {..<16}" "?s \<notin> in_use ma" "insert ?s (in_use ma) = {..<?s + 1} - set []"
      by (simp_all add: lessThan_Suc lessThan_eq_iff)
    have a: "alloc_slot ma = (Some ?s, ma\<lparr>ma_current := ?s + 1, ma_recycled := []\<rparr>)"
      using True \<open>ma_recycled ma = []\<close> by (simp add: alloc_slot_def)
    show ?thesis
      unfolding if_not_P [OF i(1)]
      by (rule exI [of _ ?s], rule exI [of _ "ma\<lparr>ma_current := ?s + 1, ma_recycled := []\<rparr>"], intro conjI a i(2),
          use True in simp, rule exI [of _ "?s + 1"], rule exI [of _ "[]"]) (use True i(3) in simp)
  next
    case False
    then have "ma_current ma = 16" "in_use ma = {..<16}" using wf \<open>ma_recycled ma = []\<close> by (auto simp: ma_wf_def)
    then show ?thesis using \<open>ma_recycled ma = []\<close> by (simp add: alloc_slot_def)
  qed
next
  case False
  then obtain r s where rs: "ma_recycled ma = r @ [s]" by (metis append_butlast_last_id)
  have s: "s < ma_current ma" "ma_current ma \<le> 16" "s \<notin> set r" "distinct r" "set r \<subseteq> {..<ma_current ma}"
    and iu: "in_use ma = {..<ma_current ma} - set (r @ [s])"
    using wf rs by (auto simp: ma_wf_def)
  have a: "alloc_slot ma = (Some s, ma\<lparr>ma_current := ma_current ma, ma_recycled := r\<rparr>)" using rs by (simp add: alloc_slot_def)
  have i: "in_use ma \<noteq> {..<16}" "s < 16" "s \<notin> in_use ma" "insert s (in_use ma) = {..<ma_current ma} - set r"
    using s iu by auto
  show ?thesis unfolding if_not_P [OF i(1)] using a i s by blast
qed

section \<open>Mapping and unmapping\<close>

lemma in_use_set:
  assumes "length (ma_mapped_vaddrs ma) = 16" and "slot < 16" and "ma_mapped_vaddrs ma' = (ma_mapped_vaddrs ma)[slot := v]"
  shows "in_use ma' = (if v = 0 then in_use ma - {slot} else insert slot (in_use ma))"
  using assms by (auto simp: in_use_def nth_list_update split: if_splits)

lemma map_vaddr_spec:
  assumes wf: "ma_wf ma" and v: "valid_vaddr v"
  shows "if in_use ma = {..<16} then map_vaddr ma v = Inr ma
    else \<exists>slot ma'. map_vaddr ma v = Inr ma' \<and> ma_wf ma' \<and> slot < 16 \<and> slot \<notin> in_use ma \<and> in_use ma' = insert slot (in_use ma) \<and>
      ma_mapped_vaddrs ma' = (ma_mapped_vaddrs ma)[slot := v] \<and> ma_frames ma' = ma_frames ma \<and>
      ma_requests ma' = ma_requests ma @ [MapReq (ma_frames ma ! slot) v]"
proof (cases "in_use ma = {..<16}")
  case True
  with alloc_slot_spec [OF wf] v show ?thesis by (simp add: map_vaddr_def map_begin_def)
next
  case False
  with alloc_slot_spec [OF wf] obtain slot c r where
    al: "alloc_slot ma = (Some slot, ma\<lparr>ma_current := c, ma_recycled := r\<rparr>)" and slot: "slot < 16" "slot \<notin> in_use ma"
    and cr: "c \<le> 16" "distinct r" "set r \<subseteq> {..<c}" "insert slot (in_use ma) = {..<c} - set r" by auto
  have len: "length (ma_frames ma) = 16" "length (ma_mapped_vaddrs ma) = 16" using wf by (auto simp: ma_wf_def)
  let ?ma' = "ma\<lparr>ma_current := c, ma_recycled := r, ma_requests := ma_requests ma @ [MapReq (ma_frames ma ! slot) v],
    ma_mapped_vaddrs := (ma_mapped_vaddrs ma)[slot := v]\<rparr>"
  have m: "map_vaddr ma v = Inr ?ma'"
    using v al slot len by (simp add: map_vaddr_def map_begin_def map_finish_def index_res_def store_res_def)
  have iu: "in_use ?ma' = insert slot (in_use ma)"
    using in_use_set [OF len(2) slot(1), of ?ma' v] valid_vaddr_pos [OF v] by simp
  have "ma_wf ?ma'" unfolding ma_wf_def iu using len cr by simp
  with m iu slot have "map_vaddr ma v = Inr ?ma' \<and> ma_wf ?ma' \<and> slot < 16 \<and> slot \<notin> in_use ma \<and> in_use ?ma' = insert slot (in_use ma) \<and>
      ma_mapped_vaddrs ?ma' = (ma_mapped_vaddrs ma)[slot := v] \<and> ma_frames ?ma' = ma_frames ma \<and>
      ma_requests ?ma' = ma_requests ma @ [MapReq (ma_frames ma ! slot) v]" by simp
  then show ?thesis unfolding if_not_P [OF False] by blast
qed

lemma unmap_vaddr_spec:
  assumes wf: "ma_wf ma" and v: "v \<noteq> 0"
  shows "if v \<notin> set (ma_mapped_vaddrs ma) then unmap_vaddr ma v = Inr ma
    else \<exists>i ma'. unmap_vaddr ma v = Inr ma' \<and> ma_wf ma' \<and> i \<in> in_use ma \<and> ma_mapped_vaddrs ma ! i = v \<and>
      (\<forall>j<i. ma_mapped_vaddrs ma ! j \<noteq> v) \<and> in_use ma' = in_use ma - {i} \<and>
      ma_mapped_vaddrs ma' = (ma_mapped_vaddrs ma)[i := 0] \<and> ma_frames ma' = ma_frames ma \<and>
      ma_requests ma' = ma_requests ma @ [UnmapReq (ma_frames ma ! i)]"
proof -
  have len: "length (ma_frames ma) = 16" "length (ma_mapped_vaddrs ma) = 16" using wf by (auto simp: ma_wf_def)
  let ?rf = "range_find (\<lambda>i. v = ma_mapped_vaddrs ma ! i) 0 (length (ma_mapped_vaddrs ma))"
  show ?thesis
  proof (cases ?rf)
    case None
    then have "v \<notin> set (ma_mapped_vaddrs ma)" by (auto simp: range_find_None_iff in_set_conv_nth)
    with None show ?thesis by (simp add: unmap_vaddr_def unmap_begin_def)
  next
    case (Some i)
    then have i: "i < 16" "ma_mapped_vaddrs ma ! i = v" "\<forall>j<i. ma_mapped_vaddrs ma ! j \<noteq> v"
      using len by (auto simp: range_find_Some_iff)
    then have mem: "v \<in> set (ma_mapped_vaddrs ma)" using len by (metis nth_mem)
    have use: "i \<in> in_use ma" using i v by (simp add: in_use_def)
    let ?ma' = "ma\<lparr>ma_requests := ma_requests ma @ [UnmapReq (ma_frames ma ! i)],
      ma_mapped_vaddrs := (ma_mapped_vaddrs ma)[i := 0], ma_recycled := ma_recycled ma @ [i]\<rparr>"
    have u: "unmap_vaddr ma v = Inr ?ma'"
      using Some len i(1) by (simp add: unmap_vaddr_def unmap_begin_def unmap_finish_def index_res_def store_res_def)
    have iu: "in_use ?ma' = in_use ma - {i}" using in_use_set [OF len(2) i(1), of ?ma' 0] by simp
    have base: "ma_current ma \<le> 16" "distinct (ma_recycled ma)" "set (ma_recycled ma) \<subseteq> {..<ma_current ma}"
      "in_use ma = {..<ma_current ma} - set (ma_recycled ma)" using wf by (auto simp: ma_wf_def)
    have "ma_wf ?ma'" unfolding ma_wf_def iu using len base use by auto
    with u iu use i have "unmap_vaddr ma v = Inr ?ma' \<and> ma_wf ?ma' \<and> i \<in> in_use ma \<and> ma_mapped_vaddrs ma ! i = v \<and>
      (\<forall>j<i. ma_mapped_vaddrs ma ! j \<noteq> v) \<and> in_use ?ma' = in_use ma - {i} \<and>
      ma_mapped_vaddrs ?ma' = (ma_mapped_vaddrs ma)[i := 0] \<and> ma_frames ?ma' = ma_frames ma \<and>
      ma_requests ?ma' = ma_requests ma @ [UnmapReq (ma_frames ma ! i)]" by simp
    then show ?thesis using mem by simp blast
  qed
qed

section \<open>Properties\<close>

text \<open>C29. On a well-formed allocator, mapping a valid address that is not mapped and unmapping it again
  uses one frame that is not in use for another address, maps and then unmaps exactly that
  frame, and leaves the addresses and the slots in use as they were; when all sixteen slots
  are in use, nothing happens.\<close>

theorem single_test_roundtrip:
  assumes wf: "ma_wf ma" and v: "valid_vaddr v" and fresh: "v \<notin> set (ma_mapped_vaddrs ma)"
  shows "if in_use ma = {..<16} then single_test ma v = Inr ma
    else \<exists>slot ma'. single_test ma v = Inr ma' \<and> ma_wf ma' \<and> slot < 16 \<and> slot \<notin> in_use ma \<and> in_use ma' = in_use ma \<and>
      ma_mapped_vaddrs ma' = ma_mapped_vaddrs ma \<and>
      ma_requests ma' = ma_requests ma @ [MapReq (ma_frames ma ! slot) v, UnmapReq (ma_frames ma ! slot)]"
proof (cases "in_use ma = {..<16}")
  case True
  with map_vaddr_spec [OF wf v] have "map_vaddr ma v = Inr ma" by simp
  with True unmap_vaddr_spec [OF wf valid_vaddr_pos [OF v]] fresh show ?thesis by (simp add: single_test_def)
next
  case False
  with map_vaddr_spec [OF wf v] obtain slot ma1 where m: "map_vaddr ma v = Inr ma1" "ma_wf ma1" "slot < 16" "slot \<notin> in_use ma"
    "in_use ma1 = insert slot (in_use ma)" "ma_mapped_vaddrs ma1 = (ma_mapped_vaddrs ma)[slot := v]"
    "ma_frames ma1 = ma_frames ma" "ma_requests ma1 = ma_requests ma @ [MapReq (ma_frames ma ! slot) v]" by auto
  have len: "length (ma_mapped_vaddrs ma) = 16" using wf by (simp add: ma_wf_def)
  have zero: "ma_mapped_vaddrs ma ! slot = 0" using m(3,4) by (simp add: in_use_def)
  have "v \<in> set (ma_mapped_vaddrs ma1)" using m(3,6) len by (simp add: set_update_memI)
  with unmap_vaddr_spec [OF m(2) valid_vaddr_pos [OF v]] obtain i ma2 where u: "unmap_vaddr ma1 v = Inr ma2" "ma_wf ma2"
    "i \<in> in_use ma1" "ma_mapped_vaddrs ma1 ! i = v" "in_use ma2 = in_use ma1 - {i}" "ma_mapped_vaddrs ma2 = (ma_mapped_vaddrs ma1)[i := 0]"
    "ma_requests ma2 = ma_requests ma1 @ [UnmapReq (ma_frames ma1 ! i)]" by auto
  have "i = slot"
  proof (rule ccontr)
    assume "i \<noteq> slot"
    then have "ma_mapped_vaddrs ma ! i = v" "i < 16" using u(3,4) m(6) by (auto simp: in_use_def)
    with len fresh show False by (metis nth_mem)
  qed
  then have "single_test ma v = Inr ma2 \<and> ma_wf ma2 \<and> slot < 16 \<and> slot \<notin> in_use ma \<and> in_use ma2 = in_use ma \<and>
      ma_mapped_vaddrs ma2 = ma_mapped_vaddrs ma \<and>
      ma_requests ma2 = ma_requests ma @ [MapReq (ma_frames ma ! slot) v, UnmapReq (ma_frames ma ! slot)]"
    using m u zero by (simp add: single_test_def list_update_id [of "ma_mapped_vaddrs ma" slot, unfolded zero])
  then show ?thesis unfolding if_not_P [OF False] by blast
qed

theorem single_test_roundtrip_witness:
  "\<exists>ma'. single_test ma_new 33558528 = Inr ma' \<and> ma_mapped_vaddrs ma' = replicate 16 0 \<and>
     ma_requests ma' = [MapReq 0 33558528, UnmapReq 0]"
proof -
  have v: "valid_vaddr 33558528" by (simp add: valid_vaddr_def START_ADDR_def END_ADDR_def)
  have "0 \<notin> in_use ma_new" by (simp add: in_use_def ma_new_def)
  moreover have "(0 :: nat) \<in> {..<16}" by simp
  ultimately have ne: "in_use ma_new \<noteq> {..<16}" by metis
  have new: "ma_mapped_vaddrs ma_new = replicate 16 0" "ma_frames ma_new = replicate 16 0" "ma_requests ma_new = []"
    by (simp_all add: ma_new_def)
  obtain slot ma' where "single_test ma_new 33558528 = Inr ma'" "slot < 16" "ma_mapped_vaddrs ma' = replicate 16 0"
    "ma_requests ma' = [] @ [MapReq (replicate 16 0 ! slot) 33558528, UnmapReq (replicate 16 0 ! slot)]"
    using single_test_roundtrip [OF ma_new_wf v] unfolding if_not_P [OF ne] new by auto
  then show ?thesis by auto
qed

text \<open>C30. \<^verbatim>\<open>unmap_vaddr(0)\<close> finds a slot that was never mapped, because free slots hold address 0, and
  recycles it: the next two mappings of different addresses then get the same slot, the
  second one overwrites the first, and both are made on the same frame.\<close>

theorem unmap_zero_shares_slot:
  assumes "length frames = 16" and "valid_vaddr v1" and "valid_vaddr v2" and "v1 \<noteq> v2"
  shows "\<exists>ma1 ma2 ma3. unmap_vaddr (ma_new\<lparr>ma_frames := frames\<rparr>) 0 = Inr ma1 \<and> map_vaddr ma1 v1 = Inr ma2 \<and> map_vaddr ma2 v2 = Inr ma3 \<and>
    ma_requests ma3 = [UnmapReq (frames ! 0), MapReq (frames ! 0) v1, MapReq (frames ! 0) v2] \<and>
    v1 \<notin> set (ma_mapped_vaddrs ma3)"
proof -
  have ne: "frames \<noteq> []" using assms(1) by auto
  let ?m = "ma_new\<lparr>ma_frames := frames\<rparr>" and ?z = "replicate 16 (0 :: nat)"
  have rf: "range_find (\<lambda>i. 0 = ?z ! i) 0 16 = Some 0" by (simp add: range_find_Some_iff)
  let ?ma1 = "?m\<lparr>ma_requests := [UnmapReq (frames ! 0)], ma_mapped_vaddrs := ?z[0 := 0], ma_recycled := [0]\<rparr>"
  let ?ma2 = "?ma1\<lparr>ma_recycled := [], ma_requests := [UnmapReq (frames ! 0), MapReq (frames ! 0) v1], ma_mapped_vaddrs := ?z[0 := v1]\<rparr>"
  let ?ma3 = "?ma2\<lparr>ma_current := 1, ma_requests := [UnmapReq (frames ! 0), MapReq (frames ! 0) v1, MapReq (frames ! 0) v2], ma_mapped_vaddrs := ?z[0 := v2]\<rparr>"
  have u: "unmap_vaddr ?m 0 = Inr ?ma1"
    using ne rf by (simp add: unmap_vaddr_def unmap_begin_def unmap_finish_def index_res_def store_res_def ma_new_def)
  have m1: "map_vaddr ?ma1 v1 = Inr ?ma2"
    using ne assms(2) by (simp add: map_vaddr_def map_begin_def map_finish_def alloc_slot_def index_res_def store_res_def ma_new_def)
  have m2: "map_vaddr ?ma2 v2 = Inr ?ma3"
    using ne assms(3) by (simp add: map_vaddr_def map_begin_def map_finish_def alloc_slot_def index_res_def store_res_def ma_new_def)
  have l: "v1 \<notin> set (?z[0 := v2])"
    using assms(4) valid_vaddr_pos [OF assms(2)] set_update_subset_insert [of ?z 0 v2] by auto
  show ?thesis
    by (rule exI [of _ ?ma1], rule exI [of _ ?ma2], rule exI [of _ ?ma3], intro conjI, rule u, rule m1, rule m2)
      (use l in simp_all)
qed

theorem unmap_zero_shares_slot_witness:
  "\<exists>ma1 ma2 ma3. unmap_vaddr (ma_new\<lparr>ma_frames := [300..<316]\<rparr>) 0 = Inr ma1 \<and> map_vaddr ma1 33554432 = Inr ma2 \<and>
     map_vaddr ma2 33558528 = Inr ma3 \<and> 33554432 \<notin> set (ma_mapped_vaddrs ma3)"
proof -
  have "valid_vaddr 33554432" "valid_vaddr 33558528" by (simp_all add: valid_vaddr_def START_ADDR_def END_ADDR_def)
  from unmap_zero_shares_slot [OF _ this, of "[300..<316]"] show ?thesis by auto
qed

text \<open>The loop of the synchronous test from any round on.\<close>

lemma sync_test_loop_fills:
  assumes "n + i = 16" and "length (ma_frames ma) = 16" and "length (ma_mapped_vaddrs ma) = 16"
    and "ma_recycled ma = []" and "ma_current ma = i"
  shows "\<exists>ma'. sync_test_loop n (START_ADDR + i * PAGE_SIZE) ma = Inr ma' \<and> ma_recycled ma' = [] \<and> ma_current ma' = 16 \<and>
    ma_mapped_vaddrs ma' = take i (ma_mapped_vaddrs ma) @ map (\<lambda>j. START_ADDR + j * PAGE_SIZE) [i..<16] \<and>
    ma_requests ma' = ma_requests ma @ map (\<lambda>j. MapReq (ma_frames ma ! j) (START_ADDR + j * PAGE_SIZE)) [i..<16]"
  using assms
proof (induction n arbitrary: i ma)
  case (Suc n)
  let ?v = "START_ADDR + i * PAGE_SIZE"
  have i: "i < 16" using Suc.prems(1) by simp
  then have v: "valid_vaddr ?v" by (simp add: valid_vaddr_def START_ADDR_def END_ADDR_def PAGE_SIZE_def)
  let ?ma = "ma\<lparr>ma_current := Suc i, ma_requests := ma_requests ma @ [MapReq (ma_frames ma ! i) ?v],
    ma_mapped_vaddrs := (ma_mapped_vaddrs ma)[i := ?v]\<rparr>"
  have m: "map_vaddr ma ?v = Inr ?ma"
    using v i Suc.prems by (simp add: map_vaddr_def map_begin_def map_finish_def alloc_slot_def index_res_def store_res_def)
  have "\<exists>ma'. sync_test_loop n (START_ADDR + Suc i * PAGE_SIZE) ?ma = Inr ma' \<and> ma_recycled ma' = [] \<and> ma_current ma' = 16 \<and>
    ma_mapped_vaddrs ma' = take (Suc i) (ma_mapped_vaddrs ?ma) @ map (\<lambda>j. START_ADDR + j * PAGE_SIZE) [Suc i..<16] \<and>
    ma_requests ma' = ma_requests ?ma @ map (\<lambda>j. MapReq (ma_frames ?ma ! j) (START_ADDR + j * PAGE_SIZE)) [Suc i..<16]"
    by (rule Suc.IH) (use Suc.prems in simp_all)
  moreover have "sync_test_loop (Suc n) ?v ma = sync_test_loop n (START_ADDR + Suc i * PAGE_SIZE) ?ma"
    using m by (simp add: algebra_simps)
  moreover have "take (Suc i) ((ma_mapped_vaddrs ma)[i := ?v]) = take i (ma_mapped_vaddrs ma) @ [?v]"
    using i Suc.prems(3) by (simp add: take_Suc_conv_app_nth)
  moreover have "[i..<16] = i # [Suc i..<16]" using i by (simp add: upt_conv_Cons)
  ultimately show ?case by simp
qed simp

text \<open>The synchronous test maps its sixteen pages and never unmaps one: \<^verbatim>\<open>unmap_vaddr\<close> is declared
  \<^verbatim>\<open>async\<close> and its future is dropped, so that the run ends with every slot mapped, none recycled
  and no unmap request made.\<close>

theorem sync_test_never_unmaps:
  assumes "length frames = 16"
  shows "\<exists>ma'. sync_test_loop MAX_PAGE_NUM START_ADDR (ma_new\<lparr>ma_frames := frames\<rparr>) = Inr ma' \<and> ma_recycled ma' = [] \<and>
    in_use ma' = {..<16} \<and> (\<forall>f. UnmapReq f \<notin> set (ma_requests ma'))"
proof -
  let ?ma = "ma_new\<lparr>ma_frames := frames\<rparr>"
  obtain ma' where ma': "sync_test_loop 16 (START_ADDR + 0 * PAGE_SIZE) ?ma = Inr ma'" "ma_recycled ma' = []"
    "ma_mapped_vaddrs ma' = map (\<lambda>j. START_ADDR + j * PAGE_SIZE) [0..<16]"
    "ma_requests ma' = map (\<lambda>j. MapReq (frames ! j) (START_ADDR + j * PAGE_SIZE)) [0..<16]"
    using sync_test_loop_fills [of 16 0 ?ma] assms by (auto simp: ma_new_def)
  have "in_use ma' = {..<16}" by (auto simp: in_use_def ma'(3) START_ADDR_def)
  with ma' show ?thesis by auto
qed

theorem sync_test_never_unmaps_witness:
  "\<exists>ma'. sync_test_loop MAX_PAGE_NUM START_ADDR (ma_new\<lparr>ma_frames := [300..<316]\<rparr>) = Inr ma' \<and> in_use ma' = {..<16}"
  using sync_test_never_unmaps [of "[300..<316]"] by auto

end
