(* ===== verification/Matrix.thy ===== *)
theory Matrix
  imports Prelude
begin

text \<open>
  \<^verbatim>\<open>src/matrix.rs\<close>: the compute load of the benchmarks, multiplication of square matrices of
  \<^verbatim>\<open>u64\<close>.  A matrix is a list of rows.  The arithmetic of \<^verbatim>\<open>matrix_multiply\<close> panics when it overflows in a build
  with overflow checks, the default of \<^verbatim>\<open>cargo build\<close>, and wraps around in a build without them; both are modelled.
\<close>

section \<open>Model\<close>

type_synonym matrix = "nat list list"

definition init_matrix :: "nat \<Rightarrow> matrix" where
  "init_matrix N = map (\<lambda>i. map (\<lambda>j. i * N + j + 1) [0..<N]) [0..<N]"

text \<open>The innermost loop: \<^verbatim>\<open>result[i][j] += matrix1[i][k] * matrix2[k][j]\<close> for \<open>k\<close> from \<open>0\<close> on.\<close>

fun dot_loop :: "matrix \<Rightarrow> matrix \<Rightarrow> nat \<Rightarrow> nat \<Rightarrow> nat list \<Rightarrow> nat \<Rightarrow> nat res" where
  "dot_loop m1 m2 i j [] acc = Inr acc"
| "dot_loop m1 m2 i j (k # ks) acc =
     rbind (mul_usize (m1 ! i ! k) (m2 ! k ! j)) (\<lambda>p.
     rbind (add_usize acc p) (\<lambda>acc'. dot_loop m1 m2 i j ks acc'))"

definition matrix_multiply :: "nat \<Rightarrow> matrix \<Rightarrow> matrix \<Rightarrow> matrix res" where
  "matrix_multiply N m1 m2 = rmap (\<lambda>i. rmap (\<lambda>j. dot_loop m1 m2 i j [0..<N] 0) [0..<N]) [0..<N]"

fun square_times :: "nat \<Rightarrow> nat \<Rightarrow> matrix \<Rightarrow> matrix res" where
  "square_times N 0 a = Inr a"
| "square_times N (Suc n) a = rbind (matrix_multiply N a a) (square_times N n)"

definition matrix_test :: "nat \<Rightarrow> matrix res" where
  "matrix_test N = square_times N 4 (init_matrix N)"

text \<open>The same without overflow checks: sums and products are taken modulo \<open>2 ^ 64\<close>.\<close>

fun dot_loop_wrapping :: "matrix \<Rightarrow> matrix \<Rightarrow> nat \<Rightarrow> nat \<Rightarrow> nat list \<Rightarrow> nat \<Rightarrow> nat" where
  "dot_loop_wrapping m1 m2 i j [] acc = acc"
| "dot_loop_wrapping m1 m2 i j (k # ks) acc =
     (let p = (m1 ! i ! k * m2 ! k ! j) mod 2 ^ 64 in dot_loop_wrapping m1 m2 i j ks ((acc + p) mod 2 ^ 64))"

definition matrix_multiply_wrapping :: "nat \<Rightarrow> matrix \<Rightarrow> matrix \<Rightarrow> matrix" where
  "matrix_multiply_wrapping N m1 m2 = map (\<lambda>i. map (\<lambda>j. dot_loop_wrapping m1 m2 i j [0..<N] 0) [0..<N]) [0..<N]"

fun square_times_wrapping :: "nat \<Rightarrow> nat \<Rightarrow> matrix \<Rightarrow> matrix" where
  "square_times_wrapping N 0 a = a"
| "square_times_wrapping N (Suc n) a = square_times_wrapping N n (matrix_multiply_wrapping N a a)"

definition matrix_test_wrapping :: "nat \<Rightarrow> matrix" where
  "matrix_test_wrapping N = square_times_wrapping N 4 (init_matrix N)"

text \<open>\<^verbatim>\<open>matrix_test\<close> in a build with or without overflow checks.\<close>

definition matrix_test_in :: "bool \<Rightarrow> nat \<Rightarrow> matrix res" where
  "matrix_test_in overflow_checks N = (if overflow_checks then matrix_test N else Inr (matrix_test_wrapping N))"

section \<open>Properties\<close>

definition dot :: "matrix \<Rightarrow> matrix \<Rightarrow> nat \<Rightarrow> nat \<Rightarrow> nat list \<Rightarrow> nat" where
  "dot m1 m2 i j ks = (\<Sum>k\<leftarrow>ks. m1 ! i ! k * m2 ! k ! j)"

lemma dot_loop_eq:
  assumes "acc < 2 ^ 64"
  shows "dot_loop m1 m2 i j ks acc =
    (if acc + dot m1 m2 i j ks < 2 ^ 64 then Inr (acc + dot m1 m2 i j ks) else Inl ArithOverflow)"
  using assms
proof (induction ks arbitrary: acc)
  case (Cons k ks)
  let ?p = "m1 ! i ! k * m2 ! k ! j"
  show ?case
  proof (cases "acc + ?p < 2 ^ 64")
    case True
    with Cons.IH [of "acc + ?p"] show ?thesis by (simp add: mul_usize_def add_usize_def dot_def add.assoc)
  next
    case False
    then show ?thesis by (auto simp: mul_usize_def add_usize_def dot_def)
  qed
qed (simp add: dot_def)

text \<open>\<^verbatim>\<open>matrix_multiply\<close> returns the matrix product when every entry of it fits 64 bits, and
  panics with an overflow exactly when some entry does not.\<close>

theorem matrix_multiply_exact:
  "matrix_multiply N m1 m2 =
    (if \<forall>i<N. \<forall>j<N. (\<Sum>k<N. m1 ! i ! k * m2 ! k ! j) < 2 ^ 64
     then Inr (map (\<lambda>i. map (\<lambda>j. \<Sum>k<N. m1 ! i ! k * m2 ! k ! j) [0..<N]) [0..<N])
     else Inl ArithOverflow)"
proof -
  let ?d = "\<lambda>i j. \<Sum>k<N. m1 ! i ! k * m2 ! k ! j"
  have d: "dot_loop m1 m2 i j [0..<N] 0 = (if ?d i j < 2 ^ 64 then Inr (?d i j) else Inl ArithOverflow)" for i j
  proof -
    have "dot m1 m2 i j [0..<N] = ?d i j" by (simp add: dot_def interv_sum_list_conv_sum_set_nat atLeast0LessThan)
    then show ?thesis by (simp add: dot_loop_eq)
  qed
  show ?thesis
  proof (cases "\<forall>i<N. \<forall>j<N. ?d i j < 2 ^ 64")
    case True
    then have "matrix_multiply N m1 m2 = Inr (map (\<lambda>i. map (?d i) [0..<N]) [0..<N])"
      by (simp add: matrix_multiply_def rmap_Inr_iff d)
    with True show ?thesis by simp
  next
    case False
    then have "matrix_multiply N m1 m2 \<noteq> Inr y" for y
      by (auto simp: matrix_multiply_def rmap_Inr_iff d split: if_splits)
    moreover have "matrix_multiply N m1 m2 = Inl e \<Longrightarrow> e = ArithOverflow" for e
      by (auto simp: matrix_multiply_def d split: if_splits dest!: rmap_Inl)
    ultimately show ?thesis using False by (cases "matrix_multiply N m1 m2") auto
  qed
qed

text \<open>Without checks every entry is the product's modulo \<open>2 ^ 64\<close>; where the checked routine returns, the two agree.\<close>

lemma dot_loop_wrapping_eq:
  assumes "acc < 2 ^ 64"
  shows "dot_loop_wrapping m1 m2 i j ks acc = (acc + dot m1 m2 i j ks) mod 2 ^ 64"
  using assms
proof (induction ks arbitrary: acc)
  case (Cons k ks)
  have "((acc + p mod 2 ^ 64) mod 2 ^ 64 + d) mod 2 ^ 64 = (acc + (p + d)) mod 2 ^ 64" for p d :: nat
    by (metis add.assoc mod_add_left_eq mod_add_right_eq)
  then show ?case using Cons.IH by (simp only: dot_loop_wrapping.simps Let_def dot_def list.map sum_list.Cons) simp
qed (simp add: dot_def)

lemma matrix_multiply_agrees:
  assumes "matrix_multiply N m1 m2 = Inr m"
  shows "matrix_multiply_wrapping N m1 m2 = m"
proof -
  have d: "dot m1 m2 i j [0..<N] = (\<Sum>k<N. m1 ! i ! k * m2 ! k ! j)" for i j
    by (simp add: dot_def interv_sum_list_conv_sum_set_nat atLeast0LessThan)
  show ?thesis
    using assms by (auto simp: matrix_multiply_exact matrix_multiply_wrapping_def dot_loop_wrapping_eq d split: if_splits)
qed

lemma square_times_agrees: "square_times N n a = Inr b \<Longrightarrow> square_times_wrapping N n a = b"
  by (induction n arbitrary: a) (auto dest!: matrix_multiply_agrees)

lemma matrix_test_agrees: "matrix_test N = Inr a \<Longrightarrow> matrix_test_in False N = Inr a"
  by (simp add: matrix_test_def matrix_test_in_def matrix_test_wrapping_def square_times_agrees)

lemma upt_4: "[0..<4] = [0, 1, 2, 3 :: nat]"
  by (simp add: upt_rec)

lemma init_4: "init_matrix 4 = [[1, 2, 3, 4], [5, 6, 7, 8], [9, 10, 11, 12], [13, 14, 15, 16]]"
  by (simp add: init_matrix_def upt_4)

lemmas mat_eval = matrix_multiply_def upt_4 mul_usize_def add_usize_def

lemma square_4_1: "matrix_multiply 4 [[1, 2, 3, 4], [5, 6, 7, 8], [9, 10, 11, 12], [13, 14, 15, 16]]
    [[1, 2, 3, 4], [5, 6, 7, 8], [9, 10, 11, 12], [13, 14, 15, 16]] =
  Inr [[90, 100, 110, 120], [202, 228, 254, 280], [314, 356, 398, 440], [426, 484, 542, 600]]"
  by (simp add: mat_eval)

lemma square_4_2: "matrix_multiply 4 [[90, 100, 110, 120], [202, 228, 254, 280], [314, 356, 398, 440], [426, 484, 542, 600]]
    [[90, 100, 110, 120], [202, 228, 254, 280], [314, 356, 398, 440], [426, 484, 542, 600]] =
  Inr [[113960, 129040, 144120, 159200], [263272, 298128, 332984, 367840], [412584, 467216, 521848, 576480], [561896, 636304, 710712, 785120]]"
  by (simp add: mat_eval)

lemma square_4_3: "matrix_multiply 4 [[113960, 129040, 144120, 159200], [263272, 298128, 332984, 367840], [412584, 467216, 521848, 576480], [561896, 636304, 710712, 785120]]
    [[113960, 129040, 144120, 159200], [263272, 298128, 332984, 367840], [412584, 467216, 521848, 576480], [561896, 636304, 710712, 785120]] =
  Inr [[195874949760, 221810602240, 247746254720, 273681907200], [452562927232, 512486439168, 572409951104, 632333463040], [709250904704, 803162276096, 897073647488, 990985018880], [965938882176, 1093838113024, 1221737343872, 1349636574720]]"
  by (simp add: mat_eval)

lemma square_4_4: "matrix_multiply 4 [[195874949760, 221810602240, 247746254720, 273681907200], [452562927232, 512486439168, 572409951104, 632333463040], [709250904704, 803162276096, 897073647488, 990985018880], [965938882176, 1093838113024, 1221737343872, 1349636574720]]
    [[195874949760, 221810602240, 247746254720, 273681907200], [452562927232, 512486439168, 572409951104, 632333463040], [709250904704, 803162276096, 897073647488, 990985018880], [965938882176, 1093838113024, 1221737343872, 1349636574720]] =
  Inl ArithOverflow"
  by (simp add: mat_eval)

text \<open>The benchmark's \<^verbatim>\<open>matrix_test::<4>\<close> squares its matrix four times; the fourth squaring
  overflows \<^verbatim>\<open>u64\<close> and panics.\<close>

theorem matrix_test_4_overflows:
  "matrix_test 4 = Inl ArithOverflow \<and> (\<exists>a. square_times 4 3 (init_matrix 4) = Inr a)"
proof -
  have "square_times 4 (Suc (Suc (Suc (Suc 0)))) (init_matrix 4) = Inl ArithOverflow"
    by (simp only: init_4 square_times.simps square_4_1 square_4_2 square_4_3 square_4_4 rbind.simps)
  moreover have "\<exists>a. square_times 4 (Suc (Suc (Suc 0))) (init_matrix 4) = Inr a"
    by (simp only: init_4 square_times.simps square_4_1 square_4_2 square_4_3 rbind.simps) blast
  ultimately show ?thesis by (simp add: matrix_test_def eval_nat_numeral)
qed

end
