(* ===== verification/Executor_Sched.thy ===== *)
theory Executor_Sched
  imports Executor
begin

unbundle bit_operations_syntax

text \<open>
  Correctness of the coroutine runtime modelled in theory \<open>Executor\<close>: which delayed
  wake-ups are delivered, which coroutine is fetched next, what every operation keeps of
  the invariant, and the order in which a run of the executor polls its coroutines.
\<close>

section \<open>Delayed wake-ups\<close>

text \<open>Waking a list of coroutines one after the other.\<close>

primrec wake_all :: "'f executor \<Rightarrow> coroutine_id list \<Rightarrow> 'f executor res" where
  "wake_all ex [] = Inr ex"
| "wake_all ex (c # cs) = rbind (wake ex c) (\<lambda>ex'. wake_all ex' cs)"

text \<open>
  The loop of \<^verbatim>\<open>actual_wake\<close> clears bit \<open>index\<close> of a word it has already shifted by
  \<open>index\<close>, that is the bit of coroutine \<open>2 * index\<close>.  A pending coroutine is therefore
  delivered unless the coroutine of half its number was.
\<close>

fun delivered :: "u64 \<Rightarrow> nat \<Rightarrow> bool" where
  "delivered d j = (bit d j \<and> (if j = 0 \<or> odd j then True else \<not> delivered d (j div 2)))"

declare delivered.simps [simp del]

definition loop_word :: "u64 \<Rightarrow> nat \<Rightarrow> u64 \<Rightarrow> bool" where
  "loop_word d0 i d \<longleftrightarrow> (\<forall>m. bit d m \<longleftrightarrow> bit d0 (i + m) \<and> \<not> (\<exists>k<i. 1 \<le> k \<and> delivered d0 k \<and> 2 * k = i + m))"

lemma loop_word_start: "loop_word d 0 d"
  by (simp add: loop_word_def)

lemma loop_word_head:
  assumes "loop_word d0 i d"
  shows "bit d 0 \<longleftrightarrow> delivered d0 i"
proof -
  have "bit d 0 \<longleftrightarrow> bit d0 i \<and> \<not> (\<exists>k<i. 1 \<le> k \<and> delivered d0 k \<and> 2 * k = i)"
    using assms by (simp add: loop_word_def)
  also have "(\<exists>k<i. 1 \<le> k \<and> delivered d0 k \<and> 2 * k = i) \<longleftrightarrow> i \<noteq> 0 \<and> even i \<and> delivered d0 (i div 2)"
    by (auto elim!: evenE)
  finally show ?thesis by (subst delivered.simps) auto
qed

lemma loop_word_skip:
  assumes "loop_word d0 i d" and "\<not> delivered d0 i"
  shows "loop_word d0 (i + 1) (drop_bit 1 d)"
  using assms by (auto simp: loop_word_def bit_drop_bit_eq less_Suc_eq)

lemma loop_word_take:
  assumes "loop_word d0 i d" and "delivered d0 i"
  shows "loop_word d0 (i + 1) (drop_bit 1 (d AND NOT (push_bit i 1)))"
proof -
  have "bit (drop_bit 1 (d AND NOT (push_bit i 1))) m \<longleftrightarrow> bit d (Suc m) \<and> Suc m \<noteq> i" for m
    by (auto simp: bit_simps dest: bit_imp_le_length)
  then show ?thesis
    using assms by (auto simp: loop_word_def less_Suc_eq)
qed

lemma loop_word_done:
  assumes "loop_word d0 i 0" and "i \<le> j"
  shows "\<not> delivered d0 j"
proof -
  have none: "bit d0 j \<longrightarrow> (\<exists>k<i. 1 \<le> k \<and> delivered d0 k \<and> 2 * k = j)"
    using assms(1) [unfolded loop_word_def, THEN spec, of "j - i"] assms(2) by auto
  show ?thesis
  proof
    assume "delivered d0 j"
    then have d: "bit d0 j" "j = 0 \<or> odd j \<or> \<not> delivered d0 (j div 2)"
      by (auto simp: delivered.simps [of d0 j] split: if_splits)
    with none obtain k where "1 \<le> k" "delivered d0 k" "2 * k = j" by blast
    with d(2) show False by auto
  qed
qed

lemma actual_wake_loop_wakes:
  assumes "loop_word d0 i d" and "i \<le> 64"
  shows "actual_wake_loop d i ex = wake_all ex (map of_nat (filter (delivered d0) [i..<64]))"
  using assms
proof (induction d i ex rule: actual_wake_loop.induct)
  case (1 d i ex)
  show ?case
  proof (cases "d = 0")
    case True
    with loop_word_done "1.prems"(1) have "filter (delivered d0) [i..<64] = []"
      by (auto simp: filter_empty_conv)
    with True show ?thesis by (simp add: actual_wake_loop.simps)
  next
    case False
    then obtain m where "bit d m" by (auto simp: bit_eq_iff)
    with "1.prems"(1) have "bit d0 (i + m)" by (simp add: loop_word_def)
    then have i: "i < 64" using bit_imp_le_length [of d0 "i + m"] by simp
    have low: "(d AND 1 \<noteq> 0) = delivered d0 i"
      using loop_word_head [OF "1.prems"(1)] by (simp add: and_one_eq odd_iff_mod_2_eq_one bit_0)
    note step = actual_wake_loop.simps [of d i ex] and upt = upt_conv_Cons [OF i]
    show ?thesis
    proof (cases "delivered d0 i")
      case True
      have "actual_wake_loop (drop_bit 1 (d AND NOT (push_bit i 1))) (i + 1) ex' =
          wake_all ex' (map of_nat (filter (delivered d0) [i + 1..<64]))" if "wake ex (of_nat i) = Inr ex'" for ex'
        using "1.IH"(1) [OF False _ that _ loop_word_take [OF "1.prems"(1) True]] low True i
        by (simp add: guard_res_def)
      then show ?thesis
        using False low True i step upt by (cases "wake ex (of_nat i)") (auto simp: guard_res_def)
    next
      case no: False
      have "actual_wake_loop (drop_bit 1 d) (i + 1) ex = wake_all ex (map of_nat (filter (delivered d0) [i + 1..<64]))"
        using "1.IH"(2) [OF False _ loop_word_skip [OF "1.prems"(1) no]] low no i by simp
      then show ?thesis using False low no step upt by simp
    qed
  qed
qed

lemma actual_wake_wakes:
  "actual_wake ex = wake_all (ex\<lparr>ex_delay_wake_cids := 0\<rparr>)
     (map of_nat (filter (delivered (ex_delay_wake_cids ex)) [0..<64]))"
  unfolding actual_wake_def by (rule actual_wake_loop_wakes [OF loop_word_start]) simp

text \<open>What waking a list of coroutines does to the queues.\<close>

definition woken :: "'f executor \<Rightarrow> coroutine_id list \<Rightarrow> nat \<Rightarrow> coroutine_id list" where
  "woken ex cs p = filter (\<lambda>c. unat c \<in> live ex \<and> prio_of ex (unat c) = p) cs"

lemma wake_all_inv:
  assumes "ex_wf ex" and "wake_all ex cs = Inr ex'"
  shows "ex_wf ex' \<and> (\<exists>bm rq. ex' = ex\<lparr>ex_prio_bitmap := bm, ex_ready_queue := rq\<rparr>) \<and>
    (\<forall>p<MAX_PRIO_NUM. ready ex' p = ready ex p @ woken ex cs p \<and>
       (p \<in> bm64_elems (ex_prio_bitmap ex') \<longleftrightarrow> p \<in> bm64_elems (ex_prio_bitmap ex) \<or> woken ex cs p \<noteq> []))"
  using assms
proof (induction cs arbitrary: ex)
  case Nil
  then have "ex' = ex\<lparr>ex_prio_bitmap := ex_prio_bitmap ex, ex_ready_queue := ex_ready_queue ex\<rparr>" by simp
  then have "\<exists>bm rq. ex' = ex\<lparr>ex_prio_bitmap := bm, ex_ready_queue := rq\<rparr>" by blast
  moreover have "ex' = ex" using Nil by simp
  ultimately show ?case using Nil.prems(1) by (simp add: woken_def)
next
  case (Cons c cs)
  then obtain ex1 where ex1: "wake ex c = Inr ex1" and rest: "wake_all ex1 cs = Inr ex'" by auto
  from wake_inv [OF Cons.prems(1) ex1] obtain bm rq where
    up: "ex1 = ex\<lparr>ex_prio_bitmap := bm, ex_ready_queue := rq\<rparr>" and wf1: "ex_wf ex1"
    and el: "bm64_elems bm = (if unat c \<in> live ex then insert (prio_of ex (unat c)) (bm64_elems (ex_prio_bitmap ex))
        else bm64_elems (ex_prio_bitmap ex))"
    and rd: "\<forall>p<MAX_PRIO_NUM. ready ex1 p =
      (if unat c \<in> live ex \<and> p = prio_of ex (unat c) then ready ex p @ [c] else ready ex p)"
    by auto
  have same: "woken ex1 cs = woken ex cs" by (simp add: fun_eq_iff woken_def up)
  note IH = Cons.IH [OF wf1 rest, unfolded same]
  then have "\<exists>bm rq. ex' = ex\<lparr>ex_prio_bitmap := bm, ex_ready_queue := rq\<rparr>" by (auto simp: up)
  moreover have "p \<in> bm64_elems (ex_prio_bitmap ex1) \<longleftrightarrow>
      p \<in> bm64_elems (ex_prio_bitmap ex) \<or> unat c \<in> live ex \<and> p = prio_of ex (unat c)" for p
    using el by (auto simp: up)
  ultimately show ?case
    using IH rd by (auto simp: woken_def)
qed

lemma wake_all_ok:
  assumes "ex_wf ex" and "\<forall>c\<in>set cs. unat c < MAX_TASK_NUM"
    and "\<forall>p<MAX_PRIO_NUM. length (ready ex p) + length cs \<le> MAX_TASK_NUM - 1"
  shows "\<exists>ex'. wake_all ex cs = Inr ex'"
  using assms
proof (induction cs arbitrary: ex)
  case (Cons c cs)
  have "\<exists>ex1. wake ex c = Inr ex1"
  proof (rule wake_ok [OF Cons.prems(1)])
    assume "unat c \<in> live ex"
    then have "prio_of ex (unat c) < MAX_PRIO_NUM" using live_task Cons.prems(1) by (auto simp: ex_wf_def)
    with Cons.prems(3) show "length (ready ex (prio_of ex (unat c))) < MAX_TASK_NUM - 1" by fastforce
  qed (use Cons.prems in auto)
  then obtain ex1 where ex1: "wake ex c = Inr ex1" ..
  have "\<forall>p<MAX_PRIO_NUM. length (ready ex1 p) + length cs \<le> MAX_TASK_NUM - 1"
    using wake_inv [OF Cons.prems(1) ex1] Cons.prems(3) by auto
  with wake_inv [OF Cons.prems(1) ex1] Cons ex1 show ?case by auto
qed simp

lemma actual_wake_inv:
  assumes "ex_wf ex" and "actual_wake ex = Inr ex'"
  defines "cs \<equiv> map of_nat (filter (delivered (ex_delay_wake_cids ex)) [0..<64])"
  shows "ex_wf ex' \<and> (\<exists>bm rq. ex' = ex\<lparr>ex_delay_wake_cids := 0, ex_prio_bitmap := bm, ex_ready_queue := rq\<rparr>) \<and>
    (\<forall>p<MAX_PRIO_NUM. ready ex' p = ready ex p @ woken ex cs p \<and>
       (p \<in> bm64_elems (ex_prio_bitmap ex') \<longleftrightarrow> p \<in> bm64_elems (ex_prio_bitmap ex) \<or> woken ex cs p \<noteq> []))"
proof -
  let ?ex = "ex\<lparr>ex_delay_wake_cids := 0\<rparr>"
  have "ex_wf ?ex" using assms(1) by (simp add: ex_wf_def)
  moreover have "woken ?ex = woken ex" by (simp add: woken_def fun_eq_iff)
  ultimately show ?thesis
    using wake_all_inv [of ?ex cs ex'] assms(2) by (simp add: actual_wake_wakes cs_def)
qed

lemma actual_wake_none [simp]: "ex_delay_wake_cids ex = 0 \<Longrightarrow> actual_wake ex = Inr ex"
  by (simp add: actual_wake_def actual_wake_loop.simps)

section \<open>Fetching\<close>

text \<open>The ready coroutines in the order of dispatch: by priority, first in first out within one.\<close>

definition sched :: "'f executor \<Rightarrow> coroutine_id list" where
  "sched ex = concat (map (ready ex) [0..<MAX_PRIO_NUM])"

text \<open>No queue holds a coroutine that is gone, and the bitmap marks exactly the queues in use.\<close>

definition clean :: "'f executor \<Rightarrow> bool" where
  "clean ex \<longleftrightarrow> (\<forall>p<MAX_PRIO_NUM. p \<in> bm64_elems (ex_prio_bitmap ex) \<longleftrightarrow> ready ex p \<noteq> []) \<and>
     (\<forall>c\<in>set (sched ex). unat c \<in> live ex)"

lemma set_sched: "set (sched ex) = (\<Union>p<MAX_PRIO_NUM. set (ready ex p))"
  by (auto simp: sched_def)

lemma sched_split:
  assumes "p < MAX_PRIO_NUM" and "\<forall>q<p. ready ex q = []"
  shows "sched ex = ready ex p @ concat (map (ready ex) [Suc p..<MAX_PRIO_NUM])"
proof -
  have "[0..<MAX_PRIO_NUM] = [0..<p] @ p # [Suc p..<MAX_PRIO_NUM]"
    using assms(1) upt_add_eq_append [of 0 p "MAX_PRIO_NUM - p"] by (simp add: upt_conv_Cons)
  moreover have "concat (map (ready ex) [0..<p]) = []" using assms(2) by auto
  ultimately show ?thesis by (simp add: sched_def)
qed

lemma sched_pop:
  assumes "p < MAX_PRIO_NUM" and "\<forall>q<p. ready ex q = []" and "ready ex p = c # cs"
    and "\<forall>q<MAX_PRIO_NUM. ready ex' q = (if q = p then cs else ready ex q)"
  shows "sched ex = c # sched ex'"
proof -
  have "map (ready ex') [Suc p..<MAX_PRIO_NUM] = map (ready ex) [Suc p..<MAX_PRIO_NUM]"
    using assms(4) by auto
  moreover have "\<forall>q<p. ready ex' q = []" using assms by auto
  ultimately show ?thesis using assms(1-4) sched_split [of p ex] sched_split [of p ex'] by (metis append_Cons)
qed

lemma first_one_prio:
  assumes "queues_wf ex" and "bm64_find_first_one (ex_prio_bitmap ex) \<noteq> 64"
  shows "bm64_find_first_one (ex_prio_bitmap ex) < MAX_PRIO_NUM \<and>
    (\<forall>q<bm64_find_first_one (ex_prio_bitmap ex). ready ex q = [])"
proof -
  let ?b = "ex_prio_bitmap ex"
  have "bm64_elems ?b \<noteq> {}" using assms(2) bm64.first_one_empty by blast
  then have "bm64_find_first_one ?b \<in> bm64_elems ?b" using bm64.first_one_in by blast
  then have p: "bm64_find_first_one ?b < MAX_PRIO_NUM" using assms(1) by (auto simp: queues_wf_def)
  have "ready ex q = []" if "q < bm64_find_first_one ?b" for q
  proof -
    have "q \<notin> bm64_elems ?b" using that bm64.first_one_le [of q ?b] by auto
    moreover have "q < MAX_PRIO_NUM" using that p by simp
    ultimately show ?thesis using assms(1) unfolding queues_wf_def by blast
  qed
  with p show ?thesis by blast
qed

text \<open>The queue operation of \<^verbatim>\<open>fetch\<close>.\<close>

lemma pop_ready:
  assumes wf: "queues_wf ex" and p: "p < MAX_PRIO_NUM" and r: "ready ex p = c # cs"
  shows "\<exists>q'. rb_pop (ex_ready_queue ex ! p) = Inr (Some c, q') \<and> (rb_empty q' \<longleftrightarrow> cs = []) \<and>
    queues_wf (ex\<lparr>ex_ready_queue := (ex_ready_queue ex)[p := q']\<rparr>) \<and>
    (\<forall>q<MAX_PRIO_NUM. ready (ex\<lparr>ex_ready_queue := (ex_ready_queue ex)[p := q']\<rparr>) q = (if q = p then cs else ready ex q))"
proof -
  let ?q = "ex_ready_queue ex ! p"
  have q: "rb_wf ?q" "length (rb_data ?q) = MAX_TASK_NUM" "length (ex_ready_queue ex) = MAX_PRIO_NUM"
    using wf p by (auto simp: queues_wf_def)
  have "rb_list ?q = c # cs" using r by (simp add: ready_def)
  then obtain q' where pop: "rb_pop ?q = Inr (Some c, q')" and q': "rb_wf q'" "rb_list q' = cs"
    and cap: "length (rb_data q') - 1 = length (rb_data ?q) - 1"
    using rb.pop_ok [OF q(1)] by blast
  have len: "length (rb_data q') = MAX_TASK_NUM" using cap q(2) by (simp add: ex_consts)
  let ?ex = "ex\<lparr>ex_ready_queue := (ex_ready_queue ex)[p := q']\<rparr>"
  have rd: "\<forall>q<MAX_PRIO_NUM. ready ?ex q = (if q = p then cs else ready ex q)"
    using q(3) q'(2) p by (simp add: ready_def)
  have sub: "set (ready ?ex q) \<subseteq> set (ready ex q)" if "q < MAX_PRIO_NUM" for q
    using rd r that by auto
  have "\<forall>q<MAX_PRIO_NUM. ready ?ex q \<noteq> [] \<longrightarrow> q \<in> bm64_elems (ex_prio_bitmap ?ex)"
    using rd r wf by (auto simp: queues_wf_def)
  moreover have "\<forall>q<MAX_PRIO_NUM. \<forall>c\<in>set (ready ?ex q). unat c < MAX_TASK_NUM"
    using sub wf unfolding queues_wf_def by blast
  ultimately have "queues_wf ?ex"
    using wf q q' len p by (simp add: queues_wf_def nth_list_update)
  with pop rd q' show ?thesis by (auto simp: rb_empty_iff)
qed


lemma pop_ready_empty:
  assumes "queues_wf ex" and "p < MAX_PRIO_NUM" and "ready ex p = []"
  shows "rb_pop (ex_ready_queue ex ! p) = Inr (None, ex_ready_queue ex ! p)"
  using assms rb.pop_empty by (auto simp: queues_wf_def ready_def)

text \<open>\<^verbatim>\<open>fetch\<close> after the delayed wake-ups, case by case.\<close>

lemma fetch_idle:
  assumes "actual_wake ex0 = Inr ex" and "bm64_elems (ex_prio_bitmap ex) = {}"
  shows "fetch ex0 = Inr (None, ex)"
  using assms bm64.first_one_empty by (simp add: fetch_def Let_def)

lemma fetch_marked_empty:
  assumes "actual_wake ex0 = Inr ex" and wf: "queues_wf ex" and p: "bm64_find_first_one (ex_prio_bitmap ex) = p"
    and "p \<noteq> 64" and e: "ready ex p = []"
  shows "fetch ex0 = Inr (None, ex)"
proof -
  have "p < MAX_PRIO_NUM" using first_one_prio [OF wf] assms by auto
  with wf e have "rb_pop (ex_ready_queue ex ! p) = Inr (None, ex_ready_queue ex ! p)" "p < length (ex_ready_queue ex)"
    using pop_ready_empty by (auto simp: queues_wf_def)
  with assms show ?thesis by (simp add: fetch_def Let_def index_res_def)
qed

text \<open>What \<^verbatim>\<open>fetch\<close> does when the first marked queue is not empty.\<close>

definition popped :: "'f executor \<Rightarrow> usize \<Rightarrow> coroutine_id list \<Rightarrow> 'f executor \<Rightarrow> bool" where
  "popped ex p cs ex' \<longleftrightarrow> queues_wf ex' \<and>
     (\<exists>bm rq cur. ex' = ex\<lparr>ex_prio_bitmap := bm, ex_ready_queue := rq, ex_current := cur\<rparr>) \<and>
     (\<forall>q<MAX_PRIO_NUM. ready ex' q = (if q = p then cs else ready ex q))"

lemma fetch_head:
  assumes aw: "actual_wake ex0 = Inr ex" and wf: "ex_wf ex"
    and p: "bm64_find_first_one (ex_prio_bitmap ex) = p" "p \<noteq> 64" and r: "ready ex p = c # cs"
  shows "\<exists>ex'. popped ex p cs ex' \<and>
    (if unat c \<in> live ex
     then fetch ex0 = Inr (ex_tasks ex ! unat c, ex') \<and> ex_current ex' = Some c \<and>
       bm64_elems (ex_prio_bitmap ex') = (if cs = [] then bm64_elems (ex_prio_bitmap ex) - {p} else bm64_elems (ex_prio_bitmap ex))
     else fetch ex0 = Inr (None, ex') \<and> ex_current ex' = ex_current ex \<and> ex_prio_bitmap ex' = ex_prio_bitmap ex)"
proof -
  have q: "queues_wf ex" and t: "tasks_wf ex" using wf by (auto simp: ex_wf_def)
  have pb: "p < MAX_PRIO_NUM" using first_one_prio [OF q] p by auto
  have cb: "unat c < MAX_TASK_NUM" using q pb r by (auto simp: queues_wf_def)
  have lens: "p < length (ex_ready_queue ex)" "length (ex_tasks ex) = MAX_TASK_NUM"
    using q t pb by (auto simp: queues_wf_def tasks_wf_def)
  obtain q' where pop: "rb_pop (ex_ready_queue ex ! p) = Inr (Some c, q')" and em: "rb_empty q' \<longleftrightarrow> cs = []"
    and wf1: "queues_wf (ex\<lparr>ex_ready_queue := (ex_ready_queue ex)[p := q']\<rparr>)"
    and rd: "\<forall>q<MAX_PRIO_NUM. ready (ex\<lparr>ex_ready_queue := (ex_ready_queue ex)[p := q']\<rparr>) q = (if q = p then cs else ready ex q)"
    using pop_ready [OF q pb r] by blast
  let ?ex1 = "ex\<lparr>ex_ready_queue := (ex_ready_queue ex)[p := q']\<rparr>"
  have upd: "\<exists>bm rq cur. ?ex1\<lparr>ex_prio_bitmap := b, ex_current := k\<rparr> =
      ex\<lparr>ex_prio_bitmap := bm, ex_ready_queue := rq, ex_current := cur\<rparr>" for b k
    by (rule exI [of _ b], rule exI [of _ "(ex_ready_queue ex)[p := q']"], rule exI [of _ k]) simp
  show ?thesis
  proof (cases "unat c \<in> live ex")
    case False
    then have "ex_tasks ex ! unat c = None" using cb by (simp add: live_def)
    then have "fetch ex0 = Inr (None, ?ex1)"
      using aw p pop lens cb by (simp add: fetch_def Let_def index_res_def)
    moreover have "popped ex p cs ?ex1"
      using wf1 rd upd [of "ex_current ex" "ex_prio_bitmap ex"] by (simp add: popped_def)
    ultimately show ?thesis using False by auto
  next
    case True
    then obtain h where h: "ex_tasks ex ! unat c = Some h" by (auto simp: live_def)
    have "p < 64" using pb by (simp add: ex_consts)
    then obtain bm where bm: "bm64_clear (ex_prio_bitmap ex) p = Inr bm"
      "bm64_elems bm = bm64_elems (ex_prio_bitmap ex) - {p}"
      using bm64.clear_spec [of p "ex_prio_bitmap ex"] by blast
    define b where "b = (if cs = [] then bm else ex_prio_bitmap ex)"
    let ?ex2 = "?ex1\<lparr>ex_prio_bitmap := b, ex_current := Some c\<rparr>"
    have "fetch ex0 = Inr (Some h, ?ex2)"
      using aw p pop lens cb h em bm by (simp add: fetch_def Let_def index_res_def b_def)
    moreover have "queues_wf ?ex2"
      using wf1 rd bm by (auto simp: queues_wf_def b_def ready_def)
    then have "popped ex p cs ?ex2"
      using rd upd [of "Some c" b] by (simp add: popped_def)
    ultimately show ?thesis using True h bm by (auto simp: b_def)
  qed
qed

text \<open>A successful \<^verbatim>\<open>fetch\<close> keeps the invariant and the tasks, and makes what it returns current.\<close>

lemma popped_wf:
  assumes "ex_wf ex" and "popped ex p cs ex'"
  shows "ex_wf ex' \<and> live ex' = live ex \<and> ex_tasks ex' = ex_tasks ex \<and> ex_tasks_bak ex' = ex_tasks_bak ex \<and>
    ex_delay_wake_cids ex' = ex_delay_wake_cids ex"
proof -
  obtain bm rq cur where ex': "ex' = ex\<lparr>ex_prio_bitmap := bm, ex_ready_queue := rq, ex_current := cur\<rparr>"
    and q: "queues_wf ex'" using assms(2) by (auto simp: popped_def)
  then show ?thesis using assms(1) by (simp add: ex_wf_def)
qed

definition fetched :: "'f executor \<Rightarrow> usize option \<Rightarrow> 'f executor \<Rightarrow> bool" where
  "fetched ex r ex' \<longleftrightarrow> ex_wf ex' \<and> live ex' = live ex \<and> ex_tasks ex' = ex_tasks ex \<and>
     ex_tasks_bak ex' = ex_tasks_bak ex \<and> ex_delay_wake_cids ex' = 0 \<and>
     (\<forall>h. r = Some h \<longrightarrow> (\<exists>c. ex_current ex' = Some c \<and> unat c \<in> live ex' \<and> ex_tasks ex' ! unat c = Some h))"

lemma fetch_inv:
  assumes wf0: "ex_wf ex0" and f: "fetch ex0 = Inr (r, ex')"
  shows "fetched ex0 r ex'"
proof -
  obtain ex where aw: "actual_wake ex0 = Inr ex" using f by (auto simp: fetch_def)
  from actual_wake_inv [OF wf0 aw] have wf: "ex_wf ex"
    and same: "live ex = live ex0" "ex_tasks ex = ex_tasks ex0" "ex_tasks_bak ex = ex_tasks_bak ex0" "ex_delay_wake_cids ex = 0"
    by auto
  then have idle: "fetched ex0 None ex" by (simp add: fetched_def)
  let ?p = "bm64_find_first_one (ex_prio_bitmap ex)"
  show ?thesis
  proof (cases "?p = 64")
    case True
    with aw f idle show ?thesis by (simp add: fetch_def Let_def)
  next
    case False
    show ?thesis
    proof (cases "ready ex ?p")
      case Nil
      with fetch_marked_empty [OF aw _ refl False Nil] wf f idle show ?thesis by (auto simp: ex_wf_def)
    next
      case (Cons c cs)
      from fetch_head [OF aw wf refl False Cons] obtain ex'' where "popped ex ?p cs ex''"
        and res: "if unat c \<in> live ex then fetch ex0 = Inr (ex_tasks ex ! unat c, ex'') \<and> ex_current ex'' = Some c
          else fetch ex0 = Inr (None, ex'')"
        by (auto split: if_splits)
      with popped_wf [OF wf] have "ex_wf ex''" "live ex'' = live ex" "ex_tasks ex'' = ex_tasks ex"
        "ex_tasks_bak ex'' = ex_tasks_bak ex" "ex_delay_wake_cids ex'' = ex_delay_wake_cids ex" by auto
      with res f same show ?thesis by (auto simp: fetched_def split: if_splits)
    qed
  qed
qed

section \<open>Removing a finished coroutine\<close>

definition removed :: "'f executor \<Rightarrow> coroutine_id \<Rightarrow> 'f executor \<Rightarrow> bool" where
  "removed ex cid ex' \<longleftrightarrow> ex_wf ex' \<and> live ex' = live ex - {unat cid} \<and>
     (\<exists>n a. ex' = ex\<lparr>ex_tasks := (ex_tasks ex)[unat cid := None], ex_coroutine_num := n, ex_cid_allocator := a\<rparr>)"

lemma remove_task_ok:
  assumes wf: "ex_wf ex" and c: "unat cid \<in> live ex"
  shows "\<exists>ex'. remove_task ex cid = Inr ex' \<and> removed ex cid ex'"
proof -
  have t: "tasks_wf ex" using wf by (simp add: ex_wf_def)
  have b: "unat cid < MAX_TASK_NUM" "unat cid < CID_NUM" using live_less [OF c] by (auto simp: ex_consts)
  from t b obtain a where a: "ia_release (ex_cid_allocator ex) (unat cid) = Inr a" "ia_wf CID_NUM a"
    "ia_used CID_NUM a = live ex - {unat cid}"
    using ia.release_ok [of CID_NUM "ex_cid_allocator ex" "unat cid"] by (auto simp: tasks_wf_def)
  let ?ex = "ex\<lparr>ex_tasks := (ex_tasks ex)[unat cid := None], ex_coroutine_num := ex_coroutine_num ex - 1,
    ex_cid_allocator := a\<rparr>"
  have len: "length (ex_tasks ex) = MAX_TASK_NUM" and num: "ex_coroutine_num ex = card (live ex)"
    using t by (auto simp: tasks_wf_def)
  have "0 < card (live ex)" using c by (auto simp: card_gt_0_iff)
  then have "remove_task ex cid = Inr ?ex"
    using a b len num by (simp add: remove_task_def cid_release_def store_res_def sub_usize_def)
  moreover have live': "live ?ex = live ex - {unat cid}"
    using len b by (auto simp: live_def nth_list_update split: if_splits)
  moreover have "tasks_wf ?ex"
    using t a c live' len num b by (auto simp: tasks_wf_def nth_list_update split: if_splits)
  ultimately show ?thesis using wf by (auto simp: removed_def ex_wf_def)
qed

section \<open>Polling\<close>

lemma set_future_wf [simp]:
  "ex_wf (ex\<lparr>ex_tasks_bak := (ex_tasks_bak ex)[h := (ex_tasks_bak ex ! h)\<lparr>co_future := f\<rparr>]\<rparr>) = ex_wf ex"
proof -
  let ?b = "(ex_tasks_bak ex)[h := (ex_tasks_bak ex ! h)\<lparr>co_future := f\<rparr>]"
  have "co_cid (?b ! k) = co_cid (ex_tasks_bak ex ! k)" "co_prio (?b ! k) = co_prio (ex_tasks_bak ex ! k)" for k
    by (cases "h < length (ex_tasks_bak ex)", simp_all add: nth_list_update list_update_beyond)+
  then show ?thesis by (simp add: ex_wf_def tasks_wf_def)
qed

text \<open>
  What a coroutine may do to the executor while it is polled: the operations the program's
  futures call.  Removal is left to the run loop.
\<close>

inductive task_step :: "'f executor \<Rightarrow> 'f executor \<Rightarrow> bool" where
  ts_spawn: "spawn ex future prio = Inr (cid, ex') \<Longrightarrow> task_step ex ex'"
| ts_wake: "wake ex cid = Inr ex' \<Longrightarrow> task_step ex ex'"
| ts_delay_wake: "delay_wake ex cid = Inr ex' \<Longrightarrow> task_step ex ex'"
| ts_switch: "switch_possible ex = Inr (b, ex') \<Longrightarrow> task_step ex ex'"

inductive_cases task_step_cases: "task_step ex ex'"

lemma delay_wake_inv:
  assumes "delay_wake ex cid = Inr ex'"
  shows "cid < 64 \<and> ex' = ex\<lparr>ex_delay_wake_cids := ex_delay_wake_cids ex OR push_bit (unat cid) 1\<rparr>"
  using assms by (simp add: delay_wake_def split: if_splits)

text \<open>A step of a polled coroutine keeps the invariant and every live task.\<close>

definition keeps_tasks :: "'f executor \<Rightarrow> 'f executor \<Rightarrow> bool" where
  "keeps_tasks ex ex' \<longleftrightarrow> ex_wf ex' \<and> live ex \<subseteq> live ex' \<and> (\<forall>i\<in>live ex. ex_tasks ex' ! i = ex_tasks ex ! i) \<and>
     (\<exists>new. ex_tasks_bak ex' = ex_tasks_bak ex @ new)"

lemma task_step_keeps:
  assumes "task_step ex ex'" and wf: "ex_wf ex"
  shows "keeps_tasks ex ex'"
  using assms(1)
proof cases
  case (ts_spawn future prio cid)
  from spawn_inv [OF wf ts_spawn] show ?thesis
    by (auto simp: spawned_def keeps_tasks_def) (metis nth_list_update_neq)
next
  case (ts_wake cid)
  from wake_inv [OF wf ts_wake] show ?thesis by (auto simp: keeps_tasks_def)
next
  case (ts_delay_wake cid)
  from delay_wake_inv [OF ts_delay_wake] wf show ?thesis by (simp add: keeps_tasks_def ex_wf_def)
next
  case (ts_switch b)
  then have "actual_wake ex = Inr ex'" by (auto simp: switch_possible_def Let_def)
  from actual_wake_inv [OF wf this] show ?thesis by (auto simp: keeps_tasks_def)
qed

lemma keeps_tasks_refl: "ex_wf ex \<Longrightarrow> keeps_tasks ex ex"
  by (simp add: keeps_tasks_def)

lemma keeps_tasks_trans: "keeps_tasks ex ex1 \<Longrightarrow> keeps_tasks ex1 ex2 \<Longrightarrow> keeps_tasks ex ex2"
  unfolding keeps_tasks_def by (metis append_assoc subsetD subset_trans)

lemma task_steps_keep: "task_step\<^sup>*\<^sup>* ex ex' \<Longrightarrow> ex_wf ex \<Longrightarrow> keeps_tasks ex ex'"
proof (induction rule: rtranclp_induct)
  case base
  then show ?case by (rule keeps_tasks_refl)
next
  case (step ex1 ex2)
  then have "keeps_tasks ex ex1" by simp
  moreover from this have "keeps_tasks ex1 ex2" using task_step_keeps [OF step.hyps(2)] by (simp add: keeps_tasks_def)
  ultimately show ?case by (rule keeps_tasks_trans)
qed

section \<open>The run loop\<close>

definition poll_ok :: "('f, 'w) poll_fn \<Rightarrow> bool" where
  "poll_ok poll \<longleftrightarrow> (\<forall>fut ex w p fut' ex' w'. poll fut ex w = Inr (p, fut', ex', w') \<longrightarrow> task_step\<^sup>*\<^sup>* ex ex')"

lemma wake_panic:
  assumes wf: "ex_wf ex" and c: "unat cid < MAX_TASK_NUM" and e: "wake ex cid = Inl e"
  shows "e = UnwrapErr"
proof -
  have live: "unat cid \<in> live ex" using wake_absent [of ex cid] assms by (auto simp: ex_wf_def)
  have full: "\<not> length (ready ex (prio_of ex (unat cid))) < MAX_TASK_NUM - 1" using wake_ok [OF wf c] e by auto
  have p: "prio_of ex (unat cid) < MAX_PRIO_NUM" using live_task live wf by (auto simp: ex_wf_def)
  then have q: "rb_wf (ex_ready_queue ex ! prio_of ex (unat cid))"
    "length (rb_data (ex_ready_queue ex ! prio_of ex (unat cid))) = MAX_TASK_NUM"
    using wf by (auto simp: ex_wf_def queues_wf_def)
  from rb.contents_bound [OF q(1)] q(2) full
  have "length (ready ex (prio_of ex (unat cid))) = MAX_TASK_NUM - 1" by (simp add: ready_def)
  from enqueue_full [OF _ p this, of _ cid] wf
  have "push_ready (ex\<lparr>ex_prio_bitmap := bm\<rparr>) (prio_of ex (unat cid)) cid = Inl UnwrapErr" for bm
    by (simp add: ex_wf_def)
  moreover obtain bm where "bm64_set (ex_prio_bitmap ex) (prio_of ex (unat cid)) = Inr bm"
    using bm64.set_spec [of "prio_of ex (unat cid)" "ex_prio_bitmap ex"] p by (auto simp: ex_consts)
  ultimately show ?thesis
    using e wake_live [of ex cid] live wf by (auto simp: ex_wf_def)
qed

lemma wake_all_panic:
  assumes "ex_wf ex" and "\<forall>c\<in>set cs. unat c < MAX_TASK_NUM" and "wake_all ex cs = Inl e"
  shows "e = UnwrapErr"
  using assms
proof (induction cs arbitrary: ex)
  case (Cons c cs)
  show ?case
  proof (cases "wake ex c")
    case (Inl x)
    with Cons.prems wake_panic [of ex c x] show ?thesis by auto
  next
    case (Inr ex1)
    with wake_inv [OF Cons.prems(1) Inr] Cons show ?thesis by auto
  qed
qed simp

lemma delayed_cids_small: "\<forall>c\<in>set (map of_nat (filter P [0..<64])). unat (c :: u32) < MAX_TASK_NUM"
  by (auto simp: unat_small_u32 ex_consts)

lemma actual_wake_panic:
  assumes "ex_wf ex" and "actual_wake ex = Inl e"
  shows "e = UnwrapErr"
proof -
  have "ex_wf (ex\<lparr>ex_delay_wake_cids := 0\<rparr>)" using assms(1) by (simp add: ex_wf_def)
  from wake_all_panic [OF this delayed_cids_small] assms(2) show ?thesis
    by (simp add: actual_wake_wakes)
qed

lemma fetch_panic:
  assumes wf0: "ex_wf ex0" and f: "fetch ex0 = Inl e"
  shows "actual_wake ex0 = Inl UnwrapErr \<and> e = UnwrapErr"
proof (cases "actual_wake ex0")
  case (Inl x)
  with f actual_wake_panic [OF wf0 Inl] show ?thesis by (simp add: fetch_def)
next
  case (Inr ex)
  let ?p = "bm64_find_first_one (ex_prio_bitmap ex)"
  have wf: "ex_wf ex" using actual_wake_inv [OF wf0 Inr] by simp
  have "\<exists>r. fetch ex0 = Inr r"
  proof (cases "?p = 64")
    case True
    with Inr show ?thesis by (simp add: fetch_def Let_def)
  next
    case p: False
    show ?thesis
    proof (cases "ready ex ?p")
      case Nil
      with fetch_marked_empty [OF Inr _ refl p Nil] wf show ?thesis by (auto simp: ex_wf_def)
    next
      case (Cons c cs)
      with fetch_head [OF Inr wf refl p Cons] show ?thesis by (auto split: if_splits)
    qed
  qed
  with f show ?thesis by simp
qed

lemma ready_less:
  assumes "ex_wf ex" and "p < MAX_PRIO_NUM"
  shows "length (ready ex p) < MAX_TASK_NUM"
  using assms rb.contents_bound [of "ex_ready_queue ex ! p"] by (auto simp: ex_wf_def queues_wf_def ready_def ex_consts)

lemma woken_Cons:
  "woken ex (c # cs) p = (if unat c \<in> live ex \<and> prio_of ex (unat c) = p then [c] else []) @ woken ex cs p"
  by (simp add: woken_def)

lemma wake_panic_full:
  assumes wf: "ex_wf ex" and c: "unat cid < MAX_TASK_NUM" and e: "wake ex cid = Inl e"
  shows "\<exists>p<MAX_PRIO_NUM. unat cid \<in> live ex \<and> prio_of ex (unat cid) = p \<and> Suc (length (ready ex p)) = MAX_TASK_NUM"
proof -
  have live: "unat cid \<in> live ex" using wake_absent [of ex cid] assms by (auto simp: ex_wf_def)
  then have p: "prio_of ex (unat cid) < MAX_PRIO_NUM" using live_task wf by (auto simp: ex_wf_def)
  have "\<not> length (ready ex (prio_of ex (unat cid))) < MAX_TASK_NUM - 1" using wake_ok [OF wf c] e by auto
  with ready_less [OF wf p] live p show ?thesis by auto
qed

lemma wake_all_overflow:
  assumes "ex_wf ex" and "\<forall>c\<in>set cs. unat c < MAX_TASK_NUM" and "wake_all ex cs = Inl e"
  shows "\<exists>p<MAX_PRIO_NUM. MAX_TASK_NUM \<le> length (ready ex p) + length (woken ex cs p)"
  using assms
proof (induction cs arbitrary: ex)
  case (Cons c cs)
  show ?case
  proof (cases "wake ex c")
    case (Inl x)
    then obtain p where p: "p < MAX_PRIO_NUM" "unat c \<in> live ex" "prio_of ex (unat c) = p" "Suc (length (ready ex p)) = MAX_TASK_NUM"
      using wake_panic_full [OF Cons.prems(1) _ Inl] Cons.prems(2) by auto
    then show ?thesis by (intro exI [of _ p]) (simp add: woken_Cons)
  next
    case (Inr ex1)
    note inv = wake_inv [OF Cons.prems(1) Inr]
    then have same: "woken ex1 cs = woken ex cs" by (auto simp: fun_eq_iff woken_def)
    obtain p where p: "p < MAX_PRIO_NUM" "MAX_TASK_NUM \<le> length (ready ex1 p) + length (woken ex cs p)"
      using Cons.IH [of ex1] Cons.prems Inr inv unfolding same by auto
    have "length (ready ex1 p) + length (woken ex cs p) = length (ready ex p) + length (woken ex (c # cs) p)"
      using inv p(1) by (auto simp: woken_Cons)
    with p show ?thesis by auto
  qed
qed simp

text \<open>The delayed wake-ups that are delivered, and when they do not fit into the ready queues, which have room for
  one entry less than their size.\<close>

definition delayed_cids :: "'f executor \<Rightarrow> coroutine_id list" where
  "delayed_cids ex = map of_nat (filter (delivered (ex_delay_wake_cids ex)) [0..<64])"

definition queue_overflow :: "'f executor \<Rightarrow> bool" where
  "queue_overflow ex \<longleftrightarrow> (\<exists>p<MAX_PRIO_NUM. MAX_TASK_NUM \<le> length (ready ex p) + length (woken ex (delayed_cids ex) p))"

lemma actual_wake_panics_iff:
  assumes "ex_wf ex"
  shows "actual_wake ex = Inl e \<longleftrightarrow> e = UnwrapErr \<and> queue_overflow ex"
proof -
  let ?ex = "ex\<lparr>ex_delay_wake_cids := 0\<rparr>"
  have wf: "ex_wf ?ex" using assms by (simp add: ex_wf_def)
  have w: "woken ?ex = woken ex" by (simp add: woken_def fun_eq_iff)
  show ?thesis
  proof (cases "actual_wake ex")
    case (Inl x)
    have "x = UnwrapErr" by (rule actual_wake_panic [OF assms Inl])
    moreover have "queue_overflow ex"
      using wake_all_overflow [OF wf delayed_cids_small] Inl w by (auto simp: actual_wake_wakes queue_overflow_def delayed_cids_def)
    ultimately show ?thesis using Inl by auto
  next
    case (Inr ex')
    have "length (ready ex p) + length (woken ex (delayed_cids ex) p) < MAX_TASK_NUM" if "p < MAX_PRIO_NUM" for p
      using actual_wake_inv [OF assms Inr] ready_less [of ex' p] that by (auto simp: delayed_cids_def)
    with Inr show ?thesis by (auto simp: queue_overflow_def linorder_not_le)
  qed
qed

lemma fetch_panics_iff:
  assumes "ex_wf ex"
  shows "fetch ex = Inl e \<longleftrightarrow> e = UnwrapErr \<and> queue_overflow ex"
proof
  assume "fetch ex = Inl e"
  from fetch_panic [OF assms this] show "e = UnwrapErr \<and> queue_overflow ex" using actual_wake_panics_iff [OF assms] by blast
next
  assume "e = UnwrapErr \<and> queue_overflow ex"
  then have "actual_wake ex = Inl e" using actual_wake_panics_iff [OF assms] by blast
  then show "fetch ex = Inl e" by (simp add: fetch_def)
qed

text \<open>One iteration: the coroutine that was fetched is polled and, when it is done, removed.\<close>

lemma execute_keeps:
  assumes wf: "ex_wf ex" and f: "fetch ex = Inr (Some h, ex1)" and pk: "poll_ok poll"
    and e: "execute poll h ex1 w = Inr (p, ex2, w2)"
  shows "ex_wf ex2 \<and> unat (co_cid (ex_tasks_bak ex1 ! h)) \<in> live ex2 \<and> live ex \<subseteq> live ex2 \<and>
    ex_current ex1 = Some (co_cid (ex_tasks_bak ex1 ! h))"
proof -
  from fetch_inv [OF wf f] obtain c where wf1: "ex_wf ex1" and live1: "live ex1 = live ex" and cur: "ex_current ex1 = Some c"
    and c: "unat c \<in> live ex1" "ex_tasks ex1 ! unat c = Some h"
    by (auto simp: fetched_def)
  have cid: "co_cid (ex_tasks_bak ex1 ! h) = c"
    using live_task [OF _ c(1)] wf1 c(2) by (auto simp: ex_wf_def)
  from e obtain fut' ex' where pl: "poll (co_future (ex_tasks_bak ex1 ! h)) ex1 w = Inr (p, fut', ex', w2)"
    and ex2: "ex2 = ex'\<lparr>ex_tasks_bak := (ex_tasks_bak ex')[h := (ex_tasks_bak ex' ! h)\<lparr>co_future := fut'\<rparr>]\<rparr>"
    by (auto simp: execute_def)
  from pl pk have "task_step\<^sup>*\<^sup>* ex1 ex'" unfolding poll_ok_def by blast
  from task_steps_keep [OF this wf1] have "ex_wf ex'" "live ex1 \<subseteq> live ex'" by (auto simp: keeps_tasks_def)
  then show ?thesis using c cid cur live1 by (auto simp: ex2)
qed

lemma run_until_blocked_turn:
  "run_until_blocked poll (Suc fuel) ex w =
     (case run_turn poll ex w of
        Inl e \<Rightarrow> Some (Inl e)
      | Inr (go_on, ex', w') \<Rightarrow> if go_on then run_until_blocked poll fuel ex' w' else Some (Inr (ex', w')))"
  by (auto simp: run_turn_def Let_def split: sum.splits prod.splits option.splits poll_result.splits)

text \<open>A turn after which the loop goes on; the boolean of \<^const>\<open>run_turn\<close> says so.\<close>

definition loop_step :: "('f, 'w) poll_fn \<Rightarrow> 'f executor \<times> 'w \<Rightarrow> 'f executor \<times> 'w \<Rightarrow> bool" where
  "loop_step poll s s' \<longleftrightarrow> run_turn poll (fst s) (snd s) = Inr (True, s')"

text \<open>Why a turn panics: the delayed wake-ups overflow a ready queue, or the poll of the coroutine that was fetched panics.\<close>

definition turn_panics :: "('f, 'w) poll_fn \<Rightarrow> panic \<Rightarrow> 'f executor \<Rightarrow> 'w \<Rightarrow> bool" where
  "turn_panics poll e ex w \<longleftrightarrow> e = UnwrapErr \<and> queue_overflow ex \<or>
     (\<exists>h ex1. fetch ex = Inr (Some h, ex1) \<and> poll (co_future (ex_tasks_bak ex1 ! h)) ex1 w = Inl e)"

lemma run_turn_wf:
  assumes wf: "ex_wf ex" and pk: "poll_ok poll"
  shows "case run_turn poll ex w of
      Inl e \<Rightarrow> turn_panics poll e ex w
    | Inr (go_on, ex', w') \<Rightarrow> ex_wf ex' \<and> (\<not> go_on \<longrightarrow> fetch ex = Inr (None, ex') \<and> w' = w)"
proof (cases "fetch ex")
  case (Inl e)
  with fetch_panics_iff [OF wf, of e] show ?thesis by (simp add: run_turn_def turn_panics_def)
next
  case (Inr r)
  obtain t ex1 where r: "fetch ex = Inr (t, ex1)" using Inr by (cases r) auto
  show ?thesis
  proof (cases t)
    case None
    with r fetch_inv [OF wf r] show ?thesis by (simp add: run_turn_def fetched_def)
  next
    case (Some h)
    show ?thesis
    proof (cases "execute poll h ex1 w")
      case (Inl e)
      then have "poll (co_future (ex_tasks_bak ex1 ! h)) ex1 w = Inl e" by (auto simp: execute_def rbind_Inl_iff)
      with Inl r Some show ?thesis by (simp add: run_turn_def turn_panics_def Let_def)
    next
      case (Inr y)
      obtain p ex2 w2 where e: "execute poll h ex1 w = Inr (p, ex2, w2)" using Inr by (cases y) auto
      from execute_keeps [OF wf r [unfolded Some] pk e]
      have wf2: "ex_wf ex2" and l2: "unat (co_cid (ex_tasks_bak ex1 ! h)) \<in> live ex2" by auto
      obtain ex3 where "remove_task ex2 (co_cid (ex_tasks_bak ex1 ! h)) = Inr ex3" "ex_wf ex3"
        using remove_task_ok [OF wf2 l2] by (auto simp: removed_def)
      with wf2 r Some e show ?thesis by (cases p) (simp_all add: run_turn_def Let_def)
    qed
  qed
qed

lemma loop_step_wf:
  assumes "ex_wf ex" and "poll_ok poll" and "loop_step poll (ex, w) (ex', w')"
  shows "ex_wf ex'"
  using run_turn_wf [OF assms(1,2), of w] assms(3) by (simp add: loop_step_def)

lemma loop_steps_wf:
  assumes "poll_ok poll" and "(loop_step poll ^^ k) (ex, w) (ex', w')" and "ex_wf ex"
  shows "ex_wf ex'"
  using assms(2,3)
proof (induction k arbitrary: ex' w')
  case (Suc k)
  then show ?case using loop_step_wf [OF _ assms(1)] by auto blast
qed simp

text \<open>What every poll keeps of the world, the turns keep.\<close>

lemma loop_step_world:
  assumes step: "\<And>fut ex w p fut' ex' w'. poll fut ex w = Inr (p, fut', ex', w') \<Longrightarrow> I w \<Longrightarrow> I w'"
    and "loop_step poll (ex, w) (ex', w')" and "I w"
  shows "I w'"
proof -
  from assms(2) obtain h ex1 p ex2 where "execute poll h ex1 w = Inr (p, ex2, w')"
    by (auto simp: loop_step_def run_turn_def Let_def split: option.splits poll_result.splits) (metis poll_result.exhaust)
  then show ?thesis using step assms(3) by (auto simp: execute_def)
qed

lemma loop_steps_world:
  assumes step: "\<And>fut ex w p fut' ex' w'. poll fut ex w = Inr (p, fut', ex', w') \<Longrightarrow> I w \<Longrightarrow> I w'"
    and "(loop_step poll ^^ k) (ex, w) (ex', w')" and "I w"
  shows "I w'"
  using assms(2)
proof (induction k arbitrary: ex' w')
  case (Suc k)
  then obtain ex1 w1 where k: "(loop_step poll ^^ k) (ex, w) (ex1, w1)" "loop_step poll (ex1, w1) (ex', w')" by auto
  show ?case by (rule loop_step_world [where I = I, OF _ k(2) Suc.IH [OF k(1)]]) (rule step)
qed (use assms(3) in simp)

lemma run_until_blocked_wf:
  assumes "ex_wf ex" and pk: "poll_ok poll"
  shows "case run_until_blocked poll fuel ex w of
      None \<Rightarrow> \<exists>ex' w'. (loop_step poll ^^ fuel) (ex, w) (ex', w') \<and> ex_wf ex'
    | Some (Inr (ex', w')) \<Rightarrow> \<exists>k<fuel. \<exists>ex1. (loop_step poll ^^ k) (ex, w) (ex1, w') \<and> ex_wf ex1 \<and>
        fetch ex1 = Inr (None, ex') \<and> ex_wf ex'
    | Some (Inl e) \<Rightarrow> \<exists>k<fuel. \<exists>ex1 w1. (loop_step poll ^^ k) (ex, w) (ex1, w1) \<and> ex_wf ex1 \<and> turn_panics poll e ex1 w1"
  using assms(1)
proof (induction fuel arbitrary: ex w)
  case (Suc fuel)
  note turn = run_turn_wf [OF Suc.prems pk, of w] and unfold = run_until_blocked_turn [of poll fuel ex w]
  show ?case
  proof (cases "run_turn poll ex w")
    case (Inl e)
    with turn Suc.prems have "(loop_step poll ^^ 0) (ex, w) (ex, w) \<and> ex_wf ex \<and> turn_panics poll e ex w" by simp
    then show ?thesis unfolding unfold using Inl by (simp only: sum.case option.case) blast
  next
    case (Inr r)
    obtain go_on ex' w' where r: "r = (go_on, ex', w')" by (metis prod_cases3)
    show ?thesis
    proof (cases go_on)
      case False
      with turn Inr r Suc.prems have "(loop_step poll ^^ 0) (ex, w) (ex, w') \<and> ex_wf ex \<and> fetch ex = Inr (None, ex') \<and> ex_wf ex'" by simp
      then show ?thesis unfolding unfold using Inr r False by (simp only: sum.case option.case prod.case if_False) blast
    next
      case True
      have wf': "ex_wf ex'" using turn Inr r by simp
      have step: "loop_step poll (ex, w) (ex', w')" using Inr r True by (simp add: loop_step_def)
      have lift: "(loop_step poll ^^ Suc k) (ex, w) s" if "(loop_step poll ^^ k) (ex', w') s" for k s
        using relpowp_Suc_I2 [OF step that] .
      note IH = Suc.IH [OF wf', of w']
      have same: "run_until_blocked poll (Suc fuel) ex w = run_until_blocked poll fuel ex' w'"
        unfolding unfold using Inr r True by simp
      show ?thesis
      proof (cases "run_until_blocked poll fuel ex' w'")
        case None
        with IH same lift show ?thesis by (simp only: option.case) blast
      next
        case (Some res)
        show ?thesis
        proof (cases res)
          case (Inl e)
          with Some IH have "\<exists>k<fuel. \<exists>ex1 w1. (loop_step poll ^^ k) (ex', w') (ex1, w1) \<and> ex_wf ex1 \<and> turn_panics poll e ex1 w1" by simp
          then show ?thesis unfolding same Some Inl option.case sum.case using lift Suc_mono by blast
        next
          case (Inr y)
          obtain exf wf' where y: "y = (exf, wf')" by (cases y)
          with Some Inr IH have "\<exists>k<fuel. \<exists>ex1. (loop_step poll ^^ k) (ex', w') (ex1, wf') \<and> ex_wf ex1 \<and>
            fetch ex1 = Inr (None, exf) \<and> ex_wf exf" by simp
          then show ?thesis unfolding same Some Inr y option.case sum.case prod.case using lift Suc_mono by blast
        qed
      qed
    qed
  qed
qed simp

section \<open>Order of dispatch\<close>

lemma clean_first_one:
  assumes wf: "ex_wf ex" and cl: "clean ex" and s: "sched ex = c # cs"
  shows "\<exists>p rest. bm64_find_first_one (ex_prio_bitmap ex) = p \<and> p \<noteq> 64 \<and> p < MAX_PRIO_NUM \<and>
    ready ex p = c # rest \<and> unat c \<in> live ex"
proof -
  have q: "queues_wf ex" using wf by (simp add: ex_wf_def)
  let ?p = "bm64_find_first_one (ex_prio_bitmap ex)"
  obtain r where r: "r < MAX_PRIO_NUM" "ready ex r \<noteq> []"
    using set_sched [of ex] s by fastforce
  then have ne: "bm64_elems (ex_prio_bitmap ex) \<noteq> {}" using cl by (auto simp: clean_def)
  then have p64: "?p \<noteq> 64" using bm64.first_one_cap_iff by blast
  have p: "?p < MAX_PRIO_NUM" "\<forall>r<?p. ready ex r = []" using first_one_prio [OF q p64] by auto
  have "?p \<in> bm64_elems (ex_prio_bitmap ex)" using ne bm64.first_one_in by blast
  then have "ready ex ?p \<noteq> []" using cl p by (auto simp: clean_def)
  then obtain c' rest where "ready ex ?p = c' # rest" by (cases "ready ex ?p") auto
  with sched_split [OF p] s p p64 cl show ?thesis by (auto simp: clean_def)
qed

lemma fetch_clean:
  assumes wf: "ex_wf ex" and cl: "clean ex" and d: "ex_delay_wake_cids ex = 0" and s: "sched ex = c # cs"
  shows "\<exists>h ex'. ex_tasks ex ! unat c = Some h \<and> fetch ex = Inr (Some h, ex') \<and> ex_current ex' = Some c \<and>
    sched ex' = cs \<and> ex_wf ex' \<and> clean ex' \<and> live ex' = live ex \<and> ex_tasks ex' = ex_tasks ex \<and>
    ex_tasks_bak ex' = ex_tasks_bak ex \<and> ex_delay_wake_cids ex' = 0"
proof -
  have q: "queues_wf ex" using wf by (simp add: ex_wf_def)
  obtain p rest where p: "bm64_find_first_one (ex_prio_bitmap ex) = p" "p \<noteq> 64" "p < MAX_PRIO_NUM"
    and r: "ready ex p = c # rest" and c: "unat c \<in> live ex"
    using clean_first_one [OF wf cl s] by blast
  have low: "\<forall>q<p. ready ex q = []" using first_one_prio [OF q] p by auto
  obtain ex' where pop: "popped ex p rest ex'" and f: "fetch ex = Inr (ex_tasks ex ! unat c, ex')"
    and cur: "ex_current ex' = Some c"
    and el: "bm64_elems (ex_prio_bitmap ex') = (if rest = [] then bm64_elems (ex_prio_bitmap ex) - {p} else bm64_elems (ex_prio_bitmap ex))"
    using fetch_head [OF actual_wake_none [OF d] wf p(1,2) r] c by auto
  have rd: "\<forall>q<MAX_PRIO_NUM. ready ex' q = (if q = p then rest else ready ex q)"
    using pop by (simp add: popped_def)
  note same = popped_wf [OF wf pop]
  have s': "sched ex' = cs" using sched_pop [OF p(3) low r rd] s by simp
  have "clean ex'"
    using cl rd el s s' same r p by (auto simp: clean_def)
  moreover obtain h where "ex_tasks ex ! unat c = Some h" using c by (auto simp: live_def)
  ultimately show ?thesis using f cur s' same d by auto
qed

lemma fetch_clean_none:
  assumes "clean ex" and "ex_wf ex" and "ex_delay_wake_cids ex = 0" and "sched ex = []"
  shows "fetch ex = Inr (None, ex)"
proof (rule fetch_idle)
  show "actual_wake ex = Inr ex" using assms(3) by simp
  have "\<forall>p<MAX_PRIO_NUM. ready ex p = []" using assms(4) by (simp add: sched_def)
  moreover have "bm64_elems (ex_prio_bitmap ex) \<subseteq> {..<MAX_PRIO_NUM}" using assms(2) by (auto simp: ex_wf_def queues_wf_def)
  ultimately show "bm64_elems (ex_prio_bitmap ex) = {}" using assms(1) by (auto simp: clean_def)
qed

lemma sched_frame [simp]:
  "sched (ex\<lparr>ex_tasks := t\<rparr>) = sched ex"
  "sched (ex\<lparr>ex_coroutine_num := n\<rparr>) = sched ex"
  "sched (ex\<lparr>ex_tasks_bak := b\<rparr>) = sched ex"
  "sched (ex\<lparr>ex_cid_allocator := a\<rparr>) = sched ex"
  by (simp_all add: sched_def)

text \<open>
  Futures that compute without using the executor, and a run of several of them in a row:
  each is polled once and reports \<^const>\<open>Ready\<close> or \<^const>\<open>Pending\<close>.
\<close>

type_synonym ('f, 'w) fut_step = "'f \<Rightarrow> 'w \<Rightarrow> poll_result \<times> 'f \<times> 'w"

definition pure_poll :: "('f, 'w) fut_step \<Rightarrow> ('f, 'w) poll_fn" where
  "pure_poll step fut ex w = (case step fut w of (p, fut', w') \<Rightarrow> Inr (p, fut', ex, w'))"

fun poll_all :: "('f, 'w) fut_step \<Rightarrow> 'f list \<Rightarrow> 'w \<Rightarrow> poll_result list \<times> 'w" where
  "poll_all step [] w = ([], w)"
| "poll_all step (f # fs) w =
     (case step f w of (p, f', w') \<Rightarrow> case poll_all step fs w' of (ps, w'') \<Rightarrow> (p # ps, w''))"

definition future_of :: "'f executor \<Rightarrow> coroutine_id \<Rightarrow> 'f" where
  "future_of ex c = co_future (ex_tasks_bak ex ! the (ex_tasks ex ! unat c))"

definition finished :: "coroutine_id list \<Rightarrow> poll_result list \<Rightarrow> nat set" where
  "finished cs ps = {unat c |c. (c, Ready) \<in> set (zip cs ps)}"

lemma finished_Cons: "finished (c # cs) (p # ps) = (if p = Ready then {unat c} else {}) \<union> finished cs ps"
  by (auto simp: finished_def)

text \<open>Polling and removing one coroutine leaves the others and their order alone.\<close>

lemma handle_inj:
  fixes c d :: coroutine_id
  assumes "tasks_wf ex" and "unat c \<in> live ex" and "unat d \<in> live ex"
    and "ex_tasks ex ! unat c = Some h" and "ex_tasks ex ! unat d = Some h"
  shows "c = d"
  using live_task [OF assms(1,2)] live_task [OF assms(1,3)] assms(4,5) by (auto simp: ucast_id)

lemma clean_wake_all:
  assumes wf: "ex_wf ex" and cl: "clean ex" and w: "wake_all ex cs = Inr ex'"
  shows "clean ex'"
proof -
  note inv = wake_all_inv [OF wf w]
  have l: "live ex' = live ex" using inv by auto
  have rd: "ready ex' p = ready ex p @ woken ex cs p" if "p < MAX_PRIO_NUM" for p using inv that by blast
  have el: "p \<in> bm64_elems (ex_prio_bitmap ex') \<longleftrightarrow> p \<in> bm64_elems (ex_prio_bitmap ex) \<or> woken ex cs p \<noteq> []" if "p < MAX_PRIO_NUM" for p
    using inv that by blast
  have "unat c \<in> live ex" if "c \<in> set (sched ex')" for c
    using that cl rd by (auto simp: set_sched clean_def woken_def)
  then show ?thesis using cl l rd el by (auto simp: clean_def)
qed

lemma fetch_makes_current:
  assumes wf: "ex_wf ex" and f: "fetch ex = Inr (Some h, ex')" and c: "unat c < MAX_TASK_NUM" "ex_tasks ex ! unat c = Some h"
  shows "ex_current ex' = Some c"
proof -
  obtain d where d: "ex_current ex' = Some d" "unat d \<in> live ex'" "ex_tasks ex' ! unat d = Some h" "ex_wf ex'" "ex_tasks ex' = ex_tasks ex"
    using fetch_inv [OF wf f] by (auto simp: fetched_def)
  moreover have "unat c \<in> live ex'" using c d(5) by (simp add: live_def)
  ultimately show ?thesis using handle_inj [of ex' c d h] c by (auto simp: ex_wf_def)
qed

lemma poll_step_others:
  assumes wf: "ex_wf ex" and cl: "clean ex" and s: "sched ex = cs" and c: "unat c \<in> live ex" "c \<notin> set cs"
    and h: "ex_tasks ex ! unat c = Some h"
    and ex2: "ex2 = ex\<lparr>ex_tasks_bak := (ex_tasks_bak ex)[h := (ex_tasks_bak ex ! h)\<lparr>co_future := f\<rparr>]\<rparr>"
    and ex3: "ex3 = ex2 \<or> removed ex2 c ex3"
  shows "ex_wf ex3 \<and> clean ex3 \<and> sched ex3 = cs \<and> map (future_of ex3) cs = map (future_of ex) cs \<and>
    ex_delay_wake_cids ex3 = ex_delay_wake_cids ex"
proof -
  have wf2: "ex_wf ex2" using wf by (simp add: ex2)
  have cl2: "clean ex2" using cl by (simp add: clean_def ex2)
  have eq: "unat d = unat c \<longleftrightarrow> d = c" for d :: coroutine_id by (simp add: word_unat_eq_iff)
  have live3: "unat d \<in> live ex3" if "d \<in> set cs" for d
    using cl2 that c(2) ex3 s eq [of d] by (auto simp: removed_def clean_def ex2)
  have base: "ex_wf ex3 \<and> sched ex3 = cs \<and> ex_delay_wake_cids ex3 = ex_delay_wake_cids ex \<and>
      ready ex3 = ready ex \<and> ex_prio_bitmap ex3 = ex_prio_bitmap ex \<and> ex_tasks_bak ex3 = ex_tasks_bak ex2 \<and>
      (ex_tasks ex3 = ex_tasks ex \<or> ex_tasks ex3 = (ex_tasks ex)[unat c := None])"
    using ex3
  proof
    assume "removed ex2 c ex3"
    then obtain n a where "ex_wf ex3"
      "ex3 = ex2\<lparr>ex_tasks := (ex_tasks ex2)[unat c := None], ex_coroutine_num := n, ex_cid_allocator := a\<rparr>"
      by (auto simp: removed_def)
    then show ?thesis using s by (simp add: ex2)
  qed (use wf2 s in \<open>simp add: ex2\<close>)
  have "clean ex3" using cl base live3 s by (simp add: clean_def)
  moreover have "future_of ex3 d = future_of ex d" if d: "d \<in> set cs" for d
  proof -
    have "d \<noteq> c" using d c by auto
    then have t: "ex_tasks ex3 ! unat d = ex_tasks ex ! unat d" using base eq [of d] by auto
    have l: "unat d \<in> live ex" using cl d s by (simp add: clean_def)
    then obtain k where k: "ex_tasks ex ! unat d = Some k" by (auto simp: live_def)
    have "k \<noteq> h" using handle_inj [OF _ c(1) l h] k \<open>d \<noteq> c\<close> wf by (auto simp: ex_wf_def)
    then show ?thesis using t k base by (simp add: future_of_def ex2)
  qed
  ultimately show ?thesis using base by simp
qed

text \<open>A turn of the run loop on the first coroutine of the dispatch order, when that coroutine does not use the executor.\<close>

lemma clean_turn:
  assumes ex: "ex_wf ex" "clean ex" "ex_delay_wake_cids ex = 0" and s: "sched ex = c # cs" and c': "c \<notin> set cs"
    and st: "\<And>ex1. poll (future_of ex c) ex1 w = Inr (p, fut', ex1, w1)"
  shows "\<exists>ex3. run_turn poll ex w = Inr (True, ex3, w1) \<and> ex_wf ex3 \<and> clean ex3 \<and> ex_delay_wake_cids ex3 = 0 \<and> sched ex3 = cs \<and>
     live ex3 = live ex - (if p = Ready then {unat c} else {}) \<and> map (future_of ex3) cs = map (future_of ex) cs"
proof -
  obtain h ex1 where h: "ex_tasks ex ! unat c = Some h" and f: "fetch ex = Inr (Some h, ex1)"
    and s1: "sched ex1 = cs" and wf1: "ex_wf ex1" and cl1: "clean ex1" and l1: "live ex1 = live ex"
    and same: "ex_tasks ex1 = ex_tasks ex" "ex_tasks_bak ex1 = ex_tasks_bak ex" "ex_delay_wake_cids ex1 = 0"
    using fetch_clean [OF ex s] by blast
  have c: "unat c \<in> live ex1" using ex(2) s l1 by (simp add: clean_def)
  have cid: "co_cid (ex_tasks_bak ex1 ! h) = c"
    using live_task [OF _ c] wf1 h same by (auto simp: ex_wf_def)
  have fut: "future_of ex = future_of ex1" using same by (simp add: future_of_def fun_eq_iff)
  let ?ex2 = "ex1\<lparr>ex_tasks_bak := (ex_tasks_bak ex1)[h := (ex_tasks_bak ex1 ! h)\<lparr>co_future := fut'\<rparr>]\<rparr>"
  have e: "execute poll h ex1 w = Inr (p, ?ex2, w1)"
    using st [of ex1] h same by (simp add: execute_def future_of_def)
  obtain ex3 where ex3: "p = Ready \<Longrightarrow> remove_task ?ex2 c = Inr ex3 \<and> removed ?ex2 c ex3" "p = Pending \<Longrightarrow> ex3 = ?ex2"
    using remove_task_ok [of ?ex2 c] wf1 c by (cases p) auto
  have run: "run_turn poll ex w = Inr (True, ex3, w1)"
    using f e ex3 cid by (cases p) (simp_all add: run_turn_def Let_def)
  have l3: "live ex3 = live ex - (if p = Ready then {unat c} else {})"
    using ex3 l1 by (cases p) (auto simp: removed_def)
  have "ex3 = ?ex2 \<or> removed ?ex2 c ex3" using ex3 by (cases p) blast+
  from poll_step_others [OF wf1 cl1 s1 c c' h [folded same(1)] refl this]
  have "ex_wf ex3" "clean ex3" "sched ex3 = cs" "map (future_of ex3) cs = map (future_of ex1) cs" "ex_delay_wake_cids ex3 = 0"
    unfolding same(3) by blast+
  with run l3 fut show ?thesis by simp
qed

lemma run_until_blocked_order:
  assumes "ex_wf ex" and "clean ex" and "ex_delay_wake_cids ex = 0" and "distinct (sched ex)"
    and "length (sched ex) < fuel" and "poll_all step (map (future_of ex) (sched ex)) w = (ps, w')"
  shows "\<exists>ex'. run_until_blocked (pure_poll step) fuel ex w = Some (Inr (ex', w')) \<and>
    sched ex' = [] \<and> live ex' = live ex - finished (sched ex) ps \<and> ex_wf ex' \<and> clean ex'"
  using assms
proof (induction "sched ex" arbitrary: ex fuel w ps)
  case Nil
  from \<open>length (sched ex) < fuel\<close> obtain n where "fuel = Suc n" by (cases fuel) auto
  with Nil fetch_clean_none [of ex] show ?case by (auto simp: finished_def Nil(1) [symmetric])
next
  case (Cons c cs)
  note s = \<open>c # cs = sched ex\<close> [symmetric]
  from Cons.prems(5) obtain n where n: "fuel = Suc n" "length cs < n" using s by (cases fuel) auto
  obtain p fut' w1 where st: "step (future_of ex c) w = (p, fut', w1)" by (cases "step (future_of ex c) w") auto
  have c: "c \<notin> set cs" "distinct cs" using Cons.prems(4) s by auto
  obtain ex3 where t: "run_turn (pure_poll step) ex w = Inr (True, ex3, w1)"
    and l3: "live ex3 = live ex - (if p = Ready then {unat c} else {})"
    and o: "ex_wf ex3" "clean ex3" "ex_delay_wake_cids ex3 = 0" "sched ex3 = cs" "map (future_of ex3) cs = map (future_of ex) cs"
    using clean_turn [OF Cons.prems(1-3) s c(1), of "pure_poll step" w p fut' w1] st by (auto simp: pure_poll_def)
  have run: "run_until_blocked (pure_poll step) fuel ex w = run_until_blocked (pure_poll step) n ex3 w1"
    by (simp only: n run_until_blocked_turn t sum.case prod.case if_True)
  obtain ps' where ps: "ps = p # ps'" "poll_all step (map (future_of ex3) (sched ex3)) w1 = (ps', w')"
    using Cons.prems(6) s st o by (auto split: prod.splits)
  from Cons.hyps(1) [OF o(4) [symmetric] o(1-3) _ _ ps(2), of n] c n o(4) obtain ex'
    where "run_until_blocked (pure_poll step) n ex3 w1 = Some (Inr (ex', w'))" "sched ex' = []"
      "live ex' = live ex3 - finished cs ps'" "ex_wf ex'" "clean ex'" by auto
  then show ?case using run l3 by (auto simp: s ps finished_Cons)
qed

end
