(* ===== verification/Executor_Props.thy ===== *)
theory Executor_Props
  imports Executor_Sched
begin

unbundle bit_operations_syntax

text \<open>
  The properties of the coroutine runtime: spawning, the run loop's safety, the order of
  dispatch, completion, which delayed wake-ups are delivered and which are lost, and how a
  coroutine woken twice stalls the executor.
\<close>

section \<open>Spawning\<close>

lemma ready_bound:
  assumes "ex_wf ex" and "p < MAX_PRIO_NUM"
  shows "length (ready ex p) \<le> MAX_TASK_NUM - 1"
  using ready_less [OF assms] by simp

lemma live_full:
  assumes "card (live ex) = MAX_TASK_NUM"
  shows "live ex = {..<MAX_TASK_NUM}"
  using assms live_less by (intro card_subset_eq) auto

lemma spawn_total:
  assumes "ex_wf ex" and "prio < MAX_PRIO_NUM" and "card (live ex) < MAX_TASK_NUM"
    and "length (ready ex prio) < MAX_TASK_NUM - 1"
  shows "\<exists>cid ex'. spawn ex future prio = Inr (cid, ex') \<and> spawned ex future prio cid ex'"
  using spawn_ok [OF assms] spawn_inv [OF assms(1)] by metis

lemma spawn_too_many:
  assumes wf: "ex_wf ex" and p: "prio < MAX_PRIO_NUM" and n: "card (live ex) = MAX_TASK_NUM"
    and room: "length (ready ex prio) < MAX_TASK_NUM - 1"
  shows "spawn ex future prio = Inl IndexOutOfBounds"
proof -
  from wf have q: "queues_wf ex" and t: "tasks_wf ex" by (auto simp: ex_wf_def)
  obtain i a where gen: "cid_generate ex = Inr (of_nat i, ex\<lparr>ex_cid_allocator := a\<rparr>)"
    and i: "i < CID_NUM" "i \<notin> live ex"
    using cid_generate_ok [OF t] by blast
  have big: "\<not> i < MAX_TASK_NUM" using i live_full [OF n] by auto
  have u: "unat (of_nat i :: u32) = i" using i by (simp add: unat_small_u32 ex_consts)
  obtain bm ex2 where bm: "bm64_set (ex_prio_bitmap ex) prio = Inr bm"
    and push: "push_ready (ex\<lparr>ex_cid_allocator := a, ex_prio_bitmap := bm\<rparr>) prio (of_nat i) = Inr ex2"
    using enqueue_ok [of "ex\<lparr>ex_cid_allocator := a\<rparr>" prio "of_nat i"] q p room by auto
  have "ex_tasks ex2 = ex_tasks ex" using push_ready_Inr [OF push] by auto
  then have "store_res (ex_tasks ex2) (unat (of_nat i :: u32)) x = Inl IndexOutOfBounds" for x
    using t big u by (simp add: store_res_def tasks_wf_def)
  then show ?thesis using gen bm push by (simp add: spawn_def coroutine_new_def Let_def)
qed

text \<open>States with any number of live coroutines exist.\<close>

lemma spawn_many:
  "n \<le> MAX_TASK_NUM \<Longrightarrow> \<exists>ex :: nat executor. ex_wf ex \<and> card (live ex) = n \<and> ex_delay_wake_cids ex = 0 \<and>
     length (ready ex 0) \<le> min n 1024 \<and> length (ready ex 1) \<le> n - 1024"
proof (induction n)
  case 0
  show ?case by (rule exI [of _ executor_new]) (simp add: executor_new_wf ex_consts)
next
  case (Suc n)
  then obtain ex :: "nat executor" where ex: "ex_wf ex" "card (live ex) = n" "ex_delay_wake_cids ex = 0"
    "length (ready ex 0) \<le> min n 1024" "length (ready ex 1) \<le> n - 1024" by auto
  define prio :: nat where "prio = (if n < 1024 then 0 else 1)"
  have p: "prio < MAX_PRIO_NUM" "length (ready ex prio) < MAX_TASK_NUM - 1" "card (live ex) < MAX_TASK_NUM"
    using ex Suc.prems by (auto simp: prio_def ex_consts)
  from spawn_ok [OF ex(1) p(1,3,2)] obtain cid ex' where s: "spawn ex 0 prio = Inr (cid, ex')" by blast
  from spawn_inv [OF ex(1) s] ex show ?case
    by (intro exI [of _ ex']) (auto simp: spawned_def prio_def ex_consts split: if_splits)
qed

text \<open>With fewer than 2048 live coroutines, a priority below 8 and room in that priority's
  ready queue, \<^verbatim>\<open>spawn\<close> returns: the new identifier is the least one not in use, its table
  entry and its queue entry are written, no other task or queue changes, and the executor's
  invariant holds again.\<close>

theorem spawn_correct:
  assumes "ex_wf ex" and "prio < MAX_PRIO_NUM" and "card (live ex) < MAX_TASK_NUM"
    and "length (ready ex prio) < MAX_TASK_NUM - 1"
  shows "\<exists>cid ex'. spawn ex future prio = Inr (cid, ex') \<and> spawned ex future prio cid ex'"
  using assms by (rule spawn_total)

theorem spawn_correct_witness:
  "\<exists>cid ex'. spawn (executor_new :: nat executor) 7 3 = Inr (cid, ex') \<and> spawned executor_new 7 3 cid ex'"
  using spawn_correct [of "executor_new :: nat executor" 3 7] by (simp add: executor_new_wf ex_consts)

text \<open>The identifier allocator hands out 4096 identifiers and the task table has 2048
  entries: with 2048 live coroutines, the next \<^verbatim>\<open>spawn\<close> panics on the table index.\<close>

theorem spawn_at_limit_panics:
  assumes "ex_wf ex" and "prio < MAX_PRIO_NUM" and "card (live ex) = MAX_TASK_NUM"
    and "length (ready ex prio) < MAX_TASK_NUM - 1"
  shows "spawn ex future prio = Inl IndexOutOfBounds"
  using assms by (rule spawn_too_many)

theorem spawn_at_limit_panics_witness:
  "\<exists>ex :: nat executor. ex_wf ex \<and> spawn ex 0 0 = Inl IndexOutOfBounds"
proof -
  obtain ex :: "nat executor" where "ex_wf ex" "card (live ex) = MAX_TASK_NUM" "length (ready ex 0) \<le> 1024"
    using spawn_many [of MAX_TASK_NUM] by auto
  with spawn_at_limit_panics [of ex 0 0] show ?thesis by (auto simp: ex_consts)
qed

section \<open>Order of dispatch\<close>

text \<open>In a clean state without delayed wake-ups, \<^verbatim>\<open>fetch\<close> takes the first coroutine of
  the dispatch order (priority 0 first, within a priority first in first out), makes it
  current, keeps the state clean, and returns nothing exactly when no coroutine is ready.\<close>

theorem fetch_dispatch_order:
  assumes "ex_wf ex" and "clean ex" and "ex_delay_wake_cids ex = 0"
  shows "case sched ex of
      [] \<Rightarrow> fetch ex = Inr (None, ex)
    | c # cs \<Rightarrow> \<exists>h ex'. ex_tasks ex ! unat c = Some h \<and> fetch ex = Inr (Some h, ex') \<and>
        ex_current ex' = Some c \<and> sched ex' = cs \<and> ex_wf ex' \<and> clean ex' \<and> live ex' = live ex"
proof (cases "sched ex")
  case Nil
  with assms fetch_clean_none show ?thesis by simp
next
  case (Cons c cs)
  from fetch_clean [OF assms Cons] Cons show ?thesis by auto
qed

lemma executor_new_sched [simp]: "sched executor_new = []"
  by (simp add: sched_def)

lemma executor_new_clean: "clean executor_new"
  by (simp add: clean_def)

lemma clean_spawned:
  assumes "clean ex" and "spawned ex f p c ex'"
  shows "clean ex'"
proof -
  have "set (sched ex') = insert c (set (sched ex))"
    using assms(2) by (auto simp: set_sched spawned_def split: if_splits)
  then show ?thesis using assms by (auto simp: clean_def spawned_def)
qed

text \<open>Two coroutines spawned on a fresh executor: the later one has the higher priority.\<close>

lemma spawn_two:
  "\<exists>ex :: nat executor. ex_wf ex \<and> clean ex \<and> ex_delay_wake_cids ex = 0 \<and> sched ex = [1, 0] \<and> live ex = {0, 1} \<and>
     future_of ex 0 = 10 \<and> future_of ex 1 = 20 \<and> prio_of ex 0 = 3 \<and> prio_of ex 1 = 2 \<and>
     ready ex 2 = [1] \<and> ready ex 3 = [0] \<and> bm64_elems (ex_prio_bitmap ex) = {2, 3}"
proof -
  obtain c1 ex1 where 1: "spawned (executor_new :: nat executor) 10 3 c1 ex1"
    using spawn_total [of "executor_new :: nat executor" 3 10] by (auto simp: executor_new_wf ex_consts)
  then have "{..<unat c1} \<subseteq> {}" by (simp add: spawned_def)
  then have u1: "unat c1 = 0" by (cases "unat c1") auto
  then have wf1: "ex_wf ex1" and c1: "c1 = 0" and l1: "live ex1 = {0}"
    using 1 by (auto simp: spawned_def unat_eq_zero)
  obtain c2 ex2 where 2: "spawned ex1 20 2 c2 ex2"
    using spawn_total [OF wf1, of 2 20] 1 l1 by (auto simp: spawned_def ex_consts)
  then have "unat c2 \<noteq> 0" "{..<unat c2} \<subseteq> {0}" using l1 by (auto simp: spawned_def)
  moreover from this(2) have "1 \<notin> {..<unat c2}" by auto
  ultimately have u2: "unat c2 = 1" by simp
  then have c2: "c2 = 1" by (metis unat_1 word_unat_eq_iff)
  have r2: "ready ex2 p = (if p = 3 then [0] else if p = 2 then [1] else [])" if "p < 8" for p
    using that 1 2 by (auto simp: spawned_def c1 c2 ex_consts)
  have "[0..<8] = [0, 1, 2, 3, 4, 5, 6, 7 :: nat]" by (simp add: upt_rec)
  then have s: "sched ex2 = [1, 0]" by (simp add: sched_def ex_consts r2)
  have "clean ex2" using clean_spawned [OF clean_spawned [OF executor_new_clean 1] 2] .
  moreover have "ex_delay_wake_cids ex2 = 0" "ex_wf ex2" "live ex2 = {0, 1}"
    using 1 2 l1 u2 by (auto simp: spawned_def)
  moreover have b: "ex_tasks_bak ex1 = [\<lparr>co_cid = 0, co_prio = 3, co_future = 10\<rparr>]"
    "ex_tasks ex1 = (replicate 2048 None)[0 := Some 0]"
    using 1 c1 by (auto simp: spawned_def executor_new_def ex_consts)
  have "future_of ex2 0 = 10" "future_of ex2 1 = 20" "prio_of ex2 0 = 3" "prio_of ex2 1 = 2"
    using 2 b c2 by (simp_all add: spawned_def future_of_def prio_of_def ex_consts)
  moreover have "ready ex2 2 = [1]" "ready ex2 3 = [0]" "bm64_elems (ex_prio_bitmap ex2) = {2, 3}"
    using r2 1 2 by (auto simp: spawned_def)
  ultimately show ?thesis using s by blast
qed

theorem fetch_dispatch_order_witness:
  "\<exists>(ex :: nat executor) h ex'. sched ex = [1, 0] \<and> fetch ex = Inr (Some h, ex') \<and> ex_current ex' = Some 1 \<and> sched ex' = [0]"
proof -
  obtain ex :: "nat executor" where "ex_wf ex" "clean ex" "ex_delay_wake_cids ex = 0" "sched ex = [1, 0]"
    using spawn_two by blast
  with fetch_dispatch_order [of ex] show ?thesis by auto
qed

text \<open>C3. From a clean state without delayed wake-ups in which no coroutine is queued twice, a run of the
  executor over coroutines that do not touch it polls every ready
  coroutine exactly once, in the dispatch order, threading the world through them; the ones
  that return \<^verbatim>\<open>Ready\<close> are removed and the others stay, not ready.  One unit of fuel more
  than there are ready coroutines is enough.\<close>

theorem run_until_blocked_dispatches:
  assumes "ex_wf ex" and "clean ex" and "ex_delay_wake_cids ex = 0" and "distinct (sched ex)"
    and "length (sched ex) < fuel" and "poll_all step (map (future_of ex) (sched ex)) w = (ps, w')"
  shows "\<exists>ex'. run_until_blocked (pure_poll step) fuel ex w = Some (Inr (ex', w')) \<and>
    sched ex' = [] \<and> live ex' = live ex - finished (sched ex) ps \<and> ex_wf ex'"
  using run_until_blocked_order [OF assms] by blast

theorem run_until_blocked_dispatches_witness:
  "\<exists>(ex :: nat executor) ex'. run_until_blocked (pure_poll (\<lambda>f w. (if f = 10 then Pending else Ready, f, w @ [f]))) 3 ex [] =
     Some (Inr (ex', [20, 10])) \<and> live ex' = {0}"
proof -
  let ?step = "\<lambda>f w. (if f = 10 then Pending else Ready, f :: nat, w @ [f])"
  obtain ex :: "nat executor" where ex: "ex_wf ex" "clean ex" "ex_delay_wake_cids ex = 0" "sched ex = [1, 0]"
    "live ex = {0, 1}" "future_of ex 0 = 10" "future_of ex 1 = 20"
    using spawn_two by blast
  have "poll_all ?step (map (future_of ex) (sched ex)) [] = ([Ready, Pending], [20, 10])" using ex by simp
  with run_until_blocked_dispatches [of ex 3 ?step "[]"] ex show ?thesis
    by (auto simp: finished_def insert_Diff_if)
qed

section \<open>Safety of the run loop\<close>

lemma pure_poll_ok: "poll_ok (pure_poll step)"
  by (auto simp: poll_ok_def pure_poll_def split: prod.splits)

text \<open>The first coroutine finishes, the second one panics: the panic is that of the coroutine fetched after one turn.\<close>

definition panic_on :: "nat \<Rightarrow> (nat, nat list) poll_fn" where
  "panic_on n f ex w = (if f = n then Inl ExplicitPanic else Inr (Ready, f, ex, w @ [f]))"

lemma panic_on_ok: "poll_ok (panic_on n)"
  by (auto simp: poll_ok_def panic_on_def split: if_splits)

lemma panic_on_second:
  "\<exists>ex. ex_wf ex \<and> live ex = {0, 1} \<and> \<not> queue_overflow ex \<and> run_until_blocked (panic_on 10) 5 ex [] = Some (Inl ExplicitPanic)"
proof -
  obtain ex :: "nat executor" where ex: "ex_wf ex" "clean ex" "ex_delay_wake_cids ex = 0" "sched ex = [1, 0]"
    "live ex = {0, 1}" "future_of ex 0 = 10" "future_of ex 1 = 20"
    using spawn_two by blast
  obtain ex1 where t: "run_turn (panic_on 10) ex [] = Inr (True, ex1, [20])" and ex1: "ex_wf ex1" "clean ex1" "ex_delay_wake_cids ex1 = 0"
    "sched ex1 = [0]" "future_of ex1 0 = 10"
    using clean_turn [OF ex(1-4), of "panic_on 10" "[]" Ready 20 "[20]"] ex(6,7) by (auto simp: panic_on_def)
  obtain h ex2 where h: "ex_tasks ex1 ! unat (0 :: u32) = Some h" and f: "fetch ex1 = Inr (Some h, ex2)" "ex_tasks_bak ex2 = ex_tasks_bak ex1"
    using fetch_clean [OF ex1(1-4)] by blast
  then have "run_turn (panic_on 10) ex1 [20] = Inl ExplicitPanic"
    using ex1(5) by (simp add: run_turn_def execute_def panic_on_def future_of_def Let_def)
  then have "run_until_blocked (panic_on 10) (Suc (Suc 3)) ex [] = Some (Inl ExplicitPanic)"
    by (simp only: run_until_blocked_turn t sum.case prod.case if_True)
  moreover have "\<not> queue_overflow ex"
    using fetch_panics_iff [OF ex(1), of UnwrapErr] fetch_clean [OF ex(1-4)] by auto
  ultimately show ?thesis using ex by (auto simp: numeral_eq_Suc)
qed

text \<open>C7. However the polled coroutines use the executor (spawning, waking, delayed waking, asking for a switch),
  \<^verbatim>\<open>run_until_blocked\<close> keeps the executor's invariant through every turn: with its fuel spent it has made that many
  turns and the invariant holds; it returns after a turn that found nothing to fetch, with the invariant; and it panics
  only at an executor it has reached, where the delivered delayed wake-ups do not fit into a ready queue (\<^verbatim>\<open>unwrap\<close> of a
  full queue) or where the poll of the coroutine just fetched panics.  Its own table, counter and identifier operations
  never do.\<close>

theorem run_until_blocked_safe:
  assumes "ex_wf ex" and "poll_ok poll"
  shows "case run_until_blocked poll fuel ex w of
      None \<Rightarrow> \<exists>ex' w'. (loop_step poll ^^ fuel) (ex, w) (ex', w') \<and> ex_wf ex'
    | Some (Inr (ex', w')) \<Rightarrow> \<exists>k<fuel. \<exists>ex1. (loop_step poll ^^ k) (ex, w) (ex1, w') \<and> ex_wf ex1 \<and>
        fetch ex1 = Inr (None, ex') \<and> ex_wf ex'
    | Some (Inl e) \<Rightarrow> \<exists>k<fuel. \<exists>ex1 w1. (loop_step poll ^^ k) (ex, w) (ex1, w1) \<and> ex_wf ex1 \<and> turn_panics poll e ex1 w1"
  using assms by (rule run_until_blocked_wf)

text \<open>The two coroutines of \<open>spawn_two\<close> run to the end of the ready ones, and one of them panics in a second run.\<close>

theorem run_until_blocked_safe_witness:
  "(\<exists>(ex :: nat executor) ex' ex1 k. live ex = {0, 1} \<and> k < 3 \<and>
      run_until_blocked (pure_poll (\<lambda>f w. (Ready, f, w @ [f]))) 3 ex [] = Some (Inr (ex', [20, 10])) \<and>
      (loop_step (pure_poll (\<lambda>f w. (Ready, f, w @ [f]))) ^^ k) (ex, []) (ex1, [20, 10]) \<and>
      fetch ex1 = Inr (None, ex') \<and> ex_wf ex') \<and>
   (\<exists>ex k ex1 w1 h ex2. live ex = {0, 1} \<and> run_until_blocked (panic_on 10) 5 ex [] = Some (Inl ExplicitPanic) \<and>
      (loop_step (panic_on 10) ^^ k) (ex, []) (ex1, w1) \<and> ex_wf ex1 \<and> fetch ex1 = Inr (Some h, ex2) \<and>
      panic_on 10 (co_future (ex_tasks_bak ex2 ! h)) ex2 w1 = Inl ExplicitPanic)"
proof (rule conjI)
  let ?step = "\<lambda>f w. (Ready, f :: nat, w @ [f])"
  obtain ex :: "nat executor" where ex: "ex_wf ex" "clean ex" "ex_delay_wake_cids ex = 0" "sched ex = [1, 0]"
    "live ex = {0, 1}" "future_of ex 0 = 10" "future_of ex 1 = 20"
    using spawn_two by blast
  have "poll_all ?step (map (future_of ex) (sched ex)) [] = ([Ready, Ready], [20, 10])" using ex by simp
  then obtain ex' where r: "run_until_blocked (pure_poll ?step) 3 ex [] = Some (Inr (ex', [20, 10]))"
    using run_until_blocked_order [OF ex(1-3), of 3 ?step "[]"] ex(4) by auto
  with run_until_blocked_safe [OF ex(1) pure_poll_ok, of 3 ?step "[]"] ex(5) show
   "\<exists>(ex :: nat executor) ex' ex1 k. live ex = {0, 1} \<and> k < 3 \<and>
      run_until_blocked (pure_poll ?step) 3 ex [] = Some (Inr (ex', [20, 10])) \<and>
      (loop_step (pure_poll ?step) ^^ k) (ex, []) (ex1, [20, 10]) \<and> fetch ex1 = Inr (None, ex') \<and> ex_wf ex'"
    by (simp only: option.case sum.case prod.case) blast
next
  obtain ex where ex: "ex_wf ex" "live ex = {0, 1}" and r: "run_until_blocked (panic_on 10) 5 ex [] = Some (Inl ExplicitPanic)"
    using panic_on_second by blast
  from run_until_blocked_safe [OF ex(1) panic_on_ok, of 5 10 "[]"] obtain k ex1 w1 where
    k: "(loop_step (panic_on 10) ^^ k) (ex, []) (ex1, w1)" "ex_wf ex1" "turn_panics (panic_on 10) ExplicitPanic ex1 w1"
    by (simp only: r option.case sum.case) blast
  from k(3) obtain h ex2 where "fetch ex1 = Inr (Some h, ex2)" "panic_on 10 (co_future (ex_tasks_bak ex2 ! h)) ex2 w1 = Inl ExplicitPanic"
    unfolding turn_panics_def by auto
  with r ex(2) k show "\<exists>ex k ex1 w1 h ex2. live ex = {0, 1} \<and> run_until_blocked (panic_on 10) 5 ex [] = Some (Inl ExplicitPanic) \<and>
      (loop_step (panic_on 10) ^^ k) (ex, []) (ex1, w1) \<and> ex_wf ex1 \<and> fetch ex1 = Inr (Some h, ex2) \<and>
      panic_on 10 (co_future (ex_tasks_bak ex2 ! h)) ex2 w1 = Inl ExplicitPanic"
    by blast
qed

section \<open>Completion\<close>

lemma run_complete_done: "is_empty ex \<Longrightarrow> run_until_complete poll (Suc fuel) ex w = Some (Inr (ex, w))"
  by simp

lemma is_empty_live: "ex_wf ex \<Longrightarrow> is_empty ex \<longleftrightarrow> live ex = {}"
  by (simp add: is_empty_def ex_wf_def tasks_wf_def)

lemma finished_all_ready:
  assumes "length cs = length ps" and "set ps \<subseteq> {Ready}"
  shows "finished cs ps = unat ` set cs"
  using assms by (induction cs ps rule: list_induct2) (auto simp: finished_Cons, auto simp: finished_def)

lemma poll_all_length: "poll_all step fs w = (ps, w') \<Longrightarrow> length ps = length fs"
  by (induction fs arbitrary: w ps) (auto split: prod.splits)

text \<open>C22. When every live coroutine is ready once and finishes at its first poll,
  \<^verbatim>\<open>run_until_complete\<close> returns, with no coroutine left and the world that polling them in
  dispatch order gives.\<close>

theorem run_until_complete_finishes:
  assumes wf: "ex_wf ex" and cl: "clean ex" and d: "ex_delay_wake_cids ex = 0" and di: "distinct (sched ex)"
    and all: "unat ` set (sched ex) = live ex" and fuel: "length (sched ex) < fuel" "1 < fuel"
    and pa: "poll_all step (map (future_of ex) (sched ex)) w = (ps, w')" and rd: "set ps \<subseteq> {Ready}"
  shows "\<exists>ex'. run_until_complete (pure_poll step) fuel ex w = Some (Inr (ex', w')) \<and> is_empty ex' \<and> ex_wf ex'"
proof -
  obtain n where n: "fuel = Suc (Suc n)" using fuel(2) that [of "fuel - 2"] by simp
  show ?thesis
  proof (cases "is_empty ex")
    case True
    then have "sched ex = []" using is_empty_live [OF wf] all by simp
    then have "w' = w" using pa by simp
    with True wf run_complete_done [OF True, of "pure_poll step" "Suc n" w] n show ?thesis by blast
  next
    case False
    obtain ex' where ex': "run_until_blocked (pure_poll step) fuel ex w = Some (Inr (ex', w'))"
      "live ex' = live ex - finished (sched ex) ps" "ex_wf ex'"
      using run_until_blocked_order [OF wf cl d di fuel(1) pa] by blast
    have "length (sched ex) = length ps" using poll_all_length [OF pa] by simp
    then have "live ex' = {}" using ex'(2) finished_all_ready [OF _ rd] all by simp
    then have "is_empty ex'" using is_empty_live ex'(3) by blast
    with ex' False n show ?thesis by (simp del: run_until_blocked.simps)
  qed
qed

theorem run_until_complete_finishes_witness:
  "\<exists>(ex :: nat executor) ex'. live ex = {0, 1} \<and>
     run_until_complete (pure_poll (\<lambda>f w. (Ready, f, w @ [f]))) 3 ex [] = Some (Inr (ex', [20, 10])) \<and> is_empty ex'"
proof -
  let ?step = "\<lambda>f w. (Ready, f :: nat, w @ [f])"
  obtain ex :: "nat executor" where ex: "ex_wf ex" "clean ex" "ex_delay_wake_cids ex = 0" "sched ex = [1, 0]"
    "live ex = {0, 1}" "future_of ex 0 = 10" "future_of ex 1 = 20"
    using spawn_two by blast
  have "poll_all ?step (map (future_of ex) (sched ex)) [] = ([Ready, Ready], [20, 10])" using ex by simp
  then have "\<exists>ex'. run_until_complete (pure_poll ?step) 3 ex [] = Some (Inr (ex', [20, 10])) \<and> is_empty ex' \<and> ex_wf ex'"
    by (rule run_until_complete_finishes [OF ex(1-3), rotated 4]) (simp_all add: ex(4,5) insert_commute)
  with ex show ?thesis by blast
qed

section \<open>Delayed wake-ups\<close>

text \<open>C19. \<^verbatim>\<open>actual_wake\<close> clears the pending word and wakes, in increasing order, the pending
  coroutines that are delivered: \<open>0\<close>, the odd ones, and an even one whose half was not
  itself delivered.  It behaves exactly as that sequence of \<^verbatim>\<open>wake\<close> calls, panics included.\<close>

theorem actual_wake_exact:
  "actual_wake ex = wake_all (ex\<lparr>ex_delay_wake_cids := 0\<rparr>)
     (map of_nat (filter (delivered (ex_delay_wake_cids ex)) [0..<64]))"
  by (rule actual_wake_wakes)

lemma filter_range_singleton: "k < n \<Longrightarrow> filter (\<lambda>j. j = k) [0..<n] = [k]"
  by (induction n) (auto simp: less_Suc_eq)

lemma delivered_pair:
  assumes "0 < k" and "2 * k < 64" and "\<forall>j. bit d j \<longleftrightarrow> j = k \<or> j = 2 * k"
  shows "delivered d j \<longleftrightarrow> j = k"
proof -
  have k: "delivered d k"
  proof (cases "odd k")
    case True
    with assms show ?thesis by (simp add: delivered.simps [of d k])
  next
    case False
    then have "\<not> bit d (k div 2)" using assms by auto
    then have "\<not> delivered d (k div 2)" by (simp add: delivered.simps [of d "k div 2"])
    with assms show ?thesis by (simp add: delivered.simps [of d k])
  qed
  then have "\<not> delivered d (2 * k)" using assms(1) by (simp add: delivered.simps [of d "2 * k"])
  moreover have "delivered d j \<Longrightarrow> bit d j" by (simp add: delivered.simps [of d j])
  ultimately show ?thesis using k assms(3) by blast
qed

lemma delay_wake_bits:
  assumes "delay_wake ex cid = Inr ex'"
  shows "bit (ex_delay_wake_cids ex') j \<longleftrightarrow> bit (ex_delay_wake_cids ex) j \<or> j = unat cid"
proof -
  have "unat cid < 64" using delay_wake_inv [OF assms] by (simp add: word_less_nat_alt)
  then show ?thesis using delay_wake_inv [OF assms] by (auto simp: bit_simps)
qed

text \<open>Two delayed wake-ups, of coroutine \<open>k\<close> and of coroutine \<open>2 * k\<close>: only \<open>k\<close> becomes
  ready, no wake-up stays pending, and the one of \<open>2 * k\<close> is lost.\<close>

theorem delayed_wakeup_lost:
  assumes wf: "ex_wf ex" and d: "ex_delay_wake_cids ex = 0" and k: "0 < unat c" "2 * unat c = unat c2"
    and ops: "delay_wake ex c = Inr ex1" "delay_wake ex1 c2 = Inr ex2" "actual_wake ex2 = Inr ex3"
  shows "ex_delay_wake_cids ex3 = 0 \<and>
    (\<forall>p<MAX_PRIO_NUM. ready ex3 p = ready ex p @ (if unat c \<in> live ex \<and> prio_of ex (unat c) = p then [c] else []))"
proof -
  have ex2: "ex_wf ex2" "live ex2 = live ex" "prio_of ex2 = prio_of ex" "ready ex2 = ready ex"
    using wf ops by (auto dest!: delay_wake_inv simp: ex_wf_def)
  have bits: "\<forall>j. bit (ex_delay_wake_cids ex2) j \<longleftrightarrow> j = unat c \<or> j = 2 * unat c"
    using ops(1,2) d k by (auto simp: delay_wake_bits)
  have c2: "unat c2 < 64" using delay_wake_inv [OF ops(2)] by (simp add: word_less_nat_alt)
  then have "delivered (ex_delay_wake_cids ex2) = (\<lambda>j. j = unat c)"
    using delivered_pair [OF k(1) _ bits] k by (auto simp: fun_eq_iff)
  then have "map of_nat (filter (delivered (ex_delay_wake_cids ex2)) [0..<64]) = [c]"
    using c2 k by (simp add: filter_range_singleton ucast_id)
  with actual_wake_inv [OF ex2(1) ops(3)] ex2 show ?thesis by (auto simp: woken_def)
qed

lemma ready_le_sched: "p < MAX_PRIO_NUM \<Longrightarrow> length (ready ex p) \<le> length (sched ex)"
  by (auto simp: sched_def length_concat intro!: member_le_sum_list)

lemma actual_wake_ok:
  assumes "ex_wf ex" and "length (sched ex) + 64 < MAX_TASK_NUM"
  shows "\<exists>ex'. actual_wake ex = Inr ex'"
proof -
  let ?ex = "ex\<lparr>ex_delay_wake_cids := 0\<rparr>" and ?cs = "map of_nat (filter (delivered (ex_delay_wake_cids ex)) [0..<64])"
  have wf: "ex_wf ?ex" using assms(1) by (simp add: ex_wf_def)
  have "length ?cs \<le> 64" using length_filter_le [of _ "[0..<64]"] by (metis diff_zero length_map length_upt)
  then have "\<forall>p<MAX_PRIO_NUM. length (ready ?ex p) + length ?cs \<le> MAX_TASK_NUM - 1"
    using assms(2) ready_le_sched [of _ ex] by fastforce
  from wake_all_ok [OF wf delayed_cids_small this] show ?thesis by (simp add: actual_wake_wakes)
qed

lemma spawn_three:
  "\<exists>ex :: nat executor. ex_wf ex \<and> ex_delay_wake_cids ex = 0 \<and> live ex = {0, 1, 2} \<and> length (sched ex) \<le> 3"
proof -
  obtain ex :: "nat executor" where ex: "ex_wf ex" "ex_delay_wake_cids ex = 0" "live ex = {0, 1}" "sched ex = [1, 0]"
    using spawn_two by blast
  have len: "length (ready ex 5) < MAX_TASK_NUM - 1"
    using ready_le_sched [of 5 ex] ex(4) by (simp add: ex_consts)
  obtain c ex' where s: "spawned ex 30 5 c ex'"
    using spawn_total [OF ex(1), of 5 30] ex(3) len by (auto simp: ex_consts)
  then have "unat c \<notin> {0, 1}" "{..<unat c} \<subseteq> {0, 1}" using ex by (auto simp: spawned_def)
  moreover from this(2) have "2 \<notin> {..<unat c}" by auto
  ultimately have "unat c = 2" by auto
  moreover have "length (sched ex') = Suc (length (sched ex))"
    using s by (simp add: sched_def ex_consts length_concat upt_rec spawned_def)
  ultimately show ?thesis using s ex by (auto simp: spawned_def intro!: exI [of _ ex'])
qed

theorem delayed_wakeup_lost_witness:
  "\<exists>(ex :: nat executor) ex1 ex2 ex3. {1, 2} \<subseteq> live ex \<and> delay_wake ex 1 = Inr ex1 \<and> delay_wake ex1 2 = Inr ex2 \<and>
     actual_wake ex2 = Inr ex3 \<and> ex_delay_wake_cids ex3 = 0 \<and> ready ex3 (prio_of ex 2) =
       ready ex (prio_of ex 2) @ (if prio_of ex 1 = prio_of ex 2 then [1] else [])"
proof -
  obtain ex :: "nat executor" where ex: "ex_wf ex" "ex_delay_wake_cids ex = 0" "live ex = {0, 1, 2}" "length (sched ex) \<le> 3"
    using spawn_three by blast
  obtain ex1 where 1: "delay_wake ex 1 = Inr ex1" by (simp add: delay_wake_def)
  obtain ex2 where 2: "delay_wake ex1 2 = Inr ex2" by (simp add: delay_wake_def)
  have "ex_wf ex2" "sched ex2 = sched ex"
    using ex 1 2 by (auto dest!: delay_wake_inv simp: ex_wf_def sched_def)
  then obtain ex3 where 3: "actual_wake ex2 = Inr ex3" using actual_wake_ok [of ex2] ex(4) by (auto simp: ex_consts)
  have "prio_of ex 2 < MAX_PRIO_NUM" using live_task [of ex 2] ex by (auto simp: ex_wf_def)
  with delayed_wakeup_lost [OF ex(1,2) _ _ 1 2 3] ex 1 2 3 show ?thesis by fastforce
qed

text \<open>When no two pending identifiers are \<open>k\<close> and \<open>2 * k\<close> with \<open>k > 0\<close>, no delayed wake-up is
  lost: every queue gets exactly its pending live coroutines, in increasing order.\<close>

theorem delayed_wakeups_delivered:
  assumes wf: "ex_wf ex" and aw: "actual_wake ex = Inr ex'"
    and free: "\<forall>k>0. \<not> (bit (ex_delay_wake_cids ex) k \<and> bit (ex_delay_wake_cids ex) (2 * k))"
    and p: "p < MAX_PRIO_NUM"
  shows "ready ex' p = ready ex p @ map of_nat (filter (\<lambda>j. bit (ex_delay_wake_cids ex) j \<and> j \<in> live ex \<and> prio_of ex j = p) [0..<64])"
proof -
  let ?d = "ex_delay_wake_cids ex"
  have "delivered ?d j \<longleftrightarrow> bit ?d j" for j
  proof (cases "j = 0 \<or> odd j")
    case True
    then show ?thesis by (simp add: delivered.simps [of _ j])
  next
    case False
    then have "\<not> (bit ?d (j div 2) \<and> bit ?d j)" using free [THEN spec, of "j div 2"] by (auto elim!: evenE)
    then show ?thesis by (auto simp: delivered.simps [of _ j] delivered.simps [of _ "j div 2"])
  qed
  then have del: "delivered ?d = bit ?d" by (simp add: fun_eq_iff)
  have "filter (\<lambda>c. unat (c :: u32) \<in> live ex \<and> prio_of ex (unat c) = p) (map of_nat (filter (bit ?d) [0..<64])) =
      map of_nat (filter (\<lambda>j. bit ?d j \<and> j \<in> live ex \<and> prio_of ex j = p) [0..<64])"
    by (auto simp: filter_map comp_def unat_small_u32 intro!: filter_cong arg_cong [where f = "map of_nat"])
  with actual_wake_inv [OF wf aw] p show ?thesis by (simp add: woken_def del)
qed

theorem delayed_wakeups_delivered_witness:
  "\<exists>(ex :: nat executor) ex1 ex2. delay_wake ex 1 = Inr ex1 \<and> actual_wake ex1 = Inr ex2 \<and>
     ready ex2 2 = ready ex1 2 @ map of_nat (filter (\<lambda>j. bit (ex_delay_wake_cids ex1) j \<and> j \<in> live ex1 \<and> prio_of ex1 j = 2) [0..<64]) \<and>
     bit (ex_delay_wake_cids ex1) 1 \<and> 1 \<in> live ex1 \<and> prio_of ex1 1 = 2"
proof -
  obtain ex :: "nat executor" where ex: "ex_wf ex" "ex_delay_wake_cids ex = 0" "live ex = {0, 1}" "sched ex = [1, 0]" "prio_of ex 1 = 2"
    using spawn_two by blast
  obtain ex1 where 1: "delay_wake ex 1 = Inr ex1" by (simp add: delay_wake_def)
  have ex1: "ex_wf ex1" "sched ex1 = sched ex" "live ex1 = live ex" "prio_of ex1 = prio_of ex"
    using ex delay_wake_inv [OF 1] by (auto simp: ex_wf_def sched_def)
  then obtain ex2 where 2: "actual_wake ex1 = Inr ex2" using actual_wake_ok [of ex1] ex(4) by (auto simp: ex_consts)
  have bits: "bit (ex_delay_wake_cids ex1) j \<longleftrightarrow> j = 1" for j
    using delay_wake_bits [OF 1, of j] ex(2) by simp
  have "ready ex2 2 = ready ex1 2 @ map of_nat (filter (\<lambda>j. bit (ex_delay_wake_cids ex1) j \<and> j \<in> live ex1 \<and> prio_of ex1 j = 2) [0..<64])"
    by (rule delayed_wakeups_delivered [OF ex1(1) 2]) (simp_all add: bits ex_consts)
  moreover have "bit (ex_delay_wake_cids ex1) 1 \<and> 1 \<in> live ex1 \<and> prio_of ex1 1 = 2" using bits ex1 ex by simp
  ultimately show ?thesis using 1 2 by blast
qed

section \<open>Coroutines woken twice\<close>

text \<open>The executor is stalled at a priority when that priority is the first one marked but its
  queue is empty.\<close>

definition stalled :: "usize \<Rightarrow> 'f executor \<Rightarrow> bool" where
  "stalled p ex \<longleftrightarrow> ex_wf ex \<and> ex_delay_wake_cids ex = 0 \<and> p < MAX_PRIO_NUM \<and>
     bm64_find_first_one (ex_prio_bitmap ex) = p \<and> ready ex p = []"

lemma stalled_fetch: "stalled p ex \<Longrightarrow> fetch ex = Inr (None, ex)"
  by (rule fetch_marked_empty) (auto simp: stalled_def ex_wf_def ex_consts)

lemma stalled_run_blocked: "stalled p ex \<Longrightarrow> run_until_blocked poll (Suc fuel) ex w = Some (Inr (ex, w))"
  by (simp add: stalled_fetch)

lemma stalled_run_complete:
  assumes "stalled p ex" and "live ex \<noteq> {}"
  shows "run_until_complete poll fuel ex w = None"
proof (induction fuel)
  case (Suc fuel)
  have "\<not> is_empty ex" using assms is_empty_live by (auto simp: stalled_def)
  with Suc show ?case by (simp add: stalled_run_blocked [OF assms(1)] del: run_until_blocked.simps)
qed simp

lemma stalled_wake_lower:
  assumes st: "stalled p ex" and w: "wake ex c = Inr ex'" and low: "p < prio_of ex (unat c)"
  shows "stalled p ex'"
proof -
  have wf: "ex_wf ex" and p: "p < MAX_PRIO_NUM" "bm64_find_first_one (ex_prio_bitmap ex) = p" using st by (auto simp: stalled_def)
  from wake_inv [OF wf w] obtain bm rq where wf': "ex_wf ex'" and up: "ex' = ex\<lparr>ex_prio_bitmap := bm, ex_ready_queue := rq\<rparr>"
    and el: "bm64_elems bm = (if unat c \<in> live ex then insert (prio_of ex (unat c)) (bm64_elems (ex_prio_bitmap ex))
        else bm64_elems (ex_prio_bitmap ex))"
    and rd: "\<forall>p<MAX_PRIO_NUM. ready ex' p = (if unat c \<in> live ex \<and> p = prio_of ex (unat c) then ready ex p @ [c] else ready ex p)"
    by blast
  have ne: "bm64_elems (ex_prio_bitmap ex) \<noteq> {}" using p bm64.first_one_empty by (force simp: ex_consts)
  have "bm64_find_first_one bm = p"
  proof (rule antisym)
    have "p \<in> bm64_elems (ex_prio_bitmap ex)" using ne p bm64.first_one_in by blast
    then show "bm64_find_first_one bm \<le> p" using el bm64.first_one_le by auto
    have "bm64_elems bm \<noteq> {}" using ne el by auto
    then have "bm64_find_first_one bm \<in> bm64_elems bm" using bm64.first_one_in by blast
    then show "p \<le> bm64_find_first_one bm" using el low p bm64.first_one_le by (fastforce split: if_splits)
  qed
  then show ?thesis using st wf' rd low p by (auto simp: stalled_def up)
qed

lemma run_duplicate:
  assumes wf: "ex_wf ex" and d: "ex_delay_wake_cids ex = 0" and c: "unat c \<in> live ex"
    and p: "bm64_find_first_one (ex_prio_bitmap ex) = p" "p \<noteq> 64" and r: "ready ex p = [c, c]"
    and fin: "step (future_of ex c) w = (Ready, fut', w')"
  shows "\<exists>ex'. run_until_blocked (pure_poll step) (Suc (Suc fuel)) ex w = Some (Inr (ex', w')) \<and> stalled p ex' \<and>
    live ex' = live ex - {unat c} \<and> (\<forall>q<MAX_PRIO_NUM. ready ex' q = (if q = p then [] else ready ex q))"
proof -
  obtain h where h: "ex_tasks ex ! unat c = Some h" using c by (auto simp: live_def)
  obtain ex1 where pop: "popped ex p [c] ex1" and f: "fetch ex = Inr (Some h, ex1)"
    and el: "bm64_elems (ex_prio_bitmap ex1) = bm64_elems (ex_prio_bitmap ex)"
    using fetch_head [OF actual_wake_none [OF d] wf p r] c h by auto
  note same = popped_wf [OF wf pop]
  have cid: "co_cid (ex_tasks_bak ex1 ! h) = c"
    using live_task [OF _ c] wf h same by (auto simp: ex_wf_def)
  let ?ex2 = "ex1\<lparr>ex_tasks_bak := (ex_tasks_bak ex1)[h := (ex_tasks_bak ex1 ! h)\<lparr>co_future := fut'\<rparr>]\<rparr>"
  have e: "execute (pure_poll step) h ex1 w = Inr (Ready, ?ex2, w')"
    using fin h same by (simp add: execute_def pure_poll_def future_of_def)
  obtain ex3 where ex3: "remove_task ?ex2 c = Inr ex3" "removed ?ex2 c ex3"
  proof -
    have "ex_wf ex1" "live ex1 = live ex" using same by auto
    then have "ex_wf ?ex2" "unat c \<in> live ?ex2" using c by simp_all
    from remove_task_ok [OF this] that show ?thesis by blast
  qed
  then have wf3: "ex_wf ex3" and l3: "live ex3 = live ex - {unat c}" and rd3: "ready ex3 = ready ex1"
    and bm3: "ex_prio_bitmap ex3 = ex_prio_bitmap ex1" and d3: "ex_delay_wake_cids ex3 = 0"
    using same d by (auto simp: removed_def)
  have p3: "bm64_find_first_one (ex_prio_bitmap ex3) = p"
    using el bm3 p bm64.first_one_Min bm64.first_one_empty by metis
  have pb: "p < MAX_PRIO_NUM" using first_one_prio p wf by (auto simp: ex_wf_def)
  have r3: "ready ex3 p = [c]" using rd3 pop pb by (simp add: popped_def)
  obtain ex4 where pop4: "popped ex3 p [] ex4" and f4: "fetch ex3 = Inr (None, ex4)" and bm4: "ex_prio_bitmap ex4 = ex_prio_bitmap ex3"
    using fetch_head [OF actual_wake_none [OF d3] wf3 p3 p(2) r3] l3 by auto
  note same4 = popped_wf [OF wf3 pop4]
  have rd4: "\<forall>q<MAX_PRIO_NUM. ready ex4 q = (if q = p then [] else ready ex q)"
    using pop pop4 rd3 by (simp add: popped_def)
  have "stalled p ex4" using same4 d3 pb p3 bm4 rd4 by (simp add: stalled_def)
  moreover have "run_until_blocked (pure_poll step) (Suc (Suc fuel)) ex w = Some (Inr (ex4, w'))"
    using f e ex3 cid f4 by simp
  ultimately show ?thesis using l3 same4 rd4 by auto
qed

lemma duplicate_wake:
  assumes wf: "ex_wf ex" and d: "ex_delay_wake_cids ex = 0" and c: "unat c \<in> live ex"
    and p: "bm64_find_first_one (ex_prio_bitmap ex) = prio_of ex (unat c)"
    and r: "ready ex (prio_of ex (unat c)) = [c]" and w: "wake ex c = Inr ex1"
    and fin: "step (future_of ex c) wd = (Ready, fut', wd')"
  shows "\<exists>ex'. run_until_blocked (pure_poll step) (Suc (Suc fuel)) ex1 wd = Some (Inr (ex', wd')) \<and>
    stalled (prio_of ex (unat c)) ex' \<and> live ex' = live ex - {unat c} \<and>
    (\<forall>q<MAX_PRIO_NUM. q \<noteq> prio_of ex (unat c) \<longrightarrow> ready ex' q = ready ex q)"
proof -
  let ?p = "prio_of ex (unat c)"
  have pb: "?p < MAX_PRIO_NUM" using live_task [OF _ c] wf by (auto simp: ex_wf_def)
  from wake_inv [OF wf w] c obtain bm rq where wf1: "ex_wf ex1" and up: "ex1 = ex\<lparr>ex_prio_bitmap := bm, ex_ready_queue := rq\<rparr>"
    and el: "bm64_elems bm = insert ?p (bm64_elems (ex_prio_bitmap ex))"
    and rd: "\<forall>q<MAX_PRIO_NUM. ready ex1 q = (if q = ?p then ready ex q @ [c] else ready ex q)" by auto
  have p64: "?p \<noteq> 64" using pb by (simp add: ex_consts)
  then have "?p \<in> bm64_elems (ex_prio_bitmap ex)" using p bm64.first_one_in bm64.first_one_empty by metis
  then have "bm64_elems bm = bm64_elems (ex_prio_bitmap ex)" using el by auto
  then have p1: "bm64_find_first_one (ex_prio_bitmap ex1) = ?p"
    using p bm64.first_one_Min bm64.first_one_empty by (simp add: up) metis
  have "\<exists>ex'. run_until_blocked (pure_poll step) (Suc (Suc fuel)) ex1 wd = Some (Inr (ex', wd')) \<and> stalled ?p ex' \<and>
    live ex' = live ex1 - {unat c} \<and> (\<forall>q<MAX_PRIO_NUM. ready ex' q = (if q = ?p then [] else ready ex1 q))"
    by (rule run_duplicate [OF wf1 _ _ p1 p64, where fut' = fut'])
      (use d c r rd pb fin in \<open>simp_all add: up future_of_def\<close>)
  then show ?thesis using rd by (auto simp: up)
qed

text \<open>A coroutine at the front, alone in its queue, with another ready one behind it.\<close>

lemma front_coroutine:
  "\<exists>(ex :: nat executor) ex1. ex_wf ex \<and> ex_delay_wake_cids ex = 0 \<and> live ex = {0, 1} \<and> prio_of ex 1 = 2 \<and>
     bm64_find_first_one (ex_prio_bitmap ex) = 2 \<and> ready ex 2 = [1] \<and> ready ex 3 = [0] \<and> wake ex 1 = Inr ex1"
proof -
  obtain ex :: "nat executor" where ex: "ex_wf ex" "ex_delay_wake_cids ex = 0" "live ex = {0, 1}" "prio_of ex 1 = 2"
    "ready ex 2 = [1]" "ready ex 3 = [0]" "bm64_elems (ex_prio_bitmap ex) = {2, 3}"
    using spawn_two by blast
  have "bm64_find_first_one (ex_prio_bitmap ex) = 2" using ex(7) bm64.first_one_Min by simp
  moreover obtain ex1 where "wake ex 1 = Inr ex1" using wake_ok [OF ex(1), of 1] ex by (auto simp: ex_consts)
  ultimately show ?thesis using ex by blast
qed

lemma stalled_example: "\<exists>ex :: nat executor. stalled 2 ex \<and> live ex = {0} \<and> ready ex 3 = [0]"
proof -
  obtain ex ex1 :: "nat executor" where ex: "ex_wf ex" "ex_delay_wake_cids ex = 0" "live ex = {0, 1}" "prio_of ex 1 = 2"
    "bm64_find_first_one (ex_prio_bitmap ex) = 2" "ready ex 2 = [1]" "ready ex 3 = [0]" "wake ex 1 = Inr ex1"
    using front_coroutine by blast
  have u: "unat (1 :: coroutine_id) = 1" by simp
  have "\<exists>ex'. run_until_blocked (pure_poll (\<lambda>f w. (Ready, f, w))) (Suc (Suc 0)) ex1 (0 :: nat) = Some (Inr (ex', 0)) \<and>
      stalled (prio_of ex (unat (1 :: coroutine_id))) ex' \<and> live ex' = live ex - {unat (1 :: coroutine_id)} \<and>
      (\<forall>q<MAX_PRIO_NUM. q \<noteq> prio_of ex (unat (1 :: coroutine_id)) \<longrightarrow> ready ex' q = ready ex q)"
    by (rule duplicate_wake [OF ex(1,2) _ _ _ ex(8)]) (simp_all add: ex ex(4) [unfolded One_nat_def])
  then obtain ex' :: "nat executor" where ex': "stalled 2 ex' \<and> live ex' = live ex - {1} \<and> (\<forall>q<MAX_PRIO_NUM. q \<noteq> 2 \<longrightarrow> ready ex' q = ready ex q)"
    unfolding u ex(4) by blast
  have "live ex' = {0}" using ex' ex(3) by auto
  moreover have "ready ex' 3 = [0]" using ex' ex(7) by (simp add: ex_consts)
  ultimately show ?thesis using ex' by blast
qed

text \<open>C20. A ready coroutine at the head of the dispatch order is woken once more and then
  finishes at its next poll.  Its second queue entry is stale: \<^verbatim>\<open>fetch\<close> pops it, finds no task
  and returns nothing without clearing the priority bit, so the run ends with the executor
  stalled and every other ready coroutine still in its queue, not polled.\<close>

theorem duplicate_wake_stalls:
  assumes wf: "ex_wf ex" and d: "ex_delay_wake_cids ex = 0" and c: "unat c \<in> live ex"
    and p: "bm64_find_first_one (ex_prio_bitmap ex) = prio_of ex (unat c)"
    and r: "ready ex (prio_of ex (unat c)) = [c]" and w: "wake ex c = Inr ex1"
    and fin: "step (future_of ex c) wd = (Ready, fut', wd')"
  shows "\<exists>ex'. run_until_blocked (pure_poll step) (Suc (Suc fuel)) ex1 wd = Some (Inr (ex', wd')) \<and>
    stalled (prio_of ex (unat c)) ex' \<and> live ex' = live ex - {unat c} \<and>
    (\<forall>q<MAX_PRIO_NUM. q \<noteq> prio_of ex (unat c) \<longrightarrow> ready ex' q = ready ex q)"
  using assms by (rule duplicate_wake)

theorem duplicate_wake_stalls_witness:
  "\<exists>(ex :: nat executor) ex1 ex'. live ex = {0, 1} \<and> wake ex 1 = Inr ex1 \<and>
     run_until_blocked (pure_poll (\<lambda>f w. (Ready, f, w @ [f]))) (Suc (Suc 7)) ex1 [] = Some (Inr (ex', [future_of ex 1])) \<and>
     stalled 2 ex' \<and> live ex' = {0} \<and> ready ex' 3 = [0]"
proof -
  let ?step = "\<lambda>f w. (Ready, f, w @ [f])"
  obtain ex ex1 :: "nat executor" where ex: "ex_wf ex" "ex_delay_wake_cids ex = 0" "live ex = {0, 1}" "prio_of ex 1 = 2"
    "bm64_find_first_one (ex_prio_bitmap ex) = 2" "ready ex 2 = [1]" "ready ex 3 = [0]" "wake ex 1 = Inr ex1"
    using front_coroutine by blast
  have u: "unat (1 :: coroutine_id) = 1" by simp
  have "\<exists>ex'. run_until_blocked (pure_poll ?step) (Suc (Suc 7)) ex1 [] = Some (Inr (ex', [future_of ex 1])) \<and>
      stalled (prio_of ex (unat (1 :: coroutine_id))) ex' \<and> live ex' = live ex - {unat (1 :: coroutine_id)} \<and>
      (\<forall>q<MAX_PRIO_NUM. q \<noteq> prio_of ex (unat (1 :: coroutine_id)) \<longrightarrow> ready ex' q = ready ex q)"
    by (rule duplicate_wake_stalls [OF ex(1,2) _ _ _ ex(8)]) (simp_all add: ex ex(4) [unfolded One_nat_def])
  then obtain ex' where ex': "run_until_blocked (pure_poll ?step) (Suc (Suc 7)) ex1 [] = Some (Inr (ex', [future_of ex 1]))"
    "stalled 2 ex'" "live ex' = live ex - {1}" "\<forall>q<MAX_PRIO_NUM. q \<noteq> 2 \<longrightarrow> ready ex' q = ready ex q"
    unfolding u ex(4) by blast
  have "live ex' = {0}" using ex'(3) ex(3) by auto
  moreover have "ready ex' 3 = [0]" using ex'(4) ex(7) by (simp add: ex_consts)
  ultimately show ?thesis using ex'(1,2) ex(3,8) by blast
qed

text \<open>C21. A stalled executor stays stalled: running it polls nothing and changes nothing, whatever is
  ready at lower priorities; waking further coroutines of lower priority does not help; and
  while any coroutine is live, \<^verbatim>\<open>run_until_complete\<close> loops for ever (no fuel is enough).\<close>

theorem stalled_executor_starves:
  assumes "stalled p ex"
  shows "run_until_blocked poll (Suc fuel) ex w = Some (Inr (ex, w)) \<and>
    (live ex \<noteq> {} \<longrightarrow> (\<forall>fuel. run_until_complete poll fuel ex w = None)) \<and>
    (\<forall>c ex'. wake ex c = Inr ex' \<and> p < prio_of ex (unat c) \<longrightarrow> stalled p ex')"
  by (auto simp: stalled_run_blocked [OF assms] stalled_run_complete [OF assms]
      intro: stalled_wake_lower [OF assms] simp del: run_until_blocked.simps)

theorem stalled_executor_starves_witness:
  "\<exists>ex :: nat executor. stalled 2 ex \<and> live ex = {0} \<and> ready ex 3 = [0] \<and>
     (\<forall>fuel. run_until_complete (pure_poll (\<lambda>f w. (Ready, f, w @ [f]))) fuel ex [] = None)"
proof -
  obtain ex :: "nat executor" where ex: "stalled 2 ex" "live ex = {0}" "ready ex 3 = [0]" using stalled_example by blast
  with stalled_executor_starves [OF ex(1), of "pure_poll (\<lambda>f w. (Ready, f, w @ [f]))" 0 "[]"] show ?thesis by blast
qed

end
