(* ===== verification/Async_Lib_Props.thy ===== *)
theory Async_Lib_Props
  imports Async_Lib Executor_Props
begin

unbundle bit_operations_syntax

text \<open>
  Properties of the asynchronous IPC client: delivery of interrupts to the registered
  coroutines, the effect of a call on the shared buffer, delivery of replies to the
  coroutines that wait for them, and the decoding of physical addresses.
\<close>

section \<open>Interrupts\<close>

lemma uintr_loop_panic_free:
  assumes "\<forall>v. bit l v \<longrightarrow> (\<exists>cid. th_wake_map th (b + v) = Some cid \<and> cid < 64)"
  shows "\<exists>d. uintr_loop l b th = Inr (th\<lparr>th_exec := (th_exec th)\<lparr>ex_delay_wake_cids := d\<rparr>\<rparr>) \<and>
    (\<forall>j. bit d j \<longleftrightarrow> bit (ex_delay_wake_cids (th_exec th)) j \<or>
       (\<exists>v cid. bit l v \<and> th_wake_map th (b + v) = Some cid \<and> unat cid = j))"
  using assms
proof (induction l b th rule: uintr_loop.induct)
  case (1 l b th)
  note step = uintr_loop.simps [of l b th]
  have shift: "bit (drop_bit 1 l) v \<longleftrightarrow> bit l (Suc v)" for v by (simp add: bit_drop_bit_eq)
  have split: "(\<exists>v cid. bit l v \<and> th_wake_map th (b + v) = Some cid \<and> unat cid = j) \<longleftrightarrow>
      (bit l 0 \<and> (\<exists>cid. th_wake_map th b = Some cid \<and> unat cid = j)) \<or>
      (\<exists>v cid. bit (drop_bit 1 l) v \<and> th_wake_map th (b + 1 + v) = Some cid \<and> unat cid = j)" for j
    unfolding shift by (subst ex_nat_split) auto
  have low: "(l AND 1 = 1) = bit l 0" by (simp add: and_one_eq odd_iff_mod_2_eq_one bit_0)
  show ?case
  proof (cases "l = 0")
    case True
    then show ?thesis by (intro exI [of _ "ex_delay_wake_cids (th_exec th)"]) (simp add: uintr_loop.simps)
  next
    case False
    show ?thesis
    proof (cases "bit l 0")
      case True
      with "1.prems" obtain cid where cid: "th_wake_map th b = Some cid" "cid < 64" by force
      let ?d = "ex_delay_wake_cids (th_exec th) OR push_bit (unat cid) 1"
      let ?th = "th\<lparr>th_exec := (th_exec th)\<lparr>ex_delay_wake_cids := ?d\<rparr>\<rparr>"
      have w: "wake_recv_coroutine th b = Inr (Inr (), ?th)" using cid by (simp add: wake_recv_coroutine_def delay_wake_def)
      have "unat cid < 64" using cid by (simp add: word_less_nat_alt)
      then have bits: "bit ?d j \<longleftrightarrow> bit (ex_delay_wake_cids (th_exec th)) j \<or> j = unat cid" for j
        by (auto simp: bit_simps)
      have pre: "\<forall>v. bit (drop_bit 1 l) v \<longrightarrow> (\<exists>cid. th_wake_map ?th (b + 1 + v) = Some cid \<and> cid < 64)"
        using "1.prems" unfolding shift by (auto dest: spec [of _ "Suc _"])
      from "1.IH"(1) [OF False _ w refl refl pre] low True obtain d where
        "uintr_loop (drop_bit 1 l) (b + 1) ?th = Inr (?th\<lparr>th_exec := (th_exec ?th)\<lparr>ex_delay_wake_cids := d\<rparr>\<rparr>)"
        "\<forall>j. bit d j \<longleftrightarrow> bit ?d j \<or> (\<exists>v cid. bit (drop_bit 1 l) v \<and> th_wake_map th (b + 1 + v) = Some cid \<and> unat cid = j)"
        by auto
      then show ?thesis using False low True w cid bits split by (intro exI [of _ d]) (auto simp: step)
    next
      case no: False
      have pre: "\<forall>v. bit (drop_bit 1 l) v \<longrightarrow> (\<exists>cid. th_wake_map th (b + 1 + v) = Some cid \<and> cid < 64)"
        using "1.prems" unfolding shift by (auto dest: spec [of _ "Suc _"])
      from "1.IH"(2) [OF False _ pre] low no show ?thesis using False split by (simp add: step)
    qed
  qed
qed

lemma uintr_loop_registered:
  assumes "uintr_loop l b th = Inr th'" and "bit l v"
  shows "\<exists>cid. th_wake_map th (b + v) = Some cid \<and> cid < 64"
  using assms
proof (induction l b th arbitrary: v rule: uintr_loop.induct)
  case (1 l b th)
  have ne: "l \<noteq> 0" using "1.prems"(2) by auto
  have low: "(l AND 1 = 1) = bit l 0" by (simp add: and_one_eq odd_iff_mod_2_eq_one bit_0)
  have bit_Suc: "bit (drop_bit 1 l) u" if "v = Suc u" for u using "1.prems"(2) that by (simp add: bit_drop_bit_eq)
  show ?case
  proof (cases "bit l 0")
    case True
    from "1.prems"(1) ne low True obtain r th1 where w: "wake_recv_coroutine th b = Inr (r, th1)"
      by (auto simp: uintr_loop.simps [of l b th])
    moreover have "r = Inr ()" using "1.prems"(1) ne low True w by (cases r) (auto simp: uintr_loop.simps [of l b th])
    ultimately have w: "wake_recv_coroutine th b = Inr (Inr (), th1)" by simp
    then have rest: "uintr_loop (drop_bit 1 l) (b + 1) th1 = Inr th'"
      using "1.prems"(1) ne low True by (simp add: uintr_loop.simps [of l b th])
    have here: "\<exists>cid. th_wake_map th b = Some cid \<and> cid < 64" and same: "th_wake_map th1 = th_wake_map th"
      using w by (auto simp: wake_recv_coroutine_def delay_wake_def split: option.splits if_splits)
    show ?thesis
    proof (cases v)
      case 0
      with here show ?thesis by simp
    next
      case (Suc u)
      with "1.IH"(1) [OF ne _ w refl refl rest bit_Suc [OF Suc]] low True same show ?thesis by simp
    qed
  next
    case False
    then obtain u where Suc: "v = Suc u" using "1.prems"(2) by (cases v) auto
    have rest: "uintr_loop (drop_bit 1 l) (b + 1) th = Inr th'"
      using "1.prems"(1) ne low False by (simp add: uintr_loop.simps [of l b th])
    from "1.IH"(2) [OF ne _ rest bit_Suc [OF Suc]] low False Suc show ?thesis by simp
  qed
qed

lemma uintr_handler_spec:
  assumes "th_uint_trigger th + 1 < 2 ^ 64"
  shows "(case uintr_handler th irqs of
      Inl e \<Rightarrow> \<exists>v. bit irqs v \<and> \<not> (\<exists>cid. th_wake_map th v = Some cid \<and> cid < 64)
    | Inr (r, th') \<Rightarrow> r = 0 \<and> (\<forall>v. bit irqs v \<longrightarrow> (\<exists>cid. th_wake_map th v = Some cid \<and> cid < 64)) \<and>
        (\<exists>d. th' = th\<lparr>th_uint_trigger := th_uint_trigger th + 1,
            th_exec := (th_exec th)\<lparr>ex_delay_wake_cids := d\<rparr>\<rparr> \<and>
          (\<forall>j. bit d j \<longleftrightarrow> bit (ex_delay_wake_cids (th_exec th)) j \<or>
             (\<exists>v cid. bit irqs v \<and> th_wake_map th v = Some cid \<and> unat cid = j))))"
proof -
  let ?th = "th\<lparr>th_uint_trigger := th_uint_trigger th + 1\<rparr>"
  have h: "uintr_handler th irqs = rbind (uintr_loop irqs 0 ?th) (\<lambda>th'. Inr (0, th'))"
    using assms by (simp add: uintr_handler_def add_usize_def)
  show ?thesis
  proof (cases "\<forall>v. bit irqs v \<longrightarrow> (\<exists>cid. th_wake_map th v = Some cid \<and> cid < 64)")
    case True
    with uintr_loop_panic_free [of irqs ?th 0] h show ?thesis by auto
  next
    case False
    then have "\<nexists>th'. uintr_loop irqs 0 ?th = Inr th'" using uintr_loop_registered [of irqs 0 ?th] by auto
    with False h show ?thesis by (cases "uintr_loop irqs 0 ?th") auto
  qed
qed

text \<open>The user-interrupt handler returns exactly when every pending vector is registered to a
  coroutine numbered below 64 (and the trigger counter does not overflow); it then records
  exactly the coroutines of the pending vectors for a delayed wake-up and changes nothing
  else but the counter.\<close>

theorem uintr_handler_exact:
  assumes "th_uint_trigger th + 1 < 2 ^ 64"
  shows "(case uintr_handler th irqs of
      Inl e \<Rightarrow> \<exists>v. bit irqs v \<and> \<not> (\<exists>cid. th_wake_map th v = Some cid \<and> cid < 64)
    | Inr (r, th') \<Rightarrow> r = 0 \<and> (\<forall>v. bit irqs v \<longrightarrow> (\<exists>cid. th_wake_map th v = Some cid \<and> cid < 64)) \<and>
        (\<exists>d. th' = th\<lparr>th_uint_trigger := th_uint_trigger th + 1,
            th_exec := (th_exec th)\<lparr>ex_delay_wake_cids := d\<rparr>\<rparr> \<and>
          (\<forall>j. bit d j \<longleftrightarrow> bit (ex_delay_wake_cids (th_exec th)) j \<or>
             (\<exists>v cid. bit irqs v \<and> th_wake_map th v = Some cid \<and> unat cid = j))))"
  using assms by (rule uintr_handler_spec)

theorem uintr_handler_exact_witness:
  "case uintr_handler (thread_new Map.empty :: nat thread) 1 of
      Inl e \<Rightarrow> \<exists>v. bit (1 :: u64) v \<and> \<not> (\<exists>cid. th_wake_map (thread_new Map.empty :: nat thread) v = Some cid \<and> cid < 64)
    | Inr (r, th') \<Rightarrow> False"
proof -
  have "bit (1 :: u64) 0" by simp
  with uintr_handler_exact [of "thread_new Map.empty :: nat thread" 1] show ?thesis
    by (auto simp: thread_new_def bit_1_iff split: sum.splits)
qed

section \<open>Registration\<close>

lemma register_recv_cid_spec:
  assumes wf: "th_wf th" and r: "register_recv_cid th cid = (r, th')"
  shows "th_wf th' \<and> (case r of
      None \<Rightarrow> th' = th \<and> dom (th_wake_map th) = {..<MAX_UINT_VEC}
    | Some vec \<Rightarrow> vec < MAX_UINT_VEC \<and> th_wake_map th vec = None \<and> th_wake_map th' = (th_wake_map th)(vec \<mapsto> cid))"
proof -
  have a: "ia_wf MAX_UINT_VEC (th_uint_vec_allocator th)"
    and d: "dom (th_wake_map th) = ia_used MAX_UINT_VEC (th_uint_vec_allocator th)"
    using wf by (auto simp: th_wf_def)
  obtain o' a' where al: "ia_allocate MAX_UINT_VEC (th_uint_vec_allocator th) = (o', a')" by fastforce
  show ?thesis
  proof (cases o')
    case None
    with al r ia.alloc_None [OF a, of a'] d wf show ?thesis by (auto simp: register_recv_cid_def)
  next
    case (Some vec)
    with al have sp: "ia_wf MAX_UINT_VEC a'" "vec < MAX_UINT_VEC" "vec \<notin> dom (th_wake_map th)"
      "ia_used MAX_UINT_VEC a' = insert vec (dom (th_wake_map th))"
      using ia.alloc_Some [OF a, of vec a'] d by auto
    then have "th_wake_map th vec = None" by (simp add: domIff)
    moreover have th': "r = Some vec" "th' = th\<lparr>th_uint_vec_allocator := a', th_wake_map := (th_wake_map th)(vec \<mapsto> cid)\<rparr>"
      using al Some r by (auto simp: register_recv_cid_def)
    moreover have "dom (th_wake_map th') = insert vec (dom (th_wake_map th))" by (simp add: th')
    then have "th_wf th'" using wf sp unfolding th_wf_def by (simp add: th'(2) del: dom_fun_upd)
    ultimately show ?thesis using sp by simp
  qed
qed

text \<open>A coroutine that registers for interrupts gets a vector no other registration holds, until
  all 64 are taken; the interrupt with that vector alone then marks exactly that coroutine
  for a delayed wake-up, and earlier registrations still work.\<close>

theorem registered_vector_wakes:
  assumes wf: "th_wf th" and r: "register_recv_cid th cid = (Some vec, th')" and c: "cid < 64"
    and n: "th_uint_trigger th' + 1 < 2 ^ 64" and d: "ex_delay_wake_cids (th_exec th') = 0"
  shows "th_wf th' \<and> vec < 64 \<and> vec \<notin> dom (th_wake_map th) \<and> (\<forall>v\<in>dom (th_wake_map th). th_wake_map th' v = th_wake_map th v) \<and>
    (\<exists>th''. uintr_handler th' (push_bit vec 1) = Inr (0, th'') \<and>
       (\<forall>j. bit (ex_delay_wake_cids (th_exec th'')) j \<longleftrightarrow> j = unat cid))"
proof -
  from register_recv_cid_spec [OF wf r] have wf': "th_wf th'" and v: "vec < 64" "th_wake_map th vec = None"
    and wm: "th_wake_map th' = (th_wake_map th)(vec \<mapsto> cid)" by (auto simp: MAX_UINT_VEC_def)
  have b: "bit (push_bit vec 1 :: u64) u \<longleftrightarrow> u = vec" for u using v by (auto simp: bit_simps)
  have pre: "\<forall>u. bit (push_bit vec 1 :: u64) u \<longrightarrow> (\<exists>cid. th_wake_map th' (0 + u) = Some cid \<and> cid < 64)"
    using c unfolding b by (simp add: wm)
  let ?th = "th'\<lparr>th_uint_trigger := th_uint_trigger th' + 1\<rparr>"
  obtain d' where "uintr_loop (push_bit vec 1) 0 ?th = Inr (?th\<lparr>th_exec := (th_exec ?th)\<lparr>ex_delay_wake_cids := d'\<rparr>\<rparr>)"
    "\<forall>j. bit d' j \<longleftrightarrow> bit (ex_delay_wake_cids (th_exec ?th)) j \<or>
       (\<exists>u cid. bit (push_bit vec 1 :: u64) u \<and> th_wake_map ?th (0 + u) = Some cid \<and> unat cid = j)"
    using uintr_loop_panic_free [of "push_bit vec 1" ?th 0] pre by auto
  then have "uintr_handler th' (push_bit vec 1) = Inr (0, ?th\<lparr>th_exec := (th_exec ?th)\<lparr>ex_delay_wake_cids := d'\<rparr>\<rparr>)"
    "\<forall>j. bit d' j \<longleftrightarrow> j = unat cid"
    using n d unfolding b by (auto simp: uintr_handler_def add_usize_def wm)
  with wf' v wm show ?thesis by auto
qed

theorem registered_vector_wakes_witness:
  "\<exists>vec th' th''. register_recv_cid (thread_new Map.empty :: nat thread) 5 = (Some vec, th') \<and>
     uintr_handler th' (push_bit vec 1) = Inr (0, th'') \<and> (\<forall>j. bit (ex_delay_wake_cids (th_exec th'')) j \<longleftrightarrow> j = 5)"
proof -
  let ?th = "thread_new Map.empty :: nat thread"
  have wf: "th_wf ?th" by (simp add: thread_new_wf)
  obtain r th' where r: "register_recv_cid ?th 5 = (r, th')" by fastforce
  have "{..<MAX_UINT_VEC} \<noteq> {}" by (simp add: MAX_UINT_VEC_def lessThan_empty_iff)
  then obtain vec where r': "register_recv_cid ?th 5 = (Some vec, th')"
    using register_recv_cid_spec [OF wf r] r by (cases r) (auto simp: thread_new_def)
  have "th_uint_trigger th' = 0" "ex_delay_wake_cids (th_exec th') = 0"
    using r' by (auto simp: register_recv_cid_def thread_new_def split: prod.splits option.splits)
  with registered_vector_wakes [OF wf r'] r' show ?thesis by auto
qed

section \<open>Requests\<close>

lemma write_request_spec:
  assumes "nb_wf nb"
  shows "if length (srb_list (nb_req_items nb)) = MAX_ITEM_NUM then write_request nb item = Inl UnwrapErr
    else \<exists>q. write_request nb item = Inr (nb\<lparr>nb_req_items := q\<rparr>) \<and> iq_wf q \<and> srb_list q = srb_list (nb_req_items nb) @ [item]"
proof -
  have q: "iq_wf (nb_req_items nb)" using assms by (simp add: nb_wf_def)
  show ?thesis
  proof (cases "length (srb_list (nb_req_items nb)) = MAX_ITEM_NUM")
    case True
    with iq.push_full [OF q, of item] show ?thesis by (simp add: write_request_def)
  next
    case False
    with iq.contents_bound [OF q] have "length (srb_list (nb_req_items nb)) < MAX_ITEM_NUM" by simp
    with iq.push_ok [OF q this, of item] False show ?thesis by (auto simp: write_request_def)
  qed
qed

text \<open>What submitting a request does: the item is appended, the status flag is set, and a signal
  leaves exactly when the flag was clear.\<close>

definition submitted :: "'f thread \<Rightarrow> usize \<Rightarrow> new_buffer \<Rightarrow> ipc_item \<Rightarrow> signal \<Rightarrow> 'f thread \<Rightarrow> bool" where
  "submitted th ptr nb item sig th' \<longleftrightarrow>
     (\<exists>q. th_buffers th' = (th_buffers th)(ptr \<mapsto> nb\<lparr>nb_req_items := q, nb_recv_req_status := True\<rparr>) \<and>
       iq_wf q \<and> srb_list q = srb_list (nb_req_items nb) @ [item]) \<and>
     th_signals th' = th_signals th @ (if nb_recv_req_status nb then [] else [sig]) \<and>
     th_exec th' = th_exec th \<and> th_immediate_value th' = th_immediate_value th \<and> th_sender_map th' = th_sender_map th \<and>
     th_wake_map th' = th_wake_map th \<and> th_uint_trigger th' = th_uint_trigger th \<and> th_reply_count th' = th_reply_count th \<and>
     th_submit_syscall_cnt th' = th_submit_syscall_cnt th + (if sig = WakeSyscallHandler \<and> \<not> nb_recv_req_status nb then 1 else 0)"

lemma call_with_item_spec:
  assumes wf: "th_wf th" and sid: "unat sid < 64" and cnt: "th_submit_syscall_cnt th + 1 < 2 ^ 64"
    and ptr: "th_sender_map th ! unat sid = ptr" and live: "ptr \<noteq> 0 \<longrightarrow> th_buffers th ptr = Some nb"
  shows "if ptr = 0 then seL4_Call_with_item th sid item = Inr (False, th)
    else if length (srb_list (nb_req_items nb)) = MAX_ITEM_NUM then seL4_Call_with_item th sid item = Inl UnwrapErr
    else \<exists>th'. seL4_Call_with_item th sid item = Inr (True, th') \<and> th_wf th' \<and>
      submitted th ptr nb item (if sid = 63 then WakeSyscallHandler else Uipi sid) th'"
proof (cases "ptr = 0")
  case True
  with wf sid ptr show ?thesis by (simp add: seL4_Call_with_item_def index_res_def th_wf_def convert_option_mut_ref_def)
next
  case False
  with live have b: "th_buffers th ptr = Some nb" by simp
  then have nb: "nb_wf nb" using wf by (auto simp: th_wf_def ran_def)
  have idx: "index_res (th_sender_map th) (unat sid) = Inr ptr" using wf sid ptr by (simp add: index_res_def th_wf_def)
  have conv: "convert_option_mut_ref th ptr = Inr (Some nb)" using False b by (simp add: convert_option_mut_ref_def)
  show ?thesis
  proof (cases "length (srb_list (nb_req_items nb)) = MAX_ITEM_NUM")
    case True
    with write_request_spec [OF nb, of item] False show ?thesis by (simp add: seL4_Call_with_item_def idx conv)
  next
    case room: False
    with write_request_spec [OF nb, of item] obtain q where
      q: "write_request nb item = Inr (nb\<lparr>nb_req_items := q\<rparr>)" "iq_wf q" "srb_list q = srb_list (nb_req_items nb) @ [item]"
      by auto
    let ?nb = "nb\<lparr>nb_req_items := q, nb_recv_req_status := True\<rparr>"
    have eq: "nb\<lparr>nb_req_items := q\<rparr> = ?nb" if "nb_recv_req_status nb" using that by simp
    let ?sig = "if sid = 63 then WakeSyscallHandler else Uipi sid"
    have "\<exists>th'. seL4_Call_with_item th sid item = Inr (True, th') \<and> th_buffers th' = (th_buffers th)(ptr \<mapsto> ?nb) \<and>
        th_signals th' = th_signals th @ (if nb_recv_req_status nb then [] else [?sig]) \<and> th_exec th' = th_exec th \<and>
        th_immediate_value th' = th_immediate_value th \<and> th_sender_map th' = th_sender_map th \<and>
        th_wake_map th' = th_wake_map th \<and> th_uint_vec_allocator th' = th_uint_vec_allocator th \<and>
        th_uint_trigger th' = th_uint_trigger th \<and> th_reply_count th' = th_reply_count th \<and>
        th_submit_syscall_cnt th' = th_submit_syscall_cnt th + (if sid = 63 \<and> \<not> nb_recv_req_status nb then 1 else 0)"
    proof (cases "nb_recv_req_status nb")
      case True
      with q(1) show ?thesis unfolding eq [OF True, symmetric] by (simp add: seL4_Call_with_item_def idx conv)
    next
      case False
      with q(1) cnt show ?thesis
        by (simp add: seL4_Call_with_item_def idx conv SYSCALL_SENDER_def add_usize_def Let_def)
    qed
    then obtain th' where th': "seL4_Call_with_item th sid item = Inr (True, th')" "th_buffers th' = (th_buffers th)(ptr \<mapsto> ?nb)"
        "th_signals th' = th_signals th @ (if nb_recv_req_status nb then [] else [?sig])" "th_exec th' = th_exec th"
        "th_immediate_value th' = th_immediate_value th" "th_sender_map th' = th_sender_map th"
        "th_wake_map th' = th_wake_map th" "th_uint_vec_allocator th' = th_uint_vec_allocator th"
        "th_uint_trigger th' = th_uint_trigger th" "th_reply_count th' = th_reply_count th"
        "th_submit_syscall_cnt th' = th_submit_syscall_cnt th + (if sid = 63 \<and> \<not> nb_recv_req_status nb then 1 else 0)" by blast
    have "nb_wf ?nb" using nb q(2) by (simp add: nb_wf_def)
    then have "\<forall>nb\<in>ran (th_buffers th'). nb_wf nb" using wf by (auto simp: th_wf_def ran_def th'(2) split: if_splits)
    then have "th_wf th'" using wf by (simp add: th_wf_def th')
    with False room q th' show ?thesis by (auto simp: submitted_def)
  qed
qed

text \<open>A call on a sender identifier without a buffer returns an error and changes nothing;
  with a buffer whose request queue is full it panics; otherwise the item is appended to
  the request queue, the request flag is set, a user interrupt for that sender (for
  identifier 63 a wake-up of the system-call handler) is sent exactly when the flag was
  clear, and the coroutine is suspended.\<close>

theorem call_with_item_effect:
  assumes wf: "th_wf th" and sid: "unat sid < 64" and cnt: "th_submit_syscall_cnt th + 1 < 2 ^ 64"
    and ptr: "th_sender_map th ! unat sid = ptr" and live: "ptr \<noteq> 0 \<longrightarrow> th_buffers th ptr = Some nb"
  shows "if ptr = 0 then seL4_Call_with_item th sid item = Inr (False, th)
    else if length (srb_list (nb_req_items nb)) = MAX_ITEM_NUM then seL4_Call_with_item th sid item = Inl UnwrapErr
    else \<exists>th'. seL4_Call_with_item th sid item = Inr (True, th') \<and> th_wf th' \<and>
      submitted th ptr nb item (if sid = 63 then WakeSyscallHandler else Uipi sid) th'"
  using assms by (rule call_with_item_spec)

theorem call_with_item_effect_witness:
  "\<exists>th'. seL4_Call_with_item (thread_new [4096 \<mapsto> new_buffer_new]\<lparr>th_sender_map := (replicate 64 0)[7 := 4096]\<rparr> :: nat thread)
      7 item_new = Inr (True, th') \<and> th_signals th' = [Uipi 7]"
proof -
  let ?th = "thread_new [4096 \<mapsto> new_buffer_new]\<lparr>th_sender_map := (replicate 64 0)[7 := 4096]\<rparr> :: nat thread"
  have "th_wf (thread_new [4096 \<mapsto> new_buffer_new] :: nat thread)" by (rule thread_new_wf) (simp add: new_buffer_new_wf)
  then have wf: "th_wf ?th" by (simp add: th_wf_def)
  have nb: "srb_count (nb_req_items new_buffer_new) \<noteq> MAX_ITEM_NUM" "\<not> nb_recv_req_status new_buffer_new"
    by (simp_all add: new_buffer_new_def items_queue_new_def srb_new_def MAX_ITEM_NUM_def)
  have th: "th_submit_syscall_cnt ?th = 0" "th_sender_map ?th ! unat (7 :: sender_id) = 4096"
    "th_buffers ?th 4096 = Some new_buffer_new" "th_signals ?th = []"
    by (simp_all add: thread_new_def)
  from call_with_item_effect [OF wf, of 7 4096 new_buffer_new item_new] nb th obtain th' where
    "seL4_Call_with_item ?th 7 item_new = Inr (True, th')" "submitted ?th 4096 new_buffer_new item_new (Uipi 7) th'"
    by auto
  then show ?thesis using nb th(4) by (auto simp: submitted_def)
qed

section \<open>Replies\<close>

text \<open>Leaving the values of a list of replies in the slots of their coroutines.\<close>

primrec deliver :: "ipc_item option list \<Rightarrow> ipc_item list \<Rightarrow> ipc_item option list" where
  "deliver iv [] = iv"
| "deliver iv (it # its) = deliver (iv[unat (item_cid it) := Some it]) its"

lemma deliver_length [simp]: "length (deliver iv its) = length iv"
  by (induction its arbitrary: iv) auto

lemma deliver_other: "c \<notin> item_cid ` set its \<Longrightarrow> deliver iv its ! unat c = iv ! unat c"
proof (induction its arbitrary: iv)
  case (Cons it its)
  then have "unat (item_cid it) \<noteq> unat c" by (auto simp: word_unat_eq_iff)
  with Cons show ?case by simp
qed simp

lemma deliver_last:
  assumes "unat (item_cid it) < length iv" and "item_cid it \<notin> item_cid ` set its2"
  shows "deliver iv (its1 @ it # its2) ! unat (item_cid it) = Some it"
  using assms(1)
proof (induction its1 arbitrary: iv)
  case Nil
  then show ?case using deliver_other [OF assms(2)] by simp
qed simp

lemma recv_reply_step:
  assumes b: "th_buffers th ptr = Some nb" and q: "iq_wf (nb_res_items nb)" and l: "srb_list (nb_res_items nb) = it # its"
    and iv: "unat (item_cid it) < length (th_immediate_value th)" and w: "wake (th_exec th) (item_cid it) = Inr ex"
    and n: "count + 1 < 2 ^ 64"
  shows "\<exists>q'. iq_wf q' \<and> srb_list q' = its \<and>
    (let th1 = th\<lparr>th_buffers := (th_buffers th)(ptr \<mapsto> nb\<lparr>nb_res_items := q'\<rparr>),
        th_immediate_value := (th_immediate_value th)[unat (item_cid it) := Some it], th_exec := ex\<rparr>
     in recv_reply_loop ptr reply_num count th =
       (if count + 1 = reply_num then Inr (Ready, count + 1, th1) else recv_reply_loop ptr reply_num (count + 1) th1))"
proof -
  obtain q' where q': "get_first_item (nb_res_items nb) = Inr (Some it, q')" "iq_wf q'" "srb_list q' = its"
    using iq.pop_ok [OF q l] by blast
  have "wake_with_value (th\<lparr>th_buffers := (th_buffers th)(ptr \<mapsto> nb\<lparr>nb_res_items := q'\<rparr>)\<rparr>) (item_cid it) it =
      Inr (th\<lparr>th_buffers := (th_buffers th)(ptr \<mapsto> nb\<lparr>nb_res_items := q'\<rparr>),
        th_immediate_value := (th_immediate_value th)[unat (item_cid it) := Some it], th_exec := ex\<rparr>)"
    using w iv by (simp add: wake_with_value_def store_res_def)
  then show ?thesis
    using q' b n by (intro exI [of _ q']) (simp add: recv_reply_loop.simps [of ptr reply_num count th] Let_def add_usize_def)
qed

lemma recv_reply_prefix:
  assumes "th_buffers th ptr = Some nb" and "iq_wf (nb_res_items nb)" and "srb_list (nb_res_items nb) = xs @ ys"
    and "\<forall>it\<in>set xs. unat (item_cid it) < length (th_immediate_value th)"
    and "wake_all (th_exec th) (map item_cid xs) = Inr ex" and "count + length xs < 2 ^ 64"
    and "count + length xs < reply_num"
  shows "\<exists>q'. iq_wf q' \<and> srb_list q' = ys \<and> recv_reply_loop ptr reply_num count th =
    recv_reply_loop ptr reply_num (count + length xs) (th\<lparr>th_buffers := (th_buffers th)(ptr \<mapsto> nb\<lparr>nb_res_items := q'\<rparr>),
      th_immediate_value := deliver (th_immediate_value th) xs, th_exec := ex\<rparr>)"
  using assms
proof (induction xs arbitrary: th nb count)
  case Nil
  then have eq: "th\<lparr>th_buffers := (th_buffers th)(ptr \<mapsto> nb\<lparr>nb_res_items := nb_res_items nb\<rparr>),
      th_immediate_value := deliver (th_immediate_value th) [], th_exec := ex\<rparr> = th"
    by (simp add: map_upd_triv)
  have "recv_reply_loop ptr reply_num count th = recv_reply_loop ptr reply_num (count + length ([] :: ipc_item list))
      (th\<lparr>th_buffers := (th_buffers th)(ptr \<mapsto> nb\<lparr>nb_res_items := nb_res_items nb\<rparr>),
        th_immediate_value := deliver (th_immediate_value th) [], th_exec := ex\<rparr>)"
    unfolding eq by simp
  moreover have "iq_wf (nb_res_items nb)" "srb_list (nb_res_items nb) = ys" using Nil.prems by auto
  ultimately show ?case by blast
next
  case (Cons it xs)
  obtain ex1 where w: "wake (th_exec th) (item_cid it) = Inr ex1" and rest: "wake_all ex1 (map item_cid xs) = Inr ex"
    using Cons.prems(5) by auto
  obtain q1 where q1: "iq_wf q1" "srb_list q1 = xs @ ys"
    and step: "recv_reply_loop ptr reply_num count th = recv_reply_loop ptr reply_num (count + 1)
      (th\<lparr>th_buffers := (th_buffers th)(ptr \<mapsto> nb\<lparr>nb_res_items := q1\<rparr>),
        th_immediate_value := (th_immediate_value th)[unat (item_cid it) := Some it], th_exec := ex1\<rparr>)"
    using recv_reply_step [OF Cons.prems(1,2), of it "xs @ ys" ex1 count reply_num] Cons.prems w by (auto simp: Let_def)
  let ?th = "th\<lparr>th_buffers := (th_buffers th)(ptr \<mapsto> nb\<lparr>nb_res_items := q1\<rparr>),
      th_immediate_value := (th_immediate_value th)[unat (item_cid it) := Some it], th_exec := ex1\<rparr>"
  have "\<exists>q'. iq_wf q' \<and> srb_list q' = ys \<and> recv_reply_loop ptr reply_num (count + 1) ?th =
    recv_reply_loop ptr reply_num (count + 1 + length xs) (?th\<lparr>th_buffers := (th_buffers ?th)(ptr \<mapsto> nb\<lparr>nb_res_items := q1\<rparr>\<lparr>nb_res_items := q'\<rparr>),
      th_immediate_value := deliver (th_immediate_value ?th) xs, th_exec := ex\<rparr>)"
    by (rule Cons.IH) (use Cons.prems q1 rest in \<open>auto\<close>)
  then obtain q' where q': "iq_wf q'" "srb_list q' = ys" and IH: "recv_reply_loop ptr reply_num (count + 1) ?th =
    recv_reply_loop ptr reply_num (count + 1 + length xs) (?th\<lparr>th_buffers := (th_buffers ?th)(ptr \<mapsto> nb\<lparr>nb_res_items := q1\<rparr>\<lparr>nb_res_items := q'\<rparr>),
      th_immediate_value := deliver (th_immediate_value ?th) xs, th_exec := ex\<rparr>)" by blast
  have "recv_reply_loop ptr reply_num count th = recv_reply_loop ptr reply_num (count + length (it # xs))
      (th\<lparr>th_buffers := (th_buffers th)(ptr \<mapsto> nb\<lparr>nb_res_items := q'\<rparr>),
        th_immediate_value := deliver (th_immediate_value th) (it # xs), th_exec := ex\<rparr>)"
    unfolding step IH by simp
  with q' show ?case by blast
qed

lemma recv_reply_pass:
  assumes wf: "th_wf th" and b: "th_buffers th ptr = Some nb" and l: "srb_list (nb_res_items nb) = its"
    and cids: "\<forall>it\<in>set its. unat (item_cid it) < MAX_TASK_NUM"
    and room: "\<forall>p<MAX_PRIO_NUM. length (ready (th_exec th) p) + length its \<le> MAX_TASK_NUM - 1"
    and n: "count + length its < reply_num" "reply_num < 2 ^ 64"
  shows "\<exists>th' nb'. recv_reply_loop ptr reply_num count th = Inr (Pending, count + length its, th') \<and>
    th_buffers th' ptr = Some nb' \<and> srb_list (nb_res_items nb') = [] \<and> nb_recv_reply_status nb' = False \<and>
    th_immediate_value th' = deliver (th_immediate_value th) its \<and>
    (\<forall>p<MAX_PRIO_NUM. ready (th_exec th') p = ready (th_exec th) p @ woken (th_exec th) (map item_cid its) p) \<and>
    wake_all (th_exec th) (map item_cid its) = Inr (th_exec th')"
proof -
  have ex: "ex_wf (th_exec th)" and iv: "length (th_immediate_value th) = MAX_TASK_NUM" and q: "iq_wf (nb_res_items nb)"
    using wf b by (auto simp: th_wf_def nb_wf_def ran_def)
  obtain ex' where w: "wake_all (th_exec th) (map item_cid its) = Inr ex'"
    using wake_all_ok [OF ex, of "map item_cid its"] cids room by auto
  obtain q' where q': "iq_wf q'" "srb_list q' = []" and loop: "recv_reply_loop ptr reply_num count th =
      recv_reply_loop ptr reply_num (count + length its) (th\<lparr>th_buffers := (th_buffers th)(ptr \<mapsto> nb\<lparr>nb_res_items := q'\<rparr>),
        th_immediate_value := deliver (th_immediate_value th) its, th_exec := ex'\<rparr>)"
    using recv_reply_prefix [OF b q, of its "[]" ex' count reply_num] l cids iv w n by auto
  have "recv_reply_loop ptr reply_num count th = Inr (Pending, count + length its,
      th\<lparr>th_buffers := (th_buffers th)(ptr \<mapsto> nb\<lparr>nb_res_items := q', nb_recv_reply_status := False\<rparr>),
        th_immediate_value := deliver (th_immediate_value th) its, th_exec := ex'\<rparr>)"
    unfolding loop by (simp add: recv_reply_loop.simps iq.pop_empty [OF q'])
  with q' w wake_all_inv [OF ex w] show ?thesis by auto
qed

text \<open>From one suspension to the next the reply coroutine takes every reply of the buffer, in
  order: it leaves each in the slot of its coroutine, makes the coroutine ready at the end
  of its priority's queue, counts it, and goes to sleep with the queue empty and the reply
  flag cleared.  The pass always ends; it does so without panicking when the identifiers
  are in range, the ready queues have room and the expected number of replies is not
  reached.\<close>

theorem recv_reply_drains:
  assumes wf: "th_wf th" and b: "th_buffers th ptr = Some nb" and l: "srb_list (nb_res_items nb) = its"
    and cids: "\<forall>it\<in>set its. unat (item_cid it) < MAX_TASK_NUM"
    and room: "\<forall>p<MAX_PRIO_NUM. length (ready (th_exec th) p) + length its \<le> MAX_TASK_NUM - 1"
    and n: "count + length its < reply_num" "reply_num < 2 ^ 64"
  shows "\<exists>th' nb'. recv_reply_loop ptr reply_num count th = Inr (Pending, count + length its, th') \<and>
    th_buffers th' ptr = Some nb' \<and> srb_list (nb_res_items nb') = [] \<and> nb_recv_reply_status nb' = False \<and>
    th_immediate_value th' = deliver (th_immediate_value th) its \<and>
    (\<forall>p<MAX_PRIO_NUM. ready (th_exec th') p = ready (th_exec th) p @ woken (th_exec th) (map item_cid its) p)"
  using recv_reply_pass [OF assms] by blast

theorem recv_reply_drains_witness:
  "\<exists>th' nb'. recv_reply_loop 8 100 0 (thread_new [8 \<mapsto> new_buffer_new] :: nat thread) = Inr (Pending, 0, th') \<and>
     th_buffers th' 8 = Some nb' \<and> nb_recv_reply_status nb' = False"
proof -
  have wf: "th_wf (thread_new [8 \<mapsto> new_buffer_new] :: nat thread)" by (rule thread_new_wf) (simp add: new_buffer_new_wf)
  have "srb_list (nb_res_items new_buffer_new) = []" by (simp add: new_buffer_new_def items_queue_new_list)
  with recv_reply_drains [OF wf, of 8 new_buffer_new "[]" 0 100] show ?thesis
    by (auto simp: thread_new_def)
qed

lemma call_resume_value:
  assumes "ex_current (th_exec th) = Some c" and "unat c < length (th_immediate_value th)" and "th_immediate_value th ! unat c = Some it"
  shows "\<exists>th'. seL4_Call_with_item_resume th = Inr (Inr it, th') \<and> seL4_Call_with_item_resume th' = Inr (Inl (), th')"
  using assms by (simp add: seL4_Call_with_item_resume_def yield_now_resume_def coroutine_get_current_def index_res_def)

text \<open>A coroutine that is spawned and fetched makes a call and is answered.\<close>

lemma one_running:
  "\<exists>ex :: nat executor. ex_wf ex \<and> clean ex \<and> ex_delay_wake_cids ex = 0 \<and> live ex = {0} \<and> ex_current ex = Some 0 \<and> sched ex = [] \<and>
     prio_of ex 0 = 1"
proof -
  let ?new = "executor_new :: nat executor"
  obtain c ex where sp: "spawned ?new 7 1 c ex" using spawn_total [of ?new 1 7] by (auto simp: executor_new_wf ex_consts)
  have "{..<unat c} \<subseteq> {}" using sp by (simp add: spawned_def)
  then have u: "unat c = 0" by (cases "unat c") auto
  then have c0: "c = 0" by (simp add: unat_eq_zero)
  have wf: "ex_wf ex" and lv: "live ex = {0}" and d: "ex_delay_wake_cids ex = 0" using sp u by (simp_all add: spawned_def)
  have "ready ex p = (if p = 1 then [c] else [])" if "p < MAX_PRIO_NUM" for p using sp that by (simp add: spawned_def)
  then have s: "sched ex = [0]" by (simp add: sched_def MAX_PRIO_NUM_def upt_rec c0)
  have "prio_of ex 0 = 1" using sp u by (simp add: spawned_def prio_of_def executor_new_def MAX_TASK_NUM_def)
  then show ?thesis
    using fetch_clean [OF wf clean_spawned [OF executor_new_clean sp] d s] lv by (auto simp: prio_of_def) 
qed

lemma call_example:
  "\<exists>(th :: nat thread) th1 th2 nb2. th_wf th \<and> th_submit_syscall_cnt th = 0 \<and> th_sender_map th ! 7 = 8 \<and> th_buffers th 8 = Some new_buffer_new \<and>
     seL4_Call_with_item th 7 (item_from 0 9) = Inr (True, th1) \<and> th_wf th2 \<and> th_exec th2 = th_exec th1 \<and> live (th_exec th2) = {0} \<and>
     clean (th_exec th2) \<and> ex_delay_wake_cids (th_exec th2) = 0 \<and> sched (th_exec th2) = [] \<and> prio_of (th_exec th2) 0 = 1 \<and>
     th_buffers th2 8 = Some nb2 \<and> srb_list (nb_res_items nb2) = [item_from 0 42]"
proof -
  obtain ex :: "nat executor" where ex: "ex_wf ex" "clean ex" "ex_delay_wake_cids ex = 0" "live ex = {0}" "sched ex = []" "prio_of ex 0 = 1"
    using one_running by blast
  let ?th = "thread_new [8 \<mapsto> new_buffer_new]\<lparr>th_sender_map := (replicate 64 0)[7 := 8], th_exec := ex\<rparr> :: nat thread"
  have "th_wf (thread_new [8 \<mapsto> new_buffer_new] :: nat thread)" by (rule thread_new_wf) (simp add: new_buffer_new_wf)
  then have wf: "th_wf ?th" using ex(1) by (simp add: th_wf_def)
  have th: "th_submit_syscall_cnt ?th = 0" "th_sender_map ?th ! 7 = 8" "th_buffers ?th 8 = Some new_buffer_new"
    by (simp_all add: thread_new_def)
  have "length (srb_list (nb_req_items new_buffer_new)) \<noteq> MAX_ITEM_NUM" by (simp add: new_buffer_new_def items_queue_new_list MAX_ITEM_NUM_def)
  then obtain th1 where call: "seL4_Call_with_item ?th 7 (item_from 0 9) = Inr (True, th1)" and wf1: "th_wf th1" and th1: "th_exec th1 = ex"
    using call_with_item_spec [OF wf, of 7 8 new_buffer_new "item_from 0 9"] th by (auto simp: submitted_def)
  obtain q where q: "iq_wf q" "srb_list q = [item_from 0 42]"
    using iq.push_ok [OF items_queue_new_wf, of "item_from 0 42"] by (auto simp: items_queue_new_list MAX_ITEM_NUM_def)
  let ?nb2 = "new_buffer_new\<lparr>nb_res_items := q\<rparr>"
  let ?th2 = "th1\<lparr>th_buffers := (th_buffers th1)(8 \<mapsto> ?nb2)\<rparr>"
  have "nb_wf ?nb2" using q(1) new_buffer_new_wf by (simp add: nb_wf_def)
  then have wf2: "th_wf ?th2" using wf1 by (auto simp: th_wf_def ran_def)
  with wf th call ex q th1 show ?thesis
    by (intro exI [of _ ?th] exI [of _ th1] exI [of _ ?th2] exI [of _ ?nb2]) simp
qed

text \<open>C8. A coroutine that makes a call gets its reply.  The call appends the request with the caller's identifier to the
  request queue and sets the flag.  When later the reply coroutine finds replies for several coroutines in the buffer,
  one of them for the caller, its pass takes them all and makes the caller ready at its priority; the caller is fetched
  next when it is at the head of the dispatch order; and whenever a fetch takes the caller, its call returns the last
  reply with its identifier, whatever the order and number of the others, and takes it, so that a second resumption
  would return an error.  The caller is live, the identifiers are in range, the ready queues have room and the reply
  count has not been reached.\<close>

theorem call_gets_its_reply:
  fixes th th1 th2 :: "'f thread"
  assumes call: "th_wf th" "unat sid < 64" "th_submit_syscall_cnt th + 1 < 2 ^ 64" "th_sender_map th ! unat sid = ptr" "ptr \<noteq> 0"
      "th_buffers th ptr = Some nb" "item_cid item = c" "seL4_Call_with_item th sid item = Inr (True, th1)"
    and later: "th_wf th2" "unat c \<in> live (th_exec th2)" "th_buffers th2 ptr = Some nb2"
    and reply: "srb_list (nb_res_items nb2) = its1 @ it # its2" "item_cid it = c" "c \<notin> item_cid ` set its2"
    and cids: "\<forall>x\<in>set (its1 @ it # its2). unat (item_cid x) < MAX_TASK_NUM"
    and room: "\<forall>p<MAX_PRIO_NUM. length (ready (th_exec th2) p) + length (its1 @ it # its2) \<le> MAX_TASK_NUM - 1"
    and n: "count + length (its1 @ it # its2) < reply_num" "reply_num < 2 ^ 64"
  shows "\<exists>nb1 th3 nb3. th_buffers th1 ptr = Some nb1 \<and> srb_list (nb_req_items nb1) = srb_list (nb_req_items nb) @ [item] \<and>
     nb_recv_req_status nb1 \<and>
     recv_reply_loop ptr reply_num count th2 = Inr (Pending, count + length (its1 @ it # its2), th3) \<and>
     th_buffers th3 ptr = Some nb3 \<and> srb_list (nb_res_items nb3) = [] \<and>
     c \<in> set (ready (th_exec th3) (prio_of (th_exec th2) (unat c))) \<and>
     (clean (th_exec th2) \<and> ex_delay_wake_cids (th_exec th2) = 0 \<and> sched (th_exec th3) = c # cs \<longrightarrow>
        (\<exists>h ex4. fetch (th_exec th3) = Inr (Some h, ex4) \<and> ex_tasks (th_exec th3) ! unat c = Some h)) \<and>
     (\<forall>(ex4 :: 'f executor) h th4. ex_wf ex4 \<and> ex_tasks ex4 ! unat c = Some h \<and> fetch ex4 = Inr (Some h, th_exec th4) \<and>
        th_immediate_value th4 = th_immediate_value th3 \<longrightarrow>
        (\<exists>th5. seL4_Call_with_item_resume th4 = Inr (Inr it, th5) \<and> seL4_Call_with_item_resume th5 = Inr (Inl (), th5)))"
proof -
  let ?its = "its1 @ it # its2" and ?ex = "th_exec th2"
  have wf: "ex_wf ?ex" and len: "length (th_immediate_value th2) = MAX_TASK_NUM" using later(1) by (simp_all add: th_wf_def)
  have c: "unat c < MAX_TASK_NUM" using cids reply(2) by simp
  obtain nb1 where nb1: "th_buffers th1 ptr = Some nb1" "srb_list (nb_req_items nb1) = srb_list (nb_req_items nb) @ [item]" "nb_recv_req_status nb1"
    using call_with_item_spec [OF call(1-4), of nb item] call(5,6,8) by (auto simp: submitted_def split: if_splits)
  obtain th3 nb3 where th3: "recv_reply_loop ptr reply_num count th2 = Inr (Pending, count + length ?its, th3)"
      "th_buffers th3 ptr = Some nb3" "srb_list (nb_res_items nb3) = []" "th_immediate_value th3 = deliver (th_immediate_value th2) ?its"
    and w: "wake_all ?ex (map item_cid ?its) = Inr (th_exec th3)"
    using recv_reply_pass [OF later(1,3) reply(1) cids room n] by blast
  note inv = wake_all_inv [OF wf w]
  have "prio_of ?ex (unat c) < MAX_PRIO_NUM" using live_task later(2) wf by (auto simp: ex_wf_def)
  then have ready: "c \<in> set (ready (th_exec th3) (prio_of ?ex (unat c)))"
    using inv later(2) reply(2) by (auto simp: woken_def)
  have next': "\<exists>h ex4. fetch (th_exec th3) = Inr (Some h, ex4) \<and> ex_tasks (th_exec th3) ! unat c = Some h"
    if "clean ?ex" "ex_delay_wake_cids ?ex = 0" "sched (th_exec th3) = c # cs"
  proof -
    have "ex_delay_wake_cids (th_exec th3) = 0" "ex_tasks (th_exec th3) = ex_tasks ?ex" using inv that(2) by auto
    then show ?thesis using fetch_clean [OF _ clean_wake_all [OF wf that(1) w] _ that(3)] inv by metis
  qed
  have slot: "th_immediate_value th3 ! unat c = Some it" "length (th_immediate_value th3) = MAX_TASK_NUM"
    using deliver_last [of it "th_immediate_value th2" its2 its1] reply c len by (simp_all add: th3(4))
  have "\<exists>th5. seL4_Call_with_item_resume th4 = Inr (Inr it, th5) \<and> seL4_Call_with_item_resume th5 = Inr (Inl (), th5)"
    if "ex_wf ex4" "ex_tasks ex4 ! unat c = Some h" "fetch ex4 = Inr (Some h, th_exec th4)" "th_immediate_value th4 = th_immediate_value th3" for ex4 h th4
    using call_resume_value [OF fetch_makes_current [OF that(1,3) c that(2)]] that(4) slot c by simp
  with nb1 th3 ready next' show ?thesis by blast
qed

theorem call_gets_its_reply_witness:
  "\<exists>(th :: nat thread) th1 th2 th3 h ex4 th5. live (th_exec th2) = {0} \<and> sched (th_exec th2) = [] \<and>
     seL4_Call_with_item th 7 (item_from 0 9) = Inr (True, th1) \<and> th_exec th2 = th_exec th1 \<and>
     recv_reply_loop 8 100 0 th2 = Inr (Pending, 1, th3) \<and> fetch (th_exec th3) = Inr (Some h, ex4) \<and>
     seL4_Call_with_item_resume (th3\<lparr>th_exec := ex4\<rparr>) = Inr (Inr (item_from 0 42), th5) \<and>
     seL4_Call_with_item_resume th5 = Inr (Inl (), th5)"
proof -
  let ?it = "item_from 0 42" and ?c = "0 :: coroutine_id"
  obtain th th1 th2 :: "nat thread" and nb2 where th: "th_wf th" "th_submit_syscall_cnt th = 0" "th_sender_map th ! 7 = 8"
      "th_buffers th 8 = Some new_buffer_new" "seL4_Call_with_item th 7 (item_from 0 9) = Inr (True, th1)"
    and th2: "th_wf th2" "th_exec th2 = th_exec th1" "live (th_exec th2) = {0}" "th_buffers th2 8 = Some nb2" "srb_list (nb_res_items nb2) = [?it]"
    and ex: "clean (th_exec th2)" "ex_delay_wake_cids (th_exec th2) = 0" "sched (th_exec th2) = []" "prio_of (th_exec th2) 0 = 1"
    using call_example by blast
  have rd: "ready (th_exec th2) p = []" if "p < MAX_PRIO_NUM" for p using ex(3) that by (simp add: sched_def)
  have wf: "ex_wf (th_exec th2)" using th2(1) by (simp add: th_wf_def)
  obtain th3 where loop: "recv_reply_loop 8 100 0 th2 = Inr (Pending, 1, th3)"
    and nxt: "sched (th_exec th3) = [?c] \<longrightarrow>
        (\<exists>h ex4. fetch (th_exec th3) = Inr (Some h, ex4) \<and> ex_tasks (th_exec th3) ! unat ?c = Some h)"
    and got: "\<And>(ex4 :: nat executor) h th4. ex_wf ex4 \<and> ex_tasks ex4 ! unat ?c = Some h \<and> fetch ex4 = Inr (Some h, th_exec th4) \<and>
        th_immediate_value th4 = th_immediate_value th3 \<Longrightarrow>
        \<exists>th5. seL4_Call_with_item_resume th4 = Inr (Inr ?it, th5) \<and> seL4_Call_with_item_resume th5 = Inr (Inl (), th5)"
    using call_gets_its_reply [OF th(1), of 7 8 new_buffer_new "item_from 0 9" ?c th1 th2 nb2 "[]" ?it "[]" 0 100 "[]"] th th2 ex rd
    by (auto simp: item_from_def MAX_TASK_NUM_def)
  have w: "wake_all (th_exec th2) [?c] = Inr (th_exec th3)"
    using recv_reply_pass [OF th2(1), of 8 nb2 "[?it]" 0 100] loop th2 rd by (auto simp: item_from_def MAX_TASK_NUM_def)
  have "ready (th_exec th3) p = (if p = 1 then [?c] else [])" if "p < MAX_PRIO_NUM" for p
    using wake_all_inv [OF wf w] that rd ex(4) th2(3) by (auto simp: woken_def)
  then have "sched (th_exec th3) = [?c]" by (simp add: sched_def MAX_PRIO_NUM_def upt_rec)
  with nxt obtain h ex4 where f: "fetch (th_exec th3) = Inr (Some h, ex4)" "ex_tasks (th_exec th3) ! unat ?c = Some h" by blast
  have "ex_wf (th_exec th3)" using wake_all_inv [OF wf w] by blast
  with got [of "th_exec th3" h "th3\<lparr>th_exec := ex4\<rparr>"] f obtain th5 where "seL4_Call_with_item_resume (th3\<lparr>th_exec := ex4\<rparr>) = Inr (Inr ?it, th5)"
    "seL4_Call_with_item_resume th5 = Inr (Inl (), th5)" by auto
  with f(1) th(5) loop th2(2,3) ex(3) show ?thesis by blast
qed

section \<open>Physical addresses\<close>

text \<open>An address as four 16-bit words behind the first, the most significant first.  The kernel, which writes this reply, is
  not part of the repository; the order is the one the shifts of the decoder are written for.\<close>

definition paddr_words :: "u64 \<Rightarrow> u16 list" where
  "paddr_words a = [0, ucast (drop_bit 48 a), ucast (drop_bit 32 a), ucast (drop_bit 16 a), ucast a]"

lemma decode_paddr_sum:
  "decode_paddr msg = push_bit 48 (ucast (msg ! 2)) + (push_bit 16 (ucast (msg ! 3)) + ucast (msg ! 4))"
proof -
  have "push_bit 80 (ucast (msg ! 1) :: u64) = 0" by (rule bit_eqI) (simp add: bit_simps)
  then show ?thesis by (simp add: decode_paddr_def push_bit_add push_bit_push_bit)
qed

lemma bit_decode_paddr:
  "bit (decode_paddr msg) j \<longleftrightarrow> j < 64 \<and> (if 48 \<le> j then bit (msg ! 2) (j - 48)
     else if 32 \<le> j then False else if 16 \<le> j then bit (msg ! 3) (j - 16) else bit (msg ! 4) j)"
proof -
  let ?a = "push_bit 48 (ucast (msg ! 2)) :: u64" and ?b = "push_bit 16 (ucast (msg ! 3)) :: u64" and ?c = "ucast (msg ! 4) :: u64"
  have "?b AND ?c = 0" by (rule bit_eqI) (auto simp: bit_simps dest: bit_imp_le_length)
  then have bc: "?b + ?c = ?b OR ?c" by (rule disjunctive_add_eq_or)
  have "?a AND (?b OR ?c) = 0" by (rule bit_eqI) (auto simp: bit_simps dest!: bit_imp_le_length)
  then have "decode_paddr msg = ?a OR (?b OR ?c)" by (simp add: decode_paddr_sum bc disjunctive_add_eq_or)
  then show ?thesis by (auto simp: bit_simps dest: bit_imp_le_length)
qed

text \<open>C26. The address that a page-address reply is decoded to is the address that was encoded
  exactly when that is below 4 GiB: each line of the decoder shifts the sum of the previous
  value and the next word, so that the top word is shifted out and the second one takes
  its place.\<close>

theorem decode_paddr_correct_iff:
  "decode_paddr (paddr_words a) = a \<longleftrightarrow> a < 2 ^ 32"
proof -
  have small: "a < 2 ^ 32 \<longleftrightarrow> (\<forall>j\<ge>32. \<not> bit a j)"
    using unat_less_exp_iff [of a 32] by (simp add: word_less_nat_alt)
  have w: "bit (decode_paddr (paddr_words a)) j \<longleftrightarrow> j < 64 \<and> (if 48 \<le> j then bit a (j - 16) else j < 32 \<and> bit a j)" for j
    by (auto simp: bit_decode_paddr paddr_words_def bit_simps)
  show ?thesis
  proof
    assume "decode_paddr (paddr_words a) = a"
    then have e: "bit a j \<longleftrightarrow> j < 64 \<and> (if 48 \<le> j then bit a (j - 16) else j < 32 \<and> bit a j)" for j using w by simp
    have mid: "\<not> bit a j" if "32 \<le> j" "j < 48" for j using e [of j] that by simp
    have "\<not> bit a j" if "32 \<le> j" for j
      using e [of j] mid [of j] mid [of "j - 16"] that by (cases "j < 48") auto
    then show "a < 2 ^ 32" using small by simp
  next
    assume "a < 2 ^ 32"
    then have hi: "\<not> bit a j" if "32 \<le> j" for j using small that by simp
    show "decode_paddr (paddr_words a) = a"
      by (rule bit_eqI) (use hi in \<open>auto simp: w not_less [symmetric]\<close>)
  qed
qed

end
