(* ===== verification/Net_Message.thy ===== *)
theory Net_Message
  imports Ipc_Item
begin

text \<open>
  The messages between a network client and the network stack
  (\<^verbatim>\<open>net/message.rs\<close>): the builders pack a socket handle, a port, a length and the address of a
  buffer into the sixteen 16-bit words of an item, and the decoders read them back.
  Handles, ports, lengths and addresses are \<open>usize\<close> values of the 64-bit target.
\<close>

section \<open>Message types\<close>

datatype message_type =
    Reserve | NetPollReq | Listen | ListenReply | Send | SendReply | Recv | RecvReply

fun message_code :: "message_type \<Rightarrow> u32" where
  "message_code Reserve = 0"
| "message_code NetPollReq = 1"
| "message_code Listen = 2"
| "message_code ListenReply = 3"
| "message_code Send = 4"
| "message_code SendReply = 5"
| "message_code Recv = 6"
| "message_code RecvReply = 7"

definition INVALID_TYPE :: u32 where
  "INVALID_TYPE = message_code RecvReply + 1"

text \<open>\<^verbatim>\<open>core::mem::transmute::<u8, MessageType>\<close> on the codes of the enumeration.\<close>

definition message_type_of :: "u8 \<Rightarrow> message_type" where
  "message_type_of v =
     [Reserve, NetPollReq, Listen, ListenReply, Send, SendReply, Recv, RecvReply] ! unat v"

section \<open>Builders\<close>

text \<open>Writing and reading a \<open>usize\<close> through a pointer to word 4 of the message: four words, least
  significant first.\<close>

definition write_ptr :: "u16 list \<Rightarrow> u64 \<Rightarrow> u16 list" where
  "write_ptr msg p =
     msg[4 := ucast p, 5 := ucast (drop_bit 16 p), 6 := ucast (drop_bit 32 p), 7 := ucast (drop_bit 48 p)]"

definition read_ptr :: "u16 list \<Rightarrow> u64" where
  "read_ptr msg =
     ucast (msg ! 4) OR push_bit 16 (ucast (msg ! 5)) OR push_bit 32 (ucast (msg ! 6)) OR push_bit 48 (ucast (msg ! 7))"

definition mb_listen :: "coroutine_id \<Rightarrow> u64 \<Rightarrow> ipc_item" where
  "mb_listen cid port =
     (let item = item_default in
      item\<lparr>item_cid := cid, item_msg_info := message_code Listen,
        item_extend_msg := (item_extend_msg item)[0 := ucast port]\<rparr>)"

definition mb_listen_reply :: "coroutine_id \<Rightarrow> u64 \<Rightarrow> ipc_item" where
  "mb_listen_reply cid handler =
     (let item = item_default in
      item\<lparr>item_cid := cid, item_msg_info := message_code ListenReply,
        item_extend_msg := (item_extend_msg item)[0 := ucast handler]\<rparr>)"

definition mb_send :: "coroutine_id \<Rightarrow> u64 \<Rightarrow> u64 \<Rightarrow> u64 \<Rightarrow> ipc_item" where
  "mb_send cid handler buffer len =
     (let item = item_default in
      item\<lparr>item_cid := cid, item_msg_info := message_code Send,
        item_extend_msg := write_ptr ((item_extend_msg item)[0 := ucast handler, 1 := ucast len]) buffer\<rparr>)"

definition mb_send_reply :: "coroutine_id \<Rightarrow> u64 \<Rightarrow> ipc_item" where
  "mb_send_reply cid send_size =
     (let item = item_default in
      item\<lparr>item_cid := cid, item_msg_info := message_code SendReply,
        item_extend_msg := (item_extend_msg item)[1 := ucast send_size]\<rparr>)"

definition mb_recv :: "coroutine_id \<Rightarrow> u64 \<Rightarrow> u64 \<Rightarrow> u64 \<Rightarrow> ipc_item" where
  "mb_recv cid handler buffer len =
     (let item = item_default in
      item\<lparr>item_cid := cid, item_msg_info := message_code Recv,
        item_extend_msg := write_ptr ((item_extend_msg item)[0 := ucast handler, 1 := ucast len]) buffer\<rparr>)"

definition mb_recv_reply :: "coroutine_id \<Rightarrow> u64 \<Rightarrow> ipc_item" where
  "mb_recv_reply cid read_size =
     (let item = item_default in
      item\<lparr>item_cid := cid, item_msg_info := message_code RecvReply,
        item_extend_msg := (item_extend_msg item)[1 := ucast read_size]\<rparr>)"

section \<open>Decoders\<close>

definition get_cid :: "ipc_item \<Rightarrow> coroutine_id" where
  "get_cid item = item_cid item"

definition get_port :: "ipc_item \<Rightarrow> u64" where
  "get_port item = ucast (item_extend_msg item ! 0)"

definition get_type :: "ipc_item \<Rightarrow> message_type res" where
  "get_type item =
     rbind (guard_res (item_msg_info item < INVALID_TYPE) AssertFailed) (\<lambda>_.
     Inr (message_type_of (ucast (item_msg_info item))))"

definition get_socket_handler :: "ipc_item \<Rightarrow> u64" where
  "get_socket_handler item = ucast (item_extend_msg item ! 0)"

definition get_len :: "ipc_item \<Rightarrow> u64" where
  "get_len item = ucast (item_extend_msg item ! 1)"

text \<open>The address of the buffer; the reference made from it is looked up by the user of the model.\<close>

definition get_buffer :: "ipc_item \<Rightarrow> u64" where
  "get_buffer item = read_ptr (item_extend_msg item)"

section \<open>Round trips\<close>

named_theorems mb_defs \<open>the message builders\<close>

declare mb_listen_def [mb_defs] mb_listen_reply_def [mb_defs] mb_send_def [mb_defs]
  mb_send_reply_def [mb_defs] mb_recv_def [mb_defs] mb_recv_reply_def [mb_defs]

named_theorems md_defs \<open>the message decoders\<close>

declare get_cid_def [md_defs] get_port_def [md_defs] get_socket_handler_def [md_defs]
  get_len_def [md_defs] get_buffer_def [md_defs]

lemma item_default_words [simp]:
  "length (item_extend_msg item_default) = 16"
  by (simp add: item_default_def MAX_IPC_MSG_LEN_def)

lemma write_ptr_simps [simp]:
  "length (write_ptr msg p) = length msg"
  "i < 4 \<Longrightarrow> write_ptr msg p ! i = msg ! i"
  by (simp_all add: write_ptr_def)

lemma read_write_ptr [simp]:
  assumes "8 \<le> length msg"
  shows "read_ptr (write_ptr msg p) = p"
proof (rule bit_eqI)
  fix n assume "possible_bit TYPE(u64) n"
  then have n: "n < 64" by simp
  show "bit (read_ptr (write_ptr msg p)) n \<longleftrightarrow> bit p n"
    using assms n
    by (cases "n < 16"; cases "n < 32"; cases "n < 48") (auto simp: read_ptr_def write_ptr_def bit_simps)
qed

text \<open>A \<open>usize\<close> survives the 16-bit field exactly when it is below 65536.\<close>

lemma ucast_u16_roundtrip: "(ucast (ucast (x :: u64) :: u16) :: u64) = x \<longleftrightarrow> unat x < 2 ^ 16"
proof -
  have "(ucast (ucast x :: u16) :: u64) = x \<longleftrightarrow> (\<forall>j\<ge>16. \<not> bit x j)"
  proof -
    have "bit x j \<Longrightarrow> j < 64" for j using bit_imp_le_length [of x j] by simp
    then show ?thesis by (auto simp: bit_eq_iff bit_simps) (meson not_le)+
  qed
  then show ?thesis using unat_less_exp_iff [of x 16] by simp
qed

lemma ucast_u16_u64_lt: "unat (ucast (x :: u16) :: u64) < 2 ^ 16"
  unfolding unat_less_exp_iff using bit_imp_le_length [of x] by (auto simp: bit_simps) (meson leD)

lemma message_type_of_code: "message_type_of (ucast (message_code t)) = t"
  by (cases t) (simp_all add: message_type_of_def)

lemma message_code_valid: "message_code t < INVALID_TYPE"
  by (cases t) (simp_all add: INVALID_TYPE_def)

lemma get_type_code: "item_msg_info item = message_code t \<Longrightarrow> get_type item = Inr t"
  by (simp add: get_type_def message_type_of_code message_code_valid guard_res_def)

lemma get_type_mb [simp]:
  "get_type (mb_listen cid port) = Inr Listen" "get_type (mb_listen_reply cid h) = Inr ListenReply"
  "get_type (mb_send cid h b l) = Inr Send" "get_type (mb_send_reply cid l) = Inr SendReply"
  "get_type (mb_recv cid h b l) = Inr Recv" "get_type (mb_recv_reply cid l) = Inr RecvReply"
  by (rule get_type_code, simp add: mb_defs Let_def)+

lemma mb_fields [simp]:
  "get_cid (mb_listen cid port) = cid" "get_port (mb_listen cid port) = ucast (ucast port :: u16)"
  "get_cid (mb_listen_reply cid h) = cid" "get_socket_handler (mb_listen_reply cid h) = ucast (ucast h :: u16)"
  "get_cid (mb_send cid h b l) = cid" "get_socket_handler (mb_send cid h b l) = ucast (ucast h :: u16)"
  "get_len (mb_send cid h b l) = ucast (ucast l :: u16)" "get_buffer (mb_send cid h b l) = b"
  "get_cid (mb_recv cid h b l) = cid" "get_socket_handler (mb_recv cid h b l) = ucast (ucast h :: u16)"
  "get_len (mb_recv cid h b l) = ucast (ucast l :: u16)" "get_buffer (mb_recv cid h b l) = b"
  "get_cid (mb_send_reply cid l) = cid" "get_len (mb_send_reply cid l) = ucast (ucast l :: u16)"
  "get_cid (mb_recv_reply cid l) = cid" "get_len (mb_recv_reply cid l) = ucast (ucast l :: u16)"
  by (simp_all add: mb_defs md_defs Let_def)

lemma mb_item_cid [simp]:
  "item_cid (mb_listen cid port) = cid" "item_cid (mb_listen_reply cid h) = cid"
  "item_cid (mb_send cid h b l) = cid" "item_cid (mb_recv cid h b l) = cid"
  "item_cid (mb_send_reply cid l) = cid" "item_cid (mb_recv_reply cid l) = cid"
  by (simp_all add: mb_defs Let_def)

lemma get_type_panics_iff: "get_type item = Inl e \<longleftrightarrow> e = AssertFailed \<and> 8 \<le> unat (item_msg_info item)"
proof -
  have "INVALID_TYPE = 8" by (simp add: INVALID_TYPE_def)
  moreover have "item_msg_info item < 8 \<longleftrightarrow> unat (item_msg_info item) < 8" by (simp add: word_less_nat_alt)
  ultimately show ?thesis by (auto simp: get_type_def guard_res_def)
qed

text \<open>C36. Every message kind decodes to itself and to the coroutine that built it; the buffer address of
  a send or receive request always survives, and a port, socket handle or length survives
  exactly when it is below 65536, which every length that fits a 32768-byte buffer is.
  Decoding the kind panics exactly on codes beyond the enumeration.\<close>

theorem net_message_roundtrip:
  "(get_type (mb_listen cid port) = Inr Listen \<and> get_cid (mb_listen cid port) = cid \<and>
     (get_port (mb_listen cid port) = port \<longleftrightarrow> unat port < 65536)) \<and>
   (get_type (mb_listen_reply cid h) = Inr ListenReply \<and> get_cid (mb_listen_reply cid h) = cid \<and>
     (get_socket_handler (mb_listen_reply cid h) = h \<longleftrightarrow> unat h < 65536)) \<and>
   (get_type (mb_send cid h b l) = Inr Send \<and> get_cid (mb_send cid h b l) = cid \<and> get_buffer (mb_send cid h b l) = b \<and>
     (get_socket_handler (mb_send cid h b l) = h \<longleftrightarrow> unat h < 65536) \<and> (get_len (mb_send cid h b l) = l \<longleftrightarrow> unat l < 65536)) \<and>
   (get_type (mb_recv cid h b l) = Inr Recv \<and> get_cid (mb_recv cid h b l) = cid \<and> get_buffer (mb_recv cid h b l) = b \<and>
     (get_socket_handler (mb_recv cid h b l) = h \<longleftrightarrow> unat h < 65536) \<and> (get_len (mb_recv cid h b l) = l \<longleftrightarrow> unat l < 65536)) \<and>
   (get_type (mb_send_reply cid l) = Inr SendReply \<and> get_cid (mb_send_reply cid l) = cid \<and>
     (get_len (mb_send_reply cid l) = l \<longleftrightarrow> unat l < 65536)) \<and>
   (get_type (mb_recv_reply cid l) = Inr RecvReply \<and> get_cid (mb_recv_reply cid l) = cid \<and>
     (get_len (mb_recv_reply cid l) = l \<longleftrightarrow> unat l < 65536)) \<and>
   (get_type item = Inl e \<longleftrightarrow> e = AssertFailed \<and> 8 \<le> unat (item_msg_info item))"
  by (simp add: ucast_u16_roundtrip get_type_panics_iff)

end
