(* ===== verification/Listen_Table.thy ===== *)
theory Listen_Table
  imports Async_Lib Net_Message
begin

text \<open>
  The table of listening ports of the network stack (\<^verbatim>\<open>net/listen_table.rs\<close>) and the state
  the network thread keeps (the statics of \<^verbatim>\<open>net/mod.rs\<close>).

  The TCP sockets themselves belong to the \<^verbatim>\<open>smoltcp\<close> library; the operations the program
  calls on a socket set are the fields of a record \<open>socket_api\<close> that every definition takes as
  an argument.  An operation on a handle that names no socket panics in the library, so each of
  them is fallible.  Addresses are of the library's type, a type variable here.
\<close>

section \<open>Sockets\<close>

type_synonym socket_handle = u64
type_synonym cptr = u64

record 'ip ip_endpoint =
  ie_addr :: 'ip
  ie_port :: u16

record 'ip listen_endpoint =
  le_addr :: "'ip option"
  le_port :: u16

text \<open>The headers of a received frame as the library parses them.\<close>

record 'ip tcp_header =
  tp_src :: "'ip ip_endpoint"
  tp_dst :: "'ip ip_endpoint"
  tp_syn :: bool
  tp_ack :: bool

datatype 'ip frame = BadFrame | NotTcp | BadTcp | Tcp "'ip tcp_header"

text \<open>\<open>sa_listen\<close> is a new socket's \<^verbatim>\<open>listen(port)\<close> followed by \<^verbatim>\<open>SocketSet::add\<close>, \<open>None\<close> when the socket
  refuses the port; \<open>sa_poll\<close> is \<^verbatim>\<open>Interface::poll\<close>, with the frames it received and passed to the
  device's \<^verbatim>\<open>preprocess\<close> hook, in order.\<close>

record ('ip, 's) socket_api =
  sa_listen :: "u16 \<Rightarrow> 's \<Rightarrow> (socket_handle \<times> 's) option"
  sa_remove :: "socket_handle \<Rightarrow> 's \<Rightarrow> 's res"
  sa_established :: "socket_handle \<Rightarrow> 's \<Rightarrow> bool res"
  sa_endpoints :: "socket_handle \<Rightarrow> 's \<Rightarrow> ('ip ip_endpoint option \<times> 'ip ip_endpoint option) res"
  sa_can_send :: "socket_handle \<Rightarrow> 's \<Rightarrow> bool res"
  sa_can_recv :: "socket_handle \<Rightarrow> 's \<Rightarrow> bool res"
  sa_send_slice :: "socket_handle \<Rightarrow> u8 list \<Rightarrow> 's \<Rightarrow> (unit + usize) \<times> 's"
  sa_recv_slice :: "socket_handle \<Rightarrow> usize \<Rightarrow> 's \<Rightarrow> (unit + u8 list) \<times> 's"
  sa_poll :: "'s \<Rightarrow> bool \<times> 'ip frame list \<times> 's"

section \<open>State\<close>

definition LISTEN_QUEUE_SIZE :: nat where "LISTEN_QUEUE_SIZE = 4096"

record 'ip listen_table_entry =
  lte_listen_endpoint :: "'ip listen_endpoint"
  lte_syn_queue :: "socket_handle list"
  lte_block_cids :: "coroutine_id list"
  lte_block_ep :: "cptr list"

definition listen_table_entry_new :: "'ip listen_endpoint \<Rightarrow> 'ip listen_table_entry" where
  "listen_table_entry_new ep =
     \<lparr>lte_listen_endpoint = ep, lte_syn_queue = [], lte_block_cids = [], lte_block_ep = []\<rparr>"

definition can_accept :: "'ip listen_table_entry \<Rightarrow> 'ip \<Rightarrow> bool" where
  "can_accept entry dst =
     (case le_addr (lte_listen_endpoint entry) of Some addr \<Rightarrow> addr = dst | None \<Rightarrow> True)"

text \<open>The array of 65536 entries is indexed by a \<^verbatim>\<open>u16\<close>, so that every index is in range: a map from
  ports.  Messages sent with \<^verbatim>\<open>nb_send\<close> are recorded with the endpoint and the two message
  registers.\<close>

type_synonym 'ip listen_table = "u16 \<rightharpoonup> 'ip listen_table_entry"

record ('f, 'ip, 's) net =
  net_th :: "'f thread"
  net_tcp :: "'ip listen_table"
  net_sockets :: 's
  net_socket_2_cid :: "socket_handle \<rightharpoonup> coroutine_id"
  net_device_poller_cid :: coroutine_id
  net_poll_cnt :: usize
  net_net_poll_cnt :: usize
  net_poll_eps :: "cptr list"
  net_ep_sent :: "(cptr \<times> u64 \<times> u64) list"
  net_tcp_buffers :: "u64 \<rightharpoonup> u8 list"

definition listen_table_new :: "'ip listen_table" where
  "listen_table_new = Map.empty"

section \<open>Operations\<close>

definition coroutine_wake :: "coroutine_id \<Rightarrow> ('f, 'ip, 's) net \<Rightarrow> ('f, 'ip, 's) net res" where
  "coroutine_wake cid net =
     rbind (wake (th_exec (net_th net)) cid) (\<lambda>ex. Inr (net\<lparr>net_th := (net_th net)\<lparr>th_exec := ex\<rparr>\<rparr>))"

definition table_entry :: "'ip listen_table \<Rightarrow> 'ip listen_endpoint \<Rightarrow> 'ip listen_table_entry" where
  "table_entry tcp ep = (case tcp (le_port ep) of None \<Rightarrow> listen_table_entry_new ep | Some en \<Rightarrow> en)"

definition table_listen ::
  "'ip listen_endpoint \<Rightarrow> socket_handle \<Rightarrow> coroutine_id \<Rightarrow> ('f, 'ip, 's) net \<Rightarrow> ('f, 'ip, 's) net res" where
  "table_listen ep handler cid net =
     rbind (guard_res (le_port ep \<noteq> 0) AssertFailed) (\<lambda>_.
     let en = table_entry (net_tcp net) ep in
     Inr (net\<lparr>net_tcp := (net_tcp net)(le_port ep \<mapsto>
       en\<lparr>lte_syn_queue := lte_syn_queue en @ [handler], lte_block_cids := lte_block_cids en @ [cid]\<rparr>)\<rparr>))"

definition table_listen_with_ep ::
  "'ip listen_endpoint \<Rightarrow> socket_handle \<Rightarrow> cptr \<Rightarrow> ('f, 'ip, 's) net \<Rightarrow> ('f, 'ip, 's) net res" where
  "table_listen_with_ep ep handle cptr net =
     rbind (guard_res (le_port ep \<noteq> 0) AssertFailed) (\<lambda>_.
     let en = table_entry (net_tcp net) ep in
     Inr (net\<lparr>net_tcp := (net_tcp net)(le_port ep \<mapsto>
       en\<lparr>lte_syn_queue := lte_syn_queue en @ [handle], lte_block_ep := lte_block_ep en @ [cptr]\<rparr>)\<rparr>))"

text \<open>Dropping an entry removes the sockets still queued in it.\<close>

fun drop_sockets :: "('ip, 's) socket_api \<Rightarrow> socket_handle list \<Rightarrow> 's \<Rightarrow> 's res" where
  "drop_sockets api [] s = Inr s"
| "drop_sockets api (h # hs) s = rbind (sa_remove api h s) (drop_sockets api hs)"

definition unlisten :: "('ip, 's) socket_api \<Rightarrow> u16 \<Rightarrow> ('f, 'ip, 's) net \<Rightarrow> ('f, 'ip, 's) net res" where
  "unlisten api port net =
     rbind (drop_sockets api (case net_tcp net port of None \<Rightarrow> [] | Some en \<Rightarrow> lte_syn_queue en) (net_sockets net)) (\<lambda>s.
     Inr (net\<lparr>net_tcp := (net_tcp net)(port := None), net_sockets := s\<rparr>))"

definition is_connected :: "('ip, 's) socket_api \<Rightarrow> socket_handle \<Rightarrow> ('f, 'ip, 's) net \<Rightarrow> bool res" where
  "is_connected api handle net = sa_established api handle (net_sockets net)"

definition get_addr_tuple ::
  "('ip, 's) socket_api \<Rightarrow> socket_handle \<Rightarrow> ('f, 'ip, 's) net \<Rightarrow> ('ip ip_endpoint \<times> 'ip ip_endpoint) res" where
  "get_addr_tuple api handle net =
     rbind (sa_endpoints api handle (net_sockets net)) (\<lambda>(local, remote).
     rbind (unwrap local) (\<lambda>l. rbind (unwrap remote) (\<lambda>r. Inr (l, r))))"

definition table_accept ::
  "('ip, 's) socket_api \<Rightarrow> u16 \<Rightarrow> ('f, 'ip, 's) net \<Rightarrow>
   ((unit + socket_handle \<times> 'ip ip_endpoint \<times> 'ip ip_endpoint) \<times> ('f, 'ip, 's) net) res" where
  "table_accept api port net =
     (case net_tcp net port of
        None \<Rightarrow> Inr (Inl (), net)
      | Some entry \<Rightarrow>
          (case lte_syn_queue entry of
             [] \<Rightarrow> Inl AssertFailed
           | handle # rest \<Rightarrow>
               let net1 = net\<lparr>net_tcp := (net_tcp net)(port \<mapsto> entry\<lparr>lte_syn_queue := rest\<rparr>)\<rparr> in
               rbind (is_connected api handle net1) (\<lambda>connected.
               rbind (guard_res connected AssertFailed) (\<lambda>_.
               rbind (get_addr_tuple api handle net1) (\<lambda>addrs.
               Inr (Inr (handle, addrs), net1))))))"

text \<open>A connection request for \<open>dst\<close>: at most one waiting coroutine is woken, and at most one waiting
  endpoint is sent the first queued socket.\<close>

definition wake_blocked_cid :: "u16 \<Rightarrow> 'ip listen_table_entry \<Rightarrow> ('f, 'ip, 's) net \<Rightarrow> ('f, 'ip, 's) net res" where
  "wake_blocked_cid port entry net =
     (case lte_block_cids entry of
        [] \<Rightarrow> Inr net
      | cid # rest \<Rightarrow>
          coroutine_wake cid (net\<lparr>net_tcp := (net_tcp net)(port \<mapsto> entry\<lparr>lte_block_cids := rest\<rparr>)\<rparr>))"

definition reply_blocked_ep :: "u16 \<Rightarrow> 'ip listen_table_entry \<Rightarrow> ('f, 'ip, 's) net \<Rightarrow> ('f, 'ip, 's) net res" where
  "reply_blocked_ep port entry net =
     (case lte_block_ep entry of
        [] \<Rightarrow> Inr net
      | ep # eps \<Rightarrow>
          (case lte_syn_queue entry of
             [] \<Rightarrow> Inl UnwrapNone
           | handler # rest \<Rightarrow>
               Inr (net\<lparr>net_tcp := (net_tcp net)(port \<mapsto> entry\<lparr>lte_syn_queue := rest, lte_block_ep := eps\<rparr>),
                 net_ep_sent := net_ep_sent net @ [(ep, ucast (message_code ListenReply), handler)],
                 net_poll_eps := net_poll_eps net @ [ep]\<rparr>)))"

definition incoming_tcp_packet :: "'ip ip_endpoint \<Rightarrow> ('f, 'ip, 's) net \<Rightarrow> ('f, 'ip, 's) net res" where
  "incoming_tcp_packet dst net =
     (case net_tcp net (ie_port dst) of
        None \<Rightarrow> Inr net
      | Some entry \<Rightarrow>
          if \<not> can_accept entry (ie_addr dst) then Inr net
          else if LISTEN_QUEUE_SIZE \<le> length (lte_syn_queue entry) then Inr net
          else
            rbind (wake_blocked_cid (ie_port dst) entry net) (\<lambda>net1.
            reply_blocked_ep (ie_port dst) (the (net_tcp net1 (ie_port dst))) net1))"

text \<open>Only a TCP segment with SYN and without ACK reaches the table.\<close>

definition snoop_tcp_packet :: "'ip frame \<Rightarrow> ('f, 'ip, 's) net \<Rightarrow> ((unit + unit) \<times> ('f, 'ip, 's) net) res" where
  "snoop_tcp_packet buf net =
     (case buf of
        BadFrame \<Rightarrow> Inr (Inl (), net)
      | NotTcp \<Rightarrow> Inr (Inr (), net)
      | BadTcp \<Rightarrow> Inr (Inl (), net)
      | Tcp t \<Rightarrow>
          let is_first = tp_syn t \<and> \<not> tp_ack t in
          if is_first then rbind (incoming_tcp_packet (tp_dst t) net) (\<lambda>net'. Inr (Inr (), net'))
          else Inr (Inr (), net))"

section \<open>Which listener gets which socket\<close>

text \<open>
  A queue of listeners in general: each registers a socket and waits, a connection request
  wakes the first one still waiting, and a woken listener takes the first socket of the queue.
  The relation \<open>R ps k st\<close> says that \<open>ps\<close> are the registrations whose socket is still queued and
  that the first \<open>k\<close> of them have been woken; \<open>nxt\<close> is the listener the next request wakes.
\<close>

datatype ('h, 'c) port_op = Reg 'h 'c | Syn | Acc

fun registrations :: "('h, 'c) port_op list \<Rightarrow> ('h \<times> 'c) list" where
  "registrations [] = []"
| "registrations (Reg h c # ops) = (h, c) # registrations ops"
| "registrations (Syn # ops) = registrations ops"
| "registrations (Acc # ops) = registrations ops"

text \<open>A run of such operations: the listeners woken and the sockets taken, both in order.  \<open>n\<close> counts
  the listeners that were woken and have not taken a socket yet; without one nobody takes.\<close>

fun port_run ::
  "('h \<Rightarrow> 'c \<Rightarrow> 'st \<Rightarrow> 'st res) \<Rightarrow> ('st \<Rightarrow> 'st res) \<Rightarrow> ('st \<Rightarrow> ('h \<times> 'st) res) \<Rightarrow> ('st \<Rightarrow> 'c option) \<Rightarrow>
   nat \<Rightarrow> ('h, 'c) port_op list \<Rightarrow> 'st \<Rightarrow> ('c list \<times> 'h list \<times> 'st) res" where
  "port_run reg syn acc nxt n [] st = Inr ([], [], st)"
| "port_run reg syn acc nxt n (Reg h c # ops) st = rbind (reg h c st) (port_run reg syn acc nxt n ops)"
| "port_run reg syn acc nxt n (Syn # ops) st =
     rbind (syn st) (\<lambda>st'.
     case nxt st of
       None \<Rightarrow> port_run reg syn acc nxt n ops st'
     | Some c \<Rightarrow> rbind (port_run reg syn acc nxt (Suc n) ops st') (\<lambda>(w, a, s). Inr (c # w, a, s)))"
| "port_run reg syn acc nxt n (Acc # ops) st =
     (if n = 0 then port_run reg syn acc nxt n ops st
      else rbind (acc st) (\<lambda>(h, st').
        rbind (port_run reg syn acc nxt (n - 1) ops st') (\<lambda>(w, a, s). Inr (w, h # a, s))))"

locale listener_queue =
  fixes R :: "('h \<times> 'c) list \<Rightarrow> nat \<Rightarrow> 'st \<Rightarrow> bool"
    and reg :: "'h \<Rightarrow> 'c \<Rightarrow> 'st \<Rightarrow> 'st res"
    and syn :: "'st \<Rightarrow> 'st res"
    and acc :: "'st \<Rightarrow> ('h \<times> 'st) res"
    and nxt :: "'st \<Rightarrow> 'c option"
  assumes R_bound: "R ps k st \<Longrightarrow> k \<le> length ps"
    and R_reg: "R ps k st \<Longrightarrow> reg h c st = Inr st' \<Longrightarrow> R (ps @ [(h, c)]) k st'"
    and R_nxt: "R ps k st \<Longrightarrow> nxt st = Some c \<Longrightarrow> k < length ps \<and> c = snd (ps ! k)"
    and R_syn: "R ps k st \<Longrightarrow> syn st = Inr st' \<Longrightarrow> R ps (if nxt st = None then k else Suc k) st'"
    and R_acc: "R (p # ps) (Suc k) st \<Longrightarrow> acc st = Inr (h, st') \<Longrightarrow> h = fst p \<and> R ps k st'"
begin

lemma run_pairs:
  assumes "R ps k st" and "port_run reg syn acc nxt k ops st = Inr (w, a, s)"
  shows "a = take (length a) (map fst (ps @ registrations ops)) \<and>
    w = take (length w) (map snd (drop k ps @ registrations ops)) \<and> length a \<le> k + length w"
  using assms
proof (induction ops arbitrary: ps k st w a)
  case (Cons op ops)
  note k = R_bound [OF Cons.prems(1)]
  show ?case
  proof (cases op)
    case (Reg h c)
    then obtain st' where "reg h c st = Inr st'" and run: "port_run reg syn acc nxt k ops st' = Inr (w, a, s)"
      using Cons.prems(2) by auto
    from Cons.IH [OF R_reg [OF Cons.prems(1) this(1)] run] show ?thesis using Reg k by simp
  next
    case Syn
    show ?thesis
    proof (cases "nxt st")
      case None
      then obtain st' where "syn st = Inr st'" and run: "port_run reg syn acc nxt k ops st' = Inr (w, a, s)"
        using Cons.prems(2) Syn by auto
      moreover from this(1) have "R ps k st'" using R_syn [OF Cons.prems(1)] None by fastforce
      ultimately show ?thesis using Cons.IH [of ps k st'] Syn by simp
    next
      case (Some c)
      then obtain st' w' where st': "syn st = Inr st'" and run: "port_run reg syn acc nxt (Suc k) ops st' = Inr (w', a, s)"
        and w: "w = c # w'" using Cons.prems(2) Syn by (auto split: prod.splits)
      have "R ps (Suc k) st'" using R_syn [OF Cons.prems(1) st'] Some by simp
      note IH = Cons.IH [OF this run]
      have "drop k ps = ps ! k # drop (Suc k) ps" "c = snd (ps ! k)"
        using R_nxt [OF Cons.prems(1) Some] by (simp_all add: Cons_nth_drop_Suc)
      with IH w show ?thesis using Syn by simp
    qed
  next
    case Acc
    show ?thesis
    proof (cases k)
      case 0
      then show ?thesis using Cons.IH [of ps 0 st w a] Cons.prems Acc by simp
    next
      case (Suc k')
      then obtain p ps' where ps: "ps = p # ps'" using k by (cases ps) auto
      obtain h st' a' where "acc st = Inr (h, st')" and run: "port_run reg syn acc nxt k' ops st' = Inr (w, a', s)"
        and a: "a = h # a'" using Cons.prems(2) Acc Suc by (auto split: prod.splits)
      then have "h = fst p" "R ps' k' st'" using R_acc [of p ps' k' st h st'] Cons.prems(1) ps Suc by auto
      with Cons.IH [OF this(2) run] show ?thesis using Acc Suc ps a by simp
    qed
  qed
qed simp

lemma run_owner:
  assumes "R [] 0 st" and "port_run reg syn acc nxt 0 ops st = Inr (w, a, s)"
  shows "length a \<le> length w \<and> length w \<le> length (registrations ops) \<and>
    (\<forall>i<length a. (a ! i, w ! i) = registrations ops ! i)"
proof -
  let ?r = "registrations ops"
  have a: "a = take (length a) (map fst ?r)" and w: "w = take (length w) (map snd ?r)" and le: "length a \<le> length w"
    using run_pairs [OF assms] by auto
  have lw: "length w \<le> length ?r" using w by (metis length_map length_take min.cobounded1)
  have "(a ! i, w ! i) = ?r ! i" if i: "i < length a" for i
  proof -
    have "a ! i = fst (?r ! i)" using a i le lw by (metis nth_map nth_take order_less_le_trans)
    moreover have "w ! i = snd (?r ! i)" using w i le lw by (metis nth_map nth_take order_less_le_trans)
    ultimately show ?thesis by simp
  qed
  with le lw show ?thesis by blast
qed

end

section \<open>The listen table as such a queue\<close>

definition next_blocked :: "'ip ip_endpoint \<Rightarrow> ('f, 'ip, 's) net \<Rightarrow> coroutine_id option" where
  "next_blocked dst net =
     (case net_tcp net (ie_port dst) of
        None \<Rightarrow> None
      | Some en \<Rightarrow>
          if can_accept en (ie_addr dst) \<and> length (lte_syn_queue en) < LISTEN_QUEUE_SIZE
          then (case lte_block_cids en of [] \<Rightarrow> None | c # cs \<Rightarrow> Some c)
          else None)"

text \<open>An accept as the acceptor makes it: a port without an entry panics.\<close>

definition accept_or_panic ::
  "('ip, 's) socket_api \<Rightarrow> u16 \<Rightarrow> ('f, 'ip, 's) net \<Rightarrow> (socket_handle \<times> ('f, 'ip, 's) net) res" where
  "accept_or_panic api port net =
     rbind (table_accept api port net) (\<lambda>(r, net'). case r of
       Inl u \<Rightarrow> Inl ExplicitPanic
     | Inr (h, addrs) \<Rightarrow> Inr (h, net'))"

definition port_rel :: "u16 \<Rightarrow> (socket_handle \<times> coroutine_id) list \<Rightarrow> nat \<Rightarrow> ('f, 'ip, 's) net \<Rightarrow> bool" where
  "port_rel port ps k net \<longleftrightarrow>
     (case net_tcp net port of
        None \<Rightarrow> ps = [] \<and> k = 0
      | Some en \<Rightarrow>
          k \<le> length ps \<and> lte_syn_queue en = map fst ps \<and> lte_block_cids en = map snd (drop k ps) \<and> lte_block_ep en = [])"

lemma coroutine_wake_tcp: "coroutine_wake cid net = Inr net' \<Longrightarrow> net_tcp net' = net_tcp net"
  by (auto simp: coroutine_wake_def)

text \<open>On a port without waiting endpoints, a request wakes the next listener and does nothing else.\<close>

lemma incoming_next:
  assumes "\<forall>en. net_tcp net (ie_port dst) = Some en \<longrightarrow> lte_block_ep en = []"
  shows "incoming_tcp_packet dst net =
    (case next_blocked dst net of
       None \<Rightarrow> Inr net
     | Some c \<Rightarrow>
         let en = the (net_tcp net (ie_port dst)) in
         coroutine_wake c (net\<lparr>net_tcp := (net_tcp net)(ie_port dst \<mapsto> en\<lparr>lte_block_cids := tl (lte_block_cids en)\<rparr>)\<rparr>))"
proof (cases "net_tcp net (ie_port dst)")
  case (Some en)
  have noep: "lte_block_ep en = []" using assms Some by simp
  show ?thesis
  proof (cases "lte_block_cids en")
    case Nil
    then show ?thesis using Some noep
      by (simp add: incoming_tcp_packet_def next_blocked_def wake_blocked_cid_def reply_blocked_ep_def)
  next
    case (Cons c cs)
    let ?net = "net\<lparr>net_tcp := (net_tcp net)(ie_port dst \<mapsto> en\<lparr>lte_block_cids := cs\<rparr>)\<rparr>"
    have "rbind (coroutine_wake c ?net) (\<lambda>n. reply_blocked_ep (ie_port dst) (the (net_tcp n (ie_port dst))) n) = coroutine_wake c ?net"
    proof (cases "coroutine_wake c ?net")
      case (Inr n)
      then show ?thesis using coroutine_wake_tcp [OF Inr] noep by (simp add: reply_blocked_ep_def)
    qed simp
    then show ?thesis using Some Cons by (simp add: incoming_tcp_packet_def next_blocked_def wake_blocked_cid_def not_le)
  qed
qed (simp add: incoming_tcp_packet_def next_blocked_def)

lemma table_accept_Inr:
  "table_accept api port net = Inr (Inr (h, l, r), net') \<longleftrightarrow>
    (\<exists>en hs. net_tcp net port = Some en \<and> lte_syn_queue en = h # hs \<and> sa_established api h (net_sockets net) = Inr True \<and>
       sa_endpoints api h (net_sockets net) = Inr (Some l, Some r) \<and>
       net' = net\<lparr>net_tcp := (net_tcp net)(port \<mapsto> en\<lparr>lte_syn_queue := hs\<rparr>)\<rparr>)"
proof (cases "net_tcp net port")
  case (Some en)
  show ?thesis
  proof (cases "lte_syn_queue en")
    case (Cons h0 hs)
    then show ?thesis using Some
      by (fastforce simp: table_accept_def is_connected_def get_addr_tuple_def Let_def)
  qed (use Some in \<open>simp add: table_accept_def\<close>)
qed (simp add: table_accept_def)

lemma accept_Inr:
  "accept_or_panic api port net = Inr (h, net') \<longleftrightarrow> (\<exists>l r. table_accept api port net = Inr (Inr (h, l, r), net'))"
  by (cases "table_accept api port net") (auto simp: accept_or_panic_def split: sum.splits prod.splits)

lemma next_blocked_Some:
  "next_blocked dst net = Some c \<longleftrightarrow>
    (\<exists>en cs. net_tcp net (ie_port dst) = Some en \<and> can_accept en (ie_addr dst) \<and>
       length (lte_syn_queue en) < LISTEN_QUEUE_SIZE \<and> lte_block_cids en = c # cs)"
  by (auto simp: next_blocked_def split: option.splits list.splits)

interpretation ltq: listener_queue "port_rel (ie_port dst)" "\<lambda>h c. table_listen \<lparr>le_addr = addr, le_port = ie_port dst\<rparr> h c"
  "incoming_tcp_packet dst" "accept_or_panic api (ie_port dst)" "next_blocked dst"
  for dst :: "'ip ip_endpoint" and addr api
proof (unfold_locales, goal_cases)
  case (1 ps k st)
  then show ?case by (auto simp: port_rel_def split: option.splits)
next
  case (2 ps k st h c st')
  then show ?case
    by (auto simp: port_rel_def table_listen_def table_entry_def listen_table_entry_new_def Let_def split: option.splits)
next
  case (3 ps k st c)
  then obtain en cs where "net_tcp st (ie_port dst) = Some en" "lte_block_cids en = c # cs"
    by (auto simp: next_blocked_Some)
  with 3(1) have "map snd (drop k ps) = c # cs" by (simp add: port_rel_def)
  then obtain p ps' where d: "drop k ps = p # ps'" and p: "snd p = c" by auto
  have "k < length ps" using d by (metis drop_all list.distinct(1) not_le)
  with d p show ?case by (metis nth_via_drop)
next
  case (4 ps k st st')
  let ?p = "ie_port dst"
  have noep: "\<forall>en. net_tcp st ?p = Some en \<longrightarrow> lte_block_ep en = []" using 4(1) by (auto simp: port_rel_def)
  show ?case
  proof (cases "next_blocked dst st")
    case None
    then show ?thesis using 4 incoming_next [OF noep] by simp
  next
    case (Some c)
    then obtain en cs where en: "net_tcp st ?p = Some en" and cs: "lte_block_cids en = c # cs" by (auto simp: next_blocked_Some)
    have "coroutine_wake c (st\<lparr>net_tcp := (net_tcp st)(?p \<mapsto> en\<lparr>lte_block_cids := tl (lte_block_cids en)\<rparr>)\<rparr>) = Inr st'"
      using 4(2) incoming_next [OF noep] Some en by (simp add: Let_def)
    from coroutine_wake_tcp [OF this] have st': "net_tcp st' ?p = Some (en\<lparr>lte_block_cids := cs\<rparr>)" by (simp add: cs)
    have d: "map snd (drop k ps) = c # cs" and k: "k \<le> length ps" using 4(1) en cs by (simp_all add: port_rel_def)
    then have "k < length ps" by (metis drop_all list.distinct(1) list.map_disc_iff not_le)
    moreover have "map snd (drop (Suc k) ps) = cs" using d by (metis drop_Suc list.sel(3) map_tl tl_drop)
    ultimately show ?thesis using 4(1) en st' Some cs by (simp add: port_rel_def)
  qed
next
  case (5 p ps k st h st')
  then show ?case by (auto simp: port_rel_def accept_Inr table_accept_Inr)
qed

section \<open>Properties\<close>

text \<open>C15. Coroutines that listen on one port: whatever the order of registrations, connection
  requests and accepts, as long as only woken listeners accept and do so in the order they were
  woken, the listener woken as number \<open>i\<close> gets the very socket it registered, and no more sockets
  are taken than listeners were woken.\<close>

theorem accept_gets_own_socket:
  assumes "net_tcp net (ie_port dst) = None"
    and "port_run (table_listen \<lparr>le_addr = addr, le_port = ie_port dst\<rparr>) (incoming_tcp_packet dst)
      (accept_or_panic api (ie_port dst)) (next_blocked dst) 0 ops net = Inr (woken, accepted, net')"
  shows "length accepted \<le> length woken \<and> length woken \<le> length (registrations ops) \<and>
    (\<forall>i<length accepted. (accepted ! i, woken ! i) = registrations ops ! i)"
proof -
  have "port_rel (ie_port dst) [] 0 net" using assms(1) by (simp add: port_rel_def)
  from ltq.run_owner [OF this assms(2)] show ?thesis .
qed

text \<open>A socket set for the examples in which every socket is connected, takes and returns one
  byte at a time, and whose new sockets are numbered from 0.\<close>

definition api_example :: "(u32, nat) socket_api" where
  "api_example =
     \<lparr>sa_listen = (\<lambda>port n. if port = 0 then None else Some (of_nat n, Suc n)),
      sa_remove = (\<lambda>h. Inr), sa_established = (\<lambda>h n. Inr True),
      sa_endpoints = (\<lambda>h n. Inr (Some \<lparr>ie_addr = 1, ie_port = 80\<rparr>, Some \<lparr>ie_addr = 2, ie_port = 1024\<rparr>)),
      sa_can_send = (\<lambda>h n. Inr True), sa_can_recv = (\<lambda>h n. Inr True),
      sa_send_slice = (\<lambda>h data n. (Inr (min 1 (length data)), n)),
      sa_recv_slice = (\<lambda>h len n. (Inr (replicate (min 1 len) 7), n)),
      sa_poll = (\<lambda>n. (False, [], n))\<rparr>"

definition net_example :: "('f, u32, nat) net" where
  "net_example =
     \<lparr>net_th = thread_new Map.empty, net_tcp = listen_table_new, net_sockets = 0, net_socket_2_cid = Map.empty,
      net_device_poller_cid = 65535, net_poll_cnt = 0, net_net_poll_cnt = 0, net_poll_eps = [], net_ep_sent = [],
      net_tcp_buffers = Map.empty\<rparr>"

lemma wake_executor_new: "cid < 2048 \<Longrightarrow> wake executor_new cid = Inr executor_new"
  by (simp add: wake_def executor_new_def index_res_def MAX_TASK_NUM_def word_less_nat_alt)

lemma example_sel [simp]:
  "net_tcp net_example = Map.empty" "net_sockets net_example = 0" "net_ep_sent net_example = []"
  "th_exec (net_th net_example) = executor_new"
  "sa_established api_example h n = Inr True"
  "sa_endpoints api_example h n = Inr (Some \<lparr>ie_addr = 1, ie_port = 80\<rparr>, Some \<lparr>ie_addr = 2, ie_port = 1024\<rparr>)"
  by (simp_all add: net_example_def api_example_def listen_table_new_def thread_new_def)

lemmas listen_eval = table_listen_def table_listen_with_ep_def table_entry_def listen_table_entry_new_def listen_table_new_def
  incoming_tcp_packet_def wake_blocked_cid_def reply_blocked_ep_def coroutine_wake_def can_accept_def LISTEN_QUEUE_SIZE_def
  accept_or_panic_def table_accept_def is_connected_def get_addr_tuple_def next_blocked_def guard_res_def Let_def

theorem accept_gets_own_socket_witness:
  "(\<exists>net'. port_run (table_listen \<lparr>le_addr = None, le_port = 80\<rparr>) (incoming_tcp_packet \<lparr>ie_addr = 1, ie_port = 80\<rparr>)
      (accept_or_panic api_example 80) (next_blocked \<lparr>ie_addr = 1, ie_port = 80\<rparr>) 0
      [Reg 10 3, Reg 11 4, Syn, Syn, Acc] (net_example :: (unit, u32, nat) net) = Inr ([3, 4], [10], net')) \<and>
   ([10 :: socket_handle] ! 0, [3, 4 :: coroutine_id] ! 0) = [(10, 3), (11, 4)] ! 0"
proof -
  let ?dst = "\<lparr>ie_addr = 1, ie_port = 80\<rparr> :: u32 ip_endpoint"
  obtain net' where run: "port_run (table_listen \<lparr>le_addr = None, le_port = ie_port ?dst\<rparr>) (incoming_tcp_packet ?dst)
      (accept_or_panic api_example (ie_port ?dst)) (next_blocked ?dst) 0
      [Reg 10 3, Reg 11 4, Syn, Syn, Acc] (net_example :: (unit, u32, nat) net) = Inr ([3, 4], [10], net')"
    by (simp add: listen_eval wake_executor_new)
  have "net_tcp (net_example :: (unit, u32, nat) net) (ie_port ?dst) = None" by simp
  from accept_gets_own_socket [OF this run] run show ?thesis by (simp add: exI)
qed

text \<open>A coroutine and an endpoint that listen on the same port, in this order: the first connection
  request sends the coroutine's socket to the endpoint, and the coroutine, woken by the same
  request, accepts the socket of the endpoint.\<close>

theorem mixed_listeners_swap_sockets:
  assumes "net_tcp net port = None" and "port \<noteq> 0"
    and "wake (th_exec (net_th net)) cid = Inr ex"
    and "sa_established api h2 (net_sockets net) = Inr True" and "sa_endpoints api h2 (net_sockets net) = Inr (Some l, Some r)"
  shows "\<exists>net1 net2 net3 net4.
    table_listen \<lparr>le_addr = None, le_port = port\<rparr> h1 cid net = Inr net1 \<and>
    table_listen_with_ep \<lparr>le_addr = None, le_port = port\<rparr> h2 ep net1 = Inr net2 \<and>
    incoming_tcp_packet \<lparr>ie_addr = a, ie_port = port\<rparr> net2 = Inr net3 \<and>
    net_ep_sent net3 = net_ep_sent net @ [(ep, 3, h1)] \<and> th_exec (net_th net3) = ex \<and>
    table_accept api port net3 = Inr (Inr (h2, l, r), net4)"
  using assms by (simp add: listen_eval)

theorem mixed_listeners_swap_sockets_witness:
  "\<exists>net1 net2 net3 net4.
    table_listen \<lparr>le_addr = None, le_port = 80\<rparr> 10 3 (net_example :: (unit, u32, nat) net) = Inr net1 \<and>
    table_listen_with_ep \<lparr>le_addr = None, le_port = 80\<rparr> 11 77 net1 = Inr net2 \<and>
    incoming_tcp_packet \<lparr>ie_addr = 1, ie_port = 80\<rparr> net2 = Inr net3 \<and>
    net_ep_sent net3 = [(77, 3, 10)] \<and>
    table_accept api_example 80 net3 = Inr (Inr (11, \<lparr>ie_addr = 1, ie_port = 80\<rparr>, \<lparr>ie_addr = 2, ie_port = 1024\<rparr>), net4)"
proof -
  have "wake (th_exec (net_th (net_example :: (unit, u32, nat) net))) 3 = Inr executor_new" by (simp add: wake_executor_new)
  then show ?thesis
    using mixed_listeners_swap_sockets [of net_example 80 3 executor_new api_example 11 "\<lparr>ie_addr = 1, ie_port = 80\<rparr>"
        "\<lparr>ie_addr = 2, ie_port = 1024\<rparr>" 10 77 1] by fastforce
qed

end
