(* ===== verification/Net_Stack.thy ===== *)
theory Net_Stack
  imports Listen_Table
begin

text \<open>
  The network stack's thread (\<^verbatim>\<open>net/mod.rs\<close>): the device poller, the coroutine that serves the
  requests of a client, one coroutine per accepted connection, and the processing of a single
  request.  The coroutines are the constructors of a datatype \<open>net_future\<close>, one for each point
  at which the source suspends; \<open>net_future_poll\<close> runs one from a suspension to the next and is a
  poll function for the executor.
\<close>

section \<open>State of a coroutine\<close>

definition TCP_TX_BUF_LEN :: usize where "TCP_TX_BUF_LEN = 8 * 4096"
definition TCP_RX_BUF_LEN :: usize where "TCP_RX_BUF_LEN = 8 * 4096"

datatype net_future =
    NetPollStart
  | NetPollYield
  | PollTimerStart u64
  | PollTimerYield u64
  | RecvReqStart
  | RecvReqSwitch
  | RecvReqYield
  | AcceptStart coroutine_id u16
  | AcceptYield coroutine_id u16 socket_handle
  | TcpRecvYield
  | TcpRecvBusy ipc_item

type_synonym ('ip, 's) net_state = "(net_future, 'ip, 's) net"

definition current_cid :: "('ip, 's) net_state \<Rightarrow> coroutine_id res" where
  "current_cid net = coroutine_get_current (th_exec (net_th net))"

definition tcp_buffer_new :: "u8 list" where
  "tcp_buffer_new = replicate TCP_TX_BUF_LEN 0"

definition coroutine_spawn_with_prio :: "net_future \<Rightarrow> usize \<Rightarrow> ('ip, 's) net_state \<Rightarrow> (coroutine_id \<times> ('ip, 's) net_state) res" where
  "coroutine_spawn_with_prio future prio net =
     rbind (spawn (th_exec (net_th net)) future prio) (\<lambda>(cid, ex).
     Inr (cid, net\<lparr>net_th := (net_th net)\<lparr>th_exec := ex\<rparr>\<rparr>))"

definition net_yield_resume :: "('ip, 's) net_state \<Rightarrow> (ipc_item option \<times> ('ip, 's) net_state) res" where
  "net_yield_resume net =
     rbind (yield_now_resume (net_th net)) (\<lambda>(v, th). Inr (v, net\<lparr>net_th := th\<rparr>))"

section \<open>Polling the interface\<close>

fun snoop_frames :: "'ip frame list \<Rightarrow> ('ip, 's) net_state \<Rightarrow> ('ip, 's) net_state res" where
  "snoop_frames [] net = Inr net"
| "snoop_frames (f # fs) net = rbind (snoop_tcp_packet f net) (\<lambda>(r, net'). snoop_frames fs net')"

definition iface_poll :: "('ip, 's) socket_api \<Rightarrow> bool \<Rightarrow> ('ip, 's) net_state \<Rightarrow> (bool \<times> ('ip, 's) net_state) res" where
  "iface_poll api urgent net =
     rbind (add_usize (net_poll_cnt net) 1) (\<lambda>cnt.
     if urgent \<or> 10 \<le> cnt
     then
       case sa_poll api (net_sockets net) of (ans, frames, s) \<Rightarrow>
         rbind (snoop_frames frames (net\<lparr>net_sockets := s\<rparr>)) (\<lambda>net1.
         rbind (add_usize (net_net_poll_cnt net1) 1) (\<lambda>n.
         Inr (ans, net1\<lparr>net_net_poll_cnt := n, net_poll_cnt := 0\<rparr>)))
     else Inr (False, net\<lparr>net_poll_cnt := cnt\<rparr>))"

definition wake_net_device_poller :: "('ip, 's) net_state \<Rightarrow> ('ip, 's) net_state res" where
  "wake_net_device_poller net = coroutine_wake (net_device_poller_cid net) net"

text \<open>One round of \<^verbatim>\<open>net_poll\<close>: the acknowledgement of the device interrupt does not touch this state.\<close>

definition net_poll_round :: "('ip, 's) socket_api \<Rightarrow> ('ip, 's) net_state \<Rightarrow> ('ip, 's) net_state res" where
  "net_poll_round api net = rbind (iface_poll api True net) (\<lambda>(ans, net'). Inr net')"

text \<open>One round of \<^verbatim>\<open>poll_timer\<close> at clock \<open>cur\<close>, with the next timeout.\<close>

definition poll_timer_round ::
  "('ip, 's) socket_api \<Rightarrow> u64 \<Rightarrow> u64 \<Rightarrow> ('ip, 's) net_state \<Rightarrow> (u64 \<times> ('ip, 's) net_state) res" where
  "poll_timer_round api cur timeout net =
     rbind (if timeout < cur
            then rbind (iface_poll api False net) (\<lambda>(ans, net1).
              rbind (guard_res (unat cur + 10000 < 2 ^ 64) ArithOverflow) (\<lambda>_. Inr (cur + 10000, net1)))
            else Inr (timeout, net)) (\<lambda>(timeout', net1).
     rbind (current_cid net1) (\<lambda>cid.
     rbind (coroutine_wake cid net1) (\<lambda>net2. Inr (timeout', net2))))"

text \<open>\<^verbatim>\<open>init\<close> spawns the poller; the interrupt's capabilities are set up by the device component.\<close>

definition net_init :: "('ip, 's) net_state \<Rightarrow> ('ip, 's) net_state res" where
  "net_init net =
     (let net0 = net\<lparr>net_th := (net_th net)\<lparr>th_exec := executor_init (th_exec (net_th net))\<rparr>\<rparr> in
      rbind (coroutine_spawn_with_prio NetPollStart 0 net0) (\<lambda>(cid, net1).
      Inr (net1\<lparr>net_device_poller_cid := cid\<rparr>)))"

section \<open>Replies\<close>

text \<open>Writing a reply into the shared buffer, and a user interrupt to the client when its receiver is
  marked idle.\<close>

definition write_reply :: "async_args \<Rightarrow> ipc_item \<Rightarrow> ('ip, 's) net_state \<Rightarrow> ('ip, 's) net_state res" where
  "write_reply args item net =
     rbind (unwrap (aa_ipc_new_buffer args)) (\<lambda>ptr.
     case th_buffers (net_th net) ptr of
       None \<Rightarrow> Inl BadPointer
     | Some nb \<Rightarrow>
         rbind (write_free_item (nb_res_items nb) item) (\<lambda>w. case w of
           Inl u \<Rightarrow> Inl UnwrapErr
         | Inr q \<Rightarrow>
             let th = net_th net; nb1 = nb\<lparr>nb_res_items := q\<rparr> in
             if nb_recv_reply_status nb1 = False
             then rbind (unwrap (aa_server_sender_id args)) (\<lambda>sid.
               Inr (net\<lparr>net_th := th\<lparr>th_buffers := (th_buffers th)(ptr \<mapsto> nb1\<lparr>nb_recv_reply_status := True\<rparr>),
                 th_signals := th_signals th @ [Uipi sid]\<rparr>\<rparr>))
             else Inr (net\<lparr>net_th := th\<lparr>th_buffers := (th_buffers th)(ptr \<mapsto> nb1)\<rparr>\<rparr>)))"

section \<open>Processing a request\<close>

definition tcp_buffer_at :: "('ip, 's) net_state \<Rightarrow> u64 \<Rightarrow> u8 list res" where
  "tcp_buffer_at net addr = (case net_tcp_buffers net addr of None \<Rightarrow> Inl BadPointer | Some d \<Rightarrow> Inr d)"

definition process_listen :: "ipc_item \<Rightarrow> ('ip, 's) net_state \<Rightarrow> (ipc_item option \<times> ('ip, 's) net_state) res" where
  "process_listen item net =
     (let port = get_port item in
      rbind (coroutine_spawn_with_prio (AcceptStart (item_cid item) (ucast port)) 2 net) (\<lambda>(cid, net').
      Inr (None, net')))"

definition process_send ::
  "('ip, 's) socket_api \<Rightarrow> ipc_item \<Rightarrow> ('ip, 's) net_state \<Rightarrow> (ipc_item option \<times> ('ip, 's) net_state) res" where
  "process_send api item net =
     (let cid = get_cid item; handler = get_socket_handler item; len = unat (get_len item) in
      rbind (tcp_buffer_at net (get_buffer item)) (\<lambda>tcp_data.
      rbind (sa_can_send api handler (net_sockets net)) (\<lambda>can_send.
      if can_send
      then
        rbind (guard_res (len \<le> length tcp_data) IndexOutOfBounds) (\<lambda>_.
        case sa_send_slice api handler (take len tcp_data) (net_sockets net) of
          (Inr send_size, s) \<Rightarrow>
            let reply = mb_send_reply cid (of_nat send_size) in
            rbind (iface_poll api True (net\<lparr>net_sockets := s\<rparr>)) (\<lambda>(ans, net'). Inr (Some reply, net'))
        | (Inl e, s) \<Rightarrow> Inr (None, net\<lparr>net_sockets := s\<rparr>))
      else Inr (None, net))))"

text \<open>Receiving into the buffer at \<open>addr\<close>: what the socket returns replaces the front of the buffer.\<close>

definition recv_into ::
  "('ip, 's) socket_api \<Rightarrow> socket_handle \<Rightarrow> u64 \<Rightarrow> u8 list \<Rightarrow> usize \<Rightarrow> ('ip, 's) net_state \<Rightarrow>
   (unit + usize) \<times> ('ip, 's) net_state" where
  "recv_into api handler addr tcp_data len net =
     (case sa_recv_slice api handler (min (length tcp_data) len) (net_sockets net) of
        (Inr bytes, s) \<Rightarrow>
          (Inr (length bytes),
           net\<lparr>net_sockets := s, net_tcp_buffers := (net_tcp_buffers net)(addr \<mapsto> bytes @ drop (length bytes) tcp_data)\<rparr>)
      | (Inl e, s) \<Rightarrow> (Inl (), net\<lparr>net_sockets := s\<rparr>))"

definition process_recv ::
  "('ip, 's) socket_api \<Rightarrow> ipc_item \<Rightarrow> ('ip, 's) net_state \<Rightarrow> (ipc_item option \<times> ('ip, 's) net_state) res" where
  "process_recv api item net =
     (let cid = get_cid item; handler = get_socket_handler item; len = unat (get_len item) in
      rbind (tcp_buffer_at net (get_buffer item)) (\<lambda>tcp_data.
      rbind (sa_can_recv api handler (net_sockets net)) (\<lambda>can_recv.
      if can_recv
      then
        case recv_into api handler (get_buffer item) tcp_data len net of
          (Inr read_size, net') \<Rightarrow> Inr (Some (mb_recv_reply cid (of_nat read_size)), net')
        | (Inl e, net') \<Rightarrow> Inr (None, net')
      else
        rbind (unwrap (net_socket_2_cid net handler)) (\<lambda>rcid.
        rbind (wake_with_value (net_th net) rcid item) (\<lambda>th.
        Inr (None, net\<lparr>net_th := th\<rparr>))))))"

definition process_req ::
  "('ip, 's) socket_api \<Rightarrow> ipc_item \<Rightarrow> ('ip, 's) net_state \<Rightarrow> (ipc_item option \<times> ('ip, 's) net_state) res" where
  "process_req api item net =
     rbind (get_type item) (\<lambda>t. case t of
       NetPollReq \<Rightarrow> rbind (wake_net_device_poller net) (\<lambda>net'. Inr (None, net'))
     | Listen \<Rightarrow> process_listen item net
     | Send \<Rightarrow> process_send api item net
     | Recv \<Rightarrow> process_recv api item net
     | _ \<Rightarrow> Inl ExplicitPanic)"

section \<open>What requests leave unchanged\<close>

text \<open>Processing a request never touches the shared buffers: replies are written by the caller.\<close>

named_theorems keeps_buffers \<open>operations that keep the shared buffers\<close>

lemma coroutine_wake_buffers [keeps_buffers]:
  "coroutine_wake cid net = Inr net' \<Longrightarrow> th_buffers (net_th net') = th_buffers (net_th net)"
  by (auto simp: coroutine_wake_def)

lemma wake_blocked_buffers [keeps_buffers]:
  "wake_blocked_cid port en net = Inr net' \<Longrightarrow> th_buffers (net_th net') = th_buffers (net_th net)"
  by (auto simp: wake_blocked_cid_def split: list.splits dest: coroutine_wake_buffers)

lemma reply_blocked_buffers [keeps_buffers]:
  "reply_blocked_ep port en net = Inr net' \<Longrightarrow> th_buffers (net_th net') = th_buffers (net_th net)"
  by (auto simp: reply_blocked_ep_def split: list.splits)

lemma incoming_buffers [keeps_buffers]:
  "incoming_tcp_packet dst net = Inr net' \<Longrightarrow> th_buffers (net_th net') = th_buffers (net_th net)"
  by (auto simp: incoming_tcp_packet_def split: option.splits if_splits dest!: wake_blocked_buffers reply_blocked_buffers)

lemma snoop_buffers [keeps_buffers]:
  "snoop_tcp_packet f net = Inr (r, net') \<Longrightarrow> th_buffers (net_th net') = th_buffers (net_th net)"
  by (auto simp: snoop_tcp_packet_def Let_def split: frame.splits if_splits dest: incoming_buffers)

lemma snoop_frames_buffers [keeps_buffers]:
  "snoop_frames fs net = Inr net' \<Longrightarrow> th_buffers (net_th net') = th_buffers (net_th net)"
  by (induction fs net rule: snoop_frames.induct) (auto dest: snoop_buffers)

lemma iface_poll_buffers [keeps_buffers]:
  "iface_poll api urgent net = Inr (ans, net') \<Longrightarrow> th_buffers (net_th net') = th_buffers (net_th net)"
  by (auto simp: iface_poll_def split: if_splits prod.splits dest!: snoop_frames_buffers)

lemma spawn_buffers [keeps_buffers]:
  "coroutine_spawn_with_prio f p net = Inr (cid, net') \<Longrightarrow> th_buffers (net_th net') = th_buffers (net_th net)"
  by (auto simp: coroutine_spawn_with_prio_def)

lemma recv_into_buffers [keeps_buffers]:
  "recv_into api h a d len net = (r, net') \<Longrightarrow> th_buffers (net_th net') = th_buffers (net_th net)"
  by (auto simp: recv_into_def split: prod.splits sum.splits)

lemma process_req_buffers:
  assumes "process_req api item net = Inr (r, net')"
  shows "th_buffers (net_th net') = th_buffers (net_th net)"
proof -
  obtain t where t: "get_type item = Inr t" using assms by (auto simp: process_req_def)
  show ?thesis
  proof (cases t)
    case Send
    with assms t show ?thesis
      by (auto simp: process_req_def process_send_def Let_def split: if_splits prod.splits sum.splits dest!: iface_poll_buffers)
  next
    case Recv
    with assms t show ?thesis
      by (auto simp: process_req_def process_recv_def Let_def split: if_splits prod.splits sum.splits
          dest!: recv_into_buffers wake_with_value_buffers)
  qed (use assms t in \<open>auto simp: process_req_def process_listen_def wake_net_device_poller_def Let_def
      dest!: coroutine_wake_buffers spawn_buffers\<close>)
qed

lemma possible_switch_buffers: "possible_switch th = Inr (sw, th') \<Longrightarrow> th_buffers th' = th_buffers th"
  by (auto simp: possible_switch_def split: if_splits)

definition req_count :: "usize \<Rightarrow> ('ip, 's) net_state \<Rightarrow> nat" where
  "req_count ptr net = (case th_buffers (net_th net) ptr of None \<Rightarrow> 0 | Some nb \<Rightarrow> srb_count (nb_req_items nb))"

lemma req_count_cong: "th_buffers (net_th net') = th_buffers (net_th net) \<Longrightarrow> req_count ptr net' = req_count ptr net"
  by (simp add: req_count_def)

text \<open>The effect of a reply: one more item in the reply queue, the receiver marked as busy, and a user
  interrupt exactly when it was marked idle before.\<close>

lemma write_reply_Inr:
  assumes "write_reply args item net = Inr net'"
  shows "\<exists>ptr nb q. aa_ipc_new_buffer args = Some ptr \<and> th_buffers (net_th net) ptr = Some nb \<and>
    write_free_item (nb_res_items nb) item = Inr (Inr q) \<and>
    net' = net\<lparr>net_th := (net_th net)\<lparr>
      th_buffers := (th_buffers (net_th net))(ptr \<mapsto> nb\<lparr>nb_res_items := q, nb_recv_reply_status := True\<rparr>),
      th_signals := th_signals (net_th net) @ (if nb_recv_reply_status nb then [] else [Uipi (the (aa_server_sender_id args))])\<rparr>\<rparr>"
proof -
  obtain ptr where ptr: "aa_ipc_new_buffer args = Some ptr" using assms by (auto simp: write_reply_def)
  obtain nb where nb: "th_buffers (net_th net) ptr = Some nb"
    using assms ptr by (cases "th_buffers (net_th net) ptr") (auto simp: write_reply_def)
  obtain w where w: "write_free_item (nb_res_items nb) item = Inr w"
    using assms ptr nb by (cases "write_free_item (nb_res_items nb) item") (auto simp: write_reply_def)
  obtain q where q: "w = Inr q" using assms ptr nb w by (cases w) (auto simp: write_reply_def)
  have same: "nb\<lparr>nb_res_items := q, nb_recv_reply_status := True\<rparr> = nb\<lparr>nb_res_items := q\<rparr>" if "nb_recv_reply_status nb"
    using that by (cases nb) simp
  show ?thesis
  proof (cases "nb_recv_reply_status nb")
    case True
    then have "net' = net\<lparr>net_th := (net_th net)\<lparr>
        th_buffers := (th_buffers (net_th net))(ptr \<mapsto> nb\<lparr>nb_res_items := q, nb_recv_reply_status := True\<rparr>)\<rparr>\<rparr>"
      unfolding same [OF True] using assms ptr nb w q by (simp add: write_reply_def Let_def)
    then show ?thesis using ptr nb w q True by simp
  qed (use assms ptr nb w q in \<open>auto simp: write_reply_def Let_def\<close>)
qed

lemma write_reply_req_count: "write_reply args item net = Inr net' \<Longrightarrow> req_count ptr net' = req_count ptr net"
  by (drule write_reply_Inr) (auto simp: req_count_def)

section \<open>The coroutines\<close>

definition reply_if :: "async_args \<Rightarrow> ipc_item option \<Rightarrow> ('ip, 's) net_state \<Rightarrow> ('ip, 's) net_state res" where
  "reply_if args r net = (case r of None \<Rightarrow> Inr net | Some item \<Rightarrow> write_reply args item net)"

lemma reply_if_req_count: "reply_if args r net = Inr net' \<Longrightarrow> req_count ptr net' = req_count ptr net"
  by (auto simp: reply_if_def split: option.splits dest: write_reply_req_count)

text \<open>The state after a request has been taken off the queue.\<close>

definition req_popped :: "usize \<Rightarrow> new_buffer \<Rightarrow> items_queue \<Rightarrow> ('ip, 's) net_state \<Rightarrow> ('ip, 's) net_state" where
  "req_popped ptr nb q net =
     net\<lparr>net_th := (net_th net)\<lparr>th_buffers := (th_buffers (net_th net))(ptr \<mapsto> nb\<lparr>nb_req_items := q\<rparr>)\<rparr>\<rparr>"

lemma req_popped_sel [simp]:
  "net_sockets (req_popped ptr nb q net) = net_sockets net" "net_tcp_buffers (req_popped ptr nb q net) = net_tcp_buffers net"
  "net_poll_cnt (req_popped ptr nb q net) = net_poll_cnt net" "net_net_poll_cnt (req_popped ptr nb q net) = net_net_poll_cnt net"
  "th_buffers (net_th (req_popped ptr nb q net)) ptr = Some (nb\<lparr>nb_req_items := q\<rparr>)"
  "th_signals (net_th (req_popped ptr nb q net)) = th_signals (net_th net)"
  by (simp_all add: req_popped_def)

lemma served_req_count:
  assumes "th_buffers (net_th net) ptr = Some nb" and "get_first_item (nb_req_items nb) = Inr (Some item, q)"
    and "process_req api item (req_popped ptr nb q net) = Inr (reply, net1)" and "reply_if args reply net1 = Inr net2"
  shows "req_count ptr net2 < req_count ptr net"
  using assms(1) get_first_item_count [OF assms(2)] reply_if_req_count [OF assms(4)] req_count_cong [OF process_req_buffers [OF assms(3)]]
  by (simp add: req_count_def)

lemma switched_req_count:
  "possible_switch (net_th net) = Inr (sw, th) \<Longrightarrow> req_count ptr (net\<lparr>net_th := th\<rparr>) = req_count ptr net"
  by (simp add: req_count_def possible_switch_buffers)

text \<open>The loop of \<^verbatim>\<open>nw_recv_req_coroutine\<close> from one suspension to the next.  Every twenty requests the
  coroutine offers to switch.\<close>

function recv_req_loop ::
  "('ip, 's) socket_api \<Rightarrow> async_args \<Rightarrow> usize \<Rightarrow> usize \<Rightarrow> ('ip, 's) net_state \<Rightarrow> (net_future \<times> ('ip, 's) net_state) res" where
  "recv_req_loop api args ptr cnt net =
     (case th_buffers (net_th net) ptr of
        None \<Rightarrow> Inl BadPointer
      | Some nb \<Rightarrow>
          rbind (get_first_item (nb_req_items nb)) (\<lambda>(r, q). case r of
            Some item \<Rightarrow>
              rbind (process_req api item (req_popped ptr nb q net)) (\<lambda>(reply, net1).
              rbind (reply_if args reply net1) (\<lambda>net2.
              if 20 \<le> cnt + 1
              then rbind (possible_switch (net_th net2)) (\<lambda>(sw, th').
                if sw then Inr (RecvReqSwitch, net2\<lparr>net_th := th'\<rparr>)
                else recv_req_loop api args ptr 0 (net2\<lparr>net_th := th'\<rparr>))
              else recv_req_loop api args ptr (cnt + 1) net2))
          | None \<Rightarrow>
              Inr (RecvReqYield,
                net\<lparr>net_th := (net_th net)\<lparr>th_buffers := (th_buffers (net_th net))(ptr \<mapsto>
                  nb\<lparr>nb_req_items := q, nb_recv_req_status := False\<rparr>)\<rparr>\<rparr>)))"
  by pat_completeness auto
termination
  by (relation "measure (\<lambda>(api, args, ptr, cnt, net). req_count ptr net)")
    (auto simp: switched_req_count dest: served_req_count)

declare recv_req_loop.simps [simp del]

text \<open>Its two cases as equations.\<close>

lemma recv_req_empty:
  assumes "th_buffers (net_th net) ptr = Some nb" and "get_first_item (nb_req_items nb) = Inr (None, q)"
  shows "recv_req_loop api args ptr cnt net = Inr (RecvReqYield,
    net\<lparr>net_th := (net_th net)\<lparr>th_buffers := (th_buffers (net_th net))(ptr \<mapsto> nb\<lparr>nb_req_items := q, nb_recv_req_status := False\<rparr>)\<rparr>\<rparr>)"
  using assms by (subst recv_req_loop.simps) simp

lemma recv_req_next:
  assumes "th_buffers (net_th net) ptr = Some nb" and "get_first_item (nb_req_items nb) = Inr (Some item, q)"
  shows "recv_req_loop api args ptr cnt net =
    rbind (process_req api item (req_popped ptr nb q net)) (\<lambda>(reply, net1).
    rbind (reply_if args reply net1) (\<lambda>net2.
    if 20 \<le> cnt + 1
    then rbind (possible_switch (net_th net2)) (\<lambda>(sw, th').
      if sw then Inr (RecvReqSwitch, net2\<lparr>net_th := th'\<rparr>)
      else recv_req_loop api args ptr 0 (net2\<lparr>net_th := th'\<rparr>))
    else recv_req_loop api args ptr (cnt + 1) net2))"
  using assms by (subst recv_req_loop.simps) simp

text \<open>\<^verbatim>\<open>tcp_recv_coroutine\<close> with a request at hand: it waits, waking itself, until the socket has data.\<close>

definition tcp_recv_busy ::
  "('ip, 's) socket_api \<Rightarrow> async_args \<Rightarrow> ipc_item \<Rightarrow> ('ip, 's) net_state \<Rightarrow> (net_future \<times> ('ip, 's) net_state) res" where
  "tcp_recv_busy api args item net =
     (let cid = get_cid item; handler = get_socket_handler item; len = unat (get_len item) in
      rbind (tcp_buffer_at net (get_buffer item)) (\<lambda>tcp_data.
      rbind (sa_can_recv api handler (net_sockets net)) (\<lambda>can_recv.
      if can_recv
      then
        case recv_into api handler (get_buffer item) tcp_data len net of
          (Inr read_size, net1) \<Rightarrow>
            rbind (write_reply args (mb_recv_reply cid (of_nat read_size)) net1) (\<lambda>net2. Inr (TcpRecvYield, net2))
        | (Inl e, net1) \<Rightarrow> Inr (TcpRecvYield, net1)
      else
        rbind (current_cid net) (\<lambda>cur.
        rbind (coroutine_wake cur net) (\<lambda>net1. Inr (TcpRecvBusy item, net1))))))"

definition tcp_accept_start ::
  "('ip, 's) socket_api \<Rightarrow> coroutine_id \<Rightarrow> u16 \<Rightarrow> ('ip, 's) net_state \<Rightarrow> (net_future \<times> ('ip, 's) net_state) res" where
  "tcp_accept_start api cid port net =
     (case sa_listen api port (net_sockets net) of
        None \<Rightarrow> Inl UnwrapErr
      | Some (handler, s) \<Rightarrow>
          rbind (current_cid net) (\<lambda>cur.
          rbind (table_listen \<lparr>le_addr = None, le_port = port\<rparr> handler cur (net\<lparr>net_sockets := s\<rparr>)) (\<lambda>net1.
          Inr (AcceptYield cid port handler, net1))))"

definition tcp_accept_finish ::
  "('ip, 's) socket_api \<Rightarrow> async_args \<Rightarrow> coroutine_id \<Rightarrow> u16 \<Rightarrow> socket_handle \<Rightarrow> ('ip, 's) net_state \<Rightarrow>
   (net_future \<times> ('ip, 's) net_state) res" where
  "tcp_accept_finish api args cid port handler net =
     rbind (unwrap (aa_ipc_new_buffer args)) (\<lambda>ptr.
     rbind (table_accept api port net) (\<lambda>(r, net1). case r of
       Inl u \<Rightarrow> Inl ExplicitPanic
     | Inr (handle, addrs) \<Rightarrow>
         rbind (write_reply args (mb_listen_reply cid handle) net1) (\<lambda>net2.
         rbind (current_cid net2) (\<lambda>cur.
         Inr (TcpRecvYield, net2\<lparr>net_socket_2_cid := (net_socket_2_cid net2)(handler \<mapsto> cur)\<rparr>)))))"

text \<open>One poll of a coroutine; none of them ever finishes.  \<open>clock\<close> is the cycle counter.\<close>

definition net_future_step ::
  "('ip, 's) socket_api \<Rightarrow> async_args \<Rightarrow> (('ip, 's) net_state \<Rightarrow> u64) \<Rightarrow> net_future \<Rightarrow> ('ip, 's) net_state \<Rightarrow>
   (net_future \<times> ('ip, 's) net_state) res" where
  "net_future_step api args clock f net =
     (case f of
        NetPollStart \<Rightarrow> rbind (net_poll_round api net) (\<lambda>net'. Inr (NetPollYield, net'))
      | NetPollYield \<Rightarrow> rbind (net_yield_resume net) (\<lambda>(v, net1).
          rbind (net_poll_round api net1) (\<lambda>net'. Inr (NetPollYield, net')))
      | PollTimerStart timeout \<Rightarrow> rbind (poll_timer_round api (clock net) timeout net) (\<lambda>(t, net'). Inr (PollTimerYield t, net'))
      | PollTimerYield timeout \<Rightarrow> rbind (net_yield_resume net) (\<lambda>(v, net1).
          rbind (poll_timer_round api (clock net1) timeout net1) (\<lambda>(t, net'). Inr (PollTimerYield t, net')))
      | RecvReqStart \<Rightarrow> rbind (unwrap (aa_ipc_new_buffer args)) (\<lambda>ptr. recv_req_loop api args ptr 0 net)
      | RecvReqSwitch \<Rightarrow> rbind (net_yield_resume net) (\<lambda>(v, net1).
          rbind (unwrap (aa_ipc_new_buffer args)) (\<lambda>ptr. recv_req_loop api args ptr 0 net1))
      | RecvReqYield \<Rightarrow> rbind (net_yield_resume net) (\<lambda>(v, net1).
          rbind (unwrap (aa_ipc_new_buffer args)) (\<lambda>ptr. recv_req_loop api args ptr 0 net1))
      | AcceptStart cid port \<Rightarrow> tcp_accept_start api cid port net
      | AcceptYield cid port handler \<Rightarrow> rbind (net_yield_resume net) (\<lambda>(v, net1).
          tcp_accept_finish api args cid port handler net1)
      | TcpRecvYield \<Rightarrow> rbind (net_yield_resume net) (\<lambda>(v, net1). case v of
          None \<Rightarrow> Inr (TcpRecvYield, net1)
        | Some item \<Rightarrow> tcp_recv_busy api args item net1)
      | TcpRecvBusy item \<Rightarrow> rbind (net_yield_resume net) (\<lambda>(v, net1). tcp_recv_busy api args item net1))"

definition net_future_poll ::
  "('ip, 's) socket_api \<Rightarrow> async_args \<Rightarrow> (('ip, 's) net_state \<Rightarrow> u64) \<Rightarrow> (net_future, ('ip, 's) net_state) poll_fn" where
  "net_future_poll api args clock f ex net =
     rbind (net_future_step api args clock f (net\<lparr>net_th := (net_th net)\<lparr>th_exec := ex\<rparr>\<rparr>)) (\<lambda>(f', net').
     Inr (Pending, f', th_exec (net_th net'), net'))"

end
