(* ===== verification/Tcp_Client.thy ===== *)
theory Tcp_Client
  imports Net_Stack
begin

text \<open>
  The client side of the network stack: the asynchronous calls of \<^verbatim>\<open>net/tcp.rs\<close>, which go through
  \<^verbatim>\<open>seL4_Call_with_item\<close>, and the synchronous ones of \<^verbatim>\<open>net/sync_tcp.rs\<close>, which send and receive on a
  kernel endpoint.  A client thread remembers which server each of its sockets belongs to.
\<close>

section \<open>State\<close>

record 'f tcp_client =
  tc_th :: "'f thread"
  tc_net_stack_map :: "socket_handle \<rightharpoonup> sender_id"
  tc_net_stack_map2 :: "socket_handle \<rightharpoonup> cptr"

section \<open>Asynchronous calls\<close>

text \<open>Each call is cut at its \<^verbatim>\<open>await\<close>; the boolean of the first half is \<^const>\<open>False\<close> when there is no
  buffer for the server and the call returns \<^verbatim>\<open>Err\<close> at once.\<close>

definition tcp_submit :: "sender_id \<Rightarrow> (coroutine_id \<Rightarrow> ipc_item) \<Rightarrow> 'f tcp_client \<Rightarrow> (bool \<times> 'f tcp_client) res" where
  "tcp_submit sid message c =
     rbind (coroutine_get_current (th_exec (tc_th c))) (\<lambda>cid.
     rbind (seL4_Call_with_item (tc_th c) sid (message cid)) (\<lambda>(suspended, th).
     Inr (suspended, c\<lparr>tc_th := th\<rparr>)))"

text \<open>The reply, checked to be of the expected kind, or \<^verbatim>\<open>Err\<close>.\<close>

definition tcp_reply :: "message_type \<Rightarrow> 'f tcp_client \<Rightarrow> ((unit + ipc_item) \<times> 'f tcp_client) res" where
  "tcp_reply expected c =
     rbind (seL4_Call_with_item_resume (tc_th c)) (\<lambda>(r, th).
     let c' = c\<lparr>tc_th := th\<rparr> in
     case r of
       Inl e \<Rightarrow> Inr (Inl (), c')
     | Inr reply \<Rightarrow>
         rbind (get_type reply) (\<lambda>t.
         rbind (guard_res (t = expected) AssertFailed) (\<lambda>_. Inr (Inr reply, c'))))"

definition tcp_listen :: "u64 \<Rightarrow> sender_id \<Rightarrow> 'f tcp_client \<Rightarrow> (bool \<times> 'f tcp_client) res" where
  "tcp_listen port nw_sender_id c = tcp_submit nw_sender_id (\<lambda>cid. mb_listen cid port) c"

definition tcp_listen_resume :: "sender_id \<Rightarrow> 'f tcp_client \<Rightarrow> ((unit + socket_handle) \<times> 'f tcp_client) res" where
  "tcp_listen_resume nw_sender_id c =
     rbind (tcp_reply ListenReply c) (\<lambda>(r, c'). case r of
       Inl e \<Rightarrow> Inr (Inl (), c')
     | Inr reply \<Rightarrow>
         let handler = get_socket_handler reply in
         Inr (Inr handler, c'\<lparr>tc_net_stack_map := (tc_net_stack_map c')(handler \<mapsto> nw_sender_id)\<rparr>))"

definition tcp_send :: "socket_handle \<Rightarrow> u64 \<Rightarrow> u64 \<Rightarrow> 'f tcp_client \<Rightarrow> (bool \<times> 'f tcp_client) res" where
  "tcp_send handler buffer len c =
     rbind (unwrap (tc_net_stack_map c handler)) (\<lambda>nw_sender_id.
     tcp_submit nw_sender_id (\<lambda>cid. mb_send cid handler buffer len) c)"

definition tcp_send_resume :: "'f tcp_client \<Rightarrow> ((unit + u64) \<times> 'f tcp_client) res" where
  "tcp_send_resume c =
     rbind (tcp_reply SendReply c) (\<lambda>(r, c'). case r of
       Inl e \<Rightarrow> Inr (Inl (), c')
     | Inr reply \<Rightarrow> Inr (Inr (get_len reply), c'))"

definition tcp_recv :: "socket_handle \<Rightarrow> u64 \<Rightarrow> u64 \<Rightarrow> 'f tcp_client \<Rightarrow> (bool \<times> 'f tcp_client) res" where
  "tcp_recv handler buffer len c =
     rbind (unwrap (tc_net_stack_map c handler)) (\<lambda>nw_sender_id.
     tcp_submit nw_sender_id (\<lambda>cid. mb_recv cid handler buffer len) c)"

definition tcp_recv_resume :: "'f tcp_client \<Rightarrow> ((unit + u64) \<times> 'f tcp_client) res" where
  "tcp_recv_resume c =
     rbind (tcp_reply RecvReply c) (\<lambda>(r, c'). case r of
       Inl e \<Rightarrow> Inr (Inl (), c')
     | Inr reply \<Rightarrow> Inr (Inr (get_len reply), c'))"

section \<open>Synchronous calls\<close>

text \<open>An endpoint's server is a parameter: the message registers it answers a message with.\<close>

type_synonym ep_server = "cptr \<Rightarrow> u64 list \<Rightarrow> u64 list"

definition sync_exchange :: "ep_server \<Rightarrow> cptr \<Rightarrow> u64 list \<Rightarrow> u64 res" where
  "sync_exchange server ep msg = index_res (server ep msg) 1"

definition sync_listen :: "ep_server \<Rightarrow> u16 \<Rightarrow> cptr \<Rightarrow> 'f tcp_client \<Rightarrow> ((unit + socket_handle) \<times> 'f tcp_client) res" where
  "sync_listen server port ep c =
     rbind (sync_exchange server ep [ucast (message_code Listen), ucast port]) (\<lambda>handler.
     Inr (Inr handler, c\<lparr>tc_net_stack_map2 := (tc_net_stack_map2 c)(handler \<mapsto> ep)\<rparr>))"

definition sync_send :: "ep_server \<Rightarrow> socket_handle \<Rightarrow> u64 \<Rightarrow> u64 \<Rightarrow> 'f tcp_client \<Rightarrow> (unit + u64) res" where
  "sync_send server handler buffer len c =
     rbind (unwrap (tc_net_stack_map2 c handler)) (\<lambda>ep.
     rbind (sync_exchange server ep [ucast (message_code Send), handler, buffer, len]) (\<lambda>n. Inr (Inr n)))"

definition sync_recv :: "ep_server \<Rightarrow> socket_handle \<Rightarrow> u64 \<Rightarrow> u64 \<Rightarrow> 'f tcp_client \<Rightarrow> (unit + u64) res" where
  "sync_recv server handler buffer len c =
     rbind (unwrap (tc_net_stack_map2 c handler)) (\<lambda>ep.
     rbind (sync_exchange server ep [ucast (message_code Recv), handler, buffer, len]) (\<lambda>n. Inr (Inr n)))"

section \<open>A call from end to end\<close>

lemma of_nat_u16_exact: "n < 65536 \<Longrightarrow> (ucast (ucast (of_nat n :: u64) :: u16) :: u64) = of_nat n"
  by (simp add: ucast_u16_roundtrip unat_of_nat take_bit_nat_eq_self)

lemma resume_value:
  assumes "ex_current (th_exec th) = Some cid" and "unat cid < length (th_immediate_value th)"
    and "th_immediate_value th ! unat cid = Some reply"
  shows "seL4_Call_with_item_resume th = Inr (Inr reply, th\<lparr>th_immediate_value := (th_immediate_value th)[unat cid := None]\<rparr>)"
  using assms by (simp add: seL4_Call_with_item_resume_def yield_now_resume_def coroutine_get_current_def index_res_def)

text \<open>A client to whose coroutine \<open>cid\<close> a reply has been delivered.\<close>

definition has_reply :: "coroutine_id \<Rightarrow> ipc_item \<Rightarrow> 'f tcp_client \<Rightarrow> bool" where
  "has_reply cid reply c \<longleftrightarrow>
     ex_current (th_exec (tc_th c)) = Some cid \<and> unat cid < length (th_immediate_value (tc_th c)) \<and>
     th_immediate_value (tc_th c) ! unat cid = Some reply"

definition took_reply :: "coroutine_id \<Rightarrow> 'f tcp_client \<Rightarrow> 'f tcp_client" where
  "took_reply cid c =
     c\<lparr>tc_th := (tc_th c)\<lparr>th_immediate_value := (th_immediate_value (tc_th c))[unat cid := None]\<rparr>\<rparr>"

lemma tcp_reply_value:
  "has_reply cid reply c \<Longrightarrow> get_type reply = Inr t \<Longrightarrow> tcp_reply t c = Inr (Inr reply, took_reply cid c)"
  by (simp add: tcp_reply_def has_reply_def took_reply_def resume_value guard_res_def)

lemma process_send_ok:
  assumes "unat h < 65536" and "unat len < 65536" and "unat len \<le> length data" and "net_tcp_buffers net b = Some data"
    and "sa_can_send api h (net_sockets net) = Inr True"
    and "sa_send_slice api h (take (unat len) data) (net_sockets net) = (Inr n, s)"
    and "iface_poll api True (net\<lparr>net_sockets := s\<rparr>) = Inr (ans, net')"
  shows "process_req api (mb_send cid h b len) net = Inr (Some (mb_send_reply cid (of_nat n)), net')"
  using assms by (simp add: process_req_def process_send_def tcp_buffer_at_def ucast_u16_roundtrip [THEN iffD2] guard_res_def)

lemma process_recv_ok:
  assumes "unat h < 65536" and "unat len < 65536" and "net_tcp_buffers net b = Some data"
    and "sa_can_recv api h (net_sockets net) = Inr True"
    and "sa_recv_slice api h (min (length data) (unat len)) (net_sockets net) = (Inr bytes, s)"
  shows "process_req api (mb_recv cid h b len) net = Inr (Some (mb_recv_reply cid (of_nat (length bytes))),
    net\<lparr>net_sockets := s, net_tcp_buffers := (net_tcp_buffers net)(b \<mapsto> bytes @ drop (length bytes) data)\<rparr>)"
  using assms by (simp add: process_req_def process_recv_def tcp_buffer_at_def recv_into_def ucast_u16_roundtrip [THEN iffD2])

end
