(* ===== verification/Sync_Server.thy ===== *)
theory Sync_Server
  imports Tcp_Client "HOL-Library.Multiset"
begin

text \<open>
  The synchronous server of the network benchmark (\<^verbatim>\<open>sync_tcp_test.rs\<close>): it polls one kernel endpoint per client,
  processes the requests that \<^verbatim>\<open>net/sync_tcp.rs\<close> sends, and keeps the receives that found no data in a list.

  What an endpoint's \<^verbatim>\<open>nb_recv\<close> returns is a parameter: a badge, 0 when there is no message and 1 for the interrupt of
  the network device, and the message registers.  Replies are recorded as in the listen table.  The loop over \<^verbatim>\<open>POLL_EPS\<close>
  holds the lock of that list; taking it once more, which the listen table does to add an endpoint, spins for ever.
\<close>

section \<open>State\<close>

type_synonym msg_regs = "nat \<Rightarrow> u64"

record recv_blocked_task =
  rt_ep :: cptr
  rt_tcp_buffer :: u64
  rt_handler :: socket_handle
  rt_complete :: bool

record ('ip, 's) sync_server =
  ss_net :: "('ip, 's) net_state"
  ss_recv_blocked_tasks :: "recv_blocked_task list"

definition THREAD_NUM :: usize where "THREAD_NUM = 2 ^ 5"

section \<open>Polling the interface\<close>

text \<open>The frames of a poll while the lock is held.\<close>

fun snoop_frames_locked :: "'ip frame list \<Rightarrow> ('ip, 's) net_state \<Rightarrow> ('ip, 's) net_state res" where
  "snoop_frames_locked [] net = Inr net"
| "snoop_frames_locked (f # fs) net =
     rbind (snoop_tcp_packet f net) (\<lambda>(r, net').
     rbind (guard_res (net_poll_eps net' = net_poll_eps net) SelfDeadlock) (\<lambda>_. snoop_frames_locked fs net'))"

definition iface_poll_locked :: "('ip, 's) socket_api \<Rightarrow> ('ip, 's) net_state \<Rightarrow> (bool \<times> ('ip, 's) net_state) res" where
  "iface_poll_locked api net =
     rbind (add_usize (net_poll_cnt net) 1) (\<lambda>cnt.
     case sa_poll api (net_sockets net) of (ans, frames, s) \<Rightarrow>
       rbind (snoop_frames_locked frames (net\<lparr>net_sockets := s\<rparr>)) (\<lambda>net1.
       rbind (add_usize (net_net_poll_cnt net1) 1) (\<lambda>n.
       Inr (ans, net1\<lparr>net_net_poll_cnt := n, net_poll_cnt := 0\<rparr>))))"

text \<open>\<^verbatim>\<open>iface_poll(true)\<close>; \<open>locked\<close> says whether the lock of \<^verbatim>\<open>POLL_EPS\<close> is held.\<close>

definition urgent_poll :: "('ip, 's) socket_api \<Rightarrow> bool \<Rightarrow> ('ip, 's) net_state \<Rightarrow> (bool \<times> ('ip, 's) net_state) res" where
  "urgent_poll api locked net = (if locked then iface_poll_locked api net else iface_poll api True net)"

definition net_interrupt_handler :: "('ip, 's) socket_api \<Rightarrow> bool \<Rightarrow> ('ip, 's) sync_server \<Rightarrow> ('ip, 's) sync_server res" where
  "net_interrupt_handler api locked s = rbind (urgent_poll api locked (ss_net s)) (\<lambda>(ans, net). Inr (s\<lparr>ss_net := net\<rparr>))"

section \<open>Requests\<close>

definition ep_send :: "cptr \<Rightarrow> message_type \<Rightarrow> u64 \<Rightarrow> ('ip, 's) net_state \<Rightarrow> ('ip, 's) net_state" where
  "ep_send ep t v net = net\<lparr>net_ep_sent := net_ep_sent net @ [(ep, ucast (message_code t), v)]\<rparr>"

definition sync_process_listen :: "('ip, 's) socket_api \<Rightarrow> cptr \<Rightarrow> msg_regs \<Rightarrow> ('ip, 's) sync_server \<Rightarrow> ('ip, 's) sync_server res" where
  "sync_process_listen api ep regs s =
     (let port = ucast (regs 1); net = ss_net s in
      case sa_listen api port (net_sockets net) of
        None \<Rightarrow> Inl UnwrapErr
      | Some (handler, so) \<Rightarrow>
          rbind (table_listen_with_ep \<lparr>le_addr = None, le_port = port\<rparr> handler ep (net\<lparr>net_sockets := so\<rparr>)) (\<lambda>net'.
          Inr (s\<lparr>ss_net := net'\<rparr>)))"

definition sync_process_recv :: "('ip, 's) socket_api \<Rightarrow> cptr \<Rightarrow> msg_regs \<Rightarrow> ('ip, 's) sync_server \<Rightarrow> ('ip, 's) sync_server res" where
  "sync_process_recv api ep regs s =
     (let handler = regs 1; buffer = regs 2; len = unat (regs 3); net = ss_net s in
      rbind (tcp_buffer_at net buffer) (\<lambda>tcp_data.
      rbind (sa_can_recv api handler (net_sockets net)) (\<lambda>can_recv.
      if can_recv
      then
        case recv_into api handler buffer tcp_data len net of
          (Inr read_size, net') \<Rightarrow> Inr (s\<lparr>ss_net := ep_send ep RecvReply (of_nat read_size) net'\<rparr>)
        | (Inl e, net') \<Rightarrow> Inr (s\<lparr>ss_net := net'\<rparr>)
      else
        Inr (s\<lparr>ss_recv_blocked_tasks := ss_recv_blocked_tasks s @
          [\<lparr>rt_ep = ep, rt_tcp_buffer = buffer, rt_handler = handler, rt_complete = False\<rparr>]\<rparr>))))"

definition sync_process_send :: "('ip, 's) socket_api \<Rightarrow> bool \<Rightarrow> cptr \<Rightarrow> msg_regs \<Rightarrow> ('ip, 's) sync_server \<Rightarrow> ('ip, 's) sync_server res" where
  "sync_process_send api locked ep regs s =
     (let handler = regs 1; buffer = regs 2; len = unat (regs 3); net = ss_net s in
      rbind (tcp_buffer_at net buffer) (\<lambda>tcp_data.
      rbind (sa_can_send api handler (net_sockets net)) (\<lambda>can_send.
      if can_send
      then
        rbind (guard_res (len \<le> length tcp_data) IndexOutOfBounds) (\<lambda>_.
        case sa_send_slice api handler (take len tcp_data) (net_sockets net) of
          (Inr send_size, so) \<Rightarrow>
            rbind (urgent_poll api locked (net\<lparr>net_sockets := so\<rparr>)) (\<lambda>(ans, net').
            Inr (s\<lparr>ss_net := ep_send ep SendReply (of_nat send_size) net'\<rparr>))
        | (Inl e, so) \<Rightarrow> Inr (s\<lparr>ss_net := net\<lparr>net_sockets := so\<rparr>\<rparr>))
      else Inr s)))"

text \<open>The code of the request is converted to the enumeration without a check; other values are undefined behaviour.\<close>

definition sync_process_req :: "('ip, 's) socket_api \<Rightarrow> bool \<Rightarrow> cptr \<Rightarrow> msg_regs \<Rightarrow> ('ip, 's) sync_server \<Rightarrow> ('ip, 's) sync_server res" where
  "sync_process_req api locked ep regs s =
     (let code = ucast (regs 0) :: u8 in
      rbind (guard_res (unat code < 8) BadPointer) (\<lambda>_. case message_type_of code of
        Listen \<Rightarrow> sync_process_listen api ep regs s
      | Recv \<Rightarrow> sync_process_recv api ep regs s
      | Send \<Rightarrow> sync_process_send api locked ep regs s
      | _ \<Rightarrow> Inr s))"

section \<open>Deferred receives\<close>

text \<open>A waiting receive gets whatever fits into its buffer.\<close>

definition process_blocked_task ::
  "('ip, 's) socket_api \<Rightarrow> recv_blocked_task \<Rightarrow> ('ip, 's) net_state \<Rightarrow> (recv_blocked_task \<times> ('ip, 's) net_state) res" where
  "process_blocked_task api task net =
     (let handler = rt_handler task in
      rbind (tcp_buffer_at net (rt_tcp_buffer task)) (\<lambda>tcp_data.
      rbind (sa_can_recv api handler (net_sockets net)) (\<lambda>can_recv.
      if can_recv
      then
        case recv_into api handler (rt_tcp_buffer task) tcp_data (length tcp_data) net of
          (Inr read_size, net') \<Rightarrow> Inr (task\<lparr>rt_complete := True\<rparr>, ep_send (rt_ep task) RecvReply (of_nat read_size) net')
        | (Inl e, net') \<Rightarrow> Inr (task, net')
      else Inr (task, net))))"

fun process_blocked_tasks ::
  "('ip, 's) socket_api \<Rightarrow> recv_blocked_task list \<Rightarrow> ('ip, 's) net_state \<Rightarrow> (recv_blocked_task list \<times> ('ip, 's) net_state) res" where
  "process_blocked_tasks api [] net = Inr ([], net)"
| "process_blocked_tasks api (t # ts) net =
     rbind (process_blocked_task api t net) (\<lambda>(t', net1).
     rbind (process_blocked_tasks api ts net1) (\<lambda>(ts', net2). Inr (t' # ts', net2)))"

definition sync_blocked_round :: "('ip, 's) socket_api \<Rightarrow> ('ip, 's) sync_server \<Rightarrow> ('ip, 's) sync_server res" where
  "sync_blocked_round api s =
     rbind (process_blocked_tasks api (ss_recv_blocked_tasks s) (ss_net s)) (\<lambda>(ts, net).
     Inr (s\<lparr>ss_net := net, ss_recv_blocked_tasks := filter (\<lambda>t. \<not> rt_complete t) ts\<rparr>))"

section \<open>The loops\<close>

text \<open>One pass over the endpoints, with what each of them returned; the number of requests is counted.\<close>

fun serve_eps ::
  "('ip, 's) socket_api \<Rightarrow> bool \<Rightarrow> (cptr \<times> u64 \<times> msg_regs) list \<Rightarrow> ('ip, 's) sync_server \<Rightarrow> (nat \<times> ('ip, 's) sync_server) res" where
  "serve_eps api locked [] s = Inr (0, s)"
| "serve_eps api locked ((ep, badge, regs) # polls) s =
     (if badge = 0 then serve_eps api locked polls s
      else if badge = 1 then rbind (net_interrupt_handler api locked s) (serve_eps api locked polls)
      else
        rbind (sync_process_req api locked ep regs s) (\<lambda>s1.
        rbind (serve_eps api locked polls s1) (\<lambda>(cnt, s2). Inr (Suc cnt, s2))))"

definition polled_eps :: "(nat \<Rightarrow> u64 \<times> msg_regs) \<Rightarrow> cptr list \<Rightarrow> (cptr \<times> u64 \<times> msg_regs) list" where
  "polled_eps inbox eps = zip eps (map inbox [0..<length eps])"

text \<open>A pass of the first loop, and whether the loop ends after it.\<close>

definition listen_pass ::
  "('ip, 's) socket_api \<Rightarrow> cptr list \<Rightarrow> (nat \<Rightarrow> u64 \<times> msg_regs) \<Rightarrow> ('ip, 's) sync_server \<Rightarrow> (bool \<times> ('ip, 's) sync_server) res" where
  "listen_pass api eps inbox s =
     rbind (serve_eps api False (polled_eps inbox eps) s) (\<lambda>(listen_cnt, s'). Inr (listen_cnt = THREAD_NUM, s'))"

text \<open>A round of the second loop: the notification, the endpoints of the connected clients, the waiting receives.\<close>

definition serve_round ::
  "('ip, 's) socket_api \<Rightarrow> u64 \<Rightarrow> (nat \<Rightarrow> u64 \<times> msg_regs) \<Rightarrow> ('ip, 's) sync_server \<Rightarrow> ('ip, 's) sync_server res" where
  "serve_round api ntfn_badge inbox s =
     rbind (if ntfn_badge = 1 then net_interrupt_handler api False s else Inr s) (\<lambda>s1.
     rbind (serve_eps api True (polled_eps inbox (net_poll_eps (ss_net s1))) s1) (\<lambda>(cnt, s2).
     sync_blocked_round api s2))"

section \<open>What a poll adds\<close>

text \<open>A poll only appends to the list of endpoints, and sends no reply to a receive.\<close>

definition recv_replies :: "('f, 'ip, 's) net \<Rightarrow> cptr list" where
  "recv_replies net = map fst (filter (\<lambda>(ep, code, v). code = ucast (message_code RecvReply)) (net_ep_sent net))"

definition grows :: "('f, 'ip, 's) net \<Rightarrow> ('f, 'ip, 's) net \<Rightarrow> bool" where
  "grows net net' \<longleftrightarrow> (\<exists>es. net_poll_eps net' = net_poll_eps net @ es) \<and> recv_replies net' = recv_replies net"

lemma grows_refl [simp]: "grows net net"
  by (simp add: grows_def)

lemma grows_trans: "grows a b \<Longrightarrow> grows b c \<Longrightarrow> grows a c"
  by (auto simp: grows_def)

lemma grows_same: "net_poll_eps net' = net_poll_eps net \<Longrightarrow> net_ep_sent net' = net_ep_sent net \<Longrightarrow> grows net net'"
  by (simp add: grows_def recv_replies_def)

text \<open>Once the list has grown, it stays longer.\<close>

lemma grows_eps_eq: "grows a b \<Longrightarrow> grows b c \<Longrightarrow> net_poll_eps c = net_poll_eps a \<longleftrightarrow> net_poll_eps b = net_poll_eps a \<and> net_poll_eps c = net_poll_eps b"
  by (auto simp: grows_def)

lemma wake_blocked_grows: "wake_blocked_cid port en net = Inr net' \<Longrightarrow> grows net net'"
  by (auto simp: wake_blocked_cid_def coroutine_wake_def intro: grows_same split: list.splits)

lemma reply_blocked_grows: "reply_blocked_ep port en net = Inr net' \<Longrightarrow> grows net net'"
  by (auto simp: reply_blocked_ep_def grows_def recv_replies_def split: list.splits)

lemma incoming_grows: "incoming_tcp_packet dst net = Inr net' \<Longrightarrow> grows net net'"
  by (auto simp: incoming_tcp_packet_def split: option.splits if_splits
      dest!: wake_blocked_grows reply_blocked_grows intro: grows_trans)

lemma snoop_grows: "snoop_tcp_packet f net = Inr (r, net') \<Longrightarrow> grows net net'"
  by (auto simp: snoop_tcp_packet_def Let_def split: frame.splits if_splits dest: incoming_grows)

lemma snoop_frames_grows: "snoop_frames fs net = Inr net' \<Longrightarrow> grows net net'"
  by (induction fs net rule: snoop_frames.induct) (auto dest: snoop_grows intro: grows_trans)

lemma iface_poll_grows: "iface_poll api urgent net = Inr (ans, net') \<Longrightarrow> grows net net'"
  by (auto simp: iface_poll_def grows_def recv_replies_def split: if_splits prod.splits dest!: snoop_frames_grows)

lemma snoop_locked_eq:
  "snoop_frames fs net = Inr net' \<Longrightarrow>
   snoop_frames_locked fs net = (if net_poll_eps net' = net_poll_eps net then Inr net' else Inl SelfDeadlock)"
proof (induction fs net rule: snoop_frames.induct)
  case (2 f fs net)
  then obtain r net1 where f: "snoop_tcp_packet f net = Inr (r, net1)" and fs: "snoop_frames fs net1 = Inr net'" by auto
  note eq = grows_eps_eq [OF snoop_grows [OF f] snoop_frames_grows [OF fs]]
  show ?case
  proof (cases "net_poll_eps net1 = net_poll_eps net")
    case True
    then show ?thesis using 2(1) [OF f refl fs] f by (simp add: guard_res_def)
  next
    case False
    then have "net_poll_eps net' \<noteq> net_poll_eps net" using eq by blast
    then show ?thesis using f False by (simp add: guard_res_def)
  qed
qed simp

text \<open>With the lock held, a poll that connects no endpoint is as without, and any other one deadlocks.\<close>

lemma urgent_poll_locked:
  assumes "urgent_poll api False net = Inr (ans, net')"
  shows "urgent_poll api True net = (if net_poll_eps net' = net_poll_eps net then Inr (ans, net') else Inl SelfDeadlock)"
proof -
  obtain cnt frames so net1 n where c: "add_usize (net_poll_cnt net) 1 = Inr cnt" "sa_poll api (net_sockets net) = (ans, frames, so)"
    and f: "snoop_frames frames (net\<lparr>net_sockets := so\<rparr>) = Inr net1" and n: "add_usize (net_net_poll_cnt net1) 1 = Inr n"
    and net': "net' = net1\<lparr>net_net_poll_cnt := n, net_poll_cnt := 0\<rparr>"
    using assms by (auto simp: urgent_poll_def iface_poll_def split: prod.splits)
  have eps: "net_poll_eps net' = net_poll_eps net1" by (simp add: net')
  show ?thesis unfolding urgent_poll_def iface_poll_locked_def if_True c rbind.simps prod.case snoop_locked_eq [OF f] eps
    using n by (simp add: net' del: add_usize_Inr_iff)
qed

lemma urgent_poll_grows: "urgent_poll api False net = Inr (ans, net') \<Longrightarrow> grows net net'"
  by (simp add: urgent_poll_def iface_poll_grows)

section \<open>The lock\<close>

lemma recv_into_grows: "recv_into api h b d len net = (r, net') \<Longrightarrow> grows net net'"
  by (auto simp: recv_into_def intro: grows_same split: prod.splits sum.splits)

lemma ep_send_eps [simp]: "net_poll_eps (ep_send ep t v net) = net_poll_eps net"
  by (simp add: ep_send_def)

definition eps_of :: "('ip, 's) sync_server \<Rightarrow> cptr list" where
  "eps_of s = net_poll_eps (ss_net s)"

text \<open>What a step of the server does under the lock, given what it does without.\<close>

definition lock_safe :: "(bool \<Rightarrow> ('ip, 's) sync_server \<Rightarrow> ('ip, 's) sync_server res) \<Rightarrow> bool" where
  "lock_safe f \<longleftrightarrow> (\<forall>s s'. f False s = Inr s' \<longrightarrow> (\<exists>es. eps_of s' = eps_of s @ es) \<and>
     f True s = (if eps_of s' = eps_of s then Inr s' else Inl SelfDeadlock))"

lemma interrupt_lock_safe: "lock_safe (net_interrupt_handler api)"
proof -
  have "(\<exists>es. eps_of s' = eps_of s @ es) \<and> net_interrupt_handler api True s = (if eps_of s' = eps_of s then Inr s' else Inl SelfDeadlock)"
    if "net_interrupt_handler api False s = Inr s'" for s s'
  proof -
    obtain ans net where p: "urgent_poll api False (ss_net s) = Inr (ans, net)" and s': "s' = s\<lparr>ss_net := net\<rparr>"
      using \<open>net_interrupt_handler api False s = Inr s'\<close> by (auto simp: net_interrupt_handler_def)
    show ?thesis using urgent_poll_locked [OF p] urgent_poll_grows [OF p] s' by (simp add: net_interrupt_handler_def eps_of_def grows_def)
  qed
  then show ?thesis by (simp add: lock_safe_def)
qed

text \<open>Only a send polls the interface.\<close>

lemma send_cases:
  assumes "sync_process_send api locked ep regs s = Inr s'"
  shows "s' = s \<or> (\<exists>so. s' = s\<lparr>ss_net := (ss_net s)\<lparr>net_sockets := so\<rparr>\<rparr>) \<or>
    (\<exists>so n ans net. urgent_poll api locked ((ss_net s)\<lparr>net_sockets := so\<rparr>) = Inr (ans, net) \<and> s' = s\<lparr>ss_net := ep_send ep SendReply (of_nat n) net\<rparr>)"
proof -
  obtain d can where d: "tcp_buffer_at (ss_net s) (regs 2) = Inr d" "sa_can_send api (regs 1) (net_sockets (ss_net s)) = Inr can"
    using assms by (auto simp: sync_process_send_def Let_def)
  obtain r so where "sa_send_slice api (regs 1) (take (unat (regs 3)) d) (net_sockets (ss_net s)) = (r, so)" by (rule prod.exhaust)
  then show ?thesis using assms d by (cases can; cases r) (auto simp: sync_process_send_def Let_def, blast)
qed

lemma send_lock_safe: "lock_safe (\<lambda>locked. sync_process_send api locked ep regs)"
proof -
  have "(\<exists>es. eps_of s' = eps_of s @ es) \<and> sync_process_send api True ep regs s = (if eps_of s' = eps_of s then Inr s' else Inl SelfDeadlock)"
    if run: "sync_process_send api False ep regs s = Inr s'" for s s'
  proof -
    obtain d can where d: "tcp_buffer_at (ss_net s) (regs 2) = Inr d" "sa_can_send api (regs 1) (net_sockets (ss_net s)) = Inr can"
      using run by (auto simp: sync_process_send_def Let_def)
    show ?thesis
    proof (cases can)
      case True
      then have len: "guard_res (unat (regs 3) \<le> length d) IndexOutOfBounds = Inr ()"
        using run d by (auto simp: sync_process_send_def Let_def)
      obtain r so where sl: "sa_send_slice api (regs 1) (take (unat (regs 3)) d) (net_sockets (ss_net s)) = (r, so)" by (rule prod.exhaust)
      show ?thesis
      proof (cases r)
        case (Inl e)
        then show ?thesis using run d True len sl by (auto simp: sync_process_send_def eps_of_def Let_def)
      next
        case (Inr n)
        then obtain ans net where p: "urgent_poll api False ((ss_net s)\<lparr>net_sockets := so\<rparr>) = Inr (ans, net)"
          and s': "s' = s\<lparr>ss_net := ep_send ep SendReply (of_nat n) net\<rparr>"
          using run d True len sl by (auto simp: sync_process_send_def Let_def)
        have "\<exists>es. eps_of s' = eps_of s @ es" using urgent_poll_grows [OF p] by (simp add: s' eps_of_def grows_def)
        moreover have "sync_process_send api True ep regs s = (if eps_of s' = eps_of s then Inr s' else Inl SelfDeadlock)"
          using urgent_poll_locked [OF p] d True len sl Inr by (simp add: sync_process_send_def s' eps_of_def guard_res_def Let_def)
        ultimately show ?thesis by blast
      qed
    qed (use run d in \<open>auto simp: sync_process_send_def eps_of_def Let_def\<close>)
  qed
  then show ?thesis by (simp add: lock_safe_def)
qed

lemma listen_eps: "sync_process_listen api ep regs s = Inr s' \<Longrightarrow> eps_of s' = eps_of s"
  by (auto simp: sync_process_listen_def table_listen_with_ep_def eps_of_def Let_def split: option.splits prod.splits)

lemma recv_eps: "sync_process_recv api ep regs s = Inr s' \<Longrightarrow> eps_of s' = eps_of s"
  by (auto simp: sync_process_recv_def recv_into_def eps_of_def Let_def split: option.splits prod.splits if_splits sum.splits)

lemma req_lock_safe: "lock_safe (\<lambda>locked. sync_process_req api locked ep regs)"
proof -
  have other: "lock_safe (\<lambda>locked. f)" if "\<And>s s'. f s = Inr s' \<Longrightarrow> eps_of s' = eps_of s"
    for f :: "('ip, 's) sync_server \<Rightarrow> ('ip, 's) sync_server res" using that by (simp add: lock_safe_def)
  show ?thesis
  proof (cases "unat (ucast (regs 0) :: u8) < 8")
    case True
    have eq: "(\<lambda>locked. sync_process_req api locked ep regs) = (\<lambda>locked. case message_type_of (ucast (regs 0)) of
        Listen \<Rightarrow> sync_process_listen api ep regs | Recv \<Rightarrow> sync_process_recv api ep regs | Send \<Rightarrow> sync_process_send api locked ep regs | _ \<Rightarrow> Inr)"
      using True by (intro ext) (simp add: sync_process_req_def guard_res_def split: message_type.split)
    show ?thesis unfolding eq
      by (cases "message_type_of (ucast (regs 0))") (simp_all add: send_lock_safe other listen_eps recv_eps, simp_all add: lock_safe_def)
  qed (simp add: sync_process_req_def guard_res_def lock_safe_def)
qed

lemma serve_eps_lock:
  assumes "serve_eps api False polls s = Inr (n, s')"
  shows "(\<exists>es. eps_of s' = eps_of s @ es) \<and> serve_eps api True polls s = (if eps_of s' = eps_of s then Inr (n, s') else Inl SelfDeadlock)"
  using assms
proof (induction polls arbitrary: s n)
  case (Cons p polls)
  obtain ep badge regs where p: "p = (ep, badge, regs)" by (cases p)
  define f where "f = (\<lambda>locked s. if badge = 1 then net_interrupt_handler api locked s else sync_process_req api locked ep regs s)"
  have f: "lock_safe f" using interrupt_lock_safe req_lock_safe by (cases "badge = 1") (simp_all add: f_def)
  show ?case
  proof (cases "badge = 0")
    case False
    then obtain s1 m where s1: "f False s = Inr s1" and rest: "serve_eps api False polls s1 = Inr (m, s')" and n: "n = (if badge = 1 then m else Suc m)"
      using Cons.prems by (auto simp: p f_def split: if_split_asm)
    from f s1 have l: "\<exists>es. eps_of s1 = eps_of s @ es" "f True s = (if eps_of s1 = eps_of s then Inr s1 else Inl SelfDeadlock)"
      by (auto simp: lock_safe_def)
    have same: "rbind x Inr = x" for x :: "(nat \<times> ('a, 'b) sync_server) res" by (cases x) simp_all
    have step: "serve_eps api True (p # polls) s = rbind (f True s) (\<lambda>s1. rbind (serve_eps api True polls s1) (\<lambda>(c, s2). Inr (if badge = 1 then c else Suc c, s2)))"
      using False by (cases "badge = 1"; cases "f True s") (auto simp: p f_def same split: sum.splits)
    show ?thesis
    proof (cases "eps_of s1 = eps_of s")
      case True
      then show ?thesis using Cons.IH [OF rest] l n by (simp add: step)
    next
      case False
      then show ?thesis using Cons.IH [OF rest] l by (auto simp: step)
    qed
  qed (use Cons in \<open>simp add: p\<close>)
qed simp

section \<open>Every receive is answered once\<close>

text \<open>A request for data among what the endpoints returned.\<close>

definition is_recv :: "u64 \<Rightarrow> msg_regs \<Rightarrow> bool" where
  "is_recv badge regs \<longleftrightarrow> badge \<noteq> 0 \<and> badge \<noteq> 1 \<and> message_type_of (ucast (regs 0)) = Recv"

definition recv_requests :: "(cptr \<times> u64 \<times> msg_regs) list \<Rightarrow> cptr list" where
  "recv_requests polls = map fst (filter (\<lambda>(ep, badge, regs). is_recv badge regs) polls)"

text \<open>The answers sent and the receives still waiting.\<close>

definition accounted :: "('ip, 's) sync_server \<Rightarrow> cptr multiset" where
  "accounted s = mset (recv_replies (ss_net s)) + mset (map rt_ep (ss_recv_blocked_tasks s))"

text \<open>A socket that says it has data delivers it.\<close>

definition delivers :: "('ip, 's) socket_api \<Rightarrow> bool" where
  "delivers api \<longleftrightarrow> (\<forall>h n so. sa_can_recv api h so = Inr True \<longrightarrow> (\<exists>bytes so'. sa_recv_slice api h n so = (Inr bytes, so')))"

lemma recv_replies_send [simp]: "recv_replies (ep_send ep t v net) = recv_replies net @ (if t = RecvReply then [ep] else [])"
  by (cases t) (simp_all add: recv_replies_def ep_send_def)

lemma recv_replies_frame [simp]:
  "recv_replies (net\<lparr>net_sockets := so\<rparr>) = recv_replies net" "recv_replies (net\<lparr>net_tcp_buffers := bs\<rparr>) = recv_replies net"
  by (simp_all add: recv_replies_def)

lemma accounted_net: "recv_replies net = recv_replies (ss_net s) \<Longrightarrow> accounted (s\<lparr>ss_net := net\<rparr>) = accounted s"
  by (simp add: accounted_def)

lemma snoop_unlocked: "snoop_frames_locked fs net = Inr net' \<Longrightarrow> snoop_frames fs net = Inr net'"
  by (induction fs net rule: snoop_frames.induct) auto

lemma urgent_poll_replies: "urgent_poll api locked net = Inr (ans, net') \<Longrightarrow> recv_replies net' = recv_replies net"
proof (cases locked)
  case True
  moreover assume "urgent_poll api locked net = Inr (ans, net')"
  ultimately obtain frames so net1 where f: "snoop_frames_locked frames (net\<lparr>net_sockets := so\<rparr>) = Inr net1" and "net_ep_sent net' = net_ep_sent net1"
    by (auto simp: urgent_poll_def iface_poll_locked_def split: prod.splits)
  then show ?thesis using snoop_frames_grows [OF snoop_unlocked [OF f]] by (simp add: grows_def recv_replies_def)
qed (simp add: urgent_poll_def iface_poll_grows [unfolded grows_def])

lemma interrupt_accounted: "net_interrupt_handler api locked s = Inr s' \<Longrightarrow> accounted s' = accounted s"
  by (auto simp: net_interrupt_handler_def accounted_net urgent_poll_replies)

lemma listen_accounted: "sync_process_listen api ep regs s = Inr s' \<Longrightarrow> accounted s' = accounted s"
  by (auto simp: sync_process_listen_def table_listen_with_ep_def accounted_def recv_replies_def Let_def split: option.splits prod.splits)

lemma send_accounted: "sync_process_send api locked ep regs s = Inr s' \<Longrightarrow> accounted s' = accounted s"
  by (drule send_cases) (auto simp: accounted_def dest!: urgent_poll_replies)

lemma recv_accounted:
  assumes "delivers api" and "sync_process_recv api ep regs s = Inr s'"
  shows "accounted s' = accounted s + {#ep#}"
proof -
  obtain d can where d: "tcp_buffer_at (ss_net s) (regs 2) = Inr d" "sa_can_recv api (regs 1) (net_sockets (ss_net s)) = Inr can"
    using assms(2) by (auto simp: sync_process_recv_def Let_def)
  show ?thesis
  proof (cases can)
    case True
    then have "sa_can_recv api (regs 1) (net_sockets (ss_net s)) = Inr True" using d by simp
    then obtain bytes so where "sa_recv_slice api (regs 1) (min (length d) (unat (regs 3))) (net_sockets (ss_net s)) = (Inr bytes, so)"
      using assms(1) unfolding delivers_def by blast
    then show ?thesis using assms(2) d True by (auto simp: sync_process_recv_def recv_into_def accounted_def Let_def)
  qed (use assms(2) d in \<open>auto simp: sync_process_recv_def accounted_def Let_def\<close>)
qed

lemma req_accounted:
  assumes "delivers api" and "sync_process_req api locked ep regs s = Inr s'"
  shows "accounted s' = accounted s + (if message_type_of (ucast (regs 0)) = Recv then {#ep#} else {#})"
  using assms by (auto simp: sync_process_req_def Let_def recv_accounted send_accounted listen_accounted split: message_type.splits)

lemma serve_eps_accounted:
  "delivers api \<Longrightarrow> serve_eps api locked polls s = Inr (n, s') \<Longrightarrow> accounted s' = accounted s + mset (recv_requests polls)"
proof (induction polls arbitrary: s n)
  case (Cons p polls)
  obtain ep badge regs where p: "p = (ep, badge, regs)" by (cases p)
  show ?case using Cons p
    by (auto simp: recv_requests_def is_recv_def split: if_split_asm dest!: interrupt_accounted req_accounted)
qed (simp add: recv_requests_def)

text \<open>Under the lock the list of endpoints does not change.\<close>

lemma snoop_locked_eps: "snoop_frames_locked fs net = Inr net' \<Longrightarrow> net_poll_eps net' = net_poll_eps net"
  by (induction fs net rule: snoop_frames.induct) auto

lemma urgent_poll_locked_eps: "urgent_poll api True net = Inr (ans, net') \<Longrightarrow> net_poll_eps net' = net_poll_eps net"
  by (auto simp: urgent_poll_def iface_poll_locked_def split: prod.splits dest!: snoop_locked_eps)

lemma req_locked_eps: "sync_process_req api True ep regs s = Inr s' \<Longrightarrow> eps_of s' = eps_of s"
  by (auto simp: sync_process_req_def sync_process_send_def listen_eps recv_eps eps_of_def Let_def urgent_poll_locked_eps
      split: message_type.splits if_splits prod.splits sum.splits dest: listen_eps [unfolded eps_of_def] recv_eps [unfolded eps_of_def])

lemma serve_eps_locked_eps: "serve_eps api True polls s = Inr (n, s') \<Longrightarrow> eps_of s' = eps_of s"
proof (induction polls arbitrary: s n)
  case (Cons p polls)
  obtain ep badge regs where p: "p = (ep, badge, regs)" by (cases p)
  have "net_interrupt_handler api True s = Inr s1 \<Longrightarrow> eps_of s1 = eps_of s" for s1
    by (auto simp: net_interrupt_handler_def eps_of_def urgent_poll_locked_eps)
  then show ?case using Cons p by (auto split: if_split_asm dest: req_locked_eps)
qed simp

text \<open>The list holds only receives that wait.\<close>

definition tasks_waiting :: "('ip, 's) sync_server \<Rightarrow> bool" where
  "tasks_waiting s \<longleftrightarrow> (\<forall>t\<in>set (ss_recv_blocked_tasks s). \<not> rt_complete t)"

lemma listen_waiting: "sync_process_listen api ep regs s = Inr s' \<Longrightarrow> tasks_waiting s \<Longrightarrow> tasks_waiting s'"
  by (auto simp: sync_process_listen_def tasks_waiting_def Let_def split: option.splits prod.splits)

lemma recv_waiting:
  assumes "sync_process_recv api ep regs s = Inr s'" and "tasks_waiting s"
  shows "tasks_waiting s'"
proof -
  obtain d can where d: "tcp_buffer_at (ss_net s) (regs 2) = Inr d" "sa_can_recv api (regs 1) (net_sockets (ss_net s)) = Inr can"
    using assms(1) by (auto simp: sync_process_recv_def Let_def)
  show ?thesis using assms d
    by (cases can; cases "recv_into api (regs 1) (regs 2) d (unat (regs 3)) (ss_net s)")
      (auto simp: sync_process_recv_def tasks_waiting_def Let_def split: sum.splits)
qed

lemma send_tasks: "sync_process_send api locked ep regs s = Inr s' \<Longrightarrow> ss_recv_blocked_tasks s' = ss_recv_blocked_tasks s"
  by (drule send_cases) auto

lemma send_waiting: "sync_process_send api locked ep regs s = Inr s' \<Longrightarrow> tasks_waiting s \<Longrightarrow> tasks_waiting s'"
  by (simp add: tasks_waiting_def send_tasks)

lemma req_waiting: "sync_process_req api locked ep regs s = Inr s' \<Longrightarrow> tasks_waiting s \<Longrightarrow> tasks_waiting s'"
  by (auto simp: sync_process_req_def Let_def listen_waiting recv_waiting send_waiting split: message_type.splits)

lemma interrupt_waiting: "net_interrupt_handler api locked s = Inr s' \<Longrightarrow> tasks_waiting s \<Longrightarrow> tasks_waiting s'"
  by (auto simp: net_interrupt_handler_def tasks_waiting_def)

lemma serve_eps_waiting: "serve_eps api locked polls s = Inr (n, s') \<Longrightarrow> tasks_waiting s \<Longrightarrow> tasks_waiting s'"
proof (induction polls arbitrary: s n)
  case (Cons p polls)
  obtain ep badge regs where p: "p = (ep, badge, regs)" by (cases p)
  show ?case using Cons p by (auto split: if_split_asm dest: req_waiting interrupt_waiting)
qed simp

lemma blocked_task_accounted:
  assumes "process_blocked_task api t net = Inr (t', net')" and "\<not> rt_complete t"
  shows "mset (recv_replies net') + mset (map rt_ep (filter (\<lambda>t. \<not> rt_complete t) [t'])) = mset (recv_replies net) + {#rt_ep t#} \<and>
    net_poll_eps net' = net_poll_eps net"
  using assms by (auto simp: process_blocked_task_def recv_into_def recv_replies_def ep_send_def Let_def
      split: if_splits prod.splits sum.splits)

lemma blocked_tasks_accounted:
  assumes "process_blocked_tasks api ts net = Inr (ts', net')" and "\<forall>t\<in>set ts. \<not> rt_complete t"
  shows "mset (recv_replies net') + mset (map rt_ep (filter (\<lambda>t. \<not> rt_complete t) ts')) = mset (recv_replies net) + mset (map rt_ep ts) \<and>
    net_poll_eps net' = net_poll_eps net"
  using assms
proof (induction ts arbitrary: net ts')
  case (Cons t ts)
  obtain t1 net1 ts1 where t: "process_blocked_task api t net = Inr (t1, net1)" and ts: "process_blocked_tasks api ts net1 = Inr (ts1, net')"
    and ts': "ts' = t1 # ts1" using Cons.prems(1) by auto
  have "\<not> rt_complete t" "\<forall>t\<in>set ts. \<not> rt_complete t" using Cons.prems(2) by simp_all
  then show ?case using blocked_task_accounted [OF t] Cons.IH [OF ts] by (auto simp: ts' split: if_split_asm)
qed simp

lemma serve_round_accounted:
  assumes "delivers api" and "tasks_waiting s" and "serve_round api badge inbox s = Inr s'"
  shows "tasks_waiting s'" "accounted s' = accounted s + mset (recv_requests (polled_eps inbox (eps_of s')))"
proof -
  obtain s1 n s2 ts net where s1: "(if badge = 1 then net_interrupt_handler api False s else Inr s) = Inr s1"
    and s2: "serve_eps api True (polled_eps inbox (eps_of s1)) s1 = Inr (n, s2)"
    and t: "process_blocked_tasks api (ss_recv_blocked_tasks s2) (ss_net s2) = Inr (ts, net)"
    and s': "s' = s2\<lparr>ss_net := net, ss_recv_blocked_tasks := filter (\<lambda>t. \<not> rt_complete t) ts\<rparr>"
    using assms(3) by (auto simp: serve_round_def sync_blocked_round_def eps_of_def)
  have w: "tasks_waiting s1" "accounted s1 = accounted s"
    using s1 assms(2) by (auto simp: interrupt_waiting interrupt_accounted split: if_split_asm)
  have w2: "tasks_waiting s2" by (rule serve_eps_waiting [OF s2 w(1)])
  note b = blocked_tasks_accounted [OF t w2 [unfolded tasks_waiting_def]]
  have "eps_of s' = eps_of s1" using b serve_eps_locked_eps [OF s2] by (simp add: s' eps_of_def)
  then show "accounted s' = accounted s + mset (recv_requests (polled_eps inbox (eps_of s')))"
    using serve_eps_accounted [OF assms(1) s2] w(2) b by (simp add: s' accounted_def)
  show "tasks_waiting s'" by (simp add: s' tasks_waiting_def)
qed

text \<open>A sequence of rounds, with the receives requested in it.\<close>

fun serve_rounds ::
  "('ip, 's) socket_api \<Rightarrow> (u64 \<times> (nat \<Rightarrow> u64 \<times> msg_regs)) list \<Rightarrow> ('ip, 's) sync_server \<Rightarrow> (cptr list \<times> ('ip, 's) sync_server) res" where
  "serve_rounds api [] s = Inr ([], s)"
| "serve_rounds api ((badge, inbox) # rounds) s =
     rbind (serve_round api badge inbox s) (\<lambda>s1.
     rbind (serve_rounds api rounds s1) (\<lambda>(reqs, s2). Inr (recv_requests (polled_eps inbox (net_poll_eps (ss_net s1))) @ reqs, s2)))"

lemma serve_rounds_accounted:
  "delivers api \<Longrightarrow> serve_rounds api rounds s = Inr (reqs, s') \<Longrightarrow> tasks_waiting s \<Longrightarrow> accounted s' = accounted s + mset reqs"
proof (induction rounds arbitrary: s reqs)
  case (Cons r rounds)
  obtain badge inbox where r: "r = (badge, inbox)" by (cases r)
  obtain s1 reqs1 where s1: "serve_round api badge inbox s = Inr s1" and rs: "serve_rounds api rounds s1 = Inr (reqs1, s')"
    and reqs: "reqs = recv_requests (polled_eps inbox (eps_of s1)) @ reqs1" using Cons.prems(2) by (auto simp: r eps_of_def)
  note a = serve_round_accounted [OF Cons.prems(1,3) s1]
  show ?case using Cons.IH [OF Cons.prems(1) rs a(1)] a(2) by (simp add: reqs)
qed simp

section \<open>Properties\<close>

text \<open>C11. The synchronous network server answers receives exactly once: after any number of rounds, whatever the clients send
  and however connections and data come in, the endpoints that were sent a reply to a receive, together with
  those of the receives that still wait for data, are exactly those that requested one, as often as they did.\<close>

theorem sync_receives_answered_once:
  assumes "delivers api" and "serve_rounds api rounds s = Inr (reqs, s')"
    and "recv_replies (ss_net s) = []" and "ss_recv_blocked_tasks s = []"
  shows "mset (recv_replies (ss_net s')) + mset (map rt_ep (ss_recv_blocked_tasks s')) = mset reqs"
  using serve_rounds_accounted [OF assms(1,2)] assms(3,4) by (simp add: accounted_def tasks_waiting_def)

text \<open>An example: sockets that have data after a poll, and a connection request to port 80 when their state is 9.\<close>

definition syn_frame :: "u32 frame" where
  "syn_frame = Tcp \<lparr>tp_src = \<lparr>ie_addr = 2, ie_port = 1024\<rparr>, tp_dst = \<lparr>ie_addr = 1, ie_port = 80\<rparr>, tp_syn = True, tp_ack = False\<rparr>"

definition sync_api :: "(u32, nat) socket_api" where
  "sync_api = api_example\<lparr>sa_poll := \<lambda>n. (False, if n = 9 then [syn_frame] else [], 3), sa_can_recv := \<lambda>h n. Inr (0 < n),
     sa_recv_slice := \<lambda>h len n. (Inr (replicate (min n len) 7), n - min n len)\<rparr>"

definition sync_example :: "(u32, nat) sync_server" where
  "sync_example = \<lparr>ss_net = net_example\<lparr>net_poll_eps := [5], net_tcp_buffers := [4096 \<mapsto> replicate 8 0]\<rparr>, ss_recv_blocked_tasks = []\<rparr>"

definition regs_example :: "message_type \<Rightarrow> msg_regs" where
  "regs_example t i = (if i = 0 then ucast (message_code t) else if i = 1 then 3 else if i = 2 then 4096 else 1)"

lemmas sync_eval = serve_round_def polled_eps_def sync_process_req_def sync_process_recv_def sync_process_send_def sync_blocked_round_def
  process_blocked_task_def net_interrupt_handler_def urgent_poll_def iface_poll_def add_usize_def tcp_buffer_at_def recv_into_def
  ep_send_def guard_res_def message_type_of_def sync_api_def sync_example_def regs_example_def net_example_def Let_def

theorem sync_receives_answered_once_witness:
  "\<exists>s'. serve_rounds sync_api [(0, \<lambda>i. (2, regs_example Recv)), (1, \<lambda>i. (0, regs_example Recv))] sync_example = Inr ([5], s') \<and>
     mset (recv_replies (ss_net s')) + mset (map rt_ep (ss_recv_blocked_tasks s')) = mset [5]"
proof -
  have d: "delivers sync_api" by (simp add: delivers_def sync_api_def)
  obtain s' where run: "serve_rounds sync_api [(0, \<lambda>i. (2, regs_example Recv)), (1, \<lambda>i. (0, regs_example Recv))] sync_example = Inr ([5], s')"
    by (simp add: sync_eval recv_requests_def is_recv_def)
  have "recv_replies (ss_net sync_example) = []" "ss_recv_blocked_tasks sync_example = []"
    by (simp_all add: sync_example_def recv_replies_def net_example_def)
  from sync_receives_answered_once [OF d run this] run show ?thesis by blast
qed

text \<open>C33. A round of the synchronous server's loop deadlocks exactly when, while it handles what the clients and the device sent,
  a connection request reaches a client that waits for one: the loop holds the lock of the list of connected
  endpoints, which the listen table takes to add the new one.  In every other case it goes on to the waiting
  receives, with the same state as without the lock.\<close>

theorem connection_deadlocks_server:
  assumes "serve_eps api False (polled_eps inbox (net_poll_eps (ss_net s))) s = Inr (n, s1)" and "badge \<noteq> 1"
  shows "serve_round api badge inbox s =
    (if net_poll_eps (ss_net s1) = net_poll_eps (ss_net s) then sync_blocked_round api s1 else Inl SelfDeadlock)"
  using serve_eps_lock [OF assms(1)] assms(2) by (simp add: serve_round_def eps_of_def)

definition listening :: "(u32, nat) sync_server" where
  "listening = sync_example\<lparr>ss_net := (ss_net sync_example)\<lparr>net_sockets := 9,
     net_tcp := [80 \<mapsto> \<lparr>lte_listen_endpoint = \<lparr>le_addr = None, le_port = 80\<rparr>, lte_syn_queue = [4], lte_block_cids = [], lte_block_ep = [6]\<rparr>]\<rparr>\<rparr>"

theorem connection_deadlocks_server_witness:
  "(\<exists>n s1. serve_eps sync_api False (polled_eps (\<lambda>i. (2, regs_example Send)) (net_poll_eps (ss_net listening))) listening = Inr (n, s1) \<and>
     net_poll_eps (ss_net s1) = [5, 6]) \<and> serve_round sync_api 0 (\<lambda>i. (2, regs_example Send)) listening = Inl SelfDeadlock"
proof -
  obtain n s1 where run: "serve_eps sync_api False (polled_eps (\<lambda>i. (2, regs_example Send)) (net_poll_eps (ss_net listening))) listening = Inr (n, s1)"
    and eps: "net_poll_eps (ss_net s1) = [5, 6]"
    by (simp add: sync_eval listening_def syn_frame_def snoop_tcp_packet_def incoming_tcp_packet_def wake_blocked_cid_def reply_blocked_ep_def
        can_accept_def LISTEN_QUEUE_SIZE_def api_example_def)
  have "net_poll_eps (ss_net listening) = [5]" by (simp add: listening_def sync_example_def)
  then show ?thesis using connection_deadlocks_server [OF run, of 0] run eps by auto
qed

text \<open>C34. A receive that has to wait for its data ignores the length that was asked for.  When the request comes the socket has no data,
  and the server puts it on its list; in the round after the data has come, the socket is asked for as much as the
  client's buffer holds, all it returns replaces the front of the buffer, and the client is told that number.\<close>

theorem deferred_receive_ignores_length:
  assumes "ucast (regs 0) = (ucast (message_code Recv) :: u8)" and "ss_recv_blocked_tasks s = []"
    and "net_tcp_buffers (ss_net s) (regs 2) = Some data" and "sa_can_recv api (regs 1) (net_sockets (ss_net s)) = Inr False"
    and "sa_can_recv api (regs 1) so = Inr True" and "sa_recv_slice api (regs 1) (length data) so = (Inr bytes, so')"
  shows "\<exists>s1 s2. sync_process_req api locked ep regs s = Inr s1 \<and>
    sync_blocked_round api (s1\<lparr>ss_net := (ss_net s1)\<lparr>net_sockets := so\<rparr>\<rparr>) = Inr s2 \<and> ss_recv_blocked_tasks s2 = [] \<and>
    net_ep_sent (ss_net s2) = net_ep_sent (ss_net s) @ [(ep, ucast (message_code RecvReply), of_nat (length bytes))] \<and>
    net_tcp_buffers (ss_net s2) (regs 2) = Some (bytes @ drop (length bytes) data)"
  using assms by (simp add: sync_process_req_def sync_process_recv_def sync_blocked_round_def process_blocked_task_def tcp_buffer_at_def
      recv_into_def ep_send_def message_type_of_def guard_res_def)

theorem deferred_receive_ignores_length_witness:
  "regs_example Recv 3 = 1 \<and> (\<exists>s1 s2. sync_process_req sync_api True 5 (regs_example Recv) sync_example = Inr s1 \<and>
     sync_blocked_round sync_api (s1\<lparr>ss_net := (ss_net s1)\<lparr>net_sockets := 3\<rparr>\<rparr>) = Inr s2 \<and>
     net_ep_sent (ss_net s2) = [(5, 7, 3)] \<and> net_tcp_buffers (ss_net s2) 4096 = Some [7, 7, 7, 0, 0, 0, 0, 0])"
proof -
  have "(ucast (regs_example Recv 0) :: u8) = ucast (message_code Recv)" "ss_recv_blocked_tasks sync_example = []"
    "net_tcp_buffers (ss_net sync_example) (regs_example Recv 2) = Some (replicate 8 0)"
    "sa_can_recv sync_api (regs_example Recv 1) (net_sockets (ss_net sync_example)) = Inr False" "sa_can_recv sync_api (regs_example Recv 1) 3 = Inr True"
    "sa_recv_slice sync_api (regs_example Recv 1) (length (replicate 8 (0 :: u8))) 3 = (Inr (replicate 3 7), 0)"
    by (simp_all add: regs_example_def sync_example_def sync_api_def)
  from deferred_receive_ignores_length [OF this, of True 5] obtain s1 s2 where
    req: "sync_process_req sync_api True 5 (regs_example Recv) sync_example = Inr s1"
      "sync_blocked_round sync_api (s1\<lparr>ss_net := (ss_net s1)\<lparr>net_sockets := 3\<rparr>\<rparr>) = Inr s2"
    and sent: "net_ep_sent (ss_net s2) = net_ep_sent (ss_net sync_example) @ [(5, ucast (message_code RecvReply), of_nat (length (replicate 3 (7 :: u8))))]"
    and buf: "net_tcp_buffers (ss_net s2) (regs_example Recv 2) = Some (replicate 3 7 @ drop (length (replicate 3 (7 :: u8))) (replicate 8 0))"
    by blast
  have "net_ep_sent (ss_net s2) = [(5, 7, 3)]" using sent by (simp add: sync_example_def)
  moreover have "replicate 3 7 @ drop 3 (replicate 8 0) = [7, 7, 7, 0, 0, 0, 0, 0 :: u8]" by (simp add: numeral_eq_Suc)
  then have "net_tcp_buffers (ss_net s2) 4096 = Some [7, 7, 7, 0, 0, 0, 0, 0]" using buf by (simp add: regs_example_def)
  moreover have "regs_example Recv 3 = 1" by (simp add: regs_example_def)
  ultimately show ?thesis using req by blast
qed

lemma length_filter_all: "length (filter P xs) = length xs \<longleftrightarrow> (\<forall>x\<in>set xs. P x)"
proof
  assume "length (filter P xs) = length xs"
  then show "\<forall>x\<in>set xs. P x" using length_filter_less [of _ xs P] by (metis less_irrefl)
qed simp

lemma serve_eps_count: "serve_eps api locked polls s = Inr (n, s') \<Longrightarrow> n = length (filter (\<lambda>(ep, badge, regs). badge \<noteq> 0 \<and> badge \<noteq> 1) polls)"
proof (induction polls arbitrary: s n)
  case (Cons p polls)
  obtain ep badge regs where p: "p = (ep, badge, regs)" by (cases p)
  show ?case using Cons by (auto simp: p split: if_split_asm)
qed simp

text \<open>C35. The first loop of the synchronous server ends only after a pass in which every one of its endpoints had a request: requests that
  come in different passes do not count together, and receives that wait are not looked at until then.\<close>

theorem listen_phase_ends_iff:
  assumes "listen_pass api eps inbox s = Inr (ends, s')" and "length eps = THREAD_NUM"
  shows "ends \<longleftrightarrow> (\<forall>i<THREAD_NUM. fst (inbox i) \<noteq> 0 \<and> fst (inbox i) \<noteq> 1)"
proof -
  let ?p = "polled_eps inbox eps" and ?req = "\<lambda>(ep :: cptr, badge :: u64, regs :: msg_regs). badge \<noteq> 0 \<and> badge \<noteq> 1"
  obtain n where n: "serve_eps api False ?p s = Inr (n, s')" "ends \<longleftrightarrow> n = THREAD_NUM" using assms(1) by (auto simp: listen_pass_def)
  have len: "length ?p = THREAD_NUM" using assms(2) by (simp add: polled_eps_def)
  have "ends \<longleftrightarrow> length (filter ?req ?p) = length ?p" using n(2) serve_eps_count [OF n(1)] len by simp
  also have "\<dots> \<longleftrightarrow> (\<forall>p\<in>set ?p. ?req p)" by (rule length_filter_all)
  also have "\<dots> \<longleftrightarrow> (\<forall>i<THREAD_NUM. fst (inbox i) \<noteq> 0 \<and> fst (inbox i) \<noteq> 1)"
    using assms(2) by (auto simp: polled_eps_def all_set_conv_all_nth case_prod_unfold)
  finally show ?thesis .
qed

theorem listen_phase_ends_iff_witness:
  "\<exists>s'. listen_pass sync_api (replicate 32 5) (\<lambda>i. (if i < 31 then 2 else 0, regs_example Reserve)) sync_example = Inr (False, s')"
proof -
  let ?in = "\<lambda>i :: nat. (if i < 31 then 2 else 0 :: u64, regs_example Reserve)"
  obtain ends s' where run: "listen_pass sync_api (replicate 32 5) ?in sync_example = Inr (ends, s')"
    by (simp add: listen_pass_def sync_eval upt_rec numeral_eq_Suc)
  have "\<not> ends" using listen_phase_ends_iff [OF run] by (auto simp: THREAD_NUM_def intro!: exI [of _ 31])
  then show ?thesis using run by auto
qed

end
