(* ===== verification/Net_Props.thy ===== *)
theory Net_Props
  imports Tcp_Client Async_Lib_Props
begin

text \<open>
  Properties of the network stack: what the server does with a request on every branch, the
  life of a connection from the listen request to the reply, and a send call followed from the
  client's request through the server's loop and back to the client's result.
\<close>

section \<open>Polls without connection requests\<close>

definition quiet :: "'ip frame \<Rightarrow> bool" where
  "quiet f \<longleftrightarrow> (case f of Tcp t \<Rightarrow> \<not> (tp_syn t \<and> \<not> tp_ack t) | _ \<Rightarrow> True)"

lemma snoop_quiet: "quiet f \<Longrightarrow> \<exists>r. snoop_tcp_packet f net = Inr (r, net)"
  by (cases f) (auto simp: quiet_def snoop_tcp_packet_def Let_def)

lemma snoop_frames_quiet: "list_all quiet fs \<Longrightarrow> snoop_frames fs net = Inr net"
proof (induction fs)
  case (Cons f fs)
  then obtain r where "snoop_tcp_packet f net = Inr (r, net)" using snoop_quiet [of f net] by auto
  with Cons show ?case by simp
qed simp

text \<open>The counters of the poller, which are checked additions, are below their limit.\<close>

definition counters_ok :: "('ip, 's) net_state \<Rightarrow> bool" where
  "counters_ok net \<longleftrightarrow> net_poll_cnt net + 1 < 2 ^ 64 \<and> net_net_poll_cnt net + 1 < 2 ^ 64"

definition polled :: "'s \<Rightarrow> ('ip, 's) net_state \<Rightarrow> ('ip, 's) net_state" where
  "polled s net = net\<lparr>net_sockets := s, net_net_poll_cnt := net_net_poll_cnt net + 1, net_poll_cnt := 0\<rparr>"

lemma iface_poll_quiet:
  assumes "sa_poll api (net_sockets net) = (ans, frames, s')" and "list_all quiet frames" and "counters_ok net"
  shows "iface_poll api True net = Inr (ans, polled s' net)"
  using assms by (simp add: iface_poll_def counters_ok_def add_usize_def snoop_frames_quiet polled_def)

section \<open>The server's loop\<close>

text \<open>A reply fits while the reply queue is not full; it is appended.\<close>

lemma write_reply_ok:
  assumes "aa_ipc_new_buffer args = Some ptr" and "aa_server_sender_id args = Some sid"
    and "th_buffers (net_th net) ptr = Some nb" and "nb_wf nb" and "length (srb_list (nb_res_items nb)) < MAX_ITEM_NUM"
  shows "\<exists>net' nb'. write_reply args item net = Inr net' \<and>
    net' = net\<lparr>net_th := (net_th net)\<lparr>th_buffers := (th_buffers (net_th net))(ptr \<mapsto> nb'),
      th_signals := th_signals (net_th net) @ (if nb_recv_reply_status nb then [] else [Uipi sid])\<rparr>\<rparr> \<and>
    nb_wf nb' \<and> srb_list (nb_res_items nb') = srb_list (nb_res_items nb) @ [item] \<and> nb_recv_reply_status nb' \<and>
    nb_req_items nb' = nb_req_items nb \<and> nb_recv_req_status nb' = nb_recv_req_status nb"
proof -
  have q: "iq_wf (nb_res_items nb)" using assms(4) by (simp add: nb_wf_def)
  obtain q' where q': "write_free_item (nb_res_items nb) item = Inr (Inr q')" "iq_wf q'"
      "srb_list q' = srb_list (nb_res_items nb) @ [item]"
    using iq.push_ok [OF q assms(5), of item] by blast
  have "\<exists>net'. write_reply args item net = Inr net'" using assms q'(1) by (auto simp: write_reply_def Let_def)
  then obtain net' where net': "write_reply args item net = Inr net'" by blast
  let ?nb = "nb\<lparr>nb_res_items := q', nb_recv_reply_status := True\<rparr>"
  have "net' = net\<lparr>net_th := (net_th net)\<lparr>th_buffers := (th_buffers (net_th net))(ptr \<mapsto> ?nb),
      th_signals := th_signals (net_th net) @ (if nb_recv_reply_status nb then [] else [Uipi sid])\<rparr>\<rparr>"
    using write_reply_Inr [OF net'] assms q' by auto
  moreover have "nb_wf ?nb" using assms(4) q'(2) by (simp add: nb_wf_def)
  ultimately show ?thesis using net' q' by (intro exI [of _ net'] exI [of _ ?nb]) simp
qed

text \<open>A request on the queue of a server that is woken: the loop processes it with the queue already
  req_popped, writes the reply, finds the queue empty, clears the request flag and suspends.\<close>

lemma recv_req_one:
  assumes args: "aa_ipc_new_buffer args = Some ptr" "aa_server_sender_id args = Some sid"
    and nb: "th_buffers (net_th net) ptr = Some nb" "nb_wf nb"
    and req: "srb_list (nb_req_items nb) = [item]" and res: "length (srb_list (nb_res_items nb)) < MAX_ITEM_NUM"
    and pop: "get_first_item (nb_req_items nb) = Inr (Some item, q)"
    and proc: "process_req api item (req_popped ptr nb q net) = Inr (Some reply, net1)"
  shows "\<exists>net' nb'. recv_req_loop api args ptr 0 net = Inr (RecvReqYield, net') \<and> net_sockets net' = net_sockets net1 \<and>
    net_tcp_buffers net' = net_tcp_buffers net1 \<and> th_buffers (net_th net') ptr = Some nb' \<and> nb_wf nb' \<and> srb_list (nb_req_items nb') = [] \<and>
    srb_list (nb_res_items nb') = srb_list (nb_res_items nb) @ [reply] \<and> nb_recv_req_status nb' = False \<and>
    th_signals (net_th net') = th_signals (net_th net1) @ (if nb_recv_reply_status nb then [] else [Uipi sid]) \<and>
    th_exec (net_th net') = th_exec (net_th net1)"
proof -
  have q0: "iq_wf (nb_req_items nb)" using nb(2) by (simp add: nb_wf_def)
  obtain q1 where "get_first_item (nb_req_items nb) = Inr (Some item, q1)" "iq_wf q1" "srb_list q1 = []"
    using iq.pop_ok [OF q0 req] by blast
  then have q: "iq_wf q" "srb_list q = []" using pop by auto
  let ?nb = "nb\<lparr>nb_req_items := q\<rparr>"
  have nb1: "th_buffers (net_th net1) ptr = Some ?nb" using process_req_buffers [OF proc] by simp
  have wf1: "nb_wf ?nb" using nb(2) q(1) by (simp add: nb_wf_def)
  obtain net2 nb2 where net2: "write_reply args reply net1 = Inr net2"
      "net2 = net1\<lparr>net_th := (net_th net1)\<lparr>th_buffers := (th_buffers (net_th net1))(ptr \<mapsto> nb2),
        th_signals := th_signals (net_th net1) @ (if nb_recv_reply_status ?nb then [] else [Uipi sid])\<rparr>\<rparr>"
    and nb2: "nb_wf nb2" "srb_list (nb_res_items nb2) = srb_list (nb_res_items nb) @ [reply]" "nb_req_items nb2 = q"
    using write_reply_ok [OF args nb1 wf1, of reply] res by auto
  have empty: "get_first_item (nb_req_items nb2) = Inr (None, nb_req_items nb2)"
    using iq.pop_empty [of q] q nb2(3) by simp
  let ?nb' = "nb2\<lparr>nb_req_items := nb_req_items nb2, nb_recv_req_status := False\<rparr>"
  let ?net' = "net2\<lparr>net_th := (net_th net2)\<lparr>th_buffers := (th_buffers (net_th net2))(ptr \<mapsto> ?nb')\<rparr>\<rparr>"
  have "recv_req_loop api args ptr 0 net = recv_req_loop api args ptr 1 net2"
    using proc net2(1) by (simp add: recv_req_next [OF nb(1) pop] reply_if_def)
  also have "\<dots> = Inr (RecvReqYield, ?net')"
    by (rule recv_req_empty [OF _ empty]) (simp add: net2(2))
  finally have "recv_req_loop api args ptr 0 net = Inr (RecvReqYield, ?net')" .
  moreover have "nb_wf ?nb'" using nb2(1) by (simp add: nb_wf_def)
  ultimately show ?thesis using net2(2) nb2 q(2) by (intro exI [of _ ?net'] exI [of _ ?nb']) simp
qed

section \<open>A send call from end to end\<close>

lemma tcp_send_call:
  assumes "th_wf (tc_th c)" and "ex_current (th_exec (tc_th c)) = Some cid" and "tc_net_stack_map c h = Some sid"
    and "unat sid < 64" and "th_submit_syscall_cnt (tc_th c) + 1 < 2 ^ 64" and "th_sender_map (tc_th c) ! unat sid = ptr"
    and "ptr \<noteq> 0" and "th_buffers (tc_th c) ptr = Some nb" and "length (srb_list (nb_req_items nb)) < MAX_ITEM_NUM"
  shows "\<exists>th' q. tcp_send h b len c = Inr (True, c\<lparr>tc_th := th'\<rparr>) \<and> th_wf th' \<and> th_exec th' = th_exec (tc_th c) \<and>
    th_buffers th' ptr = Some (nb\<lparr>nb_req_items := q, nb_recv_req_status := True\<rparr>) \<and> iq_wf q \<and>
    srb_list q = srb_list (nb_req_items nb) @ [mb_send cid h b len]"
proof -
  have "length (srb_list (nb_req_items nb)) \<noteq> MAX_ITEM_NUM" using assms(9) by simp
  then obtain th' where call: "seL4_Call_with_item (tc_th c) sid (mb_send cid h b len) = Inr (True, th')" and wf: "th_wf th'"
    and sub: "submitted (tc_th c) ptr nb (mb_send cid h b len) (if sid = 63 then WakeSyscallHandler else Uipi sid) th'"
    using call_with_item_spec [OF assms(1,4,5,6), of nb "mb_send cid h b len"] assms(7,8) by auto
  have "tcp_send h b len c = Inr (True, c\<lparr>tc_th := th'\<rparr>)"
    using assms(2,3) call by (simp add: tcp_send_def tcp_submit_def coroutine_get_current_def)
  with wf sub show ?thesis by (intro exI [of _ th']) (auto simp: submitted_def)
qed

text \<open>C5. A send call from end to end.  The client's request of at most 32768 bytes on an open socket
  reaches the server's queue; the server's next pass hands exactly the first \<open>len\<close> bytes of the
  client's buffer to that socket, polls the interface, clears the request flag and answers; the
  client's reply coroutine delivers the answer, and the calling coroutine, when it runs again,
  returns the number of bytes the socket accepted.\<close>

theorem tcp_send_end_to_end:
  assumes client: "th_wf (tc_th c)" "ex_current (th_exec (tc_th c)) = Some cid" "unat cid < MAX_TASK_NUM"
      "tc_net_stack_map c h = Some sid" "unat sid < 64" "th_submit_syscall_cnt (tc_th c) + 1 < 2 ^ 64"
      "th_sender_map (tc_th c) ! unat sid = ptr" "ptr \<noteq> 0" "th_buffers (tc_th c) ptr = Some nb"
      "srb_list (nb_req_items nb) = []" "srb_list (nb_res_items nb) = []"
      "\<forall>p<MAX_PRIO_NUM. length (ready (th_exec (tc_th c)) p) + 1 \<le> MAX_TASK_NUM - 1"
    and call: "tcp_send h b len c = Inr (True, c1)"
    and server: "th_buffers (net_th net) ptr = th_buffers (tc_th c1) ptr" "aa_ipc_new_buffer args = Some ptr"
      "aa_server_sender_id args = Some ssid" "counters_ok net"
    and socket: "unat h < 65536" "net_tcp_buffers net b = Some data" "length data = TCP_TX_BUF_LEN" "unat len \<le> length data"
      "sa_can_send api h (net_sockets net) = Inr True"
      "sa_send_slice api h (take (unat len) data) (net_sockets net) = (Inr n, s)" "n \<le> unat len"
      "sa_poll api s = (ans, frames, s')" "list_all quiet frames"
    and replies: "1 < reply_num" "reply_num < 2 ^ 64"
  shows "\<exists>net2 nb2 th3. recv_req_loop api args ptr 0 net = Inr (RecvReqYield, net2) \<and> net_sockets net2 = s' \<and>
    th_buffers (net_th net2) ptr = Some nb2 \<and> srb_list (nb_req_items nb2) = [] \<and> nb_recv_req_status nb2 = False \<and>
    recv_reply_loop ptr reply_num 0 (tc_th c1\<lparr>th_buffers := (th_buffers (tc_th c1))(ptr \<mapsto> nb2)\<rparr>) = Inr (Pending, 1, th3) \<and>
    (\<forall>th4. ex_current (th_exec th4) = Some cid \<and> th_immediate_value th4 = th_immediate_value th3 \<longrightarrow>
       (\<exists>c4. tcp_send_resume (c1\<lparr>tc_th := th4\<rparr>) = Inr (Inr (of_nat n), c4)))"
proof -
  obtain th1 q where c1: "c1 = c\<lparr>tc_th := th1\<rparr>" and th1: "th_wf th1" "th_exec th1 = th_exec (tc_th c)"
    and nb1: "th_buffers th1 ptr = Some (nb\<lparr>nb_req_items := q, nb_recv_req_status := True\<rparr>)"
    and q: "srb_list q = [mb_send cid h b len]"
    using tcp_send_call [OF client(1,2,4,5,6,7,8,9), of b len] client(10) call by (auto simp: MAX_ITEM_NUM_def)
  let ?nb1 = "nb\<lparr>nb_req_items := q, nb_recv_req_status := True\<rparr>" and ?reply = "mb_send_reply cid (of_nat n)"
  have wf1: "nb_wf ?nb1" using th1(1) nb1 by (auto simp: th_wf_def ran_def)
  have srv: "th_buffers (net_th net) ptr = Some ?nb1" using server(1) c1 nb1 by simp
  obtain q' where pop: "get_first_item (nb_req_items ?nb1) = Inr (Some (mb_send cid h b len), q')"
    using iq.pop_ok [of q "mb_send cid h b len" "[]"] wf1 q by (auto simp: nb_wf_def)
  let ?net0 = "req_popped ptr ?nb1 q' net"
  have len: "unat len < 65536" "n < 65536" using socket(3,4,7) by (auto simp: TCP_TX_BUF_LEN_def)
  have poll: "iface_poll api True (?net0\<lparr>net_sockets := s\<rparr>) = Inr (ans, polled s' (?net0\<lparr>net_sockets := s\<rparr>))"
    using server(4) by (intro iface_poll_quiet [OF _ socket(9)]) (simp_all add: socket(8) counters_ok_def)
  have proc: "process_req api (mb_send cid h b len) ?net0 = Inr (Some ?reply, polled s' (?net0\<lparr>net_sockets := s\<rparr>))"
    by (rule process_send_ok [OF socket(1) len(1) socket(4) _ _ _ poll]) (simp_all add: socket)
  obtain net2 nb2 where net2: "recv_req_loop api args ptr 0 net = Inr (RecvReqYield, net2)" "net_sockets net2 = s'"
      "th_buffers (net_th net2) ptr = Some nb2" "nb_wf nb2" "srb_list (nb_req_items nb2) = []"
      "srb_list (nb_res_items nb2) = [?reply]" "nb_recv_req_status nb2 = False"
    using recv_req_one [OF server(2,3) srv wf1 _ _ pop proc] q client(11) by (auto simp: MAX_ITEM_NUM_def polled_def)
  let ?th2 = "th1\<lparr>th_buffers := (th_buffers th1)(ptr \<mapsto> nb2)\<rparr>"
  have wf2: "th_wf ?th2" using th1(1) net2(4) by (auto simp: th_wf_def ran_def)
  obtain th3 where th3: "recv_reply_loop ptr reply_num 0 ?th2 = Inr (Pending, 1, th3)"
      "th_immediate_value th3 = deliver (th_immediate_value th1) [?reply]"
    using recv_reply_pass [OF wf2 _ net2(6), of ptr 0 reply_num] client(3,12) replies th1(2) by auto
  have "th_immediate_value th3 ! unat cid = Some ?reply" "unat cid < length (th_immediate_value th3)"
    using th3(2) client(3) th1(1) by (simp_all add: th_wf_def)
  then have "has_reply cid ?reply (c1\<lparr>tc_th := th4\<rparr>)"
    if "ex_current (th_exec th4) = Some cid" "th_immediate_value th4 = th_immediate_value th3" for th4
    using that by (simp add: has_reply_def)
  then have "tcp_send_resume (c1\<lparr>tc_th := th4\<rparr>) = Inr (Inr (of_nat n), took_reply cid (c1\<lparr>tc_th := th4\<rparr>))"
    if "ex_current (th_exec th4) = Some cid" "th_immediate_value th4 = th_immediate_value th3" for th4
    using that tcp_reply_value [of cid ?reply "c1\<lparr>tc_th := th4\<rparr>" SendReply] of_nat_u16_exact [OF len(2)]
    by (simp add: tcp_send_resume_def)
  with net2 th3(1) c1 show ?thesis by (intro exI [of _ net2] exI [of _ nb2] exI [of _ th3]) auto
qed

text \<open>A client with socket 3 open at the server behind sender 7, and a matching server.\<close>

definition client_example :: "unit tcp_client" where
  "client_example =
     \<lparr>tc_th = thread_new [8 \<mapsto> new_buffer_new]\<lparr>th_sender_map := (replicate 64 0)[7 := 8], th_exec := executor_new\<lparr>ex_current := Some 5\<rparr>\<rparr>,
      tc_net_stack_map = [3 \<mapsto> 7], tc_net_stack_map2 = Map.empty\<rparr>"

definition args_example :: async_args where
  "args_example = async_args_new\<lparr>aa_server_sender_id := Some 2, aa_ipc_new_buffer := Some 8\<rparr>"

lemma client_example_wf: "th_wf (tc_th client_example)"
proof -
  have "ex_wf (executor_new\<lparr>ex_current := Some 5\<rparr> :: unit executor)"
    by (simp add: ex_wf_def executor_new_wf [unfolded ex_wf_def])
  moreover have "th_wf (thread_new [8 \<mapsto> new_buffer_new] :: unit thread)"
    by (rule thread_new_wf) (simp add: new_buffer_new_wf)
  ultimately show ?thesis by (simp add: client_example_def th_wf_def)
qed

theorem tcp_send_end_to_end_witness:
  "\<exists>net net2 c1 th3. tcp_send 3 4096 100 client_example = Inr (True, c1) \<and>
     recv_req_loop api_example args_example 8 0 net = Inr (RecvReqYield, net2) \<and>
     (\<exists>c4. tcp_send_resume (c1\<lparr>tc_th := th3\<lparr>th_exec := (th_exec th3)\<lparr>ex_current := Some 5\<rparr>\<rparr>\<rparr>) = Inr (Inr 1, c4))"
proof -
  let ?c = client_example
  have th: "ex_current (th_exec (tc_th ?c)) = Some 5" "tc_net_stack_map ?c 3 = Some 7" "th_submit_syscall_cnt (tc_th ?c) + 1 < 2 ^ 64"
    "th_sender_map (tc_th ?c) ! unat (7 :: sender_id) = 8" "th_buffers (tc_th ?c) 8 = Some new_buffer_new"
    by (simp_all add: client_example_def thread_new_def)
  have nb: "srb_list (nb_req_items new_buffer_new) = []" "srb_list (nb_res_items new_buffer_new) = []"
    by (simp_all add: new_buffer_new_def items_queue_new_list)
  have room: "\<forall>p<MAX_PRIO_NUM. length (ready (th_exec (tc_th ?c)) p) + 1 \<le> MAX_TASK_NUM - 1"
    by (simp add: client_example_def executor_new_ready MAX_TASK_NUM_def)
  obtain c1 where call: "tcp_send 3 4096 100 ?c = Inr (True, c1)"
    using tcp_send_call [OF client_example_wf th(1,2) _ th(3,4) _ th(5), of 4096 100] nb by (auto simp: MAX_ITEM_NUM_def)
  let ?net = "net_example\<lparr>net_th := thread_new (th_buffers (tc_th c1)), net_tcp_buffers := [4096 \<mapsto> tcp_buffer_new]\<rparr> :: (u32, nat) net_state"
  have net: "th_buffers (net_th ?net) 8 = th_buffers (tc_th c1) 8" "counters_ok ?net" "net_tcp_buffers ?net 4096 = Some tcp_buffer_new"
    by (simp_all add: thread_new_def counters_ok_def net_example_def)
  have api: "sa_can_send api_example 3 (net_sockets ?net) = Inr True" "sa_poll api_example 0 = (False, [], 0)"
    "sa_send_slice api_example 3 (take (unat (100 :: u64)) tcp_buffer_new) (net_sockets ?net) = (Inr 1, 0)"
    by (simp_all add: api_example_def net_example_def tcp_buffer_new_def TCP_TX_BUF_LEN_def)
  have args: "aa_ipc_new_buffer args_example = Some 8" "aa_server_sender_id args_example = Some 2" by (simp_all add: args_example_def)
  have "length tcp_buffer_new = TCP_TX_BUF_LEN" by (simp add: tcp_buffer_new_def)
  moreover have "unat (100 :: u64) \<le> length tcp_buffer_new" by (simp add: tcp_buffer_new_def TCP_TX_BUF_LEN_def)
  ultimately obtain net2 and th3 :: "unit thread" where "recv_req_loop api_example args_example 8 0 ?net = Inr (RecvReqYield, net2)"
      and resume: "\<forall>th4. ex_current (th_exec th4) = Some 5 \<and> th_immediate_value th4 = th_immediate_value th3 \<longrightarrow>
        (\<exists>c4. tcp_send_resume (c1\<lparr>tc_th := th4\<rparr>) = Inr (Inr (of_nat 1), c4))"
    using tcp_send_end_to_end [OF client_example_wf th(1) _ th(2) _ th(3,4) _ th(5) nb room call net(1) args net(2) _ net(3) _ _ api(1,3) _ api(2),
      of 100] by (simp add: MAX_TASK_NUM_def) blast
  moreover have "\<exists>c4. tcp_send_resume (c1\<lparr>tc_th := th3\<lparr>th_exec := (th_exec th3)\<lparr>ex_current := Some 5\<rparr>\<rparr>\<rparr>) = Inr (Inr 1, c4)"
    using resume [rule_format, of "th3\<lparr>th_exec := (th_exec th3)\<lparr>ex_current := Some 5\<rparr>\<rparr>"] by simp
  ultimately show ?thesis using call by blast
qed

section \<open>The life of a connection\<close>

text \<open>The state of a port on which one coroutine listens and has been woken.\<close>

lemma listen_then_syn:
  assumes "net_tcp net port = None" and "port \<noteq> 0" and "sa_listen api port (net_sockets net) = Some (h, s)"
    and "ex_current (th_exec (net_th net)) = Some cur" and "wake (th_exec (net_th net)) cur = Inr ex"
  shows "\<exists>net1 net2 en. tcp_accept_start api cid port net = Inr (AcceptYield cid port h, net1) \<and>
    incoming_tcp_packet \<lparr>ie_addr = a, ie_port = port\<rparr> net1 = Inr net2 \<and> th_exec (net_th net2) = ex \<and>
    net_tcp net2 port = Some en \<and> lte_syn_queue en = [h] \<and> lte_block_cids en = []"
  using assms by (simp add: tcp_accept_start_def current_cid_def coroutine_get_current_def listen_eval)

lemma net_yield_resume_eq:
  assumes "ex_current (th_exec (net_th net)) = Some cur" and "unat cur < length (th_immediate_value (net_th net))"
  shows "net_yield_resume net = Inr (th_immediate_value (net_th net) ! unat cur,
    net\<lparr>net_th := (net_th net)\<lparr>th_immediate_value := (th_immediate_value (net_th net))[unat cur := None]\<rparr>\<rparr>)"
  using assms by (simp add: net_yield_resume_def yield_now_resume_def coroutine_get_current_def index_res_def)

text \<open>C16. A connection from the listen request on: on a fresh port the accepting coroutine registers its
  new socket and the first connection request wakes it.  If the handshake is complete when it
  runs, the client is answered with exactly that socket and the socket's requests are routed to
  this coroutine; if the handshake is still under way, the network thread panics.\<close>

theorem connection_accept:
  assumes port: "net_tcp net port = None" "port \<noteq> 0" "sa_listen api port (net_sockets net) = Some (h, s)"
    and cur: "ex_current (th_exec (net_th net)) = Some cur" "wake (th_exec (net_th net)) cur = Inr ex"
    and start: "tcp_accept_start api cid port net = Inr (f, net1)"
    and syn: "incoming_tcp_packet \<lparr>ie_addr = a, ie_port = port\<rparr> net1 = Inr net2"
    and later: "net_tcp net3 = net_tcp net2" "ex_current (th_exec (net_th net3)) = Some cur"
      "unat cur < length (th_immediate_value (net_th net3))" "th_buffers (net_th net3) ptr = Some nb" "nb_wf nb"
      "length (srb_list (nb_res_items nb)) < MAX_ITEM_NUM"
    and args: "aa_ipc_new_buffer args = Some ptr" "aa_server_sender_id args = Some sid"
    and state: "sa_established api h (net_sockets net3) = Inr established"
      "sa_endpoints api h (net_sockets net3) = Inr (Some l, Some r)"
  shows "f = AcceptYield cid port h \<and> th_exec (net_th net2) = ex \<and>
    (if established
     then \<exists>net4 nb4. net_future_step api args clock f net3 = Inr (TcpRecvYield, net4) \<and> net_socket_2_cid net4 h = Some cur \<and>
       th_buffers (net_th net4) ptr = Some nb4 \<and> srb_list (nb_res_items nb4) = srb_list (nb_res_items nb) @ [mb_listen_reply cid h]
     else net_future_step api args clock f net3 = Inl AssertFailed)"
proof -
  obtain en where en: "net_tcp net2 port = Some en" "lte_syn_queue en = [h]" and f: "f = AcceptYield cid port h" and ex: "th_exec (net_th net2) = ex"
    using listen_then_syn [OF port cur, of cid a] start syn by auto
  let ?net = "net3\<lparr>net_th := (net_th net3)\<lparr>th_immediate_value := (th_immediate_value (net_th net3))[unat cur := None]\<rparr>\<rparr>"
  let ?net' = "?net\<lparr>net_tcp := (net_tcp ?net)(port \<mapsto> en\<lparr>lte_syn_queue := []\<rparr>)\<rparr>"
  have step: "net_future_step api args clock f net3 = tcp_accept_finish api args cid port h ?net"
    using net_yield_resume_eq [OF later(2,3)] by (simp add: net_future_step_def f)
  show ?thesis
  proof (cases established)
    case True
    have acc: "table_accept api port ?net = Inr (Inr (h, l, r), ?net')"
      using en later(1) state True by (simp add: table_accept_Inr)
    obtain net4 nb4 where w: "write_reply args (mb_listen_reply cid h) ?net' = Inr net4"
      and net4: "th_buffers (net_th net4) ptr = Some nb4" "srb_list (nb_res_items nb4) = srb_list (nb_res_items nb) @ [mb_listen_reply cid h]"
        "th_exec (net_th net4) = th_exec (net_th net3)"
      using write_reply_ok [OF args, of ?net' nb "mb_listen_reply cid h"] later by auto
    have "tcp_accept_finish api args cid port h ?net = Inr (TcpRecvYield, net4\<lparr>net_socket_2_cid := (net_socket_2_cid net4)(h \<mapsto> cur)\<rparr>)"
      using acc w net4(3) later(2) args(1) by (simp add: tcp_accept_finish_def current_cid_def coroutine_get_current_def)
    then show ?thesis using f ex True step net4 by simp
  next
    case False
    then have "tcp_accept_finish api args cid port h ?net = Inl AssertFailed"
      using en later(1) state args(1) by (simp add: tcp_accept_finish_def table_accept_def is_connected_def guard_res_def)
    then show ?thesis using f ex False step by simp
  qed
qed

lemma wake_executor_current:
  "cid < 2048 \<Longrightarrow> wake (executor_new\<lparr>ex_current := c\<rparr>) cid = Inr (executor_new\<lparr>ex_current := c\<rparr>)"
  by (simp add: wake_def executor_new_def index_res_def MAX_TASK_NUM_def word_less_nat_alt)

text \<open>A network thread in which coroutine 5 runs, with one shared buffer and one TCP buffer.\<close>

definition net_running :: "(u32, nat) net_state" where
  "net_running =
     net_example\<lparr>net_th := thread_new [8 \<mapsto> new_buffer_new]\<lparr>th_exec := executor_new\<lparr>ex_current := Some 5\<rparr>\<rparr>,
       net_socket_2_cid := [3 \<mapsto> 5], net_tcp_buffers := [4096 \<mapsto> tcp_buffer_new]\<rparr>"

lemma net_running_sel [simp]:
  "net_tcp net_running = Map.empty" "net_sockets net_running = 0" "net_socket_2_cid net_running = [3 \<mapsto> 5]"
  "net_tcp_buffers net_running = [4096 \<mapsto> tcp_buffer_new]" "th_exec (net_th net_running) = executor_new\<lparr>ex_current := Some 5\<rparr>"
  "th_buffers (net_th net_running) = [8 \<mapsto> new_buffer_new]" "length (th_immediate_value (net_th net_running)) = 2048"
  by (simp_all add: net_running_def thread_new_def MAX_TASK_NUM_def)

lemma args_example_sel [simp]: "aa_ipc_new_buffer args_example = Some 8" "aa_server_sender_id args_example = Some 2"
  by (simp_all add: args_example_def)

lemma new_buffer_room: "length (srb_list (nb_res_items new_buffer_new)) < MAX_ITEM_NUM" "srb_list (nb_res_items new_buffer_new) = []"
  by (simp_all add: new_buffer_new_def items_queue_new_list MAX_ITEM_NUM_def)

lemma tcp_buffer_new_length [simp]: "length tcp_buffer_new = TCP_TX_BUF_LEN"
  by (simp add: tcp_buffer_new_def)

theorem connection_accept_witness:
  "\<exists>net1 net2 net4 nb4. tcp_accept_start api_example 9 80 net_running = Inr (AcceptYield 9 80 0, net1) \<and>
     incoming_tcp_packet \<lparr>ie_addr = 1, ie_port = 80\<rparr> net1 = Inr net2 \<and>
     net_future_step api_example args_example (\<lambda>n. 0) (AcceptYield 9 80 0) (net_running\<lparr>net_tcp := net_tcp net2\<rparr>) = Inr (TcpRecvYield, net4) \<and>
     net_socket_2_cid net4 0 = Some 5 \<and> th_buffers (net_th net4) 8 = Some nb4 \<and> srb_list (nb_res_items nb4) = [mb_listen_reply 9 0]"
proof -
  have port: "net_tcp net_running 80 = None" "(80 :: u16) \<noteq> 0" "sa_listen api_example 80 (net_sockets net_running) = Some (0, 1)"
    by (simp_all add: api_example_def)
  have cur: "ex_current (th_exec (net_th net_running)) = Some 5"
      "wake (th_exec (net_th net_running)) 5 = Inr (executor_new\<lparr>ex_current := Some 5\<rparr>)"
    by (simp_all add: wake_executor_current)
  obtain net1 net2 where start: "tcp_accept_start api_example 9 80 net_running = Inr (AcceptYield 9 80 0, net1)"
    and syn: "incoming_tcp_packet \<lparr>ie_addr = 1, ie_port = 80\<rparr> net1 = Inr net2"
    using listen_then_syn [OF port cur, of 9 1] by blast
  let ?net3 = "net_running\<lparr>net_tcp := net_tcp net2\<rparr>"
  have "sa_established api_example 0 (net_sockets ?net3) = Inr True" "net_tcp ?net3 = net_tcp net2"
      "th_buffers (net_th ?net3) 8 = Some new_buffer_new" "ex_current (th_exec (net_th ?net3)) = Some 5"
      "unat (5 :: coroutine_id) < length (th_immediate_value (net_th ?net3))"
      "sa_endpoints api_example 0 (net_sockets ?net3) = Inr (Some \<lparr>ie_addr = 1, ie_port = 80\<rparr>, Some \<lparr>ie_addr = 2, ie_port = 1024\<rparr>)"
    by simp_all
  from connection_accept [OF port cur start syn this(2,4,5,3) new_buffer_new_wf new_buffer_room(1) args_example_sel this(1,6)]
  show ?thesis using start syn new_buffer_room(2) by auto
qed

section \<open>Requests that fail\<close>

text \<open>C37. A send request whose length exceeds the 32768-byte buffer, which the 16-bit length field
  allows, panics the network thread; one for a socket that cannot send at the moment is dropped
  without an answer, the state unchanged, so that its caller is never woken.\<close>

theorem send_request_failures:
  assumes "unat h < 65536" and "unat len < 65536" and "net_tcp_buffers net b = Some data" and "length data = TCP_TX_BUF_LEN"
    and "sa_can_send api h (net_sockets net) = Inr can"
  shows "if can then TCP_TX_BUF_LEN < unat len \<longrightarrow> process_req api (mb_send cid h b len) net = Inl IndexOutOfBounds
    else process_req api (mb_send cid h b len) net = Inr (None, net)"
  using assms by (simp add: process_req_def process_send_def tcp_buffer_at_def ucast_u16_roundtrip [THEN iffD2] guard_res_def)

theorem send_request_failures_witness:
  "process_req api_example (mb_send 1 3 4096 40000) net_running = Inl IndexOutOfBounds \<and>
   process_req (api_example\<lparr>sa_can_send := \<lambda>h n. Inr False\<rparr>) (mb_send 1 3 4096 40000) net_running = Inr (None, net_running)"
proof -
  have "sa_can_send api_example 3 (net_sockets net_running) = Inr True" by (simp add: api_example_def)
  from send_request_failures [OF _ _ _ _ this, of 40000 4096 tcp_buffer_new 1]
    send_request_failures [of 3 40000 net_running 4096 tcp_buffer_new "api_example\<lparr>sa_can_send := \<lambda>h n. Inr False\<rparr>" False 1]
  show ?thesis by (simp add: TCP_TX_BUF_LEN_def)
qed

section \<open>Receive requests that wait\<close>

lemma process_recv_defer:
  assumes "unat h < 65536" and "net_tcp_buffers net b = Some data" and "sa_can_recv api h (net_sockets net) = Inr False"
    and "net_socket_2_cid net h = Some rcid" and "unat rcid < length (th_immediate_value (net_th net))"
    and "wake (th_exec (net_th net)) rcid = Inr ex"
  shows "process_req api (mb_recv cid h b len) net = Inr (None, net\<lparr>net_th := (net_th net)\<lparr>
    th_immediate_value := (th_immediate_value (net_th net))[unat rcid := Some (mb_recv cid h b len)], th_exec := ex\<rparr>\<rparr>)"
  using assms by (simp add: process_req_def process_recv_def tcp_buffer_at_def ucast_u16_roundtrip [THEN iffD2]
      wake_with_value_def store_res_def)

text \<open>C17. A receive request for a connection without data is handed to the connection's coroutine,
  which is woken; when that coroutine runs and data has arrived, the data is put at the front of
  the caller's buffer, the rest of the buffer is untouched, and the caller is answered with the
  number of bytes.\<close>

theorem recv_deferred:
  assumes req: "unat h < 65536" "unat len < 65536" "net_tcp_buffers net b = Some data" "sa_can_recv api h (net_sockets net) = Inr False"
      "net_socket_2_cid net h = Some rcid" "unat rcid < length (th_immediate_value (net_th net))"
      "wake (th_exec (net_th net)) rcid = Inr ex" "process_req api (mb_recv cid h b len) net = Inr (r, net1)"
    and later: "th_immediate_value (net_th net2) = th_immediate_value (net_th net1)" "ex_current (th_exec (net_th net2)) = Some rcid"
      "net_tcp_buffers net2 b = Some data2" "length data2 < 65536" "sa_can_recv api h (net_sockets net2) = Inr True"
      "sa_recv_slice api h (min (length data2) (unat len)) (net_sockets net2) = (Inr bytes, s)" "length bytes \<le> length data2"
      "th_buffers (net_th net2) ptr = Some nb" "nb_wf nb" "length (srb_list (nb_res_items nb)) < MAX_ITEM_NUM"
    and args: "aa_ipc_new_buffer args = Some ptr" "aa_server_sender_id args = Some sid"
  shows "r = None \<and> th_exec (net_th net1) = ex \<and>
    (\<exists>net3 nb3 reply. net_future_step api args clock TcpRecvYield net2 = Inr (TcpRecvYield, net3) \<and>
      net_tcp_buffers net3 b = Some (bytes @ drop (length bytes) data2) \<and>
      th_buffers (net_th net3) ptr = Some nb3 \<and> srb_list (nb_res_items nb3) = srb_list (nb_res_items nb) @ [reply] \<and>
      get_type reply = Inr RecvReply \<and> item_cid reply = cid \<and> unat (get_len reply) = length bytes)"
proof -
  let ?item = "mb_recv cid h b len"
  have r: "r = None" and ex: "th_exec (net_th net1) = ex"
    and iv: "th_immediate_value (net_th net1) = (th_immediate_value (net_th net))[unat rcid := Some ?item]"
    using process_recv_defer [OF req(1,3,4,5,6,7), of cid len] req(8) by auto
  have slot: "th_immediate_value (net_th net2) ! unat rcid = Some ?item" "unat rcid < length (th_immediate_value (net_th net2))"
    using later(1) iv req(6) by simp_all
  let ?net = "net2\<lparr>net_th := (net_th net2)\<lparr>th_immediate_value := (th_immediate_value (net_th net2))[unat rcid := None]\<rparr>\<rparr>"
  let ?net' = "?net\<lparr>net_sockets := s, net_tcp_buffers := (net_tcp_buffers ?net)(b \<mapsto> bytes @ drop (length bytes) data2)\<rparr>"
  let ?reply = "mb_recv_reply cid (of_nat (length bytes))"
  have step: "net_future_step api args clock TcpRecvYield net2 = tcp_recv_busy api args ?item ?net"
    using net_yield_resume_eq [OF later(2) slot(2)] slot(1) by (simp add: net_future_step_def)
  have busy: "tcp_recv_busy api args ?item ?net = rbind (write_reply args ?reply ?net') (\<lambda>net3. Inr (TcpRecvYield, net3))"
    using req(1,2) later(3,5,6) by (simp add: tcp_recv_busy_def tcp_buffer_at_def recv_into_def ucast_u16_roundtrip [THEN iffD2])
  obtain net3 nb3 where w: "write_reply args ?reply ?net' = Inr net3"
    and net3: "net_tcp_buffers net3 = net_tcp_buffers ?net'" "th_buffers (net_th net3) ptr = Some nb3"
      "srb_list (nb_res_items nb3) = srb_list (nb_res_items nb) @ [?reply]"
    using write_reply_ok [OF args, of ?net' nb ?reply] later(8,9,10) by auto
  have "unat (get_len ?reply) = length bytes"
    using later(4,7) of_nat_u16_exact [of "length bytes"] by (simp add: unat_of_nat take_bit_nat_eq_self)
  then show ?thesis using r ex step busy w net3 by (intro conjI exI [of _ net3] exI [of _ nb3] exI [of _ ?reply]) simp_all
qed

definition api_waiting :: "(u32, nat) socket_api" where
  "api_waiting = api_example\<lparr>sa_can_recv := \<lambda>h n. Inr (0 < n)\<rparr>"

theorem recv_deferred_witness:
  "\<exists>net1 net3. process_req api_waiting (mb_recv 9 3 4096 100) net_running = Inr (None, net1) \<and>
     net_future_step api_waiting args_example (\<lambda>n. 0) TcpRecvYield (net1\<lparr>net_sockets := 1\<rparr>) = Inr (TcpRecvYield, net3) \<and>
     net_tcp_buffers net3 4096 = Some (7 # drop 1 tcp_buffer_new)"
proof -
  let ?ex = "executor_new\<lparr>ex_current := Some 5\<rparr> :: net_future executor"
  have api: "sa_can_recv api_waiting 3 (net_sockets net_running) = Inr False" "net_socket_2_cid net_running 3 = Some 5"
      "net_tcp_buffers net_running 4096 = Some tcp_buffer_new" "wake (th_exec (net_th net_running)) 5 = Inr ?ex"
      "unat (5 :: coroutine_id) < length (th_immediate_value (net_th net_running))"
    by (simp_all add: api_waiting_def wake_executor_current)
  obtain net1 where req: "process_req api_waiting (mb_recv 9 3 4096 100) net_running = Inr (None, net1)"
    and net1: "th_buffers (net_th net1) = [8 \<mapsto> new_buffer_new]" "net_tcp_buffers net1 = [4096 \<mapsto> tcp_buffer_new]" "th_exec (net_th net1) = ?ex"
    using process_recv_defer [OF _ api(3,1,2,5,4), of 9 100] by simp
  let ?net2 = "net1\<lparr>net_sockets := 1\<rparr>"
  have later: "th_immediate_value (net_th ?net2) = th_immediate_value (net_th net1)" "ex_current (th_exec (net_th ?net2)) = Some 5"
      "net_tcp_buffers ?net2 4096 = Some tcp_buffer_new" "length tcp_buffer_new < 65536" "sa_can_recv api_waiting 3 (net_sockets ?net2) = Inr True"
      "sa_recv_slice api_waiting 3 (min (length tcp_buffer_new) (unat (100 :: u64))) (net_sockets ?net2) = (Inr [7], 1)"
      "length [7 :: u8] \<le> length tcp_buffer_new" "th_buffers (net_th ?net2) 8 = Some new_buffer_new"
    by (simp_all add: net1 api_waiting_def api_example_def TCP_TX_BUF_LEN_def)
  from recv_deferred [OF _ _ api(3,1,2,5,4) req later new_buffer_new_wf new_buffer_room(1) args_example_sel] req
  show ?thesis by auto
qed

text \<open>C38. A second receive request for a connection whose coroutine is still waiting for data is lost:
  it is left in the coroutine's value slot, and the coroutine's next poll takes it out of the
  slot and goes on waiting for the first request.  No reply is ever written for it.\<close>

theorem busy_receiver_drops_request:
  assumes req: "unat h < 65536" "net_tcp_buffers net b = Some data" "sa_can_recv api h (net_sockets net) = Inr False"
      "net_socket_2_cid net h = Some rcid" "unat rcid < length (th_immediate_value (net_th net))"
      "wake (th_exec (net_th net)) rcid = Inr ex" "process_req api (mb_recv cid2 h b len2) net = Inr (r, net1)"
    and busy: "item = mb_recv cid1 h b len1"
    and run: "ex_current ex1 = Some rcid" "wake ex1 rcid = Inr ex2"
  shows "r = None \<and> th_immediate_value (net_th net1) ! unat rcid = Some (mb_recv cid2 h b len2) \<and>
    (\<exists>net2. net_future_step api args clock (TcpRecvBusy item) (net1\<lparr>net_th := (net_th net1)\<lparr>th_exec := ex1\<rparr>\<rparr>) = Inr (TcpRecvBusy item, net2) \<and>
      th_immediate_value (net_th net2) ! unat rcid = None \<and> th_buffers (net_th net2) = th_buffers (net_th net) \<and> net_sockets net2 = net_sockets net)"
proof -
  let ?item2 = "mb_recv cid2 h b len2"
  have r: "r = None" and net1: "net1 = net\<lparr>net_th := (net_th net)\<lparr>
      th_immediate_value := (th_immediate_value (net_th net))[unat rcid := Some ?item2], th_exec := ex\<rparr>\<rparr>"
    using process_recv_defer [OF req(1,2,3,4,5,6), of cid2 len2] req(7) by auto
  let ?n = "net1\<lparr>net_th := (net_th net1)\<lparr>th_exec := ex1\<rparr>\<rparr>"
  have "net_yield_resume ?n = Inr (Some ?item2,
      ?n\<lparr>net_th := (net_th ?n)\<lparr>th_immediate_value := (th_immediate_value (net_th ?n))[unat rcid := None]\<rparr>\<rparr>)"
    using net_yield_resume_eq [of ?n rcid] run(1) req(5) by (simp add: net1)
  then show ?thesis using r req(1,2,3,5) run
    by (simp add: net_future_step_def net1 busy tcp_recv_busy_def tcp_buffer_at_def current_cid_def coroutine_get_current_def
        coroutine_wake_def ucast_u16_roundtrip [THEN iffD2])
qed

theorem busy_receiver_drops_request_witness:
  "\<exists>net1 net2. process_req api_waiting (mb_recv 10 3 4096 50) net_running = Inr (None, net1) \<and>
     th_immediate_value (net_th net1) ! 5 = Some (mb_recv 10 3 4096 50) \<and>
     net_future_step api_waiting args_example (\<lambda>n. 0) (TcpRecvBusy (mb_recv 9 3 4096 100))
       (net1\<lparr>net_th := (net_th net1)\<lparr>th_exec := executor_new\<lparr>ex_current := Some 5\<rparr>\<rparr>\<rparr>) = Inr (TcpRecvBusy (mb_recv 9 3 4096 100), net2) \<and>
     th_immediate_value (net_th net2) ! 5 = None"
proof -
  let ?ex = "executor_new\<lparr>ex_current := Some 5\<rparr> :: net_future executor"
  have api: "sa_can_recv api_waiting 3 (net_sockets net_running) = Inr False" "net_socket_2_cid net_running 3 = Some 5"
      "net_tcp_buffers net_running 4096 = Some tcp_buffer_new" "wake (th_exec (net_th net_running)) 5 = Inr ?ex"
      "unat (5 :: coroutine_id) < length (th_immediate_value (net_th net_running))"
    by (simp_all add: api_waiting_def wake_executor_current)
  obtain net1 where req: "process_req api_waiting (mb_recv 10 3 4096 50) net_running = Inr (None, net1)"
    using process_recv_defer [OF _ api(3,1,2,5,4), of 10 50] by simp
  from busy_receiver_drops_request [OF _ api(3,1,2,5,4) req refl, where ?cid1.0 = 9 and ?len1.0 = 100 and ?ex1.0 = ?ex and ?ex2.0 = ?ex
      and args = args_example and clock = "\<lambda>n. 0"] req
  show ?thesis by (auto simp: wake_executor_current)
qed

end
