(* ===== verification/Net_Safety.thy ===== *)
theory Net_Safety
  imports Net_Props Executor_Props
begin

text \<open>
  The network thread's coroutines use the executor only through its operations and keep the
  thread's data well formed: the value slots, the queues of the shared buffers and the length
  of the TCP buffers.  Together with the executor's own theorem this gives the safety of
  every turn of the thread, whether its run returns or not, for any socket library that never returns more bytes than
  asked for.
\<close>

section \<open>Steps\<close>

definition net_inv :: "('f, 'ip, 's) net \<Rightarrow> bool" where
  "net_inv net \<longleftrightarrow> length (th_immediate_value (net_th net)) = MAX_TASK_NUM \<and>
     (\<forall>nb\<in>ran (th_buffers (net_th net)). nb_wf nb) \<and>
     (\<forall>d\<in>ran (net_tcp_buffers net). length d = TCP_TX_BUF_LEN)"

definition net_ok :: "('f, 'ip, 's) net \<Rightarrow> ('f, 'ip, 's) net \<Rightarrow> bool" where
  "net_ok net net' \<longleftrightarrow> task_step\<^sup>*\<^sup>* (th_exec (net_th net)) (th_exec (net_th net')) \<and> (net_inv net \<longrightarrow> net_inv net')"

definition recv_bounded :: "('ip, 's) socket_api \<Rightarrow> bool" where
  "recv_bounded api \<longleftrightarrow> (\<forall>h n s bytes s'. sa_recv_slice api h n s = (Inr bytes, s') \<longrightarrow> length bytes \<le> n)"

lemma net_ok_refl [simp]: "net_ok net net"
  by (simp add: net_ok_def)

lemma net_ok_trans [trans]: "net_ok n1 n2 \<Longrightarrow> net_ok n2 n3 \<Longrightarrow> net_ok n1 n3"
  by (auto simp: net_ok_def)

text \<open>Fields that neither the executor nor the invariant looks at.\<close>

lemma net_ok_frame [simp]:
  "net_ok net (net'\<lparr>net_tcp := t\<rparr>) = net_ok net net'" "net_ok net (net'\<lparr>net_sockets := s\<rparr>) = net_ok net net'"
  "net_ok net (net'\<lparr>net_socket_2_cid := m\<rparr>) = net_ok net net'" "net_ok net (net'\<lparr>net_poll_cnt := n\<rparr>) = net_ok net net'"
  "net_ok net (net'\<lparr>net_net_poll_cnt := n\<rparr>) = net_ok net net'" "net_ok net (net'\<lparr>net_poll_eps := e\<rparr>) = net_ok net net'"
  "net_ok net (net'\<lparr>net_ep_sent := p\<rparr>) = net_ok net net'"
  "net_ok (net\<lparr>net_tcp := t\<rparr>) net' = net_ok net net'" "net_ok (net\<lparr>net_sockets := s\<rparr>) net' = net_ok net net'"
  by (simp_all add: net_ok_def net_inv_def)

text \<open>A change of the thread: an executor step, a value slot, a shared buffer, a signal.\<close>

lemma net_ok_exec:
  "task_step (th_exec (net_th net)) ex \<Longrightarrow> net_ok net (net\<lparr>net_th := (net_th net)\<lparr>th_exec := ex\<rparr>\<rparr>)"
  by (auto simp: net_ok_def net_inv_def)

lemma net_ok_value:
  "net_ok net (net\<lparr>net_th := (net_th net)\<lparr>th_immediate_value := (th_immediate_value (net_th net))[i := v]\<rparr>\<rparr>)"
  by (simp add: net_ok_def net_inv_def)

lemma net_ok_buffer:
  assumes "th_buffers (net_th net) ptr = Some nb" and "nb_wf nb \<Longrightarrow> nb_wf nb'"
  shows "net_ok net (net\<lparr>net_th := (net_th net)\<lparr>th_buffers := (th_buffers (net_th net))(ptr \<mapsto> nb')\<rparr>\<rparr>)"
    and "net_ok net (net\<lparr>net_th := (net_th net)\<lparr>th_buffers := (th_buffers (net_th net))(ptr \<mapsto> nb'), th_signals := sg\<rparr>\<rparr>)"
  using assms by (auto simp: net_ok_def net_inv_def ran_def)

section \<open>Operations\<close>

lemma coroutine_wake_ok: "coroutine_wake cid net = Inr net' \<Longrightarrow> net_ok net net'"
  by (auto simp: coroutine_wake_def intro: net_ok_exec task_step.intros)

lemma net_spawn_ok: "coroutine_spawn_with_prio f p net = Inr (cid, net') \<Longrightarrow> net_ok net net'"
  by (auto simp: coroutine_spawn_with_prio_def intro: net_ok_exec task_step.intros)

lemma wake_with_value_ok:
  assumes "wake_with_value (net_th net) cid item = Inr th"
  shows "net_ok net (net\<lparr>net_th := th\<rparr>)"
proof -
  obtain iv ex where "store_res (th_immediate_value (net_th net)) (unat cid) (Some item) = Inr iv"
      "wake (th_exec (net_th net)) cid = Inr ex" "th = (net_th net)\<lparr>th_immediate_value := iv, th_exec := ex\<rparr>"
    using assms by (auto simp: wake_with_value_def)
  then show ?thesis by (auto simp: net_ok_def net_inv_def intro: r_into_rtranclp ts_wake)
qed

lemma yield_resume_ok:
  assumes "net_yield_resume net = Inr (v, net')"
  shows "net_ok net net'"
proof -
  obtain th where th: "yield_now_resume (net_th net) = Inr (v, th)" and net': "net' = net\<lparr>net_th := th\<rparr>"
    using assms by (auto simp: net_yield_resume_def)
  then show ?thesis by (auto simp: yield_now_resume_def net_ok_value)
qed

lemma incoming_ok:
  assumes "incoming_tcp_packet dst net = Inr net'"
  shows "net_ok net net'"
proof -
  have w: "net_ok net n" if "wake_blocked_cid p en net = Inr n" for p en n
    using that by (auto simp: wake_blocked_cid_def split: list.splits dest: coroutine_wake_ok)
  have r: "net_ok n n'" if "reply_blocked_ep p en n = Inr n'" for p en n n'
    using that by (auto simp: reply_blocked_ep_def split: list.splits)
  show ?thesis using assms by (auto simp: incoming_tcp_packet_def split: option.splits if_splits dest!: w r intro: net_ok_trans)
qed

lemma snoop_ok: "snoop_tcp_packet f net = Inr (r, net') \<Longrightarrow> net_ok net net'"
  by (auto simp: snoop_tcp_packet_def Let_def split: frame.splits if_splits dest: incoming_ok)

lemma snoop_frames_ok: "snoop_frames fs net = Inr net' \<Longrightarrow> net_ok net net'"
  by (induction fs net rule: snoop_frames.induct) (auto dest: snoop_ok intro: net_ok_trans)

lemma iface_poll_ok: "iface_poll api urgent net = Inr (ans, net') \<Longrightarrow> net_ok net net'"
  by (auto simp: iface_poll_def split: if_splits prod.splits dest!: snoop_frames_ok)

lemma write_reply_keeps:
  assumes "write_reply args item net = Inr net'"
  shows "net_ok net net'"
proof -
  obtain ptr nb q sg where nb: "th_buffers (net_th net) ptr = Some nb" and q: "write_free_item (nb_res_items nb) item = Inr (Inr q)"
    and net': "net' = net\<lparr>net_th := (net_th net)\<lparr>
      th_buffers := (th_buffers (net_th net))(ptr \<mapsto> nb\<lparr>nb_res_items := q, nb_recv_reply_status := True\<rparr>), th_signals := sg\<rparr>\<rparr>"
    using write_reply_Inr [OF assms] by blast
  have "nb_wf nb \<Longrightarrow> nb_wf (nb\<lparr>nb_res_items := q, nb_recv_reply_status := True\<rparr>)"
    using iq.push_Inr [OF _ q] by (simp add: nb_wf_def)
  with net_ok_buffer(2) [OF nb] net' show ?thesis by blast
qed

lemma reply_if_ok: "reply_if args r net = Inr net' \<Longrightarrow> net_ok net net'"
  by (auto simp: reply_if_def split: option.splits dest: write_reply_keeps)

lemma recv_into_ok:
  assumes "recv_into api h addr data len net = (r, net')" and "net_tcp_buffers net addr = Some data" and "recv_bounded api"
  shows "net_ok net net'"
proof (cases "sa_recv_slice api h (min (length data) len) (net_sockets net)")
  case (Pair x s)
  show ?thesis
  proof (cases x)
    case (Inr bytes)
    with Pair assms(3) have "length bytes \<le> min (length data) len" unfolding recv_bounded_def by blast
    then have "length bytes \<le> length data" by simp
    moreover have "net' = net\<lparr>net_sockets := s, net_tcp_buffers := (net_tcp_buffers net)(addr \<mapsto> bytes @ drop (length bytes) data)\<rparr>"
      using assms(1) Pair Inr by (simp add: recv_into_def)
    moreover have "length data = TCP_TX_BUF_LEN" if "net_inv net" using that assms(2) by (auto simp: net_inv_def ran_def)
    ultimately show ?thesis by (auto simp: net_ok_def net_inv_def ran_def)
  qed (use assms Pair in \<open>auto simp: recv_into_def\<close>)
qed

lemma tcp_buffer_at_Inr: "tcp_buffer_at net addr = Inr d \<longleftrightarrow> net_tcp_buffers net addr = Some d"
  by (auto simp: tcp_buffer_at_def split: option.splits)

lemma process_send_keeps:
  assumes "process_send api item net = Inr (r, net')"
  shows "net_ok net net'"
  using assms by (auto simp: process_send_def Let_def split: if_splits prod.splits sum.splits dest!: iface_poll_ok)

lemma process_recv_keeps:
  assumes "process_recv api item net = Inr (r, net')" and "recv_bounded api"
  shows "net_ok net net'"
proof -
  obtain data can where data: "net_tcp_buffers net (get_buffer item) = Some data"
    and can: "sa_can_recv api (get_socket_handler item) (net_sockets net) = Inr can"
    using assms(1) by (auto simp: process_recv_def Let_def tcp_buffer_at_Inr)
  show ?thesis
  proof (cases can)
    case True
    obtain x n where rcv: "recv_into api (get_socket_handler item) (get_buffer item) data (unat (get_len item)) net = (x, n)"
      by (cases "recv_into api (get_socket_handler item) (get_buffer item) data (unat (get_len item)) net")
    then have "net' = n"
      using assms(1) data can True by (auto simp: process_recv_def Let_def tcp_buffer_at_def split: sum.splits)
    with recv_into_ok [OF rcv data assms(2)] show ?thesis by simp
  next
    case False
    then obtain rcid th where "wake_with_value (net_th net) rcid item = Inr th" "net' = net\<lparr>net_th := th\<rparr>"
      using assms(1) data can by (auto simp: process_recv_def Let_def tcp_buffer_at_def)
    then show ?thesis by (simp add: wake_with_value_ok)
  qed
qed

lemma process_req_keeps:
  assumes "process_req api item net = Inr (r, net')" and "recv_bounded api"
  shows "net_ok net net'"
proof -
  obtain t where t: "get_type item = Inr t" using assms(1) by (auto simp: process_req_def)
  with assms show ?thesis
    by (cases t) (auto simp: process_req_def wake_net_device_poller_def process_listen_def Let_def
        dest: coroutine_wake_ok net_spawn_ok process_send_keeps process_recv_keeps)
qed

lemma possible_switch_keeps:
  assumes "possible_switch (net_th net) = Inr (sw, th)"
  shows "net_ok net (net\<lparr>net_th := th\<rparr>)"
proof -
  obtain b ex where sp: "switch_possible (th_exec (net_th net)) = Inr (b, ex)"
    using assms by (auto simp: possible_switch_def)
  obtain ex' where th: "th = (net_th net)\<lparr>th_exec := ex'\<rparr>" and st: "task_step\<^sup>*\<^sup>* ex ex'"
    using assms sp by (auto simp: possible_switch_def split: if_splits intro: ts_wake)
  have "task_step (th_exec (net_th net)) ex" using sp by (rule ts_switch)
  from converse_rtranclp_into_rtranclp [OF this st] have "task_step\<^sup>*\<^sup>* (th_exec (net_th net)) ex'" .
  then show ?thesis by (simp add: th net_ok_def net_inv_def)
qed

section \<open>Coroutines\<close>

lemma req_popped_ok:
  assumes "th_buffers (net_th net) ptr = Some nb" and "get_first_item (nb_req_items nb) = Inr (Some item, q)"
  shows "net_ok net (req_popped ptr nb q net)"
  unfolding req_popped_def using iq.pop_Some [OF _ assms(2)]
  by (intro net_ok_buffer(1) [OF assms(1)]) (simp add: nb_wf_def)

lemma recv_req_loop_keeps:
  assumes rb: "recv_bounded api"
  shows "recv_req_loop api args ptr cnt net = Inr (f, net') \<Longrightarrow> net_ok net net'"
proof (induction "req_count ptr net" arbitrary: net cnt rule: less_induct)
  case less
  note run = less.prems
  obtain nb where nb: "th_buffers (net_th net) ptr = Some nb"
    using run by (cases "th_buffers (net_th net) ptr") (auto simp: recv_req_loop.simps)
  obtain r q where g: "get_first_item (nb_req_items nb) = Inr (r, q)"
    using run nb by (subst (asm) recv_req_loop.simps) auto
  show ?case
  proof (cases r)
    case None
    then have "nb_wf nb \<Longrightarrow> nb_wf (nb\<lparr>nb_req_items := q, nb_recv_req_status := False\<rparr>)"
      using iq.pop_None [of "nb_req_items nb" q] g by (auto simp: nb_wf_def)
    from net_ok_buffer(1) [OF nb this] show ?thesis using run g None by (simp add: recv_req_empty [OF nb])
  next
    case (Some item)
    note g = g [unfolded Some]
    obtain reply net1 net2 where p: "process_req api item (req_popped ptr nb q net) = Inr (reply, net1)"
      and w: "reply_if args reply net1 = Inr net2"
      using run by (auto simp: recv_req_next [OF nb g])
    have ok: "net_ok net net2"
      using req_popped_ok [OF nb g] process_req_keeps [OF p rb] reply_if_ok [OF w] by (blast intro: net_ok_trans)
    have dec: "req_count ptr net2 < req_count ptr net" by (rule served_req_count [OF nb g p w])
    show ?thesis
    proof (cases "20 \<le> cnt + 1")
      case True
      then obtain sw th where sw: "possible_switch (net_th net2) = Inr (sw, th)"
        and rest: "if sw then net' = net2\<lparr>net_th := th\<rparr> else recv_req_loop api args ptr 0 (net2\<lparr>net_th := th\<rparr>) = Inr (f, net')"
        using run p w by (auto simp: recv_req_next [OF nb g] split: if_splits)
      have ok': "net_ok net (net2\<lparr>net_th := th\<rparr>)" by (rule net_ok_trans [OF ok possible_switch_keeps [OF sw]])
      have "sw \<or> net_ok (net2\<lparr>net_th := th\<rparr>) net'"
        using rest less.hyps [of "net2\<lparr>net_th := th\<rparr>" 0] dec by (simp add: switched_req_count [OF sw] split: if_splits)
      with ok' rest show ?thesis by (auto intro: net_ok_trans split: if_splits)
    next
      case False
      then have "recv_req_loop api args ptr (cnt + 1) net2 = Inr (f, net')" using run p w by (simp add: recv_req_next [OF nb g])
      from less.hyps [OF dec this] show ?thesis by (rule net_ok_trans [OF ok])
    qed
  qed
qed

lemma tcp_recv_busy_keeps:
  assumes "tcp_recv_busy api args item net = Inr (f, net')" and "recv_bounded api"
  shows "net_ok net net'"
proof -
  obtain data can where data: "net_tcp_buffers net (get_buffer item) = Some data"
    and can: "sa_can_recv api (get_socket_handler item) (net_sockets net) = Inr can"
    using assms(1) by (auto simp: tcp_recv_busy_def Let_def tcp_buffer_at_Inr)
  show ?thesis
  proof (cases can)
    case True
    obtain x n where rcv: "recv_into api (get_socket_handler item) (get_buffer item) data (unat (get_len item)) net = (x, n)"
      by (cases "recv_into api (get_socket_handler item) (get_buffer item) data (unat (get_len item)) net")
    note ok = recv_into_ok [OF rcv data assms(2)]
    show ?thesis
    proof (cases x)
      case (Inl e)
      then show ?thesis using assms(1) data can True rcv ok by (simp add: tcp_recv_busy_def tcp_buffer_at_def)
    next
      case (Inr size)
      then obtain reply where "write_reply args reply n = Inr net'"
        using assms(1) data can True rcv by (auto simp: tcp_recv_busy_def tcp_buffer_at_def Let_def)
      then show ?thesis using ok by (blast dest: write_reply_keeps intro: net_ok_trans)
    qed
  next
    case False
    then show ?thesis using assms(1) data can
      by (auto simp: tcp_recv_busy_def tcp_buffer_at_def Let_def dest: coroutine_wake_ok)
  qed
qed

lemma table_listen_ok: "table_listen ep h c net = Inr net' \<Longrightarrow> net_ok net net'"
  by (auto simp: table_listen_def Let_def)

lemma table_accept_ok: "table_accept api port net = Inr (Inr (h, l, r), net') \<Longrightarrow> net_ok net net'"
  by (auto simp: table_accept_Inr)

lemma tcp_accept_start_keeps:
  assumes "tcp_accept_start api cid port net = Inr (f, net')"
  shows "net_ok net net'"
  using assms by (auto simp: tcp_accept_start_def split: option.splits dest!: table_listen_ok)

lemma tcp_accept_finish_keeps:
  assumes "tcp_accept_finish api args cid port handler net = Inr (f, net')"
  shows "net_ok net net'"
proof -
  obtain r net1 where acc: "table_accept api port net = Inr (r, net1)"
    using assms by (auto simp: tcp_accept_finish_def)
  then obtain h l rm where r: "r = Inr (h, l, rm)"
    using assms by (cases r) (auto simp: tcp_accept_finish_def)
  obtain net2 cur where "write_reply args (mb_listen_reply cid h) net1 = Inr net2"
      "net' = net2\<lparr>net_socket_2_cid := (net_socket_2_cid net2)(handler \<mapsto> cur)\<rparr>"
    using assms acc r by (auto simp: tcp_accept_finish_def)
  then show ?thesis using table_accept_ok [OF acc [unfolded r]]
    by (auto dest: write_reply_keeps intro: net_ok_trans)
qed

lemma poll_timer_round_keeps:
  assumes "poll_timer_round api cur timeout net = Inr (t, net')"
  shows "net_ok net net'"
proof -
  obtain t1 net1 where r: "(if timeout < cur
      then rbind (iface_poll api False net) (\<lambda>(ans, net1).
        rbind (guard_res (unat cur + 10000 < 2 ^ 64) ArithOverflow) (\<lambda>_. Inr (cur + 10000, net1)))
      else Inr (timeout, net)) = Inr (t1, net1)" and w: "\<exists>cid. coroutine_wake cid net1 = Inr net'"
    using assms by (auto simp: poll_timer_round_def)
  have "net_ok net net1" using r by (auto split: if_splits dest: iface_poll_ok)
  with w show ?thesis by (auto dest: coroutine_wake_ok intro: net_ok_trans)
qed

lemma net_future_step_keeps:
  assumes rb: "recv_bounded api" and "net_future_step api args clock f net = Inr (f', net')"
  shows "net_ok net net'"
proof (cases f)
  case TcpRecvYield
  with assms show ?thesis
    by (auto simp: net_future_step_def split: option.splits dest!: yield_resume_ok tcp_recv_busy_keeps intro: net_ok_trans)
qed (use assms in \<open>auto simp: net_future_step_def net_poll_round_def intro: net_ok_trans
  dest!: yield_resume_ok iface_poll_ok poll_timer_round_keeps recv_req_loop_keeps [OF rb] tcp_accept_start_keeps tcp_accept_finish_keeps
    tcp_recv_busy_keeps [OF _ rb]\<close>)

section \<open>A run of the thread\<close>

lemma net_future_poll_ok: "recv_bounded api \<Longrightarrow> poll_ok (net_future_poll api args clock)"
  by (auto simp: poll_ok_def net_future_poll_def net_ok_def dest!: net_future_step_keeps)

lemma net_poll_keeps_inv:
  assumes "recv_bounded api" and "net_future_poll api args clock fut ex net = Inr (p, fut', ex', net')" and "net_inv net"
  shows "net_inv net'"
proof -
  have "net_inv (net\<lparr>net_th := (net_th net)\<lparr>th_exec := ex\<rparr>\<rparr>)" using assms(3) by (simp add: net_inv_def)
  then show ?thesis using assms(2) net_future_step_keeps [OF assms(1)] by (auto simp: net_future_poll_def net_ok_def)
qed

lemma net_loop_steps_inv:
  assumes "recv_bounded api" and "(loop_step (net_future_poll api args clock) ^^ k) (ex, net) (ex', net')" and "net_inv net"
  shows "net_inv net'"
  using loop_steps_world [OF _ assms(2), of net_inv] net_poll_keeps_inv [OF assms(1)] assms(3) by blast

text \<open>C9. The network thread, for any socket library that never returns more bytes than it was asked for: whatever
  requests, connection requests, timer ticks and data its coroutines handle, after every number of turns of the run loop,
  in the middle of a run that does not return as at the end of one that does, the executor's invariant holds, every queue
  of a shared buffer is well formed, every TCP buffer has its full length and the value slots are in place.  A panic
  occurs only in such a state, from delayed wake-ups that overflow a ready queue or in the poll of the coroutine that was
  just fetched.\<close>

theorem net_thread_safe:
  assumes "recv_bounded api" and "ex_wf ex" and "net_inv net"
  shows "case run_until_blocked (net_future_poll api args clock) turns ex net of
      None \<Rightarrow> \<exists>ex' net'. (loop_step (net_future_poll api args clock) ^^ turns) (ex, net) (ex', net') \<and> ex_wf ex' \<and> net_inv net'
    | Some (Inr (ex', net')) \<Rightarrow> ex_wf ex' \<and> net_inv net'
    | Some (Inl e) \<Rightarrow> \<exists>k<turns. \<exists>ex1 net1. (loop_step (net_future_poll api args clock) ^^ k) (ex, net) (ex1, net1) \<and>
        ex_wf ex1 \<and> net_inv net1 \<and> turn_panics (net_future_poll api args clock) e ex1 net1"
proof -
  note run = run_until_blocked_wf [OF assms(2) net_future_poll_ok [OF assms(1), of args clock], of turns net]
  note inv = net_loop_steps_inv [OF assms(1) _ assms(3)]
  show ?thesis
  proof (cases "run_until_blocked (net_future_poll api args clock) turns ex net")
    case None
    with run inv show ?thesis by (simp only: option.case) blast
  next
    case (Some res)
    show ?thesis
    proof (cases res)
      case (Inl e)
      with Some run have "\<exists>k<turns. \<exists>ex1 net1. (loop_step (net_future_poll api args clock) ^^ k) (ex, net) (ex1, net1) \<and>
        ex_wf ex1 \<and> turn_panics (net_future_poll api args clock) e ex1 net1" by simp
      then show ?thesis unfolding Some Inl option.case sum.case using inv by blast
    next
      case (Inr y)
      obtain ex' net' where y: "y = (ex', net')" by (cases y)
      with Some Inr run have "\<exists>k<turns. \<exists>ex1. (loop_step (net_future_poll api args clock) ^^ k) (ex, net) (ex1, net') \<and>
        ex_wf ex1 \<and> fetch ex1 = Inr (None, ex') \<and> ex_wf ex'" by simp
      then show ?thesis unfolding Some Inr y option.case sum.case prod.case using inv by blast
    qed
  qed
qed

lemma api_example_bounded: "recv_bounded api_example"
  by (simp add: recv_bounded_def api_example_def)

text \<open>A network thread with one TCP buffer and one shared buffer, in which a receive request is queued.\<close>

definition recv_queued :: new_buffer where
  "recv_queued = (case write_free_item (nb_req_items new_buffer_new) (mb_recv 9 3 4096 100) of
     Inr (Inr q) \<Rightarrow> new_buffer_new\<lparr>nb_req_items := q, nb_recv_req_status := True\<rparr> | _ \<Rightarrow> new_buffer_new)"

definition net_request :: "(u32, nat) net_state" where
  "net_request = net_running\<lparr>net_th := thread_new [8 \<mapsto> recv_queued]\<rparr>"

lemma recv_queued_list: "nb_wf recv_queued" "srb_list (nb_req_items recv_queued) = [mb_recv 9 3 4096 100]" "srb_list (nb_res_items recv_queued) = []"
proof -
  have "iq_wf (nb_req_items new_buffer_new)" "srb_list (nb_req_items new_buffer_new) = []"
    using new_buffer_new_wf by (simp_all add: nb_wf_def new_buffer_new_def items_queue_new_list)
  then obtain q where "write_free_item (nb_req_items new_buffer_new) (mb_recv 9 3 4096 100) = Inr (Inr q)" "iq_wf q"
      "srb_list q = [mb_recv 9 3 4096 100]"
    using iq.push_ok [of "nb_req_items new_buffer_new" "mb_recv 9 3 4096 100"] by (auto simp: MAX_ITEM_NUM_def)
  then show "nb_wf recv_queued" "srb_list (nb_req_items recv_queued) = [mb_recv 9 3 4096 100]" "srb_list (nb_res_items recv_queued) = []"
    using new_buffer_new_wf new_buffer_room(2) by (simp_all add: recv_queued_def nb_wf_def)
qed

lemma net_request_inv: "net_inv net_request"
  using recv_queued_list(1) by (simp add: net_inv_def net_request_def thread_new_def)

text \<open>The request is served: the byte is put into the TCP buffer and the reply into the shared buffer.\<close>

lemma net_request_served:
  "\<exists>net' nb. recv_req_loop api_example args_example 8 0 (net_request\<lparr>net_th := (net_th net_request)\<lparr>th_exec := ex\<rparr>\<rparr>) = Inr (RecvReqYield, net') \<and>
     net_tcp_buffers net' 4096 = Some (7 # drop 1 tcp_buffer_new) \<and> th_buffers (net_th net') 8 = Some nb \<and>
     srb_list (nb_req_items nb) = [] \<and> srb_list (nb_res_items nb) = [mb_recv_reply 9 1] \<and> th_exec (net_th net') = ex"
proof -
  let ?net = "net_request\<lparr>net_th := (net_th net_request)\<lparr>th_exec := ex\<rparr>\<rparr>"
  have nb: "th_buffers (net_th ?net) 8 = Some recv_queued" by (simp add: net_request_def thread_new_def)
  obtain q where q: "get_first_item (nb_req_items recv_queued) = Inr (Some (mb_recv 9 3 4096 100), q)"
    using iq.pop_ok [of "nb_req_items recv_queued" "mb_recv 9 3 4096 100" "[]"] recv_queued_list by (auto simp: nb_wf_def)
  let ?n = "req_popped 8 recv_queued q ?net"
  have "process_req api_example (mb_recv 9 3 4096 100) ?n = Inr (Some (mb_recv_reply 9 1),
      ?n\<lparr>net_sockets := 0, net_tcp_buffers := [4096 \<mapsto> 7 # drop 1 tcp_buffer_new]\<rparr>)"
    by (simp add: process_req_def process_recv_def tcp_buffer_at_def recv_into_def ucast_u16_roundtrip [THEN iffD2]
      api_example_def TCP_TX_BUF_LEN_def net_request_def)
  from recv_req_one [OF args_example_sel nb recv_queued_list(1,2) _ q this] recv_queued_list(3) show ?thesis
    by (auto simp: MAX_ITEM_NUM_def req_popped_def)
qed

text \<open>A fresh executor with the coroutine that serves the requests: it is polled once and the run ends.\<close>

lemma server_run:
  "\<exists>ex ex' net' nb. ex_wf ex \<and> live ex = {0} \<and>
     run_until_blocked (net_future_poll api_example args_example (\<lambda>n. 0)) 2 ex net_request = Some (Inr (ex', net')) \<and>
     net_tcp_buffers net' 4096 = Some (7 # drop 1 tcp_buffer_new) \<and> th_buffers (net_th net') 8 = Some nb \<and>
     srb_list (nb_req_items nb) = [] \<and> srb_list (nb_res_items nb) = [mb_recv_reply 9 1]"
proof -
  let ?new = "executor_new :: net_future executor"
  obtain c ex where sp: "spawned ?new RecvReqStart 0 c ex"
    using spawn_total [of ?new 0 RecvReqStart] by (auto simp: executor_new_wf ex_consts)
  have "{..<unat c} \<subseteq> {}" using sp by (simp add: spawned_def)
  then have u: "unat c = 0" by (cases "unat c") auto
  have wf: "ex_wf ex" and lv: "live ex = {0}" and d: "ex_delay_wake_cids ex = 0" using sp u by (simp_all add: spawned_def)
  have cl: "clean ex" by (rule clean_spawned [OF executor_new_clean sp])
  have "ready ex p = (if p = 0 then [c] else [])" if "p < MAX_PRIO_NUM" for p using sp that by (simp add: spawned_def)
  then have s: "sched ex = [c]" by (simp add: sched_def MAX_PRIO_NUM_def upt_rec)
  obtain h ex1 where h: "ex_tasks ex ! unat c = Some h" and f: "fetch ex = Inr (Some h, ex1)" and s1: "sched ex1 = []"
    and wf1: "ex_wf ex1" and cl1: "clean ex1" and d1: "ex_delay_wake_cids ex1 = 0" and b1: "ex_tasks_bak ex1 = ex_tasks_bak ex"
    using fetch_clean [OF wf cl d s] by blast
  have fut: "co_future (ex_tasks_bak ex1 ! h) = RecvReqStart"
    using sp u h b1 by (auto simp: spawned_def executor_new_def MAX_TASK_NUM_def)
  obtain net' nb where net': "recv_req_loop api_example args_example 8 0 (net_request\<lparr>net_th := (net_th net_request)\<lparr>th_exec := ex1\<rparr>\<rparr>) =
      Inr (RecvReqYield, net')" "net_tcp_buffers net' 4096 = Some (7 # drop 1 tcp_buffer_new)" "th_buffers (net_th net') 8 = Some nb"
      "srb_list (nb_req_items nb) = []" "srb_list (nb_res_items nb) = [mb_recv_reply 9 1]" "th_exec (net_th net') = ex1"
    using net_request_served [of ex1] by blast
  then have poll: "net_future_poll api_example args_example (\<lambda>n. 0) RecvReqStart ex1 net_request = Inr (Pending, RecvReqYield, ex1, net')"
    by (simp add: net_future_poll_def net_future_step_def)
  let ?ex2 = "ex1\<lparr>ex_tasks_bak := (ex_tasks_bak ex1)[h := (ex_tasks_bak ex1 ! h)\<lparr>co_future := RecvReqYield\<rparr>]\<rparr>"
  have "fetch ?ex2 = Inr (None, ?ex2)"
    using s1 wf1 cl1 d1 by (intro fetch_clean_none) (simp_all add: clean_def)
  then have "run_until_blocked (net_future_poll api_example args_example (\<lambda>n. 0)) 2 ex net_request = Some (Inr (?ex2, net'))"
    using f fut poll by (simp add: numeral_2_eq_2 execute_def)
  then show ?thesis using wf lv net' by blast
qed

theorem net_thread_safe_witness:
  "\<exists>ex ex' net' nb. net_inv net_request \<and> live ex = {0} \<and>
     run_until_blocked (net_future_poll api_example args_example (\<lambda>n. 0)) 2 ex net_request = Some (Inr (ex', net')) \<and>
     net_tcp_buffers net' 4096 = Some (7 # drop 1 tcp_buffer_new) \<and> th_buffers (net_th net') 8 = Some nb \<and>
     srb_list (nb_req_items nb) = [] \<and> srb_list (nb_res_items nb) = [mb_recv_reply 9 1] \<and> ex_wf ex' \<and> net_inv net'"
proof -
  obtain ex ex' net' nb where ex: "ex_wf ex" "live ex = {0}"
    and run: "run_until_blocked (net_future_poll api_example args_example (\<lambda>n. 0)) 2 ex net_request = Some (Inr (ex', net'))"
    and net': "net_tcp_buffers net' 4096 = Some (7 # drop 1 tcp_buffer_new)" "th_buffers (net_th net') 8 = Some nb"
      "srb_list (nb_req_items nb) = []" "srb_list (nb_res_items nb) = [mb_recv_reply 9 1]"
    using server_run by blast
  have "ex_wf ex' \<and> net_inv net'"
    using net_thread_safe [OF api_example_bounded ex(1) net_request_inv, where args = args_example and clock = "\<lambda>n. 0" and turns = 2] run by simp
  with ex run net' net_request_inv show ?thesis by blast
qed

end
