(* ===== verification/Axi_Net.thy ===== *)
theory Axi_Net
  imports Listen_Table Image_Utils
begin

text \<open>
  The driver of the Ethernet device (\<^verbatim>\<open>device/net/axi_net/mod.rs\<close>): the pool of DMA buffers, the
  receive and transmit tokens that borrow buffers from it, and the initialisation of the device.

  The DMA engine and the Ethernet controller are libraries outside this repository: what the
  driver calls of them is a record of functions on the device's state.  The pool is the flat
  memory of the \<^verbatim>\<open>[[u8; MTU]; 64]\<close> array, because tokens access it through raw pointers.  A transfer
  names a buffer by \<^verbatim>\<open>get_heap_paddr\<close> of its address; the device reads and writes the bytes at that
  address, as it does when the image lies in consecutive frames.
\<close>

section \<open>Buffer pool\<close>

definition MTU :: usize where "MTU = 256"
definition DMA_BUFFERS :: nat where "DMA_BUFFERS = 64"

record 'd axi_net =
  ax_dev :: 'd
  ax_image :: image_utils
  ax_pool_addr :: usize
  ax_pool :: "u8 list"
  ax_alloc :: index_allocator

text \<open>The receive transfer gives the bytes the device wrote to the front of the buffer.  The
  transmit transfer gets the bytes of the buffer.\<close>

record 'd axi_api =
  xa_can_receive :: "'d \<Rightarrow> bool"
  xa_rx :: "usize \<Rightarrow> usize \<Rightarrow> 'd \<Rightarrow> (unit + u8 list) \<times> 'd"
  xa_tx :: "usize \<Rightarrow> u8 list \<Rightarrow> 'd \<Rightarrow> (unit + unit) \<times> 'd"
  xa_has_free_bd :: "'d \<Rightarrow> bool option"
  xa_is_rx_cmplt :: "'d \<Rightarrow> bool"
  xa_clear_rx_cmplt :: "'d \<Rightarrow> 'd"
  xa_is_tx_cmplt :: "'d \<Rightarrow> bool"
  xa_clear_tx_cmplt :: "'d \<Rightarrow> 'd"

definition axi_boot :: "'d \<Rightarrow> image_utils \<Rightarrow> usize \<Rightarrow> 'd axi_net" where
  "axi_boot d im addr =
     \<lparr>ax_dev = d, ax_image = im, ax_pool_addr = addr, ax_pool = replicate (DMA_BUFFERS * MTU) 0,
      ax_alloc = ia_new DMA_BUFFERS\<rparr>"

definition dma_buffer_new :: "'d axi_net \<Rightarrow> (usize \<times> 'd axi_net) res" where
  "dma_buffer_new ax =
     (case ia_allocate DMA_BUFFERS (ax_alloc ax) of (r, a) \<Rightarrow>
        rbind (unwrap r) (\<lambda>handler. Inr (handler, ax\<lparr>ax_alloc := a\<rparr>)))"

definition get_mut_buffer :: "'d axi_net \<Rightarrow> usize \<Rightarrow> usize res" where
  "get_mut_buffer ax handler =
     rbind (guard_res (handler < DMA_BUFFERS) IndexOutOfBounds) (\<lambda>_. Inr (ax_pool_addr ax + handler * MTU))"

definition dma_buffer_drop :: "usize \<Rightarrow> 'd axi_net \<Rightarrow> 'd axi_net res" where
  "dma_buffer_drop handler ax = rbind (ia_release (ax_alloc ax) handler) (\<lambda>a. Inr (ax\<lparr>ax_alloc := a\<rparr>))"

text \<open>\<^verbatim>\<open>slice::from_raw_parts_mut\<close> and writing through the slice.\<close>

definition raw_slice :: "'d axi_net \<Rightarrow> usize \<Rightarrow> usize \<Rightarrow> u8 list res" where
  "raw_slice ax ptr len =
     rbind (guard_res (ax_pool_addr ax \<le> ptr \<and> ptr + len \<le> ax_pool_addr ax + length (ax_pool ax)) BadPointer) (\<lambda>_.
     Inr (take len (drop (ptr - ax_pool_addr ax) (ax_pool ax))))"

definition put_at :: "nat \<Rightarrow> 'a list \<Rightarrow> 'a list \<Rightarrow> 'a list" where
  "put_at off bs xs = take off xs @ bs @ drop (off + length bs) xs"

definition raw_write :: "usize \<Rightarrow> u8 list \<Rightarrow> 'd axi_net \<Rightarrow> 'd axi_net res" where
  "raw_write ptr bs ax =
     rbind (guard_res (ax_pool_addr ax \<le> ptr \<and> ptr + length bs \<le> ax_pool_addr ax + length (ax_pool ax)) BadPointer) (\<lambda>_.
     Inr (ax\<lparr>ax_pool := put_at (ptr - ax_pool_addr ax) bs (ax_pool ax)\<rparr>))"

section \<open>Tokens\<close>

text \<open>A receive token is the handler of its buffer.  \<open>parse\<close> is the library's view of a frame.\<close>

definition rx_preprocess :: "(u8 list \<Rightarrow> 'ip frame) \<Rightarrow> 'd axi_net \<Rightarrow> usize \<Rightarrow> ('f, 'ip, 's) net \<Rightarrow> ('f, 'ip, 's) net res" where
  "rx_preprocess parse ax handler net =
     rbind (get_mut_buffer ax handler) (\<lambda>ptr.
     rbind (raw_slice ax ptr MTU) (\<lambda>buffer.
     rbind (snoop_tcp_packet (parse buffer) net) (\<lambda>(r, net'). Inr net')))"

text \<open>The closure of \<^verbatim>\<open>consume\<close> works on the buffer and may use the device, for instance to answer.  The
  buffer is released when the token, consumed, is dropped.\<close>

definition rx_consume ::
  "(u8 list \<Rightarrow> 'd axi_net \<Rightarrow> ('r \<times> u8 list \<times> 'd axi_net) res) \<Rightarrow> usize \<Rightarrow> 'd axi_net \<Rightarrow> ('r \<times> 'd axi_net) res" where
  "rx_consume f handler ax =
     rbind (get_mut_buffer ax handler) (\<lambda>ptr.
     rbind (raw_slice ax ptr MTU) (\<lambda>buffer.
     rbind (f buffer ax) (\<lambda>(r, buffer', ax1).
     rbind (raw_write ptr buffer' ax1) (\<lambda>ax2.
     rbind (dma_buffer_drop handler ax2) (\<lambda>ax3. Inr (r, ax3))))))"

definition tx_consume ::
  "'d axi_api \<Rightarrow> usize \<Rightarrow> (u8 list \<Rightarrow> 'r \<times> u8 list) \<Rightarrow> 'd axi_net \<Rightarrow> ('r \<times> 'd axi_net) res" where
  "tx_consume api len f ax =
     rbind (dma_buffer_new ax) (\<lambda>(handler, ax1).
     rbind (get_mut_buffer ax1 handler) (\<lambda>raw_buffer_ptr.
     rbind (raw_slice ax1 raw_buffer_ptr len) (\<lambda>raw_buffer.
     case f raw_buffer of (r, raw_buffer') \<Rightarrow>
     rbind (raw_write raw_buffer_ptr raw_buffer' ax1) (\<lambda>ax2.
     rbind (get_heap_paddr (ax_image ax2) raw_buffer_ptr) (\<lambda>buf_ptr.
     rbind (guard_res (buf_ptr \<noteq> 0) UnwrapNone) (\<lambda>_.
     case xa_tx api buf_ptr raw_buffer' (ax_dev ax2) of
       (Inl e, d) \<Rightarrow> Inl UnwrapErr
     | (Inr u, d) \<Rightarrow> rbind (dma_buffer_drop handler (ax2\<lparr>ax_dev := d\<rparr>)) (\<lambda>ax3. Inr (r, ax3))))))))"

definition axi_receive :: "'d axi_api \<Rightarrow> 'd axi_net \<Rightarrow> (usize option \<times> 'd axi_net) res" where
  "axi_receive api ax =
     (if xa_can_receive api (ax_dev ax)
      then
        rbind (dma_buffer_new ax) (\<lambda>(handler, ax1).
        rbind (get_mut_buffer ax1 handler) (\<lambda>ptr.
        rbind (get_heap_paddr (ax_image ax1) ptr) (\<lambda>buf_ptr.
        rbind (guard_res (buf_ptr \<noteq> 0) UnwrapNone) (\<lambda>_.
        case xa_rx api buf_ptr MTU (ax_dev ax1) of
          (Inl e, d) \<Rightarrow> Inl UnwrapErr
        | (Inr bytes, d) \<Rightarrow> rbind (raw_write ptr bytes (ax1\<lparr>ax_dev := d\<rparr>)) (\<lambda>ax2. Inr (Some handler, ax2))))))
      else Inr (None, ax))"

definition axi_transmit :: "'d axi_api \<Rightarrow> 'd axi_net \<Rightarrow> bool res" where
  "axi_transmit api ax = unwrap (xa_has_free_bd api (ax_dev ax))"

datatype medium = Ethernet

record device_capabilities =
  dc_medium :: medium
  dc_max_transmission_unit :: usize
  dc_max_burst_size :: "usize option"

definition axi_capabilities :: device_capabilities where
  "axi_capabilities = \<lparr>dc_medium = Ethernet, dc_max_transmission_unit = MTU, dc_max_burst_size = None\<rparr>"

definition axi_interrupt_handler :: "'d axi_api \<Rightarrow> 'd axi_net \<Rightarrow> 'd axi_net" where
  "axi_interrupt_handler api ax =
     (let d = ax_dev ax;
          d1 = (if xa_is_rx_cmplt api d then xa_clear_rx_cmplt api d else d);
          d2 = (if xa_is_tx_cmplt api d1 then xa_clear_tx_cmplt api d1 else d1)
      in ax\<lparr>ax_dev := d2\<rparr>)"

section \<open>Buffers of the pool\<close>

definition buffer_of :: "'d axi_net \<Rightarrow> usize \<Rightarrow> u8 list" where
  "buffer_of ax h = take MTU (drop (h * MTU) (ax_pool ax))"

definition pool_ok :: "'d axi_net \<Rightarrow> bool" where
  "pool_ok ax \<longleftrightarrow> ia_wf DMA_BUFFERS (ax_alloc ax) \<and> length (ax_pool ax) = DMA_BUFFERS * MTU"

lemma length_put_at [simp]: "off + length bs \<le> length xs \<Longrightarrow> length (put_at off bs xs) = length xs"
  by (simp add: put_at_def)

lemma nth_put_at:
  "off + length bs \<le> length xs \<Longrightarrow> i < length xs \<Longrightarrow>
   put_at off bs xs ! i = (if off \<le> i \<and> i < off + length bs then bs ! (i - off) else xs ! i)"
  by (auto simp: put_at_def nth_append min_def)

lemma buffer_fits: "h < DMA_BUFFERS \<Longrightarrow> h * MTU + MTU \<le> DMA_BUFFERS * MTU"
proof -
  assume "h < DMA_BUFFERS"
  then have "Suc h * MTU \<le> DMA_BUFFERS * MTU" by (intro mult_le_mono1) simp
  then show ?thesis by simp
qed

text \<open>Two buffers do not overlap.\<close>

lemma buffers_disjoint: "h \<noteq> h' \<Longrightarrow> h * MTU + MTU \<le> h' * MTU \<or> h' * MTU + MTU \<le> h * MTU"
proof -
  assume "h \<noteq> h'"
  then have "Suc h \<le> h' \<or> Suc h' \<le> h" by arith
  then have "Suc h * MTU \<le> h' * MTU \<or> Suc h' * MTU \<le> h * MTU" by (metis mult_le_mono1)
  then show ?thesis by (simp add: add.commute)
qed

lemma put_at_other_buffer:
  assumes "h < DMA_BUFFERS" and "h' < DMA_BUFFERS" and "h \<noteq> h'" and "length bs \<le> MTU" and "length xs = DMA_BUFFERS * MTU"
  shows "take MTU (drop (h' * MTU) (put_at (h * MTU) bs xs)) = take MTU (drop (h' * MTU) xs)"
proof (rule nth_equalityI)
  have fit: "h * MTU + length bs \<le> length xs" using buffer_fits [OF assms(1)] assms(4,5) by simp
  then show "length (take MTU (drop (h' * MTU) (put_at (h * MTU) bs xs))) = length (take MTU (drop (h' * MTU) xs))" by simp
  fix i
  assume "i < length (take MTU (drop (h' * MTU) (put_at (h * MTU) bs xs)))"
  then have i: "i < MTU" "h' * MTU + i < length xs" using fit by auto
  then have "\<not> (h * MTU \<le> h' * MTU + i \<and> h' * MTU + i < h * MTU + length bs)"
    using buffers_disjoint [OF assms(3)] assms(4) by linarith
  then show "take MTU (drop (h' * MTU) (put_at (h * MTU) bs xs)) ! i = take MTU (drop (h' * MTU) xs) ! i"
    using i fit by (auto simp: nth_put_at)
qed

lemma raw_slice_buffer:
  assumes "pool_ok ax" and "h < DMA_BUFFERS" and "len \<le> MTU"
  shows "raw_slice ax (ax_pool_addr ax + h * MTU) len = Inr (take len (buffer_of ax h))"
  using buffer_fits [OF assms(2)] assms by (simp add: raw_slice_def pool_ok_def buffer_of_def guard_res_def min_def)

lemma raw_write_buffer:
  assumes "pool_ok ax" and "h < DMA_BUFFERS" and "length bs \<le> MTU"
  shows "\<exists>p. raw_write (ax_pool_addr ax + h * MTU) bs ax = Inr (ax\<lparr>ax_pool := p\<rparr>) \<and> pool_ok (ax\<lparr>ax_pool := p\<rparr>) \<and>
    buffer_of (ax\<lparr>ax_pool := p\<rparr>) h = bs @ drop (length bs) (buffer_of ax h) \<and>
    (\<forall>h'<DMA_BUFFERS. h' \<noteq> h \<longrightarrow> buffer_of (ax\<lparr>ax_pool := p\<rparr>) h' = buffer_of ax h')"
proof -
  let ?p = "put_at (h * MTU) bs (ax_pool ax)"
  have fit: "h * MTU + MTU \<le> length (ax_pool ax)" using assms(1) buffer_fits [OF assms(2)] by (simp add: pool_ok_def)
  then have "raw_write (ax_pool_addr ax + h * MTU) bs ax = Inr (ax\<lparr>ax_pool := ?p\<rparr>)" "pool_ok (ax\<lparr>ax_pool := ?p\<rparr>)"
    using assms(1,3) by (simp_all add: raw_write_def pool_ok_def guard_res_def)
  moreover have "buffer_of (ax\<lparr>ax_pool := ?p\<rparr>) h = bs @ drop (length bs) (buffer_of ax h)"
    using assms(3) fit by (simp add: buffer_of_def put_at_def drop_take add.commute min_def)
  moreover have "buffer_of (ax\<lparr>ax_pool := ?p\<rparr>) h' = buffer_of ax h'" if "h' < DMA_BUFFERS" "h' \<noteq> h" for h'
    using put_at_other_buffer [of h h' bs "ax_pool ax"] assms that by (simp add: buffer_of_def pool_ok_def)
  ultimately show ?thesis by blast
qed


section \<open>What the driver's operations do to the pool\<close>

definition held :: "'d axi_net \<Rightarrow> nat set" where
  "held ax = ia_used DMA_BUFFERS (ax_alloc ax)"

text \<open>The buffers in \<open>H\<close> keep their contents, and the pool stays where and as large as it is.\<close>

definition pool_keeps :: "nat set \<Rightarrow> 'd axi_net \<Rightarrow> 'd axi_net \<Rightarrow> bool" where
  "pool_keeps H ax ax' \<longleftrightarrow> pool_ok ax' \<and> ax_pool_addr ax' = ax_pool_addr ax \<and> ax_image ax' = ax_image ax \<and>
     (\<forall>h\<in>H. buffer_of ax' h = buffer_of ax h)"

lemma held_bound: "pool_ok ax \<Longrightarrow> h \<in> held ax \<Longrightarrow> h < DMA_BUFFERS"
  using ia.used_bound [of DMA_BUFFERS "ax_alloc ax"] by (auto simp: held_def pool_ok_def)

lemma buffer_of_upd [simp]:
  "buffer_of (ax\<lparr>ax_alloc := a\<rparr>) h = buffer_of ax h" "buffer_of (ax\<lparr>ax_dev := d\<rparr>) h = buffer_of ax h"
  by (simp_all add: buffer_of_def)

lemma held_upd [simp]:
  "held (ax\<lparr>ax_pool := p\<rparr>) = held ax" "held (ax\<lparr>ax_dev := d\<rparr>) = held ax"
  by (simp_all add: held_def)

lemma pool_ok_upd [simp]: "pool_ok (ax\<lparr>ax_dev := d\<rparr>) = pool_ok ax"
  by (simp add: pool_ok_def)

text \<open>A call of the device that is unwrapped.\<close>

lemma unwrapped_call_Inr:
  "(case p of (Inl e, d) \<Rightarrow> Inl k | (Inr x, d) \<Rightarrow> F x d) = Inr y \<longleftrightarrow> (\<exists>x d. p = (Inr x, d) \<and> F x d = Inr y)"
  by (auto split: prod.splits sum.splits)

lemma dma_buffer_new_Inr:
  assumes "pool_ok ax" and "dma_buffer_new ax = Inr (h, ax1)"
  shows "h < DMA_BUFFERS" "h \<notin> held ax" "pool_keeps UNIV ax ax1" "held ax1 = insert h (held ax)" "ax_dev ax1 = ax_dev ax"
proof -
  obtain a where a: "ia_allocate DMA_BUFFERS (ax_alloc ax) = (Some h, a)" "ax1 = ax\<lparr>ax_alloc := a\<rparr>"
    using assms(2) by (auto simp: dma_buffer_new_def split: prod.splits)
  from ia.alloc_Some [OF _ a(1)] assms(1)
  show "h < DMA_BUFFERS" "h \<notin> held ax" "pool_keeps UNIV ax ax1" "held ax1 = insert h (held ax)" "ax_dev ax1 = ax_dev ax"
    by (auto simp: a(2) held_def pool_ok_def pool_keeps_def)
qed

lemma dma_buffer_new_full:
  assumes "pool_ok ax"
  shows "dma_buffer_new ax = Inl UnwrapNone \<longleftrightarrow> held ax = {..<DMA_BUFFERS}"
    and "held ax \<noteq> {..<DMA_BUFFERS} \<Longrightarrow> \<exists>h ax1. dma_buffer_new ax = Inr (h, ax1)"
proof -
  have "fst (ia_allocate DMA_BUFFERS (ax_alloc ax)) = None \<longleftrightarrow> held ax = {..<DMA_BUFFERS}"
    unfolding held_def by (rule ia.alloc_full) (use assms in \<open>simp add: pool_ok_def\<close>)
  then show "dma_buffer_new ax = Inl UnwrapNone \<longleftrightarrow> held ax = {..<DMA_BUFFERS}"
    and "held ax \<noteq> {..<DMA_BUFFERS} \<Longrightarrow> \<exists>h ax1. dma_buffer_new ax = Inr (h, ax1)"
    by (cases "ia_allocate DMA_BUFFERS (ax_alloc ax)"; cases "fst (ia_allocate DMA_BUFFERS (ax_alloc ax))"; simp add: dma_buffer_new_def)+
qed

lemma dma_buffer_drop_ok:
  assumes "pool_ok ax" and "h < DMA_BUFFERS"
  shows "\<exists>ax'. dma_buffer_drop h ax = Inr ax' \<and> pool_keeps UNIV ax ax' \<and> held ax' = held ax - {h} \<and> ax_dev ax' = ax_dev ax"
proof -
  obtain a where "ia_release (ax_alloc ax) h = Inr a" "ia_wf DMA_BUFFERS a" "ia_used DMA_BUFFERS a = ia_used DMA_BUFFERS (ax_alloc ax) - {h}"
    using ia.release_ok [of DMA_BUFFERS "ax_alloc ax" h] assms by (auto simp: pool_ok_def)
  then show ?thesis using assms(1)
    by (intro exI [of _ "ax\<lparr>ax_alloc := a\<rparr>"]) (simp add: dma_buffer_drop_def held_def pool_ok_def pool_keeps_def)
qed

text \<open>Transmitting, in full: the library fills the front of a free buffer, the device gets exactly
  those bytes at the buffer's physical address, and the buffer is free again.\<close>

definition fills :: "(u8 list \<Rightarrow> 'r \<times> u8 list) \<Rightarrow> bool" where
  "fills f \<longleftrightarrow> (\<forall>b. length (snd (f b)) = length b)"

lemma tx_consume_eq:
  assumes ok: "pool_ok ax" and len: "len \<le> MTU" "fills f" and new: "dma_buffer_new ax = Inr (h, ax1)"
    and f: "f (take len (buffer_of ax h)) = (r, frame)"
  shows "\<exists>ax2. pool_keeps (held ax) ax ax2 \<and> held ax2 = held ax \<and>
    tx_consume api len f ax =
       rbind (get_heap_paddr (ax_image ax) (ax_pool_addr ax + h * MTU)) (\<lambda>paddr.
       rbind (guard_res (paddr \<noteq> 0) UnwrapNone) (\<lambda>_.
       case xa_tx api paddr frame (ax_dev ax) of
         (Inl e, d) \<Rightarrow> Inl UnwrapErr
       | (Inr u, d) \<Rightarrow> Inr (r, ax2\<lparr>ax_dev := d\<rparr>)))"
proof -
  note n = dma_buffer_new_Inr [OF ok new]
  have ok1: "pool_ok ax1" "ax_pool_addr ax1 = ax_pool_addr ax" "ax_image ax1 = ax_image ax" "buffer_of ax1 = buffer_of ax"
    using n(3) by (auto simp: pool_keeps_def)
  have "length frame \<le> MTU" using len f by (metis fills_def snd_conv length_take min.bounded_iff nle_le)
  then obtain p where p: "raw_write (ax_pool_addr ax + h * MTU) frame ax1 = Inr (ax1\<lparr>ax_pool := p\<rparr>)" "pool_ok (ax1\<lparr>ax_pool := p\<rparr>)"
      "\<forall>h'<DMA_BUFFERS. h' \<noteq> h \<longrightarrow> buffer_of (ax1\<lparr>ax_pool := p\<rparr>) h' = buffer_of ax h'"
    using raw_write_buffer [OF ok1(1) n(1), of frame] ok1 by auto
  obtain ax2 where d: "dma_buffer_drop h (ax1\<lparr>ax_pool := p\<rparr>) = Inr ax2" "pool_keeps UNIV (ax1\<lparr>ax_pool := p\<rparr>) ax2"
      "held ax2 = held (ax1\<lparr>ax_pool := p\<rparr>) - {h}"
    using dma_buffer_drop_ok [OF p(2) n(1)] by auto
  have dd: "dma_buffer_drop h (ax1\<lparr>ax_pool := p, ax_dev := d\<rparr>) = Inr (ax2\<lparr>ax_dev := d\<rparr>)" for d
    using d(1) by (auto simp: dma_buffer_drop_def)
  have "pool_keeps (held ax) ax ax2"
    using d(2) p(3) n(2) ok1 held_bound [OF ok] by (auto simp: pool_keeps_def)
  moreover have "held ax2 = held ax" using d(3) n by auto
  moreover have "tx_consume api len f ax = rbind (get_heap_paddr (ax_image ax) (ax_pool_addr ax + h * MTU)) (\<lambda>paddr.
       rbind (guard_res (paddr \<noteq> 0) UnwrapNone) (\<lambda>_.
       case xa_tx api paddr frame (ax_dev ax) of
         (Inl e, d) \<Rightarrow> Inl UnwrapErr
       | (Inr u, d) \<Rightarrow> Inr (r, ax2\<lparr>ax_dev := d\<rparr>)))"
  proof -
    have "get_mut_buffer ax1 h = Inr (ax_pool_addr ax + h * MTU)"
      using n(1) ok1(2) by (simp add: get_mut_buffer_def guard_res_def)
    moreover have "raw_slice ax1 (ax_pool_addr ax + h * MTU) len = Inr (take len (buffer_of ax h))"
      using raw_slice_buffer [OF ok1(1) n(1) len(1)] ok1 by simp
    ultimately show ?thesis using new f p(1) n(5) ok1(3) dd by (simp add: tx_consume_def cong: sum.case_cong)
  qed
  ultimately show ?thesis by blast
qed

lemma tx_consume_Inr:
  assumes "pool_ok ax" and "len \<le> MTU" "fills f" and tx: "tx_consume api len f ax = Inr (r, ax')"
  shows "pool_keeps (held ax) ax ax'" and "held ax' = held ax"
proof -
  obtain h ax1 where new: "dma_buffer_new ax = Inr (h, ax1)" using tx by (auto simp: tx_consume_def)
  obtain r' frame where f: "f (take len (buffer_of ax h)) = (r', frame)" by fastforce
  obtain ax2 where ax2: "pool_keeps (held ax) ax ax2" "held ax2 = held ax" and
      eq: "tx_consume api len f ax = rbind (get_heap_paddr (ax_image ax) (ax_pool_addr ax + h * MTU)) (\<lambda>paddr.
       rbind (guard_res (paddr \<noteq> 0) UnwrapNone) (\<lambda>_.
       case xa_tx api paddr frame (ax_dev ax) of
         (Inl e, d) \<Rightarrow> Inl UnwrapErr
       | (Inr u, d) \<Rightarrow> Inr (r', ax2\<lparr>ax_dev := d\<rparr>)))"
    using tx_consume_eq [OF assms(1-3) new f, of api] by blast
  obtain d where "ax' = ax2\<lparr>ax_dev := d\<rparr>" using tx unfolding eq by (auto simp: unwrapped_call_Inr)
  with ax2   show "pool_keeps (held ax) ax ax'" and "held ax' = held ax" by (auto simp: pool_keeps_def)
qed

lemma axi_receive_Inr:
  assumes ok: "pool_ok ax" and rx: "\<And>p n d bs d'. xa_rx api p n d = (Inr bs, d') \<Longrightarrow> length bs \<le> n"
    and recv: "axi_receive api ax = Inr (Some h, ax')"
  shows "h \<notin> held ax" and "held ax' = insert h (held ax)" and "pool_keeps (held ax) ax ax'"
    and "\<exists>bs d. xa_rx api (ax_pool_addr ax + h * MTU + im_heap_p_v_offset (ax_image ax)) MTU (ax_dev ax) = (Inr bs, d) \<and>
      buffer_of ax' h = bs @ drop (length bs) (buffer_of ax h)"
proof -
  obtain ax1 where new: "dma_buffer_new ax = Inr (h, ax1)"
    using recv by (auto simp: axi_receive_def unwrapped_call_Inr split: if_splits)
  note n = dma_buffer_new_Inr [OF ok new]
  have ok1: "pool_ok ax1" "ax_pool_addr ax1 = ax_pool_addr ax" "ax_image ax1 = ax_image ax" "buffer_of ax1 = buffer_of ax"
    using n(3) by (auto simp: pool_keeps_def)
  obtain bs d where x: "xa_rx api (ax_pool_addr ax1 + h * MTU + im_heap_p_v_offset (ax_image ax1)) MTU (ax_dev ax) = (Inr bs, d)"
      "raw_write (ax_pool_addr ax1 + h * MTU) bs (ax1\<lparr>ax_dev := d\<rparr>) = Inr ax'"
    using recv new n(5) by (auto simp: axi_receive_def get_mut_buffer_def get_heap_paddr_def unwrapped_call_Inr split: if_splits)
  obtain p where p: "ax' = ax1\<lparr>ax_dev := d, ax_pool := p\<rparr>" "pool_ok ax'" "buffer_of ax' h = bs @ drop (length bs) (buffer_of ax h)"
      "\<forall>h'<DMA_BUFFERS. h' \<noteq> h \<longrightarrow> buffer_of ax' h' = buffer_of ax h'"
    using raw_write_buffer [of "ax1\<lparr>ax_dev := d\<rparr>" h bs] x ok1 n(1) rx by auto
  show "h \<notin> held ax" by (rule n(2))
  show "held ax' = insert h (held ax)" using n(4) p(1) by simp
  show "pool_keeps (held ax) ax ax'" using p ok1 n(2) held_bound [OF ok] by (auto simp: pool_keeps_def)
  show "\<exists>bs d. xa_rx api (ax_pool_addr ax + h * MTU + im_heap_p_v_offset (ax_image ax)) MTU (ax_dev ax) = (Inr bs, d) \<and>
      buffer_of ax' h = bs @ drop (length bs) (buffer_of ax h)"
    using x(1) p(3) ok1(2,3) by simp
qed

section \<open>Isolation of the outstanding tokens\<close>

text \<open>The closure the network library passes to \<^verbatim>\<open>consume\<close>: it works on the received frame and may
  answer it through the transmit token while the receive token is still alive.\<close>

definition ingress ::
  "'d axi_api \<Rightarrow> (u8 list \<Rightarrow> unit \<times> u8 list) \<Rightarrow> (u8 list \<Rightarrow> (usize \<times> (u8 list \<Rightarrow> unit \<times> u8 list)) option) \<Rightarrow>
   u8 list \<Rightarrow> 'd axi_net \<Rightarrow> (unit \<times> u8 list \<times> 'd axi_net) res" where
  "ingress api g reply b ax =
     (case reply b of
        None \<Rightarrow> Inr ((), snd (g b), ax)
      | Some (len, w) \<Rightarrow> rbind (tx_consume api len w ax) (\<lambda>(u, ax'). Inr ((), snd (g b), ax')))"

text \<open>Runs of the driver.  A configuration pairs its state with the outstanding receive tokens, each
  with the contents its buffer had when it was received.  The library asks for no frame longer
  than the unit the device announces.\<close>

inductive axi_step ::
  "'d axi_api \<Rightarrow> 'd axi_net \<times> (usize \<times> u8 list) list \<Rightarrow> 'd axi_net \<times> (usize \<times> u8 list) list \<Rightarrow> bool" for api where
  receive: "axi_receive api ax = Inr (Some h, ax') \<Longrightarrow> axi_step api (ax, toks) (ax', (h, buffer_of ax' h) # toks)"
| receive_none: "axi_receive api ax = Inr (None, ax') \<Longrightarrow> axi_step api (ax, toks) (ax', toks)"
| rx_consume: "(h, b) \<in> set toks \<Longrightarrow> fills g \<Longrightarrow>
    (\<And>x len w. reply x = Some (len, w) \<Longrightarrow> len \<le> dc_max_transmission_unit axi_capabilities \<and> fills w) \<Longrightarrow>
    rx_consume (ingress api g reply) h ax = Inr (u, ax') \<Longrightarrow> axi_step api (ax, toks) (ax', remove1 (h, b) toks)"
| rx_drop: "(h, b) \<in> set toks \<Longrightarrow> dma_buffer_drop h ax = Inr ax' \<Longrightarrow> axi_step api (ax, toks) (ax', remove1 (h, b) toks)"
| tx_consume: "len \<le> dc_max_transmission_unit axi_capabilities \<Longrightarrow> fills w \<Longrightarrow> tx_consume api len w ax = Inr ((), ax') \<Longrightarrow>
    axi_step api (ax, toks) (ax', toks)"
| interrupt: "axi_step api (ax, toks) (axi_interrupt_handler api ax, toks)"

definition tokens_ok :: "'d axi_net \<times> (usize \<times> u8 list) list \<Rightarrow> bool" where
  "tokens_ok c = (case c of (ax, toks) \<Rightarrow> pool_ok ax \<and> distinct (map fst toks) \<and> fst ` set toks = held ax \<and>
     (\<forall>(h, b)\<in>set toks. buffer_of ax h = b))"

lemma tokens_okI:
  assumes "pool_ok ax" and "distinct (map fst toks)" and "fst ` set toks = held ax"
    and "\<And>h b. (h, b) \<in> set toks \<Longrightarrow> buffer_of ax h = b"
  shows "tokens_ok (ax, toks)"
  using assms by (auto simp: tokens_ok_def)

lemma tokens_okD:
  assumes "tokens_ok (ax, toks)"
  shows "pool_ok ax" "distinct (map fst toks)" "fst ` set toks = held ax"
    and "(h, b) \<in> set toks \<Longrightarrow> h \<in> held ax" "(h, b) \<in> set toks \<Longrightarrow> buffer_of ax h = b"
proof -
  show *: "fst ` set toks = held ax" using assms by (simp add: tokens_ok_def)
  show "h \<in> held ax" if "(h, b) \<in> set toks" unfolding * [symmetric] using that by (rule image_eqI [rotated]) simp
qed (use assms in \<open>auto simp: tokens_ok_def\<close>)

lemma tokens_ok_keeps:
  assumes "tokens_ok (ax, toks)" and "pool_keeps (held ax) ax ax'" and "held ax' = held ax"
  shows "tokens_ok (ax', toks)"
proof (rule tokens_okI)
  show "buffer_of ax' h = b" if "(h, b) \<in> set toks" for h b
    using tokens_okD(4,5) [OF assms(1) that] assms(2) by (simp add: pool_keeps_def)
qed (use tokens_okD [OF assms(1)] assms(2,3) in \<open>simp_all add: pool_keeps_def\<close>)

lemma tokens_ok_remove:
  assumes ok: "tokens_ok (ax, toks)" and h: "(h, b) \<in> set toks" and "pool_keeps (held ax - {h}) ax ax'" and "held ax' = held ax - {h}"
  shows "tokens_ok (ax', remove1 (h, b) toks)"
proof (rule tokens_okI)
  have d: "inj_on fst (set toks)" "distinct toks" using tokens_okD(2) [OF ok] by (auto simp: distinct_map)
  have set: "set (remove1 (h, b) toks) = set toks - {(h, b)}" by (rule set_remove1_eq [OF d(2)])
  have other: "fst x \<noteq> h" if "x \<in> set toks" "x \<noteq> (h, b)" for x
    using d(1) h that by (metis inj_on_def fst_conv)
  have "fst ` (set toks - {(h, b)}) = fst ` set toks - {h}" using other by force
  then show "fst ` set (remove1 (h, b) toks) = held ax'" using tokens_okD(3) [OF ok] assms(4) by (simp add: set)
  show "distinct (map fst (remove1 (h, b) toks))"
    unfolding distinct_map set using d by (auto intro: inj_on_subset)
  show "pool_ok ax'" using assms(3) by (simp add: pool_keeps_def)
  show "buffer_of ax' h' = b'" if "(h', b') \<in> set (remove1 (h, b) toks)" for h' b'
  proof -
    have "(h', b') \<in> set toks" "h' \<noteq> h" using that other [of "(h', b')"] by (auto simp: set)
    then show ?thesis using tokens_okD(4,5) [OF ok] assms(3) by (auto simp: pool_keeps_def)
  qed
qed

lemma rx_consume_Inr:
  assumes ok: "pool_ok ax" and h: "h \<in> held ax" and g: "fills g"
    and reply: "\<And>x len w. reply x = Some (len, w) \<Longrightarrow> len \<le> MTU \<and> fills w"
    and rx: "rx_consume (ingress api g reply) h ax = Inr (u, ax')"
  shows "pool_keeps (held ax - {h}) ax ax'" and "held ax' = held ax - {h}"
proof -
  have h64: "h < DMA_BUFFERS" by (rule held_bound [OF ok h])
  let ?b = "buffer_of ax h"
  have slice: "raw_slice ax (ax_pool_addr ax + h * MTU) MTU = Inr ?b"
    using raw_slice_buffer [OF ok h64, of MTU] by (simp add: buffer_of_def)
  obtain ax1 ax2 where 1: "ingress api g reply ?b ax = Inr ((), snd (g ?b), ax1)"
    and 2: "raw_write (ax_pool_addr ax + h * MTU) (snd (g ?b)) ax1 = Inr ax2" and 3: "dma_buffer_drop h ax2 = Inr ax'"
    using rx slice h64 by (auto simp: rx_consume_def get_mut_buffer_def guard_res_def ingress_def split: option.splits)
  have k1: "pool_keeps (held ax) ax ax1" "held ax1 = held ax"
  proof -
    have "pool_keeps (held ax) ax ax1 \<and> held ax1 = held ax"
    proof (cases "reply ?b")
      case None
      with 1 ok show ?thesis by (simp add: ingress_def pool_keeps_def)
    next
      case (Some x)
      then obtain len w where x: "reply ?b = Some (len, w)" by (cases x) auto
      with 1 have "tx_consume api len w ax = Inr ((), ax1)" by (simp add: ingress_def)
      with tx_consume_Inr [OF ok _ _ this] reply [OF x] show ?thesis by simp
    qed
    then show "pool_keeps (held ax) ax ax1" "held ax1 = held ax" by simp_all
  qed
  have "length (snd (g ?b)) \<le> MTU" using g by (simp add: fills_def buffer_of_def)
  then have k2: "pool_ok ax2" "ax_pool_addr ax2 = ax_pool_addr ax" "ax_image ax2 = ax_image ax" "held ax2 = held ax"
      "\<forall>h'<DMA_BUFFERS. h' \<noteq> h \<longrightarrow> buffer_of ax2 h' = buffer_of ax1 h'"
    using raw_write_buffer [of ax1 h "snd (g ?b)"] 2 k1 h64 by (auto simp: pool_keeps_def)
  obtain "pool_keeps UNIV ax2 ax'" "held ax' = held ax2 - {h}"
    using dma_buffer_drop_ok [OF k2(1) h64] 3 by auto
  with k1 k2 held_bound [OF ok] show "pool_keeps (held ax - {h}) ax ax'" and "held ax' = held ax - {h}"
    by (auto simp: pool_keeps_def)
qed

lemma axi_step_tokens_ok:
  assumes rx: "\<And>p n d bs d'. xa_rx api p n d = (Inr bs, d') \<Longrightarrow> length bs \<le> n"
    and "axi_step api c c'" and "tokens_ok c"
  shows "tokens_ok c'"
  using assms(2,3)
proof (induction rule: axi_step.induct)
  case (receive ax h ax' toks)
  note t = tokens_okD [OF receive.prems]
  note n = axi_receive_Inr [OF t(1) rx receive.hyps]
  show ?case
  proof (rule tokens_okI)
    show "buffer_of ax' h' = b" if "(h', b) \<in> set ((h, buffer_of ax' h) # toks)" for h' b
      using that t(4,5) n(3) by (auto simp: pool_keeps_def)
    have "h \<notin> fst ` set toks" using n(1) t(3) by simp
    then show "distinct (map fst ((h, buffer_of ax' h) # toks))" using t(2) by simp
  qed (use t(3) n(2,3) in \<open>simp_all add: pool_keeps_def\<close>)
next
  case (receive_none ax ax' toks)
  then have "ax' = ax" by (auto simp: axi_receive_def unwrapped_call_Inr split: if_splits)
  with receive_none.prems show ?case by simp
next
  case (rx_consume h b toks g reply ax u ax')
  have "\<And>x len w. reply x = Some (len, w) \<Longrightarrow> len \<le> MTU \<and> fills w" using rx_consume.hyps(3) by (simp add: axi_capabilities_def)
  from rx_consume_Inr [OF tokens_okD(1) [OF rx_consume.prems] tokens_okD(4) [OF rx_consume.prems rx_consume.hyps(1)] rx_consume.hyps(2) this rx_consume.hyps(4)]
  show ?case by (rule tokens_ok_remove [OF rx_consume.prems rx_consume.hyps(1)])
next
  case (rx_drop h b toks ax ax')
  note t = tokens_okD [OF rx_drop.prems]
  have "h < DMA_BUFFERS" using held_bound [OF t(1) t(4) [OF rx_drop.hyps(1)]] .
  from dma_buffer_drop_ok [OF t(1) this] rx_drop.hyps(2) have "pool_keeps (held ax - {h}) ax ax'" "held ax' = held ax - {h}"
    by (auto simp: pool_keeps_def)
  then show ?case by (rule tokens_ok_remove [OF rx_drop.prems rx_drop.hyps(1)])
next
  case (tx_consume len w ax ax' toks)
  with tx_consume_Inr [OF tokens_okD(1) [OF tx_consume.prems] _ tx_consume.hyps(2,3)] show ?case
    by (intro tokens_ok_keeps [OF tx_consume.prems]) (simp_all add: axi_capabilities_def)
next
  case (interrupt ax toks)
  then show ?case
    by (intro tokens_ok_keeps [OF interrupt]) (simp_all add: axi_interrupt_handler_def pool_keeps_def Let_def tokens_ok_def)
qed

lemma axi_run_tokens_ok:
  assumes "\<And>p n d bs d'. xa_rx api p n d = (Inr bs, d') \<Longrightarrow> length bs \<le> n"
    and "(axi_step api)\<^sup>*\<^sup>* c c'" and "tokens_ok c"
  shows "tokens_ok c'"
  using assms(2,3) by (induction rule: rtranclp_induct) (auto intro: axi_step_tokens_ok [OF assms(1)])

lemma axi_boot_tokens_ok: "tokens_ok (axi_boot d im addr, [])"
  by (rule tokens_okI) (simp_all add: axi_boot_def pool_ok_def held_def ia_new_wf ia_new_used)

text \<open>C6. DMA buffers are isolated.  Along every run of the driver, with any number of frames received but
  not yet processed, answers sent while a frame is processed, tokens dropped and interrupts
  handled: the outstanding receive tokens hold pairwise different buffers and exactly the
  buffers marked as used, so that none leaks; each buffer still holds what the device wrote when
  the frame was received; and a buffer for a new token is refused, with a panic, exactly when 64
  tokens are outstanding.  The hypothesis on the device is that a receive transfer writes at
  most the length of the buffer it was given.\<close>

theorem dma_buffers_isolated:
  assumes "\<forall>p n d bs d'. xa_rx api p n d = (Inr bs, d') \<longrightarrow> length bs \<le> n"
    and "(axi_step api)\<^sup>*\<^sup>* (axi_boot d im addr, []) (ax, toks)"
  shows "distinct (map fst toks) \<and> fst ` set toks = ia_used DMA_BUFFERS (ax_alloc ax) \<and>
    list_all (\<lambda>(h, b). h < DMA_BUFFERS \<and> raw_slice ax (ax_pool_addr ax + h * MTU) MTU = Inr b) toks \<and>
    (dma_buffer_new ax = Inl UnwrapNone \<longleftrightarrow> length toks = 64)"
proof -
  have ok: "tokens_ok (ax, toks)"
    using axi_run_tokens_ok [OF _ assms(2) axi_boot_tokens_ok] assms(1) by blast
  note t = tokens_okD [OF ok]
  have "h < DMA_BUFFERS \<and> raw_slice ax (ax_pool_addr ax + h * MTU) MTU = Inr b" if "(h, b) \<in> set toks" for h b
    using held_bound [OF t(1) t(4) [OF that]] raw_slice_buffer [OF t(1), of h MTU] t(5) [OF that] by (auto simp: buffer_of_def)
  moreover have "dma_buffer_new ax = Inl UnwrapNone \<longleftrightarrow> length toks = 64"
  proof -
    have "card (held ax) = length toks" using t(2,3) by (metis distinct_card length_map set_map)
    moreover have "held ax \<subseteq> {..<DMA_BUFFERS}" using held_bound [OF t(1)] by auto
    ultimately have "held ax = {..<DMA_BUFFERS} \<longleftrightarrow> length toks = DMA_BUFFERS"
      by (metis card_lessThan card_subset_eq finite_lessThan)
    then show ?thesis using dma_buffer_new_full(1) [OF t(1)] by (simp add: DMA_BUFFERS_def)
  qed
  ultimately show ?thesis using t(2,3) by (auto simp: held_def list_all_iff)
qed

text \<open>With a free buffer, a mapped pool and a device that has a frame, receiving succeeds.\<close>

lemma axi_receive_ok:
  assumes ok: "pool_ok ax" and "held ax \<noteq> {..<DMA_BUFFERS}" and can: "xa_can_receive api (ax_dev ax)"
    and im: "0 < ax_pool_addr ax" "ax_pool_addr ax + DMA_BUFFERS * MTU + im_heap_p_v_offset (ax_image ax) < 2 ^ 64"
    and rx: "\<And>p. \<exists>bs d. xa_rx api p MTU (ax_dev ax) = (Inr bs, d) \<and> length bs \<le> MTU"
  shows "\<exists>h ax'. axi_receive api ax = Inr (Some h, ax')"
proof -
  obtain h ax1 where new: "dma_buffer_new ax = Inr (h, ax1)" using dma_buffer_new_full(2) [OF ok assms(2)] by auto
  note n = dma_buffer_new_Inr [OF ok new]
  have ok1: "pool_ok ax1" "ax_pool_addr ax1 = ax_pool_addr ax" "ax_image ax1 = ax_image ax"
    using n(3) by (auto simp: pool_keeps_def)
  let ?p = "ax_pool_addr ax + h * MTU"
  obtain bs d where bs: "xa_rx api (?p + im_heap_p_v_offset (ax_image ax)) MTU (ax_dev ax) = (Inr bs, d)" "length bs \<le> MTU"
    using rx by blast
  obtain ax2 where "raw_write ?p bs (ax1\<lparr>ax_dev := d\<rparr>) = Inr ax2"
    using raw_write_buffer [of "ax1\<lparr>ax_dev := d\<rparr>" h bs] ok1 n(1) bs(2) by auto
  moreover have "get_heap_paddr (ax_image ax) ?p = Inr (?p + im_heap_p_v_offset (ax_image ax))"
    using im(2) buffer_fits [OF n(1)] by (simp add: get_heap_paddr_def add_usize_def)
  ultimately show ?thesis
    using can new n(1,5) ok1 bs(1) im(1) by (simp add: axi_receive_def get_mut_buffer_def guard_res_def)
qed

text \<open>A device that always has the same short frame and counts the frames it sends.\<close>

definition axi_device :: "u8 list list axi_api" where
  "axi_device = \<lparr>xa_can_receive = (\<lambda>d. True), xa_rx = (\<lambda>p n d. (Inr (take n [1, 2, 3]), d)), xa_tx = (\<lambda>p f d. (Inr (), d @ [f])),
     xa_has_free_bd = (\<lambda>d. Some True), xa_is_rx_cmplt = (\<lambda>d. False), xa_clear_rx_cmplt = id,
     xa_is_tx_cmplt = (\<lambda>d. False), xa_clear_tx_cmplt = id\<rparr>"

definition axi_image :: image_utils where
  "axi_image = \<lparr>im_executable_start = 0x10000, im_end = 0x20000, im_frames_start = 10, im_frames_end = 26,
     im_granule_size = 4096, im_heap_mem = 0x18000, im_heap_p_v_offset = 0x80000000\<rparr>"

definition stamp :: "u8 list \<Rightarrow> unit \<times> u8 list" where
  "stamp b = ((), map (\<lambda>x. 7) b)"

theorem dma_buffers_isolated_witness:
  "\<exists>ax toks. length toks = 1 \<and> (axi_step axi_device)\<^sup>*\<^sup>* (axi_boot [] axi_image 0x14000, []) (ax, toks) \<and>
    distinct (map fst toks) \<and> fst ` set toks = ia_used DMA_BUFFERS (ax_alloc ax) \<and>
    list_all (\<lambda>(h, b). h < DMA_BUFFERS \<and> raw_slice ax (ax_pool_addr ax + h * MTU) MTU = Inr b) toks \<and>
    (dma_buffer_new ax = Inl UnwrapNone \<longleftrightarrow> length toks = 64)"
proof -
  let ?ax = "axi_boot [] axi_image 0x14000 :: u8 list list axi_net"
  note ok = tokens_okD [OF axi_boot_tokens_ok [where d = "[] :: u8 list list" and im = axi_image and addr = "0x14000"]]
  have "held ?ax = {}" using ok(3) by simp
  then have "held ?ax \<noteq> {..<DMA_BUFFERS}" using lessThan_empty_iff [of DMA_BUFFERS] by (metis DMA_BUFFERS_def zero_neq_numeral)
  then obtain h ax' where "axi_receive axi_device ?ax = Inr (Some h, ax')"
    using axi_receive_ok [OF ok(1), of axi_device] by (auto simp: axi_device_def axi_boot_def axi_image_def DMA_BUFFERS_def MTU_def)
  then have run: "(axi_step axi_device)\<^sup>*\<^sup>* (?ax, []) (ax', [(h, buffer_of ax' h)])"
    by (intro r_into_rtranclp) (rule axi_step.receive)
  show ?thesis
    using dma_buffers_isolated [OF _ run] run
    by (intro exI [of _ ax'] exI [of _ "[(h, buffer_of ax' h)]"]) (simp add: axi_device_def)
qed

text \<open>Transmitting a frame, while other tokens are outstanding: as long as fewer than 64 are, \<^verbatim>\<open>consume\<close>
  lets the library fill a buffer no token holds, hands the device exactly the bytes written, at
  the physical address of that buffer, and returns the library's result; no outstanding frame
  changes, and the number of free buffers is the same afterwards.\<close>

theorem transmit_sends_frame:
  assumes ok: "tokens_ok (ax, toks)" and "length toks < 64" and "len \<le> MTU" "fills f"
    and im: "0 < ax_pool_addr ax" "ax_pool_addr ax + DMA_BUFFERS * MTU + im_heap_p_v_offset (ax_image ax) < 2 ^ 64"
    and tx: "\<forall>p fr. xa_tx api p fr (ax_dev ax) = (Inr (), sent p fr)"
  shows "\<exists>h ax'. h < DMA_BUFFERS \<and> h \<notin> fst ` set toks \<and>
    tx_consume api len f ax = Inr (fst (f (take len (buffer_of ax h))), ax') \<and>
    ax_dev ax' = sent (ax_pool_addr ax + h * MTU + im_heap_p_v_offset (ax_image ax)) (snd (f (take len (buffer_of ax h)))) \<and>
    tokens_ok (ax', toks)"
proof -
  note t = tokens_okD [OF ok]
  have "card (held ax) = length toks" using t(2,3) by (metis distinct_card length_map set_map)
  then have "card (held ax) \<noteq> card {..<DMA_BUFFERS}" using assms(2) by (simp add: DMA_BUFFERS_def)
  then have "held ax \<noteq> {..<DMA_BUFFERS}" by metis
  then obtain h ax1 where new: "dma_buffer_new ax = Inr (h, ax1)" using dma_buffer_new_full(2) [OF t(1)] by auto
  note n = dma_buffer_new_Inr(1,2) [OF t(1) new]
  obtain r frame where f: "f (take len (buffer_of ax h)) = (r, frame)" by fastforce
  let ?p = "ax_pool_addr ax + h * MTU" and ?off = "im_heap_p_v_offset (ax_image ax)"
  have "get_heap_paddr (ax_image ax) ?p = Inr (?p + ?off)"
    using im(2) buffer_fits [OF n(1)] by (simp add: get_heap_paddr_def add_usize_def)
  then obtain ax2 where ax2: "pool_keeps (held ax) ax ax2" "held ax2 = held ax"
      "tx_consume api len f ax = Inr (r, ax2\<lparr>ax_dev := sent (?p + ?off) frame\<rparr>)"
    using tx_consume_eq [OF t(1) assms(3,4) new f, of api] tx im(1) by (auto simp: guard_res_def)
  have "tokens_ok (ax2\<lparr>ax_dev := sent (?p + ?off) frame\<rparr>, toks)"
    by (rule tokens_ok_keeps [OF ok]) (use ax2 in \<open>simp_all add: pool_keeps_def\<close>)
  then show ?thesis using n t(3) f ax2(3) by (intro exI [of _ h] exI [of _ "ax2\<lparr>ax_dev := sent (?p + ?off) frame\<rparr>"]) simp
qed

theorem transmit_sends_frame_witness:
  "\<exists>h ax'. h < DMA_BUFFERS \<and> h \<notin> fst ` set ([] :: (usize \<times> u8 list) list) \<and>
    tx_consume axi_device 60 stamp (axi_boot [] axi_image 0x14000) =
      Inr (fst (stamp (take 60 (buffer_of (axi_boot ([] :: u8 list list) axi_image 0x14000) h))), ax') \<and>
    ax_dev ax' = [snd (stamp (take 60 (buffer_of (axi_boot ([] :: u8 list list) axi_image 0x14000) h)))] \<and>
    tokens_ok (ax', [])"
  by (rule transmit_sends_frame [OF axi_boot_tokens_ok, where sent = "\<lambda>p fr. [fr]"])
    (simp_all add: fills_def stamp_def MTU_def DMA_BUFFERS_def axi_boot_def axi_image_def axi_device_def)

end
