(* ===== verification/Net_Mmio.thy ===== *)
theory Net_Mmio
  imports Object_Allocator
begin

text \<open>
  Mapping the registers of the network devices: \<^verbatim>\<open>init_mmio\<close> of \<^verbatim>\<open>device/net/axi_net/mod.rs\<close> and of
  \<^verbatim>\<open>device/net/virtio_net/mod.rs\<close>, and the interrupt capability of \<^verbatim>\<open>device/net/mod.rs\<close>.  Both look for
  the device region that holds the registers, split it into smaller regions, turn these into
  2 MiB frames one after the other and map the frame at the registers' address.  The kernel's
  answer to \<^verbatim>\<open>frame_get_address\<close> and the size of a large frame belong to the kernel parameter.
\<close>

section \<open>Model\<close>

definition ETH_ADDRESS :: usize where "ETH_ADDRESS = 0x60140000"
definition DMA_ADDRESS :: usize where "DMA_ADDRESS = 0x60100000"
definition NET_DEVICE_ADDR :: usize where "NET_DEVICE_ADDR = 0x10008000"
definition PLIC_NET_IRQ :: nat where "PLIC_NET_IRQ = 1"

text \<open>The first matching region of the boot information, as its slot and size; slot and size 0 when
  there is none.\<close>

definition find_device :: "(untyped_desc \<Rightarrow> bool) \<Rightarrow> boot_info \<Rightarrow> usize \<times> nat" where
  "find_device hit bi =
     (case range_find (\<lambda>i. hit (bi_untyped_list bi ! i)) 0 (length (bi_untyped_list bi)) of
        None \<Rightarrow> (0, 0)
      | Some i \<Rightarrow> (bi_untyped_start bi + i, ud_size_bits (bi_untyped_list bi ! i)))"

text \<open>The loop over the smaller regions; \<open>act\<close> is what is done with the frame that is hit, after
  which the loop ends.\<close>

fun frame_loop ::
  "kernel \<Rightarrow> (usize \<Rightarrow> bool) \<Rightarrow> (nat \<Rightarrow> usize \<Rightarrow> object_allocator \<Rightarrow> object_allocator res) \<Rightarrow> nat \<Rightarrow> nat \<Rightarrow> nat list \<Rightarrow>
   object_allocator \<Rightarrow> object_allocator res" where
  "frame_loop k hit act untyped_slot frame_slot [] oa = Inr oa"
| "frame_loop k hit act untyped_slot frame_slot (i # is) oa =
     rbind (kunwrap (kcall_res k (Retype (untyped_slot + i) BMegaPage (frame_slot + i) 1) oa)) (\<lambda>(_, oa1).
     rbind (get_empty_slot oa1) (\<lambda>(_, oa2).
     case k_frame_address k (frame_slot + i) of
       Inl e \<Rightarrow> Inl UnwrapErr
     | Inr paddr \<Rightarrow>
         if hit paddr then act (frame_slot + i) paddr oa2
         else frame_loop k hit act untyped_slot frame_slot is oa2))"

text \<open>Splitting the region into \<open>num\<close> regions of \<open>bits\<close> bits and walking over them.\<close>

definition split_and_map ::
  "kernel \<Rightarrow> (usize \<Rightarrow> bool) \<Rightarrow> (nat \<Rightarrow> usize \<Rightarrow> object_allocator \<Rightarrow> object_allocator res) \<Rightarrow> usize \<Rightarrow> nat \<Rightarrow> nat \<Rightarrow> nat \<Rightarrow>
   object_allocator \<Rightarrow> object_allocator res" where
  "split_and_map k hit act untyped untyped_slot bits num oa =
     rbind (kunwrap (kcall_res k (Retype untyped (BUntyped bits) untyped_slot num) oa)) (\<lambda>(_, oa1).
     rbind (sub_usize num 1) (\<lambda>n.
     rbind (skip_slots n oa1) (\<lambda>oa2.
     rbind (get_empty_slot oa2) (\<lambda>(frame_slot, oa3).
     frame_loop k hit act untyped_slot frame_slot [0..<num] oa3))))"

text \<open>The kernel's regions have fewer than 64 bits, so that neither the shift nor the sum of the test, made
  only for a region that starts below the registers, can overflow.\<close>

definition axi_region :: "untyped_desc \<Rightarrow> bool" where
  "axi_region d \<longleftrightarrow> ud_is_device d \<and> ud_paddr d \<le> DMA_ADDRESS \<and> ETH_ADDRESS < ud_paddr d + 2 ^ ud_size_bits d"

definition axi_frame_hit :: "kernel \<Rightarrow> usize \<Rightarrow> bool" where
  "axi_frame_hit k paddr \<longleftrightarrow> paddr \<le> DMA_ADDRESS \<and> ETH_ADDRESS < paddr + 2 ^ k_mega_bits k"

definition axi_map_frame :: "kernel \<Rightarrow> nat \<Rightarrow> usize \<Rightarrow> object_allocator \<Rightarrow> object_allocator res" where
  "axi_map_frame k net_frame paddr oa =
     (let vaddr = paddr in
      rbind (kunwrap (alloc_page_table k oa)) (\<lambda>(l2_page_table, oa1).
      rbind (kunwrap (kcall_res k (PageTableMap l2_page_table vaddr) oa1)) (\<lambda>(_, oa2).
      rbind (kunwrap (kcall_res k (FrameMap net_frame vaddr) oa2)) (\<lambda>(_, oa3). Inr oa3))))"

definition axi_init_mmio :: "kernel \<Rightarrow> boot_info \<Rightarrow> object_allocator \<Rightarrow> object_allocator res" where
  "axi_init_mmio k bi oa =
     (let (net_untyped, net_untyped_bits) = find_device axi_region bi in
      rbind (get_empty_slot oa) (\<lambda>(net_untyped_slot, oa1).
      rbind (sub_usize net_untyped_bits (k_mega_bits k)) (\<lambda>b.
      rbind (sub_usize b 7) (\<lambda>retype_bits.
      rbind (guard_res (retype_bits < 64) ArithOverflow) (\<lambda>_.
      split_and_map k (axi_frame_hit k) (axi_map_frame k) net_untyped net_untyped_slot (k_mega_bits k + 7) (2 ^ retype_bits) oa1)))))"

definition virtio_region :: "untyped_desc \<Rightarrow> bool" where
  "virtio_region d \<longleftrightarrow> ud_is_device d \<and> ud_paddr d \<le> NET_DEVICE_ADDR \<and> NET_DEVICE_ADDR < ud_paddr d + 2 ^ ud_size_bits d"

definition virtio_frame_hit :: "kernel \<Rightarrow> usize \<Rightarrow> bool" where
  "virtio_frame_hit k paddr \<longleftrightarrow> paddr \<le> NET_DEVICE_ADDR \<and> NET_DEVICE_ADDR < paddr + 2 ^ k_mega_bits k"

definition virtio_map_frame :: "kernel \<Rightarrow> nat \<Rightarrow> usize \<Rightarrow> object_allocator \<Rightarrow> object_allocator res" where
  "virtio_map_frame k virtio_frame paddr oa =
     (let vaddr = paddr in
      rbind (kunwrap (kcall_res k (FrameMap virtio_frame vaddr) oa)) (\<lambda>(_, oa1). Inr oa1))"

text \<open>Here only the first quarter of the region is split.\<close>

definition virtio_init_mmio :: "kernel \<Rightarrow> boot_info \<Rightarrow> object_allocator \<Rightarrow> object_allocator res" where
  "virtio_init_mmio k bi oa =
     (let (virtio_untyped, virtio_untyped_bits) = find_device virtio_region bi in
      rbind (get_empty_slot oa) (\<lambda>(virtio_untyped_slot, oa1).
      rbind (sub_usize virtio_untyped_bits (k_mega_bits k)) (\<lambda>retype_bits.
      rbind (guard_res (retype_bits < 64) ArithOverflow) (\<lambda>_.
      split_and_map k (virtio_frame_hit k) (virtio_map_frame k) virtio_untyped virtio_untyped_slot (k_mega_bits k)
        (2 ^ retype_bits div 4) oa1))))"

definition init_net_interrupt_handler :: "kernel \<Rightarrow> object_allocator \<Rightarrow> ((nat \<times> nat) \<times> object_allocator) res" where
  "init_net_interrupt_handler k oa =
     rbind (get_empty_slot oa) (\<lambda>(irq_handler, oa1).
     rbind (kunwrap (kcall_res k (IrqControlGet PLIC_NET_IRQ irq_handler) oa1)) (\<lambda>(_, oa2).
     rbind (kunwrap (alloc_ntfn k oa2)) (\<lambda>(handler_ntfn, oa3).
     rbind (kunwrap (kcall_res k (IrqSetNotification irq_handler handler_ntfn) oa3)) (\<lambda>(_, oa4).
     Inr ((irq_handler, handler_ntfn), oa4)))))"

section \<open>The loop over the frames\<close>

lemma kunwrap_call:
  "k_accepts k c \<Longrightarrow> kunwrap (kcall_res k c oa) = Inr ((), oa\<lparr>oa_calls := oa_calls oa @ [c]\<rparr>)"
  by (simp add: kunwrap_def kcall_res_def invoke_def)

lemma frame_loop_from:
  assumes acc: "\<forall>c. k_accepts k c" and addr: "\<forall>i<num. k_frame_address k (fs + i) = Inr (addr i)"
    and "a \<le> m" and "m < num" and "\<forall>i\<in>{a..<m}. \<not> hit (addr i)" and "oa_empty_start oa + (m - a) < oa_empty_end oa"
  shows "frame_loop k hit act us fs [a..<num] oa =
    (let oa' = oa\<lparr>oa_calls := oa_calls oa @ map (\<lambda>i. Retype (us + i) BMegaPage (fs + i) 1) [a..<Suc m],
         oa_empty_start := oa_empty_start oa + Suc (m - a)\<rparr> in
     if hit (addr m) then act (fs + m) (addr m) oa' else frame_loop k hit act us fs [Suc m..<num] oa')"
  using assms(3-)
proof (induction "m - a" arbitrary: a oa)
  case 0
  then have "[a..<num] = a # [Suc a..<num]" "m = a" by (simp_all add: upt_conv_Cons)
  with 0 addr show ?case using acc by (simp add: kunwrap_call get_empty_slot_def Let_def)
next
  case (Suc d)
  then have a: "a < m" "d = m - Suc a" by auto
  let ?oa = "oa\<lparr>oa_calls := oa_calls oa @ [Retype (us + a) BMegaPage (fs + a) 1], oa_empty_start := Suc (oa_empty_start oa)\<rparr>"
  have cons: "[a..<num] = a # [Suc a..<num]" using a Suc.prems by (simp add: upt_conv_Cons)
  have "\<not> hit (addr a)" using Suc.prems a by simp
  then have "frame_loop k hit act us fs [a..<num] oa = frame_loop k hit act us fs [Suc a..<num] ?oa"
    unfolding cons using acc addr Suc.prems a by (simp add: kunwrap_call get_empty_slot_def)
  moreover have "[a..<Suc m] = a # [Suc a..<Suc m]" using a by (simp add: upt_conv_Cons)
  moreover have "Suc (oa_empty_start oa) + Suc (m - Suc a) = oa_empty_start oa + Suc (m - a)" using a by simp
  ultimately show ?case using Suc.hyps(1) [OF a(2), of ?oa] Suc.prems a by simp
qed

lemma skip_slots_ok:
  "oa_empty_start oa + n \<le> oa_empty_end oa \<Longrightarrow> skip_slots n oa = Inr (oa\<lparr>oa_empty_start := oa_empty_start oa + n\<rparr>)"
  by (induction n arbitrary: oa) (simp_all add: get_empty_slot_def)

lemma split_and_map_eq:
  assumes "\<forall>c. k_accepts k c" and "0 < num" and "oa_empty_start oa + num \<le> oa_empty_end oa"
  shows "split_and_map k hit act u us bits num oa =
    frame_loop k hit act us (oa_empty_start oa + (num - 1)) [0..<num]
      (oa\<lparr>oa_calls := oa_calls oa @ [Retype u (BUntyped bits) us num], oa_empty_start := oa_empty_start oa + num\<rparr>)"
  using assms by (simp add: split_and_map_def kunwrap_call sub_usize_def skip_slots_ok get_empty_slot_def)

text \<open>The first region that fits, when there is one.\<close>

lemma find_device_first:
  assumes "j < length (bi_untyped_list bi)" and "hit (bi_untyped_list bi ! j)" and "\<forall>i<j. \<not> hit (bi_untyped_list bi ! i)"
  shows "find_device hit bi = (bi_untyped_start bi + j, ud_size_bits (bi_untyped_list bi ! j))"
proof -
  have "range_find (\<lambda>i. hit (bi_untyped_list bi ! i)) 0 (length (bi_untyped_list bi)) = Some j"
    using assms by (simp add: range_find_Some_iff)
  then show ?thesis by (simp add: find_device_def)
qed

section \<open>The Ethernet device\<close>

text \<open>An aligned region of at least 256 MiB around the registers holds the 256 MiB block at
  \<open>0x60000000\<close>, no earlier block of it is hit, and the first 2 MiB of that block hold the
  registers.\<close>

lemma axi_block:
  assumes dvd: "2 ^ n dvd base" and n: "28 \<le> n" and base: "base \<le> DMA_ADDRESS" "ETH_ADDRESS < base + 2 ^ n"
    and k: "k_mega_bits k = 21"
  shows "\<exists>m<2 ^ (n - 28). base + m * 2 ^ 28 = 0x60000000 \<and> axi_frame_hit k (0x60000000) \<and>
    (\<forall>i<m. \<not> axi_frame_hit k (base + i * 2 ^ 28))"
proof -
  have pow: "(2 :: nat) ^ n = 2 ^ (n - 28) * 2 ^ 28"
    using n power_add [of "2 :: nat" "n - 28" 28] le_add_diff_inverse2 [OF n] by metis
  then have "(2 :: nat) ^ 28 dvd base" using dvd by (metis dvd_mult_right dvd_trans dvd_triv_right)
  then obtain q where q: "base = 2 ^ 28 * q" by (elim dvdE)
  have q6: "q \<le> 6" using base(1) by (simp add: q DMA_ADDRESS_def)
  let ?m = "6 - q"
  have "base + ?m * 2 ^ 28 = 0x60000000" using q6 by (simp add: q algebra_simps)
  moreover have "?m < 2 ^ (n - 28)"
  proof -
    have "(0x60140000 :: nat) < 2 ^ 28 * (q + 2 ^ (n - 28))" using base(2) pow by (simp add: q ETH_ADDRESS_def algebra_simps)
    then have "6 < q + 2 ^ (n - 28)" by simp
    then show ?thesis using q6 by (simp add: less_diff_conv2 add.commute)
  qed
  moreover have "axi_frame_hit k 0x60000000" using k by (simp add: axi_frame_hit_def DMA_ADDRESS_def ETH_ADDRESS_def)
  moreover have "\<not> axi_frame_hit k (base + i * 2 ^ 28)" if "i < ?m" for i
  proof -
    have "base + i * 2 ^ 28 = 2 ^ 28 * (q + i)" by (simp add: q algebra_simps)
    moreover have "2 ^ 28 * (q + i) \<le> 2 ^ 28 * (5 :: nat)" using that q6 by (intro mult_le_mono2) simp
    ultimately show ?thesis using k by (simp add: axi_frame_hit_def ETH_ADDRESS_def)
  qed
  ultimately show ?thesis by blast
qed

lemma axi_map_frame_ok:
  assumes acc: "\<forall>c. k_accepts k c" and "fits k oa BPageTable p" and "oa_untyped_start oa + length (oa_untyped_list oa) < 2 ^ 64"
    and "oa_empty_start oa < oa_empty_end oa"
  shows "\<exists>oa'. axi_map_frame k slot paddr oa = Inr oa' \<and> last (oa_calls oa') = FrameMap slot paddr"
proof -
  obtain r oa1 where a: "alloc_page_table k oa = Inr (r, oa1)"
    using alloc_object_ok [OF assms(2-4)] unfolding alloc_page_table_def by blast
  moreover obtain s where "r = Inr s"
    using a acc by (auto simp: alloc_page_table_def alloc_object_def invoke_def split: prod.splits sum.splits if_splits)
  ultimately have "kunwrap (alloc_page_table k oa) = Inr (s, oa1)" by (simp add: kunwrap_def)
  then show ?thesis using acc by (simp add: axi_map_frame_def kunwrap_call)
qed

text \<open>The register pages of the Ethernet device are mapped: when the boot information has an aligned
  device region of at least 256 MiB around the registers and the kernel splits regions into
  consecutive parts, \<^verbatim>\<open>init_mmio\<close> returns, and its last invocation maps, at its own address, the
  2 MiB frame that holds both the DMA and the Ethernet registers.  Without such a region it
  panics.\<close>

theorem axi_mmio_mapped:
  assumes "\<forall>c. k_accepts k c" and k: "k_mega_bits k = 21"
    and oa: "oa_empty_start oa < oa_empty_end oa"
    and found: "\<forall>d\<in>set (bi_untyped_list bi). axi_region d \<longrightarrow> 2 ^ ud_size_bits d dvd ud_paddr d \<and> 28 \<le> ud_size_bits d \<and>
      ud_size_bits d < 64 \<and> oa_empty_start oa + 2 * 2 ^ (ud_size_bits d - 28) + 3 \<le> oa_empty_end oa \<and>
      (\<forall>i<2 ^ (ud_size_bits d - 28). k_frame_address k (oa_empty_start oa + 2 ^ (ud_size_bits d - 28) + i) = Inr (ud_paddr d + i * 2 ^ 28))"
    and pt: "fits k oa BPageTable p" "oa_untyped_start oa + length (oa_untyped_list oa) < 2 ^ 64"
  shows "if \<exists>d\<in>set (bi_untyped_list bi). axi_region d
    then \<exists>oa' slot. axi_init_mmio k bi oa = Inr oa' \<and> last (oa_calls oa') = FrameMap slot 0x60000000 \<and>
      k_frame_address k slot = Inr 0x60000000 \<and> axi_frame_hit k 0x60000000
    else axi_init_mmio k bi oa = Inl ArithOverflow"
proof (cases "\<exists>d\<in>set (bi_untyped_list bi). axi_region d")
  case True
  then obtain j where j: "j < length (bi_untyped_list bi)" "axi_region (bi_untyped_list bi ! j)" "\<forall>i<j. \<not> axi_region (bi_untyped_list bi ! i)"
    using exists_least_iff [of "\<lambda>j. j < length (bi_untyped_list bi) \<and> axi_region (bi_untyped_list bi ! j)"]
    by (metis in_set_conv_nth less_trans)
  define d where "d = bi_untyped_list bi ! j"
  define num :: nat where "num = 2 ^ (ud_size_bits d - 28)"
  have d: "axi_region d" "d \<in> set (bi_untyped_list bi)" using j by (simp_all add: d_def)
  have f: "2 ^ ud_size_bits d dvd ud_paddr d" "28 \<le> ud_size_bits d" "ud_size_bits d < 64" "oa_empty_start oa + 2 * num + 3 \<le> oa_empty_end oa"
    and addr: "\<forall>i<num. k_frame_address k (oa_empty_start oa + num + i) = Inr (ud_paddr d + i * 2 ^ 28)"
    using found d by (simp_all add: num_def)
  obtain m where m: "m < num" "ud_paddr d + m * 2 ^ 28 = 0x60000000" "axi_frame_hit k 0x60000000"
      "\<forall>i<m. \<not> axi_frame_hit k (ud_paddr d + i * 2 ^ 28)"
    using axi_block [OF f(1,2) _ _ k] d(1) by (auto simp: axi_region_def num_def)
  let ?oa1 = "oa\<lparr>oa_empty_start := oa_empty_start oa + 1\<rparr>" and ?us = "oa_empty_start oa" and ?fs = "oa_empty_start oa + num"
  let ?u = "bi_untyped_start bi + j"
  let ?oa2 = "?oa1\<lparr>oa_calls := oa_calls ?oa1 @ [Retype ?u (BUntyped 28) ?us num], oa_empty_start := oa_empty_start ?oa1 + num\<rparr>"
  have num: "0 < num" by (simp add: num_def)
  have bits: "7 \<le> ud_size_bits d - 21" "21 \<le> ud_size_bits d" "ud_size_bits d - 28 < 64" using f(2,3) by linarith+
  have "axi_init_mmio k bi oa = split_and_map k (axi_frame_hit k) (axi_map_frame k) ?u ?us 28 num ?oa1"
    using find_device_first [OF j, folded d_def] bits k oa
    by (simp add: axi_init_mmio_def get_empty_slot_def sub_usize_def guard_res_def num_def)
  also have "\<dots> = frame_loop k (axi_frame_hit k) (axi_map_frame k) ?us ?fs [0..<num] ?oa2"
    using split_and_map_eq [OF assms(1) num, of ?oa1] f(4) num by simp
  also have "\<dots> = axi_map_frame k (?fs + m) 0x60000000 (?oa2\<lparr>oa_calls := oa_calls ?oa2 @ map (\<lambda>i. Retype (?us + i) BMegaPage (?fs + i) 1) [0..<Suc m],
      oa_empty_start := oa_empty_start ?oa2 + Suc m\<rparr>)" (is "_ = axi_map_frame k _ _ ?oa3")
    using frame_loop_from [OF assms(1) addr, of 0 m "axi_frame_hit k" ?oa2 "axi_map_frame k" ?us] m f(4) by (simp add: Let_def)
  finally have eq: "axi_init_mmio k bi oa = axi_map_frame k (?fs + m) 0x60000000 ?oa3" .
  have "fits k ?oa3 BPageTable p" using pt(1) by (simp add: fits_def)
  moreover have "oa_empty_start ?oa3 < oa_empty_end ?oa3" using f(4) m(1) by simp
  ultimately obtain oa' where "axi_map_frame k (?fs + m) 0x60000000 ?oa3 = Inr oa'" "last (oa_calls oa') = FrameMap (?fs + m) 0x60000000"
    using axi_map_frame_ok [OF assms(1)] pt(2) by fastforce
  then show ?thesis using True eq m addr by (auto intro!: exI [of _ "?fs + m"])
next
  case False
  then have "find_device axi_region bi = (0, 0)"
    by (auto simp: find_device_def range_find_Some_iff split: option.split)
  then show ?thesis using False k oa by (auto simp: axi_init_mmio_def get_empty_slot_def sub_usize_def)
qed


text \<open>A board with one device region of 1 GiB at \<open>0x40000000\<close> beside ordinary memory.\<close>

definition mmio_kernel :: "usize \<Rightarrow> nat \<Rightarrow> usize \<Rightarrow> kernel" where
  "mmio_kernel base bits fs = kernel_example\<lparr>k_mega_bits := 21, k_frame_address := (\<lambda>slot. Inr (base + (slot - fs) * 2 ^ bits))\<rparr>"

definition mmio_boot :: "usize \<Rightarrow> nat \<Rightarrow> boot_info" where
  "mmio_boot base bits = \<lparr>bi_untyped_list = [\<lparr>ud_is_device = False, ud_size_bits = 20, ud_paddr = 0\<rparr>,
     \<lparr>ud_is_device = True, ud_size_bits = bits, ud_paddr = base\<rparr>],
     bi_untyped_start = 30, bi_empty_start = 100, bi_empty_end = 4000\<rparr>"

theorem axi_mmio_mapped_witness:
  "if \<exists>d\<in>set (bi_untyped_list (mmio_boot 0x40000000 30)). axi_region d
    then \<exists>oa' slot. axi_init_mmio (mmio_kernel 0x40000000 28 104) (mmio_boot 0x40000000 30) (oa_new (mmio_boot 0x40000000 30)) = Inr oa' \<and>
      last (oa_calls oa') = FrameMap slot 0x60000000 \<and>
      k_frame_address (mmio_kernel 0x40000000 28 104) slot = Inr 0x60000000 \<and> axi_frame_hit (mmio_kernel 0x40000000 28 104) 0x60000000
    else axi_init_mmio (mmio_kernel 0x40000000 28 104) (mmio_boot 0x40000000 30) (oa_new (mmio_boot 0x40000000 30)) = Inl ArithOverflow"
  by (rule axi_mmio_mapped [where p = 0])
    (simp_all add: mmio_kernel_def mmio_boot_def kernel_example_def oa_new_def fits_def axi_region_def DMA_ADDRESS_def)

section \<open>The VirtIO device\<close>

lemma frame_loop_none:
  assumes acc: "\<forall>c. k_accepts k c" and addr: "\<forall>i<num. k_frame_address k (fs + i) = Inr (addr i)"
    and none: "\<forall>i<num. \<not> hit (addr i)" and "a \<le> num" and "oa_empty_start oa + (num - a) \<le> oa_empty_end oa"
  shows "\<exists>oa'. frame_loop k hit act us fs [a..<num] oa = Inr oa' \<and>
    oa_calls oa' = oa_calls oa @ map (\<lambda>i. Retype (us + i) BMegaPage (fs + i) 1) [a..<num]"
proof (cases "a < num")
  case True
  let ?m = "num - 1"
  have "[a..<num] = [a..<Suc ?m]" "[Suc ?m..<num] = []" using True by simp_all
  then show ?thesis
    using frame_loop_from [OF acc addr, of a ?m hit oa act us] none True assms(5) by (fastforce simp: Let_def)
qed (use assms(4) in simp)

text \<open>The frame of an aligned region that holds the registers is the one at \<open>0x10000000\<close>.\<close>

lemma virtio_frame:
  assumes "k_mega_bits k = 21" and "2 ^ 21 dvd base" and "base \<le> NET_DEVICE_ADDR"
  shows "virtio_frame_hit k (base + i * 2 ^ 21) \<longleftrightarrow> base + i * 2 ^ 21 = 0x10000000"
proof -
  obtain q where q: "base = 2 ^ 21 * q" using assms(2) by (elim dvdE)
  have eq: "base + i * 2 ^ 21 = 2 ^ 21 * (q + i)" by (simp add: q algebra_simps)
  have "2 ^ 21 * (q + i) \<le> 0x10008000 \<and> 0x10008000 < 2 ^ 21 * (q + i) + 2 ^ 21 \<longleftrightarrow> q + i = 128"
    by auto
  moreover have "2 ^ 21 * (q + i) = 0x10000000 \<longleftrightarrow> q + i = 128" by (simp, arith)
  ultimately show ?thesis unfolding virtio_frame_hit_def eq assms(1) NET_DEVICE_ADDR_def by blast
qed

text \<open>The loop over the frames of an aligned region: the frame at \<open>0x10000000\<close> is mapped if it is
  among them, and otherwise none is.\<close>

lemma virtio_loop_near:
  assumes acc: "\<forall>c. k_accepts k c" and k: "k_mega_bits k = 21" and q: "base = 2 ^ 21 * q" "q \<le> 128" "128 - q < num"
    and slots: "oa_empty_start oa + num \<le> oa_empty_end oa" and addr: "\<forall>i<num. k_frame_address k (fs + i) = Inr (base + i * 2 ^ 21)"
  shows "\<exists>oa'. frame_loop k (virtio_frame_hit k) (virtio_map_frame k) us fs [0..<num] oa = Inr oa' \<and>
    last (oa_calls oa') = FrameMap (fs + (128 - q)) 0x10000000 \<and> k_frame_address k (fs + (128 - q)) = Inr 0x10000000"
proof -
  let ?m = "128 - q"
  have "2 ^ 21 dvd base" "base \<le> NET_DEVICE_ADDR" using q by (simp_all add: NET_DEVICE_ADDR_def)
  note hit = virtio_frame [OF k this]
  have at: "base + ?m * 2 ^ 21 = 0x10000000" using q(2) by (simp add: q(1) algebra_simps)
  have "\<forall>i\<in>{0..<?m}. \<not> virtio_frame_hit k (base + i * 2 ^ 21)" unfolding hit by (auto simp: q(1))
  moreover have "virtio_frame_hit k (base + ?m * 2 ^ 21)" unfolding hit by (rule at)
  ultimately have "frame_loop k (virtio_frame_hit k) (virtio_map_frame k) us fs [0..<num] oa = virtio_map_frame k (fs + ?m) 0x10000000
      (oa\<lparr>oa_calls := oa_calls oa @ map (\<lambda>i. Retype (us + i) BMegaPage (fs + i) 1) [0..<Suc ?m],
        oa_empty_start := oa_empty_start oa + Suc ?m\<rparr>)"
    using frame_loop_from [OF acc addr, of 0 ?m "virtio_frame_hit k" oa "virtio_map_frame k" us] q(3) slots
    unfolding at by (simp add: Let_def)
  moreover have "k_frame_address k (fs + ?m) = Inr 0x10000000" using addr q(3) at by metis
  ultimately show ?thesis using acc by (simp add: virtio_map_frame_def kunwrap_call)
qed

lemma virtio_loop_far:
  assumes acc: "\<forall>c. k_accepts k c" and k: "k_mega_bits k = 21" and q: "base = 2 ^ 21 * q" "q \<le> 128" "num \<le> 128 - q"
    and slots: "oa_empty_start oa + num \<le> oa_empty_end oa" and addr: "\<forall>i<num. k_frame_address k (fs + i) = Inr (base + i * 2 ^ 21)"
  shows "\<exists>oa'. frame_loop k (virtio_frame_hit k) (virtio_map_frame k) us fs [0..<num] oa = Inr oa' \<and>
    oa_calls oa' = oa_calls oa @ map (\<lambda>i. Retype (us + i) BMegaPage (fs + i) 1) [0..<num]"
proof -
  have "2 ^ 21 dvd base" "base \<le> NET_DEVICE_ADDR" using q by (simp_all add: NET_DEVICE_ADDR_def)
  note hit = virtio_frame [OF k this]
  have "\<forall>i<num. \<not> virtio_frame_hit k (base + i * 2 ^ 21)" using q unfolding hit by auto
  then show ?thesis
    using frame_loop_none [OF acc addr, of "virtio_frame_hit k" 0 oa "virtio_map_frame k" us] slots by simp
qed

text \<open>C40. The registers of the VirtIO device are mapped exactly when they lie in the first quarter of
  their region.  For an aligned device region of \<open>n\<close> bits around \<^verbatim>\<open>NET_DEVICE_ADDR\<close>: below 23 bits
  \<^verbatim>\<open>init_mmio\<close> panics (the quarter is empty and \<^verbatim>\<open>retype_num - 1\<close> underflows); otherwise it
  returns, its last invocation maps the frame at \<open>0x10000000\<close> when that address is in the first
  quarter, and no frame is mapped when it is not.\<close>

theorem virtio_mmio_mapped:
  assumes acc: "\<forall>c. k_accepts k c" and k: "k_mega_bits k = 21"
    and j: "j < length (bi_untyped_list bi)" "bi_untyped_list bi ! j = \<lparr>ud_is_device = True, ud_size_bits = n, ud_paddr = base\<rparr>"
      "\<forall>i<j. \<not> virtio_region (bi_untyped_list bi ! i)"
    and region: "virtio_region \<lparr>ud_is_device = True, ud_size_bits = n, ud_paddr = base\<rparr>" "2 ^ n dvd base" "n < 64"
    and num: "num = 2 ^ (n - 21) div 4" and slots: "oa_empty_start oa + 2 * num + 2 \<le> oa_empty_end oa"
    and addr: "\<forall>i<num. k_frame_address k (oa_empty_start oa + num + i) = Inr (base + i * 2 ^ 21)"
  shows "if n < 23 then virtio_init_mmio k bi oa = Inl ArithOverflow
    else \<exists>oa'. virtio_init_mmio k bi oa = Inr oa' \<and>
      (if 0x10000000 < base + 2 ^ n div 4
       then \<exists>slot. last (oa_calls oa') = FrameMap slot 0x10000000 \<and> k_frame_address k slot = Inr 0x10000000
       else \<forall>slot vaddr. FrameMap slot vaddr \<in> set (oa_calls oa') \<longrightarrow> FrameMap slot vaddr \<in> set (oa_calls oa))"
proof -
  have found: "find_device virtio_region bi = (bi_untyped_start bi + j, n)"
    using find_device_first [of j bi virtio_region] j region(1) by simp
  let ?oa1 = "oa\<lparr>oa_empty_start := oa_empty_start oa + 1\<rparr>" and ?us = "oa_empty_start oa" and ?fs = "oa_empty_start oa + num"
  let ?u = "bi_untyped_start bi + j"
  let ?oa2 = "?oa1\<lparr>oa_calls := oa_calls ?oa1 @ [Retype ?u (BUntyped 21) ?us num], oa_empty_start := oa_empty_start ?oa1 + num\<rparr>"
  have "n - 21 < 64" using region(3) by arith
  then have init: "virtio_init_mmio k bi oa = (if n < 21 then Inl ArithOverflow else
      split_and_map k (virtio_frame_hit k) (virtio_map_frame k) ?u ?us 21 num ?oa1)"
    using found slots k by (simp add: virtio_init_mmio_def get_empty_slot_def sub_usize_def guard_res_def num)
  show ?thesis
  proof (cases "n < 23")
    case True
    then have "n = 21 \<or> n = 22 \<or> n < 21" by arith
    then have "n < 21 \<or> num = 0" using num by auto
    then show ?thesis using True init acc by (auto simp: split_and_map_def kunwrap_call sub_usize_def)
  next
    case False
    then have n: "n - 21 = (n - 23) + 2" "n = (n - 23) + 23" by auto
    have num2: "num = 2 ^ (n - 23)" unfolding num n(1) power_add by simp
    have quarter: "2 ^ n div 4 = num * 2 ^ 21" by (subst n(2)) (simp add: power_add num2)
    have "2 ^ 21 dvd base" using False by (intro dvd_trans [OF le_imp_power_dvd region(2)]) simp
    then obtain q where q: "base = 2 ^ 21 * q" by (elim dvdE)
    have q128: "q \<le> 128" using region(1) by (simp add: q virtio_region_def NET_DEVICE_ADDR_def)
    have loop: "virtio_init_mmio k bi oa = frame_loop k (virtio_frame_hit k) (virtio_map_frame k) ?us ?fs [0..<num] ?oa2"
      using init False split_and_map_eq [OF acc, of num ?oa1] slots by (simp add: num2)
    have near: "0x10000000 < base + 2 ^ n div 4 \<longleftrightarrow> 128 - q < num" using q128 unfolding quarter q by auto
    have slots2: "oa_empty_start ?oa2 + num \<le> oa_empty_end ?oa2" using slots by simp
    show ?thesis
    proof (cases "128 - q < num")
      case True
      then show ?thesis using virtio_loop_near [OF acc k q q128 _ slots2 addr, of ?us] False unfolding loop near by auto
    next
      case far: False
      then show ?thesis using virtio_loop_far [OF acc k q q128 _ slots2 addr, of ?us] False unfolding loop near by auto
    qed
  qed
qed

theorem virtio_mmio_mapped_witness:
  "if (28 :: nat) < 23 then virtio_init_mmio (mmio_kernel 0x10000000 21 132) (mmio_boot 0x10000000 28) (oa_new (mmio_boot 0x10000000 28)) = Inl ArithOverflow
    else \<exists>oa'. virtio_init_mmio (mmio_kernel 0x10000000 21 132) (mmio_boot 0x10000000 28) (oa_new (mmio_boot 0x10000000 28)) = Inr oa' \<and>
      (if 0x10000000 < (0x10000000 :: nat) + 2 ^ 28 div 4
       then \<exists>slot. last (oa_calls oa') = FrameMap slot 0x10000000 \<and> k_frame_address (mmio_kernel 0x10000000 21 132) slot = Inr 0x10000000
       else \<forall>slot vaddr. FrameMap slot vaddr \<in> set (oa_calls oa') \<longrightarrow>
         FrameMap slot vaddr \<in> set (oa_calls (oa_new (mmio_boot 0x10000000 28))))"
  by (rule virtio_mmio_mapped [where j = 1 and num = 32])
    (simp_all add: mmio_kernel_def mmio_boot_def kernel_example_def oa_new_def virtio_region_def NET_DEVICE_ADDR_def)

end
