(* ===== verification/Axi_Init.thy ===== *)
theory Axi_Init
  imports Axi_Net Net_Mmio
begin

unbundle bit_operations_syntax

text \<open>
  Bringing the Ethernet device up: the configuration (\<^verbatim>\<open>device/net/axi_net/config.rs\<close>), the lazily
  created device objects, \<^verbatim>\<open>init\<close>, \<^verbatim>\<open>dma_init\<close> and \<^verbatim>\<open>eth_init\<close> of \<^verbatim>\<open>device/net/axi_net/mod.rs\<close>, and the
  network interface on top of it (\<^verbatim>\<open>device/net/mod.rs\<close>, \<^verbatim>\<open>device/mod.rs\<close>).  The DMA engine and the
  Ethernet controller are libraries: the calls the driver makes are the constructors of a datatype,
  and what they do to the device, which of them fail and what the controller answers are
  parameters, as is the interface of the network library.
\<close>

section \<open>Configuration\<close>

record axi_dma_config =
  dc_base_address :: usize
  dc_rx_channel_offset :: usize
  dc_tx_channel_offset :: usize
  dc_has_sts_cntrl_strm :: bool
  dc_is_micro_dma :: bool
  dc_has_mm2s :: bool
  dc_has_mm2s_dre :: bool
  dc_mm2s_data_width :: usize
  dc_mm2s_burst_size :: usize
  dc_has_s2mm :: bool
  dc_has_s2mm_dre :: bool
  dc_s2mm_data_width :: usize
  dc_s2mm_burst_size :: usize
  dc_has_sg :: bool
  dc_sg_length_width :: usize
  dc_addr_width :: usize

definition AXI_DMA_CONFIG :: axi_dma_config where
  "AXI_DMA_CONFIG =
     \<lparr>dc_base_address = DMA_ADDRESS, dc_rx_channel_offset = 0x30, dc_tx_channel_offset = 0,
      dc_has_sts_cntrl_strm = False, dc_is_micro_dma = False,
      dc_has_mm2s = True, dc_has_mm2s_dre = False, dc_mm2s_data_width = 32, dc_mm2s_burst_size = 16,
      dc_has_s2mm = True, dc_has_s2mm_dre = False, dc_s2mm_data_width = 32, dc_s2mm_burst_size = 16,
      dc_has_sg = True, dc_sg_length_width = 16, dc_addr_width = 32\<rparr>"

definition MAC_ADDRESS :: "u8 list" where "MAC_ADDRESS = [0x00, 0x0A, 0x35, 0x01, 0x02, 0x03]"

record axi_net_config =
  nc_tx_bd_cnt :: usize
  nc_rx_bd_cnt :: usize
  nc_eth_baseaddr :: usize
  nc_dma_baseaddr :: usize
  nc_mac_addr :: "u8 list"
  nc_mtu :: usize

text \<open>The largest jumbo frame is a constant of the controller's library.\<close>

definition AXI_NET_CONFIG :: "usize \<Rightarrow> axi_net_config" where
  "AXI_NET_CONFIG xae_max_jumbo_frame_size =
     \<lparr>nc_tx_bd_cnt = 1024, nc_rx_bd_cnt = 1024, nc_eth_baseaddr = ETH_ADDRESS, nc_dma_baseaddr = DMA_ADDRESS,
      nc_mac_addr = MAC_ADDRESS, nc_mtu = xae_max_jumbo_frame_size\<rparr>"

section \<open>The device objects\<close>

datatype link_status = EthLinkDown | EthLinkUp

datatype axi_call =
    NewDma axi_dma_config | NewEth usize usize
  | DmaReset | CyclicEnable | TxChannelCreate usize | RxChannelCreate usize | IntrEnable
  | EthReset | SetOptions u32 | ClearOptions u32 | DetectPhy | SetOperatingSpeed u16 | SetLinkStatus link_status
  | SetMacAddress "u8 list" | EnableRxMemovr | ClearRxMemovr | EnableRxRject | ClearRxRject
  | EnableRxCmplt | ClearRxCmplt | ClearTxCmplt | EthStart

record 'd axi_board =
  bd_call :: "axi_call \<Rightarrow> 'd \<Rightarrow> (unit + unit) \<times> 'd"
  bd_options :: "'d \<Rightarrow> u32"
  bd_speed :: "'d \<Rightarrow> u32"
  bd_mac :: "'d \<Rightarrow> u8 list"
  bd_jumbo :: u32
  bd_broadcast :: u32
  bd_max_jumbo_frame_size :: usize

text \<open>A call whose result is unwrapped, and one that has none.\<close>

definition board_unwrap :: "'d axi_board \<Rightarrow> axi_call \<Rightarrow> 'd \<Rightarrow> 'd res" where
  "board_unwrap bd c d = (case bd_call bd c d of (Inl e, d') \<Rightarrow> Inl UnwrapErr | (Inr u, d') \<Rightarrow> Inr d')"

definition board_do :: "'d axi_board \<Rightarrow> axi_call \<Rightarrow> 'd \<Rightarrow> 'd" where
  "board_do bd c d = snd (bd_call bd c d)"

text \<open>\<^verbatim>\<open>AXI_DMA\<close> and \<^verbatim>\<open>AXI_ETH\<close> are created when they are used for the first time.\<close>

record 'd axi_devices =
  av_dma_created :: bool
  av_eth_created :: bool
  av_board :: 'd

definition AXI_DMA :: "'d axi_board \<Rightarrow> 'd axi_devices \<Rightarrow> 'd axi_devices" where
  "AXI_DMA bd dv =
     (if av_dma_created dv then dv
      else dv\<lparr>av_dma_created := True, av_board := board_do bd (NewDma AXI_DMA_CONFIG) (av_board dv)\<rparr>)"

definition AXI_ETH :: "'d axi_board \<Rightarrow> 'd axi_devices \<Rightarrow> 'd axi_devices" where
  "AXI_ETH bd dv =
     (if av_eth_created dv then dv
      else
        let config = AXI_NET_CONFIG (bd_max_jumbo_frame_size bd) in
        dv\<lparr>av_eth_created := True, av_board := board_do bd (NewEth (nc_eth_baseaddr config) (nc_dma_baseaddr config)) (av_board dv)\<rparr>)"

text \<open>\<^verbatim>\<open>AxiNet::default\<close>, the value of \<^verbatim>\<open>NET_DEVICE\<close>, shares both objects.\<close>

definition axi_net_default :: "'d axi_board \<Rightarrow> 'd axi_devices \<Rightarrow> 'd axi_devices" where
  "axi_net_default bd dv = AXI_ETH bd (AXI_DMA bd dv)"

datatype hardware_address = HwEthernet "u8 list"

definition axi_mac :: "'d axi_board \<Rightarrow> 'd axi_devices \<Rightarrow> hardware_address" where
  "axi_mac bd dv = HwEthernet (bd_mac bd (av_board dv))"

section \<open>Initialisation of the device\<close>

definition dma_init :: "'d axi_board \<Rightarrow> 'd axi_devices \<Rightarrow> 'd axi_devices res" where
  "dma_init bd dv0 =
     (let dv = AXI_DMA bd dv0; config = AXI_NET_CONFIG (bd_max_jumbo_frame_size bd) in
      rbind (board_unwrap bd DmaReset (av_board dv)) (\<lambda>d1.
      rbind (board_unwrap bd (TxChannelCreate (nc_tx_bd_cnt config)) (board_do bd CyclicEnable d1)) (\<lambda>d2.
      rbind (board_unwrap bd (RxChannelCreate (nc_rx_bd_cnt config)) d2) (\<lambda>d3.
      Inr (dv\<lparr>av_board := board_do bd IntrEnable d3\<rparr>)))))"

definition eth_init :: "'d axi_board \<Rightarrow> 'd axi_devices \<Rightarrow> 'd axi_devices" where
  "eth_init bd dv0 =
     (let dv = AXI_ETH bd dv0;
          d1 = board_do bd EthReset (av_board dv);
          options = bd_options bd d1;
          d2 = board_do bd (SetOptions (options OR bd_jumbo bd)) d1;
          d3 = board_do bd (ClearOptions (bd_broadcast bd)) d2;
          d4 = board_do bd DetectPhy d3;
          speed = bd_speed bd d4;
          d5 = board_do bd (SetOperatingSpeed (ucast speed)) d4;
          d6 = board_do bd (SetLinkStatus (if speed = 0 then EthLinkDown else EthLinkUp)) d5;
          d7 = board_do bd (SetMacAddress (nc_mac_addr (AXI_NET_CONFIG (bd_max_jumbo_frame_size bd)))) d6
      in dv\<lparr>av_board := fold (board_do bd)
           [EnableRxMemovr, ClearRxMemovr, EnableRxRject, ClearRxRject, EnableRxCmplt, ClearRxCmplt, ClearTxCmplt, EthStart] d7\<rparr>)"

definition axi_init ::
  "kernel \<Rightarrow> boot_info \<Rightarrow> 'd axi_board \<Rightarrow> object_allocator \<Rightarrow> 'd axi_devices \<Rightarrow> (object_allocator \<times> 'd axi_devices) res" where
  "axi_init k bi bd oa dv =
     rbind (axi_init_mmio k bi oa) (\<lambda>oa'.
     rbind (dma_init bd dv) (\<lambda>dv'.
     Inr (oa', eth_init bd dv')))"

text \<open>\<^verbatim>\<open>device/net/mod.rs\<close> chooses the Ethernet driver.\<close>

definition net_dev_init ::
  "kernel \<Rightarrow> boot_info \<Rightarrow> 'd axi_board \<Rightarrow> object_allocator \<Rightarrow> 'd axi_devices \<Rightarrow> (object_allocator \<times> 'd axi_devices) res" where
  "net_dev_init k bi bd oa dv = axi_init k bi bd oa dv"

section \<open>The interface\<close>

datatype ip_cidr = IpCidr "u8 list" nat

text \<open>\<^verbatim>\<open>Interface::new\<close>, which asks the device for its capabilities, and adding an address, which fails when
  the interface has no room for one more.\<close>

record 'i iface_api =
  if_new :: "hardware_address \<Rightarrow> device_capabilities \<Rightarrow> 'i"
  if_push_ip :: "ip_cidr \<Rightarrow> 'i \<Rightarrow> unit + 'i"

record ('d, 'i) net_devices =
  nd_devices :: "'d axi_devices"
  nd_interface :: "'i option"

definition INTERFACE :: "'d axi_board \<Rightarrow> 'i iface_api \<Rightarrow> ('d, 'i) net_devices \<Rightarrow> 'i \<times> ('d, 'i) net_devices" where
  "INTERFACE bd ifa nd =
     (case nd_interface nd of
        Some i \<Rightarrow> (i, nd)
      | None \<Rightarrow>
          let dv = axi_net_default bd (nd_devices nd);
              i = if_new ifa (axi_mac bd dv) axi_capabilities
          in (i, nd\<lparr>nd_devices := dv, nd_interface := Some i\<rparr>))"

definition device_init ::
  "kernel \<Rightarrow> boot_info \<Rightarrow> 'd axi_board \<Rightarrow> 'i iface_api \<Rightarrow> object_allocator \<Rightarrow> ('d, 'i) net_devices \<Rightarrow>
   (object_allocator \<times> ('d, 'i) net_devices) res" where
  "device_init k bi bd ifa oa nd =
     rbind (net_dev_init k bi bd oa (nd_devices nd)) (\<lambda>(oa', dv).
     case INTERFACE bd ifa (nd\<lparr>nd_devices := dv\<rparr>) of (i, nd1) \<Rightarrow>
     case if_push_ip ifa (IpCidr [172, 16, 1, 2] 30) i of
       Inl e \<Rightarrow> Inl UnwrapErr
     | Inr i' \<Rightarrow> Inr (oa', nd1\<lparr>nd_interface := Some i'\<rparr>))"

section \<open>Order of the calls\<close>

text \<open>A controller that records the calls made to it and answers with the last address it was given.\<close>

definition recording :: "u32 \<Rightarrow> axi_call list axi_board" where
  "recording speed = \<lparr>bd_call = (\<lambda>c d. (Inr (), d @ [c])), bd_options = (\<lambda>d. 0), bd_speed = (\<lambda>d. speed),
     bd_mac = (\<lambda>d. fold (\<lambda>c m. case c of SetMacAddress a \<Rightarrow> a | _ \<Rightarrow> m) d []),
     bd_jumbo = 1, bd_broadcast = 2, bd_max_jumbo_frame_size = 9018\<rparr>"

definition devices_off :: "'d \<Rightarrow> 'd axi_devices" where
  "devices_off d = \<lparr>av_dma_created = False, av_eth_created = False, av_board = d\<rparr>"

text \<open>Bringing up a device that was never used makes these calls in this order, once the registers are
  mapped: each object is created before it is used, the controller gets its address before it is
  started, and its link is up exactly when the transceiver reports a speed.\<close>

definition bring_up_calls :: "u32 \<Rightarrow> axi_call list" where
  "bring_up_calls speed =
     [NewDma AXI_DMA_CONFIG, DmaReset, CyclicEnable, TxChannelCreate 1024, RxChannelCreate 1024, IntrEnable,
      NewEth 0x60140000 0x60100000, EthReset, SetOptions 1, ClearOptions 2, DetectPhy, SetOperatingSpeed (ucast speed),
      SetLinkStatus (if speed = 0 then EthLinkDown else EthLinkUp), SetMacAddress [0x00, 0x0A, 0x35, 0x01, 0x02, 0x03],
      EnableRxMemovr, ClearRxMemovr, EnableRxRject, ClearRxRject, EnableRxCmplt, ClearRxCmplt, ClearTxCmplt, EthStart]"

lemmas bring_up_defs = net_dev_init_def axi_init_def dma_init_def eth_init_def board_unwrap_def board_do_def
  AXI_DMA_def AXI_ETH_def AXI_NET_CONFIG_def MAC_ADDRESS_def ETH_ADDRESS_def DMA_ADDRESS_def devices_off_def

lemma net_dev_init_calls:
  assumes "axi_init_mmio k bi oa = Inr oa'"
  shows "net_dev_init k bi (recording speed) oa (devices_off []) =
    Inr (oa', \<lparr>av_dma_created = True, av_eth_created = True, av_board = bring_up_calls speed\<rparr>)"
  using assms by (simp add: bring_up_defs recording_def bring_up_calls_def Let_def)

lemma net_dev_init_unmapped:
  assumes "axi_init_mmio k bi oa = Inl e"
  shows "net_dev_init k bi bd oa dv = Inl e"
  using assms by (simp add: net_dev_init_def axi_init_def)

section \<open>The address of the interface\<close>

text \<open>What the code relies on: the controller remembers the address it was given.\<close>

definition mac_kept :: "'d axi_board \<Rightarrow> bool" where
  "mac_kept bd \<longleftrightarrow> (\<forall>a d. bd_mac bd (snd (bd_call bd (SetMacAddress a) d)) = a) \<and>
     (\<forall>c d. c \<in> {EnableRxMemovr, ClearRxMemovr, EnableRxRject, ClearRxRject, EnableRxCmplt, ClearRxCmplt, ClearTxCmplt, EthStart} \<longrightarrow>
       bd_mac bd (snd (bd_call bd c d)) = bd_mac bd d)"

lemma board_unwrap_Inl: "board_unwrap bd c d = Inl e \<Longrightarrow> e = UnwrapErr"
  by (auto simp: board_unwrap_def split: prod.splits sum.splits)

lemma eth_init_mac:
  assumes "mac_kept bd"
  shows "bd_mac bd (av_board (eth_init bd dv)) = MAC_ADDRESS" and "av_eth_created (eth_init bd dv)"
    and "av_dma_created (eth_init bd dv) = av_dma_created dv"
  using assms by (simp_all add: eth_init_def board_do_def mac_kept_def AXI_ETH_def AXI_NET_CONFIG_def Let_def)

text \<open>The network interface comes up with the configured identity.  Whatever the controller does, as
  long as it remembers its address: if the device comes up at all, then the interface, which is
  only created when \<^verbatim>\<open>init\<close> first uses it, after the controller was given its address, has the
  configured hardware address, the capabilities of the Ethernet driver, and the one IP address
  172.16.1.2/30; if the registers cannot be mapped, \<^verbatim>\<open>init\<close> panics as the mapping does and no call is
  made to the device.\<close>

theorem interface_configured:
  assumes "mac_kept bd" and "nd_interface nd = None"
  shows "case device_init k bi bd ifa oa nd of
      Inl e \<Rightarrow> axi_init_mmio k bi oa = Inl e \<or> e = UnwrapErr
    | Inr (oa', nd') \<Rightarrow> axi_init_mmio k bi oa = Inr oa' \<and>
        (\<exists>i. if_push_ip ifa (IpCidr [172, 16, 1, 2] 30) (if_new ifa (HwEthernet [0x00, 0x0A, 0x35, 0x01, 0x02, 0x03]) axi_capabilities) = Inr i \<and>
          nd_interface nd' = Some i \<and> fst (INTERFACE bd ifa nd') = i)"
proof (cases "axi_init_mmio k bi oa")
  case (Inl e)
  then show ?thesis by (simp add: device_init_def net_dev_init_unmapped)
next
  case (Inr oa')
  show ?thesis
  proof (cases "dma_init bd (nd_devices nd)")
    case (Inl e)
    then have "e = UnwrapErr" by (auto simp: dma_init_def Let_def rbind_Inl_iff dest: board_unwrap_Inl)
    with Inl Inr show ?thesis by (simp add: device_init_def net_dev_init_def axi_init_def)
  next
    case (Inr dv)
    have "av_dma_created dv" using Inr by (auto simp: dma_init_def AXI_DMA_def Let_def split: if_splits)
    then have "axi_net_default bd (eth_init bd dv) = eth_init bd dv"
      using eth_init_mac(2,3) [OF assms(1)] by (simp add: axi_net_default_def AXI_DMA_def AXI_ETH_def)
    then have "INTERFACE bd ifa (nd\<lparr>nd_devices := eth_init bd dv\<rparr>) =
        (let i = if_new ifa (HwEthernet MAC_ADDRESS) axi_capabilities in
         (i, nd\<lparr>nd_devices := eth_init bd dv, nd_interface := Some i\<rparr>))"
      using assms eth_init_mac(1) [OF assms(1)] by (simp add: INTERFACE_def axi_mac_def Let_def)
    with \<open>axi_init_mmio k bi oa = Inr oa'\<close> Inr show ?thesis
      by (simp add: device_init_def net_dev_init_def axi_init_def Let_def MAC_ADDRESS_def INTERFACE_def split: sum.splits)
  qed
qed

text \<open>An interface that keeps its addresses in a list of at most two.\<close>

definition iface_example :: "(hardware_address \<times> ip_cidr list) iface_api" where
  "iface_example = \<lparr>if_new = (\<lambda>mac caps. (mac, [])),
     if_push_ip = (\<lambda>ip (mac, ips). if length ips < 2 then Inr (mac, ips @ [ip]) else Inl ())\<rparr>"

lemma iface_example_push: "if_push_ip iface_example ip (if_new iface_example mac caps) = Inr (mac, [ip])"
  by (simp add: iface_example_def)

lemma recording_mac_kept: "mac_kept (recording speed)"
  by (simp add: mac_kept_def recording_def)

theorem interface_configured_witness:
  "case device_init (mmio_kernel 0x40000000 28 104) (mmio_boot 0x40000000 30) (recording 1000) iface_example
        (oa_new (mmio_boot 0x40000000 30)) \<lparr>nd_devices = devices_off [], nd_interface = None\<rparr> of
      Inl e \<Rightarrow> axi_init_mmio (mmio_kernel 0x40000000 28 104) (mmio_boot 0x40000000 30) (oa_new (mmio_boot 0x40000000 30)) = Inl e \<or> e = UnwrapErr
    | Inr (oa', nd') \<Rightarrow>
        axi_init_mmio (mmio_kernel 0x40000000 28 104) (mmio_boot 0x40000000 30) (oa_new (mmio_boot 0x40000000 30)) = Inr oa' \<and>
        (\<exists>i. (HwEthernet [0x00, 0x0A, 0x35, 0x01, 0x02, 0x03], [IpCidr [172, 16, 1, 2] 30]) = i \<and>
          nd_interface nd' = Some i \<and> fst (INTERFACE (recording 1000) iface_example nd') = i)"
  using interface_configured [OF recording_mac_kept [of 1000], where nd = "\<lparr>nd_devices = devices_off [], nd_interface = None\<rparr>" and
      k = "mmio_kernel 0x40000000 28 104" and bi = "mmio_boot 0x40000000 30" and ifa = iface_example and
      oa = "oa_new (mmio_boot 0x40000000 30)"]
  by (auto simp: iface_example_push split: sum.splits)

end
