(* ===== verification/Axi_Test.thy ===== *)
theory Axi_Test
  imports Axi_Net
begin

unbundle bit_operations_syntax

text \<open>
  The two loops of \<^verbatim>\<open>device/net/axi_net/mod.rs\<close> that exercise the device: \<^verbatim>\<open>transmit_test\<close> sends the same
  frame 36 times and waits for the device, \<^verbatim>\<open>recv_test\<close> receives frames for ever into buffers from the
  heap.  The heap is the list of the blocks handed out and not yet returned; where it places a
  block is a parameter.
\<close>

section \<open>Model\<close>

definition TEST_MTU :: usize where "TEST_MTU = 1500"

type_synonym blocks = "(usize \<times> usize) list"

definition heap_alloc :: "(blocks \<Rightarrow> usize \<Rightarrow> usize) \<Rightarrow> usize \<Rightarrow> blocks \<Rightarrow> usize \<times> blocks" where
  "heap_alloc place len h = (let p = place h len in (p, (p, len) # h))"

text \<open>\<^verbatim>\<open>Box::from_raw\<close> and dropping the box: the block must be one that was handed out.\<close>

definition heap_free :: "usize \<Rightarrow> usize \<Rightarrow> blocks \<Rightarrow> blocks res" where
  "heap_free p len h = (if (p, len) \<in> set h then Inr (remove1 (p, len) h) else Inl BadPointer)"

definition u16_to_be_bytes :: "u16 \<Rightarrow> u8 list" where
  "u16_to_be_bytes w = [ucast (drop_bit 8 w), ucast w]"

definition test_frame :: "u8 list" where
  "test_frame =
     (let buffer = replicate TEST_MTU 1;
          buffer1 = put_at 0 [0x00, 0x0A, 0x35, 0x01, 0x05, 0x06] buffer;
          buffer2 = put_at 6 [0x00, 0x0A, 0x35, 0x01, 0x02, 0x03] buffer1
      in put_at 12 (u16_to_be_bytes (of_nat (TEST_MTU - 14))) buffer2)"

primrec submit_frames :: "'d axi_api \<Rightarrow> nat \<Rightarrow> usize \<Rightarrow> u8 list \<Rightarrow> 'd \<Rightarrow> 'd res" where
  "submit_frames api 0 buf frame d = Inr d"
| "submit_frames api (Suc n) buf frame d =
     (case xa_tx api buf frame d of
        (Inl e, d') \<Rightarrow> Inl UnwrapErr
      | (Inr u, d') \<Rightarrow> submit_frames api n buf frame d')"

text \<open>The wait for the device, which goes on by itself between two looks at its status: \<open>tick\<close>.\<close>

fun wait_tx_cmplt :: "'d axi_api \<Rightarrow> ('d \<Rightarrow> 'd) \<Rightarrow> nat \<Rightarrow> 'd \<Rightarrow> 'd option" where
  "wait_tx_cmplt api tick 0 d = None"
| "wait_tx_cmplt api tick (Suc fuel) d = (if xa_is_tx_cmplt api d then Some d else wait_tx_cmplt api tick fuel (tick d))"

definition transmit_test ::
  "'d axi_api \<Rightarrow> ('d \<Rightarrow> 'd) \<Rightarrow> (blocks \<Rightarrow> usize \<Rightarrow> usize) \<Rightarrow> image_utils \<Rightarrow> nat \<Rightarrow> blocks \<Rightarrow> 'd \<Rightarrow> (blocks \<times> 'd) res option" where
  "transmit_test api tick place im fuel h d =
     (case rbind (unwrap (xa_has_free_bd api d)) (\<lambda>_.
        case heap_alloc place TEST_MTU h of (tmp, h1) \<Rightarrow>
        rbind (get_heap_paddr im tmp) (\<lambda>buf_ptr.
        rbind (guard_res (buf_ptr \<noteq> 0) UnwrapNone) (\<lambda>_.
        rbind (submit_frames api 36 buf_ptr test_frame d) (\<lambda>d1. Inr (h1, d1))))) of
        Inl e \<Rightarrow> Some (Inl e)
      | Inr (h1, d1) \<Rightarrow> (case wait_tx_cmplt api tick fuel d1 of None \<Rightarrow> None | Some d2 \<Rightarrow> Some (Inr (h1, d2))))"

text \<open>One round of \<^verbatim>\<open>recv_test\<close>; the transfer gives the buffer back at the address it was given.\<close>

definition recv_test_round ::
  "'d axi_api \<Rightarrow> (blocks \<Rightarrow> usize \<Rightarrow> usize) \<Rightarrow> image_utils \<Rightarrow> blocks \<Rightarrow> 'd \<Rightarrow> (blocks \<times> 'd) res" where
  "recv_test_round api place im h d =
     (if \<not> xa_can_receive api d then Inr (h, d)
      else case heap_alloc place TEST_MTU h of (tmp, h1) \<Rightarrow>
        rbind (get_heap_paddr im tmp) (\<lambda>buf_ptr.
        rbind (guard_res (buf_ptr \<noteq> 0) UnwrapNone) (\<lambda>_.
        case xa_rx api buf_ptr TEST_MTU d of
          (Inl e, d') \<Rightarrow> Inl UnwrapErr
        | (Inr bytes, d') \<Rightarrow>
            rbind (get_heap_vaddr im buf_ptr) (\<lambda>vptr.
            rbind (heap_free vptr TEST_MTU h1) (\<lambda>h2. Inr (h2, d'))))))"

fun recv_test :: "'d axi_api \<Rightarrow> ('d \<Rightarrow> 'd) \<Rightarrow> (blocks \<Rightarrow> usize \<Rightarrow> usize) \<Rightarrow> image_utils \<Rightarrow> nat \<Rightarrow> blocks \<Rightarrow> 'd \<Rightarrow> (blocks \<times> 'd) res" where
  "recv_test api tick place im 0 h d = Inr (h, d)"
| "recv_test api tick place im (Suc rounds) h d =
     rbind (recv_test_round api place im h d) (\<lambda>(h', d'). recv_test api tick place im rounds h' (tick d'))"

section \<open>Properties\<close>

text \<open>The test frame is a frame of the IEEE 802.3 form: addresses, the length of the payload, and the
  payload.\<close>

lemma test_frame_eq:
  "test_frame = [0x00, 0x0A, 0x35, 0x01, 0x05, 0x06] @ [0x00, 0x0A, 0x35, 0x01, 0x02, 0x03] @ [0x05, 0xCE] @ replicate 1486 1"
  by (simp add: test_frame_def TEST_MTU_def put_at_def u16_to_be_bytes_def Let_def drop_bit_eq_div)

text \<open>The loop over the frames is as many calls of the device.\<close>

lemma submit_frames_all:
  assumes "\<And>d. xa_tx api buf frame d = (Inr (), sent d)"
  shows "submit_frames api n buf frame d = Inr ((sent ^^ n) d)"
  by (induction n arbitrary: d) (simp_all add: assms funpow_swap1)

lemma wait_tx_cmplt_ends:
  assumes "xa_is_tx_cmplt api ((tick ^^ n) d)" and "\<forall>m<n. \<not> xa_is_tx_cmplt api ((tick ^^ m) d)" and "n < fuel"
  shows "wait_tx_cmplt api tick fuel d = Some ((tick ^^ n) d)"
  using assms
proof (induction n arbitrary: d fuel)
  case 0
  then show ?case by (cases fuel) simp_all
next
  case (Suc n)
  then obtain f where f: "fuel = Suc f" by (cases fuel) auto
  have "\<forall>m<n. \<not> xa_is_tx_cmplt api ((tick ^^ m) (tick d))"
  proof (intro allI impI)
    fix m assume "m < n"
    then show "\<not> xa_is_tx_cmplt api ((tick ^^ m) (tick d))" using Suc.prems(2)[rule_format, of "Suc m"] by (simp add: funpow_swap1)
  qed
  with Suc.IH [of "tick d" f] Suc.prems f show ?case
    using Suc.prems(2)[rule_format, of 0] by (simp add: funpow_swap1)
qed

text \<open>Receiving into buffers from the heap neither leaks one nor returns one twice, however often it is
  done: the physical address leads back to the block that was handed out.\<close>

lemma recv_test_round_heap:
  assumes "recv_test_round api place im h d = Inr (h', d')"
  shows "h' = h"
proof (cases "xa_can_receive api d")
  case True
  let ?tmp = "place h TEST_MTU"
  obtain p v where p: "get_heap_paddr im ?tmp = Inr p" "get_heap_vaddr im p = Inr v"
    and free: "heap_free v TEST_MTU ((?tmp, TEST_MTU) # h) = Inr h'"
    using assms True by (auto simp: recv_test_round_def heap_alloc_def Let_def unwrapped_call_Inr)
  have "v = ?tmp" using p by (auto simp: get_heap_paddr_def get_heap_vaddr_def)
  then show ?thesis using free by (simp add: heap_free_def)
qed (use assms in \<open>simp add: recv_test_round_def\<close>)

theorem recv_test_no_leak:
  assumes "recv_test api tick place im rounds h d = Inr (h', d')"
  shows "h' = h"
  using assms by (induction rounds arbitrary: h d) (auto dest: recv_test_round_heap)

text \<open>The test sends its frame 36 times from one buffer, and ends as soon as the device reports the end
  of the transmission; the buffer is never returned to the heap.\<close>

theorem transmit_test_sends:
  assumes "xa_has_free_bd api d = Some b" and "place h 1500 + im_heap_p_v_offset im < 2 ^ 64" and "0 < place h 1500"
    and "\<And>d. xa_tx api (place h 1500 + im_heap_p_v_offset im) test_frame d = (Inr (), sent d)"
    and "xa_is_tx_cmplt api ((tick ^^ n) ((sent ^^ 36) d))" and "\<forall>m<n. \<not> xa_is_tx_cmplt api ((tick ^^ m) ((sent ^^ 36) d))" and "n < fuel"
  shows "transmit_test api tick place im fuel h d = Some (Inr ((place h 1500, 1500) # h, (tick ^^ n) ((sent ^^ 36) d)))"
  using assms(1-3) submit_frames_all [where n = 36, OF assms(4)] wait_tx_cmplt_ends [OF assms(5-7)]
  by (simp add: transmit_test_def heap_alloc_def get_heap_paddr_def add_usize_def guard_res_def TEST_MTU_def Let_def)

end
