(* ===== verification/Virtio_Net.thy ===== *)
theory Virtio_Net
  imports Axi_Init
begin

text \<open>
  The driver of the VirtIO network device (\<^verbatim>\<open>device/net/virtio_net/mod.rs\<close>): the memory interface it
  gives to the VirtIO library, the tokens of its network device, and its initialisation.

  The library's device (\<^verbatim>\<open>VirtIONet\<close>), the heap that serves \<^verbatim>\<open>alloc_zeroed\<close> and the kernel's
  \<^verbatim>\<open>frame_get_address\<close> are parameters.  A receive buffer is the library's; the driver reads and writes
  its packet.
\<close>

section \<open>Memory for the device\<close>

definition VIRTIO_PAGE_SIZE :: usize where "VIRTIO_PAGE_SIZE = 4096"

text \<open>\<open>alloc\<close> is \<^verbatim>\<open>alloc_zeroed\<close> with a page-aligned layout of the given size; 0 is the null pointer.\<close>

definition dma_alloc :: "(usize \<Rightarrow> usize) \<Rightarrow> (usize \<Rightarrow> unit + usize) \<Rightarrow> image_utils \<Rightarrow> usize \<Rightarrow> (usize \<times> usize) res" where
  "dma_alloc alloc frame_get_address im pages =
     rbind (mul_usize pages VIRTIO_PAGE_SIZE) (\<lambda>size.
     rbind (layout_from_size_align size VIRTIO_PAGE_SIZE) (\<lambda>layout.
     let vptr = alloc layout in
     rbind (guard_res (vptr \<noteq> 0) ExplicitPanic) (\<lambda>_.
     rbind (get_user_image_frame_paddr frame_get_address im vptr) (\<lambda>paddr.
     Inr (paddr, vptr)))))"

definition dma_dealloc :: "usize \<Rightarrow> usize \<Rightarrow> usize \<Rightarrow> int" where
  "dma_dealloc paddr vaddr pages = 0"

definition mmio_phys_to_virt :: "usize \<Rightarrow> usize \<Rightarrow> usize res" where
  "mmio_phys_to_virt paddr sz = rbind (guard_res (paddr \<noteq> 0) UnwrapNone) (\<lambda>_. Inr paddr)"

definition share :: "(usize \<Rightarrow> unit + usize) \<Rightarrow> image_utils \<Rightarrow> usize \<Rightarrow> usize res" where
  "share frame_get_address im vaddr = get_user_image_frame_paddr frame_get_address im vaddr"

definition unshare :: "usize \<Rightarrow> usize \<Rightarrow> 'm \<Rightarrow> 'm" where
  "unshare paddr buffer mem = mem"

section \<open>The network device\<close>

datatype virtio_error = NotReady | OtherError

record ('d, 'b) virtio_api =
  vn_can_recv :: "'d \<Rightarrow> bool"
  vn_receive :: "'d \<Rightarrow> (virtio_error + 'b) \<times> 'd"
  vn_recycle :: "'b \<Rightarrow> 'd \<Rightarrow> (virtio_error + unit) \<times> 'd"
  vn_can_send :: "'d \<Rightarrow> bool"
  vn_send :: "u8 list \<Rightarrow> 'd \<Rightarrow> (virtio_error + unit) \<times> 'd"
  vn_packet :: "'b \<Rightarrow> u8 list"
  vn_set_packet :: "u8 list \<Rightarrow> 'b \<Rightarrow> 'b"

definition virtio_transmit :: "('d, 'b) virtio_api \<Rightarrow> u8 list \<Rightarrow> 'd \<Rightarrow> 'd res" where
  "virtio_transmit api data d =
     (case vn_send api data d of (Inl e, d') \<Rightarrow> Inl UnwrapErr | (Inr u, d') \<Rightarrow> Inr d')"

definition virtio_receive :: "('d, 'b) virtio_api \<Rightarrow> 'd \<Rightarrow> ('b option \<times> 'd) res" where
  "virtio_receive api d =
     (case vn_receive api d of
        (Inr buf, d') \<Rightarrow> Inr (Some buf, d')
      | (Inl NotReady, d') \<Rightarrow> Inr (None, d')
      | (Inl err, d') \<Rightarrow> Inl ExplicitPanic)"

definition recycle_rx_buffer :: "('d, 'b) virtio_api \<Rightarrow> 'b \<Rightarrow> 'd \<Rightarrow> 'd" where
  "recycle_rx_buffer api buf d = snd (vn_recycle api buf d)"

definition virtio_preprocess ::
  "('d, 'b) virtio_api \<Rightarrow> (u8 list \<Rightarrow> 'ip frame) \<Rightarrow> 'b \<Rightarrow> ('f, 'ip, 's) net \<Rightarrow> ('f, 'ip, 's) net res" where
  "virtio_preprocess api parse buf net = rbind (snoop_tcp_packet (parse (vn_packet api buf)) net) (\<lambda>(r, net'). Inr net')"

definition virtio_rx_consume ::
  "('d, 'b) virtio_api \<Rightarrow> (u8 list \<Rightarrow> 'd \<Rightarrow> ('r \<times> u8 list \<times> 'd) res) \<Rightarrow> 'b \<Rightarrow> 'd \<Rightarrow> ('r \<times> 'd) res" where
  "virtio_rx_consume api f buf d =
     rbind (f (vn_packet api buf) d) (\<lambda>(r, packet, d1).
     case vn_recycle api (vn_set_packet api packet buf) d1 of
       (Inl e, d2) \<Rightarrow> Inl UnwrapErr
     | (Inr u, d2) \<Rightarrow> Inr (r, d2))"

definition virtio_tx_consume :: "('d, 'b) virtio_api \<Rightarrow> usize \<Rightarrow> (u8 list \<Rightarrow> 'r \<times> u8 list) \<Rightarrow> 'd \<Rightarrow> ('r \<times> 'd) res" where
  "virtio_tx_consume api len f d =
     (case f (replicate len 0) of (r, tx_frame) \<Rightarrow>
      case vn_send api tx_frame d of
        (Inl e, d') \<Rightarrow> Inl UnwrapErr
      | (Inr u, d') \<Rightarrow> Inr (r, d'))"

definition virtio_dev_receive :: "('d, 'b) virtio_api \<Rightarrow> 'd \<Rightarrow> ('b option \<times> 'd) res" where
  "virtio_dev_receive api d =
     (if vn_can_recv api d
      then case vn_receive api d of (Inl e, d') \<Rightarrow> Inl UnwrapErr | (Inr buf, d') \<Rightarrow> Inr (Some buf, d')
      else Inr (None, d))"

definition virtio_dev_transmit :: "('d, 'b) virtio_api \<Rightarrow> 'd \<Rightarrow> bool" where
  "virtio_dev_transmit api d = vn_can_send api d"

record net_config =
  cf_mac_addr :: "u8 list"
  cf_mtu :: usize

definition NET_CONFIG :: net_config where
  "NET_CONFIG = \<lparr>cf_mac_addr = [0, 0, 0, 0, 0, 0], cf_mtu = 5000\<rparr>"

definition virtio_capabilities :: device_capabilities where
  "virtio_capabilities = \<lparr>dc_medium = Ethernet, dc_max_transmission_unit = cf_mtu NET_CONFIG, dc_max_burst_size = Some 1\<rparr>"

definition virtio_interrupt_handler :: "'d \<Rightarrow> 'd" where
  "virtio_interrupt_handler d = d"

section \<open>The device object\<close>

text \<open>The driver keeps the address of its device in \<^verbatim>\<open>VIRT_IO_NET_DEVICE\<close>, 0 before the initialisation;
  \<^verbatim>\<open>NET_DEVICE\<close> copies that address when it is used for the first time.  The devices live in memory.\<close>

definition NET_QUEUE_SIZE :: usize where "NET_QUEUE_SIZE = 16"
definition NET_BUFFER_LEN :: usize where "NET_BUFFER_LEN = 2048"

record 'd virtio_driver =
  vd_device_addr :: usize
  vd_memory :: "usize \<rightharpoonup> 'd"
  vd_net_device :: "usize option"

definition get_net_device :: "'d virtio_driver \<Rightarrow> 'd res" where
  "get_net_device vd = (case vd_memory vd (vd_device_addr vd) of None \<Rightarrow> Inl BadPointer | Some d \<Rightarrow> Inr d)"

text \<open>An operation on the device under its lock.\<close>

definition with_net_device :: "('d \<Rightarrow> ('r \<times> 'd) res) \<Rightarrow> 'd virtio_driver \<Rightarrow> ('r \<times> 'd virtio_driver) res" where
  "with_net_device f vd =
     rbind (get_net_device vd) (\<lambda>d.
     rbind (f d) (\<lambda>(r, d'). Inr (r, vd\<lparr>vd_memory := (vd_memory vd)(vd_device_addr vd \<mapsto> d')\<rparr>)))"

definition get_mac_address :: "('d \<Rightarrow> u8 list) \<Rightarrow> 'd virtio_driver \<Rightarrow> u8 list res" where
  "get_mac_address mac_address vd = rbind (get_net_device vd) (\<lambda>d. Inr (mac_address d))"

definition virtio_mac :: "('d \<Rightarrow> u8 list) \<Rightarrow> 'd virtio_driver \<Rightarrow> hardware_address res" where
  "virtio_mac mac_address vd = rbind (get_mac_address mac_address vd) (\<lambda>a. Inr (HwEthernet a))"

definition NET_DEVICE :: "'d virtio_driver \<Rightarrow> usize \<times> 'd virtio_driver" where
  "NET_DEVICE vd =
     (case vd_net_device vd of
        Some net_device_addr \<Rightarrow> (net_device_addr, vd)
      | None \<Rightarrow> (vd_device_addr vd, vd\<lparr>vd_net_device := Some (vd_device_addr vd)\<rparr>))"

text \<open>\<open>transport\<close> is \<^verbatim>\<open>MmioTransport::new\<close> on the registers, \<open>create\<close> the library's constructor with the queue
  size and the buffer length, and \<open>place\<close> the address at which \<^verbatim>\<open>Arc::new\<close> puts the device.\<close>

definition virtio_init ::
  "kernel \<Rightarrow> boot_info \<Rightarrow> (usize \<Rightarrow> unit + 't) \<Rightarrow> (usize \<Rightarrow> usize \<Rightarrow> 't \<Rightarrow> virtio_error + 'd) \<Rightarrow> usize \<Rightarrow>
   object_allocator \<Rightarrow> 'd virtio_driver \<Rightarrow> (object_allocator \<times> 'd virtio_driver) res" where
  "virtio_init k bi transport create place oa vd =
     rbind (virtio_init_mmio k bi oa) (\<lambda>oa'.
     rbind (guard_res (NET_DEVICE_ADDR \<noteq> 0) UnwrapNone) (\<lambda>_.
     case transport NET_DEVICE_ADDR of
       Inl e \<Rightarrow> Inl UnwrapErr
     | Inr t \<Rightarrow>
         (case create NET_QUEUE_SIZE NET_BUFFER_LEN t of
            Inl e \<Rightarrow> Inl UnwrapErr
          | Inr virtio \<Rightarrow> Inr (oa', vd\<lparr>vd_memory := (vd_memory vd)(place \<mapsto> virtio), vd_device_addr := place\<rparr>))))"

text \<open>Before \<^verbatim>\<open>init\<close> every use of the device dereferences the null pointer; afterwards it is the device
  that was created, and it has the address the library reads from it.  A handle made too early
  keeps the null address.\<close>

lemma virtio_uninitialised:
  assumes "vd_device_addr vd = 0" and "vd_memory vd 0 = None" and "vd_net_device vd = None"
  shows "get_net_device vd = Inl BadPointer \<and> virtio_mac mac vd = Inl BadPointer \<and> fst (NET_DEVICE vd) = 0"
  using assms by (simp add: get_net_device_def virtio_mac_def get_mac_address_def NET_DEVICE_def)

lemma virtio_init_device:
  assumes "virtio_init k bi transport create place oa vd = Inr (oa', vd')" and "vd_net_device vd = None"
  shows "\<exists>t d. virtio_init_mmio k bi oa = Inr oa' \<and> transport 0x10008000 = Inr t \<and> create 16 2048 t = Inr d \<and>
    get_net_device vd' = Inr d \<and> virtio_mac mac vd' = Inr (HwEthernet (mac d)) \<and> fst (NET_DEVICE vd') = place"
  using assms
  by (auto simp: virtio_init_def NET_DEVICE_ADDR_def NET_QUEUE_SIZE_def NET_BUFFER_LEN_def get_net_device_def
      virtio_mac_def get_mac_address_def NET_DEVICE_def unwrapped_Inr_iff)

lemma handle_too_early:
  assumes "NET_DEVICE vd0 = (a, vd)" and "virtio_init k bi transport create place oa vd = Inr (oa', vd')"
  shows "fst (NET_DEVICE vd') = a"
  using assms by (auto simp: NET_DEVICE_def virtio_init_def unwrapped_Inr_iff split: option.splits)

section \<open>Physical addresses of a DMA region\<close>

text \<open>The physical address of any byte of the image, page by page.\<close>

lemma frame_paddr_offset:
  assumes ok: "image_ok im" and v: "vptr mod 4096 = 0" "image_start im \<le> vptr" "vptr + o' < image_stop im"
    and slot: "get_user_image_frame_slot im vptr = Inr slot"
  shows "get_user_image_frame_paddr fga im (vptr + o') =
    (case fga (slot + o' div 4096) of Inl e \<Rightarrow> Inl UnwrapErr | Inr p \<Rightarrow> add_usize p (o' mod 4096))"
proof -
  let ?v = "vptr + o' - o' mod 4096"
  have mod: "(vptr + o') mod 4096 = o' mod 4096" using v(1) by (metis add.left_neutral mod_add_left_eq)
  have le: "o' mod 4096 \<le> o'" by simp
  have page: "image_start im \<le> ?v" "?v < image_stop im" "?v mod 4096 = 0"
    using page_in_image [of im "vptr + o'"] v by (simp_all add: mod)
  have "?v - image_start im = (vptr - image_start im) + o' div 4096 * 4096"
    using v(2) le minus_mod_eq_div_mult [of o' 4096] by linarith
  then have "(?v - image_start im) div 4096 = (vptr - image_start im) div 4096 + o' div 4096" by simp
  moreover have "slot = im_frames_start im + (vptr - image_start im) div 4096"
    using frame_slot_eq(1) [OF ok v(1,2)] slot v(3) by simp
  ultimately have "get_user_image_frame_slot im ?v = Inr (slot + o' div 4096)"
    using frame_slot_eq(1) [OF ok page(3,1,2)] by simp
  then show ?thesis by (simp add: get_user_image_frame_paddr_def Let_def mod)
qed

text \<open>What the device may do with a DMA region.  The driver asks the kernel only for the frame of a
  region's first page: a region of \<open>pages\<close> pages that the heap placed in the image is reachable by
  the device at consecutive addresses, that is, every byte of it has the physical address the
  driver computed plus its offset, exactly when the frames of its pages are consecutive.\<close>

theorem dma_region_contiguous_iff:
  assumes ok: "image_ok im" and "0 < pages" "pages * 4096 \<le> 2 ^ 63 - 4096"
    and v: "vptr mod 4096 = 0" "0 < vptr" "image_start im \<le> vptr" "vptr + pages * 4096 \<le> image_stop im"
    and alloc: "alloc (pages * 4096) = vptr" and slot: "get_user_image_frame_slot im vptr = Inr slot"
    and frame: "fga slot = Inr paddr" "paddr + pages * 4096 < 2 ^ 64"
  shows "dma_alloc alloc fga im pages = Inr (paddr, vptr) \<and>
    ((\<forall>i<pages * 4096. share fga im (vptr + i) = Inr (paddr + i)) \<longleftrightarrow> (\<forall>j<pages. fga (slot + j) = Inr (paddr + j * 4096)))"
proof
  have at: "share fga im (vptr + i) = (case fga (slot + i div 4096) of Inl e \<Rightarrow> Inl UnwrapErr | Inr p \<Rightarrow> add_usize p (i mod 4096))"
    if "i < pages * 4096" for i
    unfolding share_def using frame_paddr_offset [OF ok v(1,3) _ slot] v(4) that by simp
  have "share fga im vptr = Inr paddr"
    using at [of 0] assms(2) frame by (simp add: add_usize_def)
  then show "dma_alloc alloc fga im pages = Inr (paddr, vptr)"
    using assms(3) v(2) alloc by (simp add: dma_alloc_def VIRTIO_PAGE_SIZE_def layout_from_size_align_def mul_usize_def guard_res_def share_def)
  show "(\<forall>i<pages * 4096. share fga im (vptr + i) = Inr (paddr + i)) \<longleftrightarrow> (\<forall>j<pages. fga (slot + j) = Inr (paddr + j * 4096))"
  proof
    assume all: "\<forall>i<pages * 4096. share fga im (vptr + i) = Inr (paddr + i)"
    show "\<forall>j<pages. fga (slot + j) = Inr (paddr + j * 4096)"
    proof (intro allI impI)
      fix j assume "j < pages"
      then have "j * 4096 < pages * 4096" by simp
      then show "fga (slot + j) = Inr (paddr + j * 4096)"
        using at [of "j * 4096"] all by (auto simp: add_usize_def split: sum.splits if_splits)
    qed
  next
    assume all: "\<forall>j<pages. fga (slot + j) = Inr (paddr + j * 4096)"
    show "\<forall>i<pages * 4096. share fga im (vptr + i) = Inr (paddr + i)"
    proof (intro allI impI)
      fix i assume i: "i < pages * 4096"
      then have "i div 4096 < pages" by (simp add: less_mult_imp_div_less)
      then have "fga (slot + i div 4096) = Inr (paddr + i div 4096 * 4096)" using all by simp
      moreover have "paddr + i div 4096 * 4096 + i mod 4096 = paddr + i" by simp
      ultimately show "share fga im (vptr + i) = Inr (paddr + i)"
        using at [OF i] i frame(2) by (simp add: add_usize_def)
    qed
  qed
qed

theorem dma_region_contiguous_iff_witness:
  "dma_alloc (\<lambda>size. 0x11000) (\<lambda>slot. Inr (0x80000000 + slot * 0x2000)) image_example 2 = Inr (0x800CA000, 0x11000) \<and>
   ((\<forall>i<2 * 4096. share (\<lambda>slot. Inr (0x80000000 + slot * 0x2000)) image_example (0x11000 + i) = Inr (0x800CA000 + i)) \<longleftrightarrow>
    (\<forall>j<2. Inr (0x80000000 + (101 + j) * 0x2000) = (Inr (0x800CA000 + j * 4096) :: unit + usize)))"
  by (rule dma_region_contiguous_iff [OF image_example_ok])
    (simp_all add: image_example_start image_example_stop, simp_all add: image_example_def get_user_image_frame_slot_def
      get_user_image_footprint_def next_multiple_of_def round_down_def res_defs Let_def)

end
