(* ===== verification/Uintr.thy ===== *)
theory Uintr
  imports Async_Lib_Props
begin

unbundle bit_operations_syntax

text \<open>
  User interrupts (\<^verbatim>\<open>uintr/src/lib.rs\<close>): the control registers a thread sets to receive them, the
  entry of the trap handler and the registration with the kernel.

  The control registers are those of the hart, written by the standard \<^verbatim>\<open>csrw\<close>, \<^verbatim>\<open>csrs\<close> and \<^verbatim>\<open>csrc\<close>
  instructions.  The three \<^verbatim>\<open>uipi\<close> instructions belong to the interrupt unit of the processor and the
  registration of a notification to the kernel; both are parameters.
\<close>

section \<open>Model\<close>

definition CSR_USTATUS :: usize where "CSR_USTATUS = 0x000"
definition CSR_UIE :: usize where "CSR_UIE = 0x004"
definition CSR_UTVEC :: usize where "CSR_UTVEC = 0x005"
definition CSR_USCRATCH :: usize where "CSR_USCRATCH = 0x040"
definition CSR_UIP :: usize where "CSR_UIP = 0x044"
definition USTATUS_UIE :: u64 where "USTATUS_UIE = 1"
definition IRQ_U_SOFT :: nat where "IRQ_U_SOFT = 0"
definition MIE_USIE :: u64 where "MIE_USIE = push_bit IRQ_U_SOFT 1"

record 'u hart =
  ht_csr :: "usize \<Rightarrow> u64"
  ht_uipi :: 'u

record 'u uipi_unit =
  ui_send :: "u64 \<Rightarrow> 'u \<Rightarrow> 'u"
  ui_read :: "'u \<Rightarrow> u64 \<times> 'u"
  ui_write :: "u64 \<Rightarrow> 'u \<Rightarrow> 'u"

definition csrw :: "usize \<Rightarrow> u64 \<Rightarrow> 'u hart \<Rightarrow> 'u hart" where
  "csrw r v ht = ht\<lparr>ht_csr := (ht_csr ht)(r := v)\<rparr>"

definition csrs :: "usize \<Rightarrow> u64 \<Rightarrow> 'u hart \<Rightarrow> 'u hart" where
  "csrs r bits ht = ht\<lparr>ht_csr := (ht_csr ht)(r := ht_csr ht r OR bits)\<rparr>"

definition csrc :: "usize \<Rightarrow> u64 \<Rightarrow> 'u hart \<Rightarrow> 'u hart" where
  "csrc r bits ht = ht\<lparr>ht_csr := (ht_csr ht)(r := ht_csr ht r AND NOT bits)\<rparr>"

definition clear_csr_uip :: "u64 \<Rightarrow> 'u hart \<Rightarrow> 'u hart" where
  "clear_csr_uip bits ht = csrc 0x044 bits ht"

text \<open>\<open>handler_func\<close> is the function whose address the trap vector passes on.\<close>

definition handler_entry ::
  "'u uipi_unit \<Rightarrow> ('t \<Rightarrow> u64 \<Rightarrow> (u64 \<times> 't) res) \<Rightarrow> 't \<Rightarrow> 'u hart \<Rightarrow> ('t \<times> 'u hart) res" where
  "handler_entry ui handler_func th ht =
     (case ui_read ui (ht_uipi ht) of (irqs, u) \<Rightarrow>
      let ht1 = clear_csr_uip MIE_USIE (ht\<lparr>ht_uipi := u\<rparr>) in
      rbind (handler_func th irqs) (\<lambda>(irqs', th').
      Inr (th', ht1\<lparr>ht_uipi := ui_write ui irqs' (ht_uipi ht1)\<rparr>)))"

text \<open>The kernel's answer to the registration is the result.\<close>

definition register_receiver :: "u64 \<Rightarrow> u64 \<Rightarrow> (unit + unit) \<Rightarrow> 'u hart \<Rightarrow> (unit + unit) \<times> 'u hart" where
  "register_receiver uintrvec handler registered ht =
     (let ht1 = csrw 0x005 uintrvec ht;
          ht2 = csrw 0x040 handler ht1;
          ht3 = csrs 0x000 USTATUS_UIE ht2;
          ht4 = csrs 0x004 MIE_USIE ht3
      in (registered, ht4))"

text \<open>The index of the sender is the flag the kernel leaves in the IPC buffer.\<close>

definition register_sender :: "(unit + unit) \<Rightarrow> u64 \<Rightarrow> unit + u64" where
  "register_sender registered uintr_flag = (case registered of Inl e \<Rightarrow> Inl () | Inr u \<Rightarrow> Inr uintr_flag)"

section \<open>Delivery of an interrupt\<close>

lemma bit_MIE_USIE [simp]: "bit MIE_USIE n \<longleftrightarrow> n = 0"
  by (simp add: MIE_USIE_def IRQ_U_SOFT_def bit_simps)

lemma bit_USTATUS_UIE [simp]: "bit USTATUS_UIE n \<longleftrightarrow> n = 0"
  by (simp add: USTATUS_UIE_def bit_1_iff)

text \<open>Registering enables software interrupts in the two status registers, points the trap vector and
  the scratch register at the handler and leaves every other register bit alone.\<close>

lemma register_receiver_csr:
  assumes "register_receiver v h registered ht = (r, ht')"
  shows "r = registered \<and> ht_uipi ht' = ht_uipi ht \<and> ht_csr ht' CSR_UTVEC = v \<and> ht_csr ht' CSR_USCRATCH = h \<and>
    (\<forall>reg n. reg \<noteq> CSR_UTVEC \<and> reg \<noteq> CSR_USCRATCH \<longrightarrow>
      bit (ht_csr ht' reg) n = (bit (ht_csr ht reg) n \<or> (reg = CSR_USTATUS \<or> reg = CSR_UIE) \<and> n = 0))"
  using assms
  by (auto simp: register_receiver_def csrw_def csrs_def Let_def CSR_UTVEC_def CSR_USCRATCH_def CSR_USTATUS_def CSR_UIE_def
      bit_or_iff split: if_splits)

text \<open>C14. Delivery of user interrupts, from the trap to the executor.  A thread that registered its
  handler has software interrupts enabled.  When the trap is taken with pending vectors that are
  all registered to coroutines numbered below 64, the entry returns: exactly the coroutines of
  those vectors are added to the delayed wake-ups, the pending vectors are written back as zero,
  the pending bit is cleared, and no other register bit changes.  With a pending vector nobody
  registered the entry panics.\<close>

theorem user_interrupt_delivered:
  assumes reg: "register_receiver v h (Inr ()) ht0 = (Inr (), ht)" and count: "th_uint_trigger th + 1 < 2 ^ 64"
    and read: "ui_read ui (ht_uipi ht) = (irqs, u)"
  shows "bit (ht_csr ht CSR_USTATUS) 0 \<and> bit (ht_csr ht CSR_UIE) 0 \<and> ht_csr ht CSR_UTVEC = v \<and>
    (if \<forall>n. bit irqs n \<longrightarrow> (\<exists>cid. th_wake_map th n = Some cid \<and> cid < 64)
     then \<exists>th' ht' d. handler_entry ui uintr_handler th ht = Inr (th', ht') \<and>
       th' = th\<lparr>th_uint_trigger := th_uint_trigger th + 1, th_exec := (th_exec th)\<lparr>ex_delay_wake_cids := d\<rparr>\<rparr> \<and>
       (\<forall>j. bit d j \<longleftrightarrow> bit (ex_delay_wake_cids (th_exec th)) j \<or>
          (\<exists>n cid. bit irqs n \<and> th_wake_map th n = Some cid \<and> unat cid = j)) \<and>
       ht_uipi ht' = ui_write ui 0 u \<and>
       (\<forall>r n. bit (ht_csr ht' r) n \<longleftrightarrow> bit (ht_csr ht r) n \<and> \<not> (r = CSR_UIP \<and> n = IRQ_U_SOFT))
     else \<exists>e. handler_entry ui uintr_handler th ht = Inl e)"
proof -
  have csr: "bit (ht_csr ht CSR_USTATUS) 0 \<and> bit (ht_csr ht CSR_UIE) 0 \<and> ht_csr ht CSR_UTVEC = v"
    using register_receiver_csr [OF reg] by (simp add: CSR_USTATUS_def CSR_UIE_def CSR_UTVEC_def CSR_USCRATCH_def)
  show ?thesis
  proof (cases "uintr_handler th irqs")
    case (Inl e)
    have "handler_entry ui uintr_handler th ht = Inl e" using Inl read by (simp add: handler_entry_def)
    moreover have "\<not> (\<forall>n. bit irqs n \<longrightarrow> (\<exists>cid. th_wake_map th n = Some cid \<and> cid < 64))"
      using uintr_handler_spec [OF count, of irqs] Inl by simp
    ultimately show ?thesis using csr by (simp only: if_False) blast
  next
    case (Inr p)
    obtain r th' where p: "p = (r, th')" by fastforce
    let ?ht = "clear_csr_uip MIE_USIE (ht\<lparr>ht_uipi := u\<rparr>)"
    have reg: "\<forall>n. bit irqs n \<longrightarrow> (\<exists>cid. th_wake_map th n = Some cid \<and> cid < 64)"
      using uintr_handler_spec [OF count, of irqs] Inr p by simp
    obtain d where d: "th' = th\<lparr>th_uint_trigger := th_uint_trigger th + 1, th_exec := (th_exec th)\<lparr>ex_delay_wake_cids := d\<rparr>\<rparr>"
        "\<forall>j. bit d j \<longleftrightarrow> bit (ex_delay_wake_cids (th_exec th)) j \<or> (\<exists>n cid. bit irqs n \<and> th_wake_map th n = Some cid \<and> unat cid = j)"
      and r: "r = 0"
      using uintr_handler_spec [OF count, of irqs] Inr p by auto
    have "handler_entry ui uintr_handler th ht = Inr (th', ?ht\<lparr>ht_uipi := ui_write ui 0 u\<rparr>)"
      using Inr p read r by (simp add: handler_entry_def Let_def clear_csr_uip_def csrc_def)
    moreover have "bit (ht_csr ?ht reg) n \<longleftrightarrow> bit (ht_csr ht reg) n \<and> \<not> (reg = CSR_UIP \<and> n = IRQ_U_SOFT)" for reg n
      by (auto simp: clear_csr_uip_def csrc_def CSR_UIP_def IRQ_U_SOFT_def bit_and_iff bit_not_iff possible_bit_def
          dest: bit_imp_le_length)
    ultimately show ?thesis unfolding if_P [OF reg] using csr d
      by (intro conjI exI [of _ th'] exI [of _ "?ht\<lparr>ht_uipi := ui_write ui 0 u\<rparr>"] exI [of _ d]) simp_all
  qed
qed

text \<open>An interrupt unit that is its pending word.\<close>

definition uipi_example :: "u64 uipi_unit" where
  "uipi_example = \<lparr>ui_send = (\<lambda>i p. p OR push_bit (unat i) 1), ui_read = (\<lambda>p. (p, p)), ui_write = (\<lambda>v p. v)\<rparr>"

definition hart_example :: "u64 hart" where
  "hart_example = \<lparr>ht_csr = (\<lambda>r. 0), ht_uipi = 2\<rparr>"

definition thread_example :: "nat thread" where
  "thread_example = (thread_new Map.empty)\<lparr>th_wake_map := [1 \<mapsto> 7]\<rparr>"

theorem user_interrupt_delivered_witness:
  "\<exists>ht th' ht' d. register_receiver 0x10000 0x20000 (Inr ()) hart_example = (Inr (), ht) \<and>
    handler_entry uipi_example uintr_handler thread_example ht = Inr (th', ht') \<and>
    th' = thread_example\<lparr>th_uint_trigger := 1, th_exec := (th_exec thread_example)\<lparr>ex_delay_wake_cids := d\<rparr>\<rparr> \<and>
    (\<forall>j. bit d j \<longleftrightarrow> j = 7) \<and> ht_uipi ht' = 0"
proof -
  obtain ht where reg: "register_receiver 0x10000 0x20000 (Inr ()) hart_example = (Inr (), ht)"
    by (simp add: register_receiver_def Let_def)
  have u: "ht_uipi ht = 2" using register_receiver_csr [OF reg] by (simp add: hart_example_def)
  have b: "bit (2 :: u64) n \<longleftrightarrow> n = 1" for n using bit_exp_iff [of 1 n, where ?'a = u64] by auto
  have "\<forall>n. bit (2 :: u64) n \<longrightarrow> (\<exists>cid. th_wake_map thread_example n = Some cid \<and> cid < 64)"
    unfolding b by (simp add: thread_example_def)
  then show ?thesis
    using user_interrupt_delivered [OF reg, of thread_example uipi_example 2 2] reg u unfolding b
    by (auto simp: thread_example_def thread_new_def executor_new_def uipi_example_def)
qed

end
