(* ===== verification/Runtime.thy ===== *)
theory Runtime
  imports Image_Utils Object_Allocator Async_Lib_Props Executor_Props
begin

text \<open>
  How a thread gets its runtime and how the program starts: the free functions of
  \<^verbatim>\<open>async_runtime/src/lib.rs\<close>, which reach the executor through the thread-local address
  \<^verbatim>\<open>EXECUTOR\<close>; \<^verbatim>\<open>main.rs\<close> and \<^verbatim>\<open>heap.rs\<close>, which set up the heap, the thread-local storage, the image
  translation and the object allocator; and the invariant every operation of a thread keeps.

  The heap itself is a library: \<open>alloc\<close> is \<^verbatim>\<open>alloc_zeroed\<close> with the region given to the heap, 0 being
  the null pointer.
\<close>

section \<open>The executor of a thread\<close>

text \<open>The value of \<^verbatim>\<open>EXECUTOR\<close>, the executors in memory, and the thread's identifier allocator as it
  is before an executor exists.\<close>

record 'f runtime =
  rt_executor :: usize
  rt_memory :: "usize \<rightharpoonup> 'f executor"
  rt_cid_allocator :: index_allocator

definition runtime_new :: "'f runtime" where
  "runtime_new = \<lparr>rt_executor = 0, rt_memory = Map.empty, rt_cid_allocator = ia_new CID_NUM\<rparr>"

definition get_executor :: "'f runtime \<Rightarrow> 'f executor res" where
  "get_executor rt = (case rt_memory rt (rt_executor rt) of None \<Rightarrow> Inl BadPointer | Some ex \<Rightarrow> Inr ex)"

definition get_executor_ptr :: "'f runtime \<Rightarrow> usize" where
  "get_executor_ptr rt = rt_executor rt"

text \<open>The zeroed memory is overwritten by \<^verbatim>\<open>Executor::init\<close>; the identifiers are the thread's and stay.\<close>

definition cids_of :: "'f runtime \<Rightarrow> index_allocator" where
  "cids_of rt = (case rt_memory rt (rt_executor rt) of None \<Rightarrow> rt_cid_allocator rt | Some ex \<Rightarrow> ex_cid_allocator ex)"

definition runtime_init :: "(usize \<Rightarrow> usize) \<Rightarrow> usize \<Rightarrow> 'f runtime \<Rightarrow> 'f runtime res" where
  "runtime_init alloc executor_size rt =
     rbind (layout_from_size_align executor_size 4096) (\<lambda>rt_layout.
     let ptr = alloc rt_layout in
     rbind (guard_res (ptr \<noteq> 0) ExplicitPanic) (\<lambda>_.
     let ex = executor_init (executor_new\<lparr>ex_cid_allocator := cids_of rt\<rparr>) in
     Inr (rt\<lparr>rt_executor := ptr, rt_memory := (rt_memory rt)(ptr \<mapsto> ex)\<rparr>)))"

text \<open>An operation on the executor.\<close>

definition on_executor :: "('f executor \<Rightarrow> ('r \<times> 'f executor) res) \<Rightarrow> 'f runtime \<Rightarrow> ('r \<times> 'f runtime) res" where
  "on_executor f rt =
     rbind (get_executor rt) (\<lambda>ex.
     rbind (f ex) (\<lambda>(r, ex'). Inr (r, rt\<lparr>rt_memory := (rt_memory rt)(rt_executor rt \<mapsto> ex')\<rparr>)))"

definition rt_coroutine_spawn :: "'f \<Rightarrow> 'f runtime \<Rightarrow> (coroutine_id \<times> 'f runtime) res" where
  "rt_coroutine_spawn future = on_executor (\<lambda>ex. spawn ex future 1)"

definition rt_coroutine_spawn_with_prio :: "'f \<Rightarrow> usize \<Rightarrow> 'f runtime \<Rightarrow> (coroutine_id \<times> 'f runtime) res" where
  "rt_coroutine_spawn_with_prio future prio = on_executor (\<lambda>ex. spawn ex future prio)"

definition rt_coroutine_possible_switch :: "'f runtime \<Rightarrow> (bool \<times> 'f runtime) res" where
  "rt_coroutine_possible_switch = on_executor switch_possible"

definition rt_coroutine_delay_wake :: "coroutine_id \<Rightarrow> 'f runtime \<Rightarrow> (unit \<times> 'f runtime) res" where
  "rt_coroutine_delay_wake cid = on_executor (\<lambda>ex. rbind (delay_wake ex cid) (\<lambda>ex'. Inr ((), ex')))"

definition rt_coroutine_wake :: "coroutine_id \<Rightarrow> 'f runtime \<Rightarrow> (unit \<times> 'f runtime) res" where
  "rt_coroutine_wake cid = on_executor (\<lambda>ex. rbind (wake ex cid) (\<lambda>ex'. Inr ((), ex')))"

definition rt_coroutine_get_current :: "'f runtime \<Rightarrow> coroutine_id res" where
  "rt_coroutine_get_current rt = rbind (get_executor rt) coroutine_get_current"

definition rt_get_ready_num :: "'f runtime \<Rightarrow> usize res" where
  "rt_get_ready_num rt = rbind (get_executor rt) (\<lambda>ex. Inr (get_ready_num ex))"

definition rt_coroutine_is_empty :: "'f runtime \<Rightarrow> bool res" where
  "rt_coroutine_is_empty rt = rbind (get_executor rt) (\<lambda>ex. Inr (is_empty ex))"

text \<open>The run loops may not end, hence the fuel; \<^const>\<open>None\<close> when it runs out.\<close>

definition on_run ::
  "('f executor \<Rightarrow> 'w \<Rightarrow> ('f executor \<times> 'w) res option) \<Rightarrow> 'f runtime \<Rightarrow> 'w \<Rightarrow> ('f runtime \<times> 'w) res option" where
  "on_run run rt w =
     (case get_executor rt of
        Inl e \<Rightarrow> Some (Inl e)
      | Inr ex \<Rightarrow> (case run ex w of
          None \<Rightarrow> None
        | Some r \<Rightarrow> Some (rbind r (\<lambda>(ex', w'). Inr (rt\<lparr>rt_memory := (rt_memory rt)(rt_executor rt \<mapsto> ex')\<rparr>, w')))))"

definition rt_coroutine_run_until_blocked ::
  "('f, 'w) poll_fn \<Rightarrow> nat \<Rightarrow> 'f runtime \<Rightarrow> 'w \<Rightarrow> ('f runtime \<times> 'w) res option" where
  "rt_coroutine_run_until_blocked poll fuel = on_run (run_until_blocked poll fuel)"

definition rt_coroutine_run_until_complete ::
  "('f, 'w) poll_fn \<Rightarrow> nat \<Rightarrow> 'f runtime \<Rightarrow> 'w \<Rightarrow> ('f runtime \<times> 'w) res option" where
  "rt_coroutine_run_until_complete poll fuel = on_run (run_until_complete poll fuel)"

section \<open>Start of the program\<close>

definition HEAP_SIZE :: usize where "HEAP_SIZE = 2 ^ 24"
definition TLS_SIZE :: usize where "TLS_SIZE = 128"

record root_task =
  rk_heap :: "(usize \<times> usize) option"
  rk_tp :: usize
  rk_ipc_buffer :: usize
  rk_image :: image_utils
  rk_objects :: object_allocator

definition init_heap :: "root_task \<Rightarrow> root_task" where
  "init_heap rk = rk\<lparr>rk_heap := Some (im_heap_mem (rk_image rk), HEAP_SIZE)\<rparr>"

text \<open>The IPC buffer is thread-local, so that its address is saved and set again in the new storage,
  whose words are zero.\<close>

definition expand_tls :: "((usize \<times> usize) option \<Rightarrow> usize \<Rightarrow> usize) \<Rightarrow> root_task \<Rightarrow> root_task res" where
  "expand_tls alloc rk =
     rbind (mul_usize TLS_SIZE 4096) (\<lambda>sz.
     rbind (layout_from_size_align sz 4096) (\<lambda>layout.
     let vptr = alloc (rk_heap rk) layout in
     rbind (guard_res (vptr \<noteq> 0) ExplicitPanic) (\<lambda>_.
     let ipc_buffer_ptr = rk_ipc_buffer rk;
         rk1 = rk\<lparr>rk_tp := vptr, rk_ipc_buffer := 0\<rparr>
     in Inr (rk1\<lparr>rk_ipc_buffer := ipc_buffer_ptr\<rparr>))))"

text \<open>\<^verbatim>\<open>main\<close> up to the test it runs.  \<open>logger\<close> is the outcome of installing the logger, which is unwrapped;
  \<open>recv_tcb\<close> is the capability of the initial thread, whose affinity is set, the result being dropped.\<close>

definition main_init ::
  "(unit + unit) \<Rightarrow> ((usize \<times> usize) option \<Rightarrow> usize \<Rightarrow> usize) \<Rightarrow> kernel \<Rightarrow> nat \<Rightarrow> boot_info \<Rightarrow> root_task \<Rightarrow> root_task res" where
  "main_init logger alloc k recv_tcb bi rk =
     (case logger of
        Inl e \<Rightarrow> Inl UnwrapErr
      | Inr _ \<Rightarrow>
          let rk1 = init_heap rk in
          rbind (expand_tls alloc rk1) (\<lambda>rk2.
          case invoke k (TcbSetAffinity recv_tcb 0) (rk_objects rk2) of (_, oa) \<Rightarrow>
          rbind (image_init (k_frame_address k) (rk_image rk2)) (\<lambda>im.
          Inr (rk2\<lparr>rk_image := im, rk_objects := oa_init oa bi\<rparr>))))"

definition clear_bss :: "usize \<Rightarrow> usize \<Rightarrow> (usize \<Rightarrow> u8) \<Rightarrow> usize \<Rightarrow> u8" where
  "clear_bss s_bss e_bss_ma mem a = (if s_bss \<le> a \<and> a < e_bss_ma then 0 else mem a)"

section \<open>Boot\<close>

text \<open>The offset \<^verbatim>\<open>init\<close> computes on an image in consecutive frames.\<close>

lemma image_init_offset:
  assumes "image_ok im" and "contiguous fga base im" and "image_start im \<le> im_heap_mem im" "im_heap_mem im < image_stop im"
    and "image_start im \<le> base"
  shows "image_init fga im = Inr (im\<lparr>im_heap_p_v_offset := base - image_start im\<rparr>)"
  using frame_paddr_eq(1) [OF assms(1-4)] assms(3,5) by (simp add: image_init_def sub_usize_def)

text \<open>C39. The program starts in the states the other components assume.  Let the image lie in consecutive frames above
  its virtual address, the heap inside the image, the range of empty slots be ordered and no kernel call have been made.
  Then \<^verbatim>\<open>main\<close> panics, up to the test it runs, exactly when the logger cannot be installed or when the heap cannot
  provide the 512 KiB of thread-local storage.  Otherwise it gets through: the IPC buffer survives the change of storage,
  the affinity of the initial thread is set, the offset translates every address of the image (the heap and the DMA
  buffers) as the kernel does, and the object allocator is well formed with every region unused.\<close>

theorem main_boots:
  assumes im: "image_ok (rk_image rk)" "contiguous (k_frame_address k) base (rk_image rk)"
      "image_start (rk_image rk) \<le> im_heap_mem (rk_image rk)" "im_heap_mem (rk_image rk) < image_stop (rk_image rk)"
      "image_start (rk_image rk) \<le> base"
    and bi: "bi_empty_start bi \<le> bi_empty_end bi" and calls: "oa_calls (rk_objects rk) = []"
  shows "if isl logger then main_init logger alloc k tcb bi rk = Inl UnwrapErr
    else if alloc (Some (im_heap_mem (rk_image rk), 0x1000000)) 0x80000 = 0 then main_init logger alloc k tcb bi rk = Inl ExplicitPanic
    else \<exists>rk'. main_init logger alloc k tcb bi rk = Inr rk' \<and> rk_ipc_buffer rk' = rk_ipc_buffer rk \<and>
      rk_tp rk' = alloc (Some (im_heap_mem (rk_image rk), 0x1000000)) 0x80000 \<and>
      (\<forall>v. image_start (rk_image rk) \<le> v \<and> v < image_stop (rk_image rk) \<longrightarrow>
        get_heap_paddr (rk_image rk') v = get_user_image_frame_paddr (k_frame_address k) (rk_image rk) v) \<and>
      rk_objects rk' = (oa_new bi)\<lparr>oa_calls := [TcbSetAffinity tcb 0]\<rparr> \<and> oa_wf k (rk_objects rk')"
proof -
  let ?im = "rk_image rk" and ?tls = "alloc (Some (im_heap_mem (rk_image rk), 0x1000000)) 0x80000"
  have tls: "expand_tls alloc (init_heap rk) =
      (if ?tls = 0 then Inl ExplicitPanic else Inr ((init_heap rk)\<lparr>rk_tp := ?tls, rk_ipc_buffer := rk_ipc_buffer rk\<rparr>))"
    by (simp add: expand_tls_def init_heap_def TLS_SIZE_def HEAP_SIZE_def mul_usize_def layout_from_size_align_def guard_res_def Let_def)
  show ?thesis
  proof (cases "isl logger \<or> ?tls = 0")
    case True
    with tls show ?thesis by (cases logger) (auto simp: main_init_def)
  next
    case False
    let ?oa = "(rk_objects rk)\<lparr>oa_calls := [TcbSetAffinity tcb 0]\<rparr>"
    let ?rk = "(init_heap rk)\<lparr>rk_tp := ?tls, rk_ipc_buffer := rk_ipc_buffer rk,
        rk_image := ?im\<lparr>im_heap_p_v_offset := base - image_start ?im\<rparr>, rk_objects := oa_init ?oa bi\<rparr>"
    have "main_init logger alloc k tcb bi rk = Inr ?rk"
      using tls False image_init_offset [OF im] calls by (cases logger) (simp_all add: main_init_def init_heap_def invoke_def)
    moreover have "get_heap_paddr (rk_image ?rk) v = get_user_image_frame_paddr (k_frame_address k) ?im v"
      if "image_start ?im \<le> v" "v < image_stop ?im" for v
      using frame_paddr_eq [OF im(1,2) that] im(5) that by (simp add: get_heap_paddr_def add_usize_def add.commute)
    moreover have "oa_init ?oa bi = (oa_new bi)\<lparr>oa_calls := [TcbSetAffinity tcb 0]\<rparr>" by (simp add: oa_init_def oa_new_def)
    moreover have "oa_wf k ((oa_new bi)\<lparr>oa_calls := [TcbSetAffinity tcb 0]\<rparr>)"
      using oa_new_wf [OF bi, of k] by (simp add: oa_wf_def retypes_def oa_new_def call_slots_def)
    ultimately show ?thesis using False by simp
  qed
qed

definition boot_task :: root_task where
  "boot_task = \<lparr>rk_heap = None, rk_tp = 0, rk_ipc_buffer = 0x7000, rk_image = image_example,
     rk_objects = \<lparr>oa_untyped_list = [], oa_untyped_start = 0, oa_empty_start = 0, oa_empty_end = 0, oa_calls = []\<rparr>\<rparr>"

definition boot_kernel :: kernel where
  "boot_kernel = kernel_example\<lparr>k_frame_address := \<lambda>slot. Inr (0x80000000 + (slot - 100) * 4096)\<rparr>"

theorem main_boots_witness:
  "\<exists>rk'. main_init (Inr ()) (\<lambda>h sz. 0x14000) boot_kernel 1 boot_example boot_task = Inr rk' \<and>
     get_heap_paddr (rk_image rk') 70000 = Inr 0x80001170 \<and> oa_calls (rk_objects rk') = [TcbSetAffinity 1 0] \<and> oa_wf boot_kernel (rk_objects rk')"
proof -
  have im: "rk_image boot_task = image_example" by (simp add: boot_task_def)
  have c: "contiguous (k_frame_address boot_kernel) 0x80000000 image_example" by (simp add: contiguous_def image_example_def boot_kernel_def)
  have heap: "im_heap_mem image_example = 69632" by (simp add: image_example_def)
  have "get_user_image_frame_paddr (k_frame_address boot_kernel) image_example 70000 = Inr 0x80001170"
    using frame_paddr_eq(1) [OF image_example_ok c, of 70000] by (simp add: image_example_start image_example_stop)
  then show ?thesis
    using main_boots [of boot_task boot_kernel "0x80000000" boot_example "Inr ()" "\<lambda>h sz. 0x14000" 1]
    unfolding im heap image_example_start image_example_stop
    by (auto simp: image_example_ok c boot_example_def boot_task_def)
qed

section \<open>Well-formedness of a thread\<close>

text \<open>Everything the functions of \<^verbatim>\<open>async_lib.rs\<close> and the executor do to the state of a thread.\<close>

inductive thread_step :: "'f thread \<Rightarrow> 'f thread \<Rightarrow> bool" where
  register: "register_recv_cid th cid = (r, th') \<Longrightarrow> thread_step th th'"
| sender: "register_sender_buffer th registered ptr = Inr (s, th') \<Longrightarrow> thread_step th th'"
| syscalls: "register_async_syscall_buffer th ptr = Inr th' \<Longrightarrow> thread_step th th'"
| interrupt: "uintr_handler th irqs = Inr (x, th') \<Longrightarrow> thread_step th th'"
| call: "seL4_Call_with_item th sid item = Inr (b, th') \<Longrightarrow> thread_step th th'"
| send: "seL4_Send_with_item th sid item = Inr (s, th') \<Longrightarrow> thread_step th th'"
| replies: "recv_reply_loop ptr reply_num n th = Inr (p, n', th') \<Longrightarrow> thread_step th th'"
| resume: "yield_now_resume th = Inr (v, th') \<Longrightarrow> thread_step th th'"
| switch: "possible_switch th = Inr (b, th') \<Longrightarrow> thread_step th th'"
| executor: "task_step\<^sup>*\<^sup>* (th_exec th) ex \<Longrightarrow> thread_step th (th\<lparr>th_exec := ex\<rparr>)"

inductive_cases thread_step_cases: "thread_step th th'"

lemma th_wf_exec: "th_wf th \<Longrightarrow> task_step\<^sup>*\<^sup>* (th_exec th) ex \<Longrightarrow> th_wf (th\<lparr>th_exec := ex\<rparr>)"
  using task_steps_keep [of "th_exec th" ex] by (auto simp: th_wf_def keeps_tasks_def)

lemma th_wf_buffer: "th_wf th \<Longrightarrow> nb_wf nb \<Longrightarrow> th_wf (th\<lparr>th_buffers := (th_buffers th)(ptr \<mapsto> nb)\<rparr>)"
  by (auto simp: th_wf_def ran_def)

lemma th_wf_frame [simp]:
  "th_wf (th\<lparr>th_signals := s\<rparr>) = th_wf th" "th_wf (th\<lparr>th_submit_syscall_cnt := n\<rparr>) = th_wf th"
  "th_wf (th\<lparr>th_uint_trigger := n\<rparr>) = th_wf th" "th_wf (th\<lparr>th_reply_count := n\<rparr>) = th_wf th"
  "th_wf (th\<lparr>th_sender_map := (th_sender_map th)[i := p]\<rparr>) = th_wf th"
  "th_wf (th\<lparr>th_immediate_value := (th_immediate_value th)[i := v]\<rparr>) = th_wf th"
  by (simp_all add: th_wf_def)

lemma th_wf_nb: "th_wf th \<Longrightarrow> th_buffers th ptr = Some nb \<Longrightarrow> nb_wf nb"
  by (auto simp: th_wf_def ran_def)

lemma write_request_wf:
  assumes "nb_wf nb" and "write_request nb item = Inr nb'"
  shows "nb_wf nb'" "nb_wf (nb'\<lparr>nb_recv_req_status := b\<rparr>)"
proof -
  obtain q where "write_free_item (nb_req_items nb) item = Inr (Inr q)" "nb' = nb\<lparr>nb_req_items := q\<rparr>"
    using assms(2) by (cases "write_free_item (nb_req_items nb) item"; cases "projr (write_free_item (nb_req_items nb) item)")
      (auto simp: write_request_def)
  with iq.push_Inr [of "nb_req_items nb" item q] assms(1) show "nb_wf nb'" "nb_wf (nb'\<lparr>nb_recv_req_status := b\<rparr>)"
    by (simp_all add: nb_wf_def)
qed

lemma wake_with_value_wf:
  assumes "th_wf th" and "wake_with_value th cid item = Inr th'"
  shows "th_wf th'"
proof -
  obtain iv ex where w: "store_res (th_immediate_value th) (unat cid) (Some item) = Inr iv" "wake (th_exec th) cid = Inr ex"
      "th' = th\<lparr>th_immediate_value := iv, th_exec := ex\<rparr>"
    using assms(2) by (auto simp: wake_with_value_def)
  then have "th_wf (th\<lparr>th_immediate_value := iv\<rparr>)" using assms(1) by auto
  from th_wf_exec [OF this, of ex] w(2,3) show ?thesis by (simp add: r_into_rtranclp ts_wake)
qed

lemma recv_reply_loop_wf:
  assumes "recv_reply_loop ptr reply_num n th = Inr (p, n', th')" and "th_wf th"
  shows "th_wf th'"
  using assms
proof (induction ptr reply_num n th rule: recv_reply_loop.induct)
  case (1 ptr reply_num n th)
  obtain nb where nb: "th_buffers th ptr = Some nb"
    using "1.prems"(1) by (auto simp: recv_reply_loop.simps [of ptr] split: option.splits)
  have wf: "nb_wf nb" by (rule th_wf_nb [OF "1.prems"(2) nb])
  obtain r q where g: "get_first_item (nb_res_items nb) = Inr (r, q)" using iq.pop_no_panic wf by (fastforce simp: nb_wf_def)
  have q: "iq_wf q" using iq.pop_Some [of "nb_res_items nb" _ q] iq.pop_None [of "nb_res_items nb" q] g wf by (cases r) (auto simp: nb_wf_def)
  show ?case
  proof (cases r)
    case None
    with "1.prems"(1) nb g have "th' = th\<lparr>th_buffers := (th_buffers th)(ptr \<mapsto> nb\<lparr>nb_res_items := q, nb_recv_reply_status := False\<rparr>)\<rparr>"
      by (simp add: recv_reply_loop.simps [of ptr])
    then show ?thesis using th_wf_buffer [OF "1.prems"(2)] q wf by (simp add: nb_wf_def)
  next
    case (Some item)
    let ?th = "th\<lparr>th_buffers := (th_buffers th)(ptr \<mapsto> nb\<lparr>nb_res_items := q\<rparr>)\<rparr>"
    have wf1: "th_wf ?th" using th_wf_buffer [OF "1.prems"(2)] q wf by (simp add: nb_wf_def)
    obtain th1 m where w: "wake_with_value ?th (item_cid item) item = Inr th1" and m: "add_usize n 1 = Inr m"
      and rest: "(if m = reply_num then Inr (Ready, m, th1) else recv_reply_loop ptr reply_num m th1) = Inr (p, n', th')"
      using "1.prems"(1) nb g Some by (auto simp: recv_reply_loop.simps [of ptr])
    have "th_wf th1" by (rule wake_with_value_wf [OF wf1 w])
    with rest "1.IH" [OF nb g refl Some w m] show ?thesis by (auto split: if_splits)
  qed
qed

lemma call_wf:
  assumes wf: "th_wf th" and c: "seL4_Call_with_item th sid item = Inr (b, th')"
  shows "th_wf th'"
proof -
  obtain ptr o' where p: "index_res (th_sender_map th) (unat sid) = Inr ptr" "convert_option_mut_ref th ptr = Inr o'"
    using c by (auto simp: seL4_Call_with_item_def)
  show ?thesis
  proof (cases o')
    case None
    with c p show ?thesis using wf by (simp add: seL4_Call_with_item_def)
  next
    case (Some nb)
    then have nb: "th_buffers th ptr = Some nb" using p(2) by (auto simp: convert_option_mut_ref_def split: if_splits option.splits)
    obtain nb1 where w: "write_request nb item = Inr nb1" using c p Some by (auto simp: seL4_Call_with_item_def)
    note wf1 = write_request_wf [OF th_wf_nb [OF wf nb] w]
    from c p Some w show ?thesis
      using th_wf_buffer [OF wf wf1(1), of ptr] th_wf_buffer [OF wf wf1(2), of ptr True]
      by (auto simp: seL4_Call_with_item_def Let_def split: if_splits)
  qed
qed

lemma send_wf:
  assumes wf: "th_wf th" and c: "seL4_Send_with_item th sid item = Inr (b, th')"
  shows "th_wf th'"
proof -
  obtain ptr o' where p: "index_res (th_sender_map th) (unat sid) = Inr ptr" "convert_option_mut_ref th ptr = Inr o'"
    using c by (auto simp: seL4_Send_with_item_def)
  show ?thesis
  proof (cases o')
    case None
    with c p show ?thesis using wf by (simp add: seL4_Send_with_item_def)
  next
    case (Some nb)
    then have nb: "th_buffers th ptr = Some nb" using p(2) by (auto simp: convert_option_mut_ref_def split: if_splits option.splits)
    obtain nb1 where w: "write_request nb item = Inr nb1" using c p Some by (auto simp: seL4_Send_with_item_def)
    note wf1 = write_request_wf [OF th_wf_nb [OF wf nb] w]
    from c p Some w show ?thesis
      using th_wf_buffer [OF wf wf1(1), of ptr] th_wf_buffer [OF wf wf1(2), of ptr True]
      by (auto simp: seL4_Send_with_item_def Let_def split: if_splits)
  qed
qed

lemma uintr_loop_wf: "uintr_loop l b th = Inr th' \<Longrightarrow> th_wf th \<Longrightarrow> th_wf th'"
proof (induction l b th rule: uintr_loop.induct)
  case (1 l b th)
  have wake: "th_wf th1" if "wake_recv_coroutine th b = Inr (r, th1)" for r th1
    using that "1.prems"(2) by (auto simp: wake_recv_coroutine_def split: option.splits
        intro!: th_wf_exec r_into_rtranclp ts_delay_wake)
  consider "l = 0" | "l \<noteq> 0" "l AND 1 = 1" | "l \<noteq> 0" "l AND 1 \<noteq> 1" by blast
  then show ?case
  proof cases
    case 1
    with "1.prems" show ?thesis by (simp add: uintr_loop.simps [of 0 b th])
  next
    case 2
    then obtain r th1 where w: "wake_recv_coroutine th b = Inr (r, th1)"
      using "1.prems"(1) by (auto simp: uintr_loop.simps [of l b th])
    then have "r = Inr ()" "uintr_loop (drop_bit 1 l) (b + 1) th1 = Inr th'"
      using 2 "1.prems"(1) by (cases r; simp add: uintr_loop.simps [of l b th])+
    with "1.IH"(1) [OF 2 w refl] wake [OF w] show ?thesis by simp
  next
    case 3
    with "1.IH"(2) [OF 3] "1.prems" show ?thesis by (simp add: uintr_loop.simps [of l b th])
  qed
qed

lemma possible_switch_wf:
  assumes wf: "th_wf th" and s: "possible_switch th = Inr (b, th')"
  shows "th_wf th'"
proof -
  obtain sw ex where sw: "switch_possible (th_exec th) = Inr (sw, ex)" using s by (auto simp: possible_switch_def)
  then have "task_step\<^sup>*\<^sup>* (th_exec th) ex" by (intro r_into_rtranclp ts_switch)
  moreover have "task_step\<^sup>*\<^sup>* ex ex'" if "wake ex cid = Inr ex'" for cid ex' using that by (intro r_into_rtranclp ts_wake)
  ultimately show ?thesis
    using s sw wf by (auto simp: possible_switch_def split: if_splits intro!: th_wf_exec intro: rtranclp_trans)
qed

text \<open>C13. Types of a thread's state.  Whatever sequence of registrations, interrupts, calls, sends, reply
  processing, suspensions and executor operations a thread performs, its state stays well
  formed: the executor's invariant holds, the sender map keeps its 64 entries and the value
  slots their 2048, exactly the allocated interrupt vectors are mapped to coroutines, and the
  queues of every shared buffer are well formed.\<close>

theorem thread_steps_well_formed:
  assumes "\<forall>nb\<in>ran bufs. nb_wf nb" and "thread_step\<^sup>*\<^sup>* (thread_new bufs) th"
  shows "ex_wf (th_exec th) \<and> length (th_sender_map th) = 64 \<and> length (th_immediate_value th) = 2048 \<and>
    dom (th_wake_map th) = ia_used MAX_UINT_VEC (th_uint_vec_allocator th) \<and> (\<forall>nb\<in>ran (th_buffers th). nb_wf nb)"
proof -
  have "th_wf th" using assms(2)
  proof (induction rule: rtranclp_induct)
    case base
    show ?case by (rule thread_new_wf [OF assms(1)])
  next
    case (step th1 th2)
    from step.hyps(2) step.IH show ?case
    proof cases
      case (register cid r)
      with register_recv_cid_spec [OF step.IH] show ?thesis by blast
    next
      case (interrupt irqs x)
      then show ?thesis using step.IH by (auto simp: uintr_handler_def dest: uintr_loop_wf)
    next
      case (resume v)
      then show ?thesis using step.IH by (auto simp: yield_now_resume_def)
    qed (use step.IH in \<open>auto simp: register_sender_buffer_def register_async_syscall_buffer_def split: sum.splits
        intro: call_wf send_wf recv_reply_loop_wf possible_switch_wf th_wf_exec\<close>)
  qed
  then show ?thesis by (simp add: th_wf_def MAX_TASK_NUM_def)
qed

theorem thread_steps_well_formed_witness:
  "\<exists>th :: nat thread. thread_step\<^sup>*\<^sup>* (thread_new [8 \<mapsto> new_buffer_new]) th \<and> th_wake_map th \<noteq> Map.empty \<and>
    ex_wf (th_exec th) \<and> length (th_sender_map th) = 64 \<and> length (th_immediate_value th) = 2048 \<and>
    dom (th_wake_map th) = ia_used MAX_UINT_VEC (th_uint_vec_allocator th) \<and> (\<forall>nb\<in>ran (th_buffers th). nb_wf nb)"
proof -
  let ?th = "thread_new [8 \<mapsto> new_buffer_new] :: nat thread"
  have b: "\<forall>nb\<in>ran [8 \<mapsto> new_buffer_new]. nb_wf nb" by (simp add: new_buffer_new_wf)
  obtain r th' where r: "register_recv_cid ?th 5 = (r, th')" by fastforce
  then have run: "thread_step\<^sup>*\<^sup>* ?th th'" by (intro r_into_rtranclp thread_step.register)
  have "{..<MAX_UINT_VEC} \<noteq> {}" by (simp add: MAX_UINT_VEC_def lessThan_empty_iff)
  then have "th_wake_map th' \<noteq> Map.empty"
    using register_recv_cid_spec [OF thread_new_wf [OF b] r] by (cases r) (auto simp: thread_new_def)
  with run thread_steps_well_formed [OF b run] show ?thesis by blast
qed

end
