(* ===== verification/Syscall_Test.thy ===== *)
theory Syscall_Test
  imports Uintr Runtime Async_Syscall
begin

text \<open>
  The program that \<^verbatim>\<open>main\<close> runs (\<^verbatim>\<open>syscall_test.rs\<close>): it registers a shared buffer for system calls,
  spawns the coroutine that receives the replies, maps and unmaps 512 frames ten times with
  ordinary system calls, and then spawns one coroutine per frame that does the same with
  asynchronous ones.

  A coroutine is a constructor of \<open>test_future\<close>, one for each point at which the source suspends, with
  the number of rounds still to do.  The kernel's capabilities and constants are a record, the
  pointers \<open>exec_ptr\<close> and \<open>new_buffer_ptr\<close> are what \<^verbatim>\<open>alloc_zeroed\<close> returned.
\<close>

section \<open>Constants\<close>

definition TEST_START_ADDR :: usize where "TEST_START_ADDR = 0x2000000"
definition TEST_PAGE_SIZE :: usize where "TEST_PAGE_SIZE = 0x1000"
definition MAX_PAGE_NUM_BITS :: usize where "MAX_PAGE_NUM_BITS = 9"
definition TEST_PAGE_NUM :: usize where "TEST_PAGE_NUM = 2 ^ MAX_PAGE_NUM_BITS"
definition EPOCH :: usize where "EPOCH = 10"
definition TEST_REPLY_NUM :: usize where "TEST_REPLY_NUM = 2 * TEST_PAGE_NUM * EPOCH"

record test_env =
  te_tcb :: nat
  te_vspace :: u64
  te_rights :: u64
  te_attrs :: u64
  te_buffer :: usize
  te_reply_num :: usize

section \<open>The coroutines\<close>

datatype test_future =
    ReplyStart
  | ReplyYield
  | MemStart u64 usize
  | MemInMap u64 usize nat
  | MemInUnmap u64 usize nat
  | MemDone

type_synonym test_thread = "test_future thread"

text \<open>The loop of \<^verbatim>\<open>async_memery_single_test\<close> with \<open>n\<close> rounds left, from the start of a round and from its
  unmapping; a call that cannot be submitted returns at once.\<close>

fun mem_round :: "test_env \<Rightarrow> u64 \<Rightarrow> usize \<Rightarrow> nat \<Rightarrow> test_thread \<Rightarrow> (poll_result \<times> test_future \<times> test_thread) res"
  and mem_unmap :: "test_env \<Rightarrow> u64 \<Rightarrow> usize \<Rightarrow> nat \<Rightarrow> test_thread \<Rightarrow> (poll_result \<times> test_future \<times> test_thread) res" where
  "mem_round env frame vaddr 0 th = Inr (Ready, MemDone, th)"
| "mem_round env frame vaddr (Suc n) th =
     rbind (syscall_riscv_page_map th frame (te_vspace env) (of_nat vaddr) (te_rights env) (te_attrs env)) (\<lambda>(suspended, th').
     if suspended then Inr (Pending, MemInMap frame vaddr n, th') else mem_unmap env frame vaddr n th')"
| "mem_unmap env frame vaddr n th =
     rbind (syscall_riscv_page_unmap th frame) (\<lambda>(suspended, th').
     if suspended then Inr (Pending, MemInUnmap frame vaddr n, th') else mem_round env frame vaddr n th')"

text \<open>One poll of a coroutine.  The result of a call is dropped.  A finished coroutine is not polled
  again; a future that is would panic.\<close>

definition test_step :: "test_env \<Rightarrow> test_future \<Rightarrow> test_thread \<Rightarrow> (poll_result \<times> test_future \<times> test_thread) res" where
  "test_step env f th =
     (case f of
        ReplyStart \<Rightarrow>
          rbind (recv_reply_coroutine_async_syscall_poll (te_buffer env) (te_reply_num env) True th) (\<lambda>(p, th'). Inr (p, ReplyYield, th'))
      | ReplyYield \<Rightarrow>
          rbind (recv_reply_coroutine_async_syscall_poll (te_buffer env) (te_reply_num env) False th) (\<lambda>(p, th'). Inr (p, ReplyYield, th'))
      | MemStart frame vaddr \<Rightarrow> mem_round env frame vaddr EPOCH th
      | MemInMap frame vaddr n \<Rightarrow>
          rbind (seL4_Call_with_item_resume th) (\<lambda>(r, th'). mem_unmap env frame vaddr n th')
      | MemInUnmap frame vaddr n \<Rightarrow>
          rbind (seL4_Call_with_item_resume th) (\<lambda>(r, th'). mem_round env frame vaddr n th')
      | MemDone \<Rightarrow> Inl ExplicitPanic)"

definition test_poll :: "test_env \<Rightarrow> (test_future, test_thread) poll_fn" where
  "test_poll env f ex th =
     rbind (test_step env f (th\<lparr>th_exec := ex\<rparr>)) (\<lambda>(p, f', th'). Inr (p, f', th_exec th', th'))"

section \<open>Setting the program up\<close>

record 'u test_prog =
  tp_objects :: object_allocator
  tp_image :: image_utils
  tp_thread :: test_thread
  tp_hart :: "'u hart"
  tp_frames :: "usize list"

text \<open>The first part of \<^verbatim>\<open>async_syscall_test\<close>; \<^term>\<open>Inl ()\<close> is an error of the kernel that \<^verbatim>\<open>main\<close> returns.  The
  kernel is asked to register the receiver after the control registers are set.\<close>

definition async_syscall_setup ::
  "kernel \<Rightarrow> test_env \<Rightarrow> u64 \<Rightarrow> u64 \<Rightarrow> usize \<Rightarrow> 'u test_prog \<Rightarrow> (unit + 'u test_prog) res" where
  "async_syscall_setup k env uintrvec handler exec_ptr tp =
     rbind (guard_res (exec_ptr \<noteq> 0) ExplicitPanic) (\<lambda>_.
     let th0 = (tp_thread tp)\<lparr>th_exec := executor_init (th_exec (tp_thread tp))\<rparr>; new_buffer_ptr = te_buffer env in
     rbind (guard_res (new_buffer_ptr \<noteq> 0) ExplicitPanic) (\<lambda>_.
     let th1 = th0\<lparr>th_buffers := (th_buffers th0)(new_buffer_ptr \<mapsto> new_buffer_new)\<rparr> in
     rbind (kunwrap (alloc_ntfn k (tp_objects tp))) (\<lambda>(unbadged_reply_ntfn, oa1).
     rbind (get_empty_slot oa1) (\<lambda>(badged_reply_ntfn, oa2).
     rbind (coroutine_spawn (th_exec th1) ReplyStart) (\<lambda>(cid, ex).
     case register_recv_cid (th1\<lparr>th_exec := ex\<rparr>) cid of (r, th2) \<Rightarrow>
     rbind (unwrap r) (\<lambda>badge.
     rbind (kunwrap (kcall_res k (CNodeMint badged_reply_ntfn unbadged_reply_ntfn badge) oa2)) (\<lambda>(_, oa3).
     case invoke k (TcbBindNotification (te_tcb env) unbadged_reply_ntfn) oa3 of
       (Inl e, oa4) \<Rightarrow> Inr (Inl ())
     | (Inr _, oa4) \<Rightarrow>
     case invoke k (RegisterReceiver unbadged_reply_ntfn (te_tcb env)) oa4 of (registered, oa5) \<Rightarrow>
     case register_receiver uintrvec handler registered (tp_hart tp) of
       (Inl e, ht) \<Rightarrow> Inr (Inl ())
     | (Inr _, ht) \<Rightarrow>
     rbind (register_async_syscall_buffer th2 new_buffer_ptr) (\<lambda>th3.
     rbind (get_user_image_frame_slot (tp_image tp) new_buffer_ptr) (\<lambda>new_buffer_cap.
     case invoke k (RegisterAsyncSyscall badged_reply_ntfn new_buffer_cap) oa5 of
       (Inl e, oa6) \<Rightarrow> Inr (Inl ())
     | (Inr _, oa6) \<Rightarrow> Inr (Inr (tp\<lparr>tp_objects := oa6, tp_thread := th3, tp_hart := ht\<rparr>)))))))))))"

definition performance_test_init :: "kernel \<Rightarrow> 'u test_prog \<Rightarrow> 'u test_prog res" where
  "performance_test_init k tp =
     rbind (alloc_many_frame k (MAX_PAGE_NUM_BITS - 1) (tp_objects tp)) (\<lambda>(ans1, oa1).
     rbind (alloc_many_frame k (MAX_PAGE_NUM_BITS - 1) oa1) (\<lambda>(ans2, oa2).
     rbind (rmap (\<lambda>i. if i < TEST_PAGE_NUM div 2 then index_res ans1 i else index_res ans2 (i - TEST_PAGE_NUM div 2))
       [0..<TEST_PAGE_NUM]) (\<lambda>frames.
     rbind (kunwrap (alloc_page_table k oa2)) (\<lambda>(page_table, oa3).
     let vaddr = 0x2000000 in
     Inr (tp\<lparr>tp_frames := frames, tp_objects := snd (invoke k (PageTableMap page_table vaddr) oa3)\<rparr>)))))"

text \<open>The synchronous test; the results of its calls are dropped.\<close>

primrec sync_rounds :: "kernel \<Rightarrow> usize \<Rightarrow> usize \<Rightarrow> nat \<Rightarrow> object_allocator \<Rightarrow> object_allocator" where
  "sync_rounds k frame vaddr 0 oa = oa"
| "sync_rounds k frame vaddr (Suc n) oa =
     sync_rounds k frame vaddr n (snd (invoke k (FrameUnmap frame) (snd (invoke k (FrameMap frame vaddr) oa))))"

fun sync_pages :: "kernel \<Rightarrow> usize list \<Rightarrow> usize \<Rightarrow> object_allocator \<Rightarrow> object_allocator res" where
  "sync_pages k [] vaddr oa = Inr oa"
| "sync_pages k (frame # frames) vaddr oa =
     rbind (add_usize vaddr TEST_PAGE_SIZE) (\<lambda>vaddr'. sync_pages k frames vaddr' (sync_rounds k frame vaddr EPOCH oa))"

definition sync_memory_test :: "kernel \<Rightarrow> 'u test_prog \<Rightarrow> 'u test_prog res" where
  "sync_memory_test k tp =
     rbind (sync_pages k (tp_frames tp) TEST_START_ADDR (tp_objects tp)) (\<lambda>oa. Inr (tp\<lparr>tp_objects := oa\<rparr>))"

fun spawn_tests :: "usize list \<Rightarrow> usize \<Rightarrow> test_future executor \<Rightarrow> test_future executor res" where
  "spawn_tests [] vaddr ex = Inr ex"
| "spawn_tests (frame # frames) vaddr ex =
     rbind (spawn ex (MemStart (of_nat frame) vaddr) 0) (\<lambda>(cid, ex').
     rbind (add_usize vaddr TEST_PAGE_SIZE) (\<lambda>vaddr'. spawn_tests frames vaddr' ex'))"

definition async_memory_test :: "'u test_prog \<Rightarrow> 'u test_prog res" where
  "async_memory_test tp =
     rbind (spawn_tests (tp_frames tp) TEST_START_ADDR (th_exec (tp_thread tp))) (\<lambda>ex.
     Inr (tp\<lparr>tp_thread := (tp_thread tp)\<lparr>th_exec := ex\<rparr>\<rparr>))"

text \<open>\<^verbatim>\<open>run_performance_test_all\<close> up to \<^verbatim>\<open>coroutine_run_until_complete\<close>, and the whole of \<^verbatim>\<open>async_syscall_test\<close> up to
  the same point.\<close>

definition run_performance_test_all :: "kernel \<Rightarrow> 'u test_prog \<Rightarrow> 'u test_prog res" where
  "run_performance_test_all k tp =
     rbind (performance_test_init k tp) (\<lambda>tp1.
     rbind (sync_memory_test k tp1) (\<lambda>tp2.
     async_memory_test tp2))"

definition async_syscall_test ::
  "kernel \<Rightarrow> test_env \<Rightarrow> u64 \<Rightarrow> u64 \<Rightarrow> usize \<Rightarrow> 'u test_prog \<Rightarrow> (unit + 'u test_prog) res" where
  "async_syscall_test k env uintrvec handler exec_ptr tp =
     rbind (async_syscall_setup k env uintrvec handler exec_ptr tp) (\<lambda>r. case r of
       Inl e \<Rightarrow> Inr (Inl ())
     | Inr tp1 \<Rightarrow> rbind (run_performance_test_all k tp1) (\<lambda>tp2. Inr (Inr tp2)))"

text \<open>\<^verbatim>\<open>main\<close>, which hands the image and the objects it set up to the test.\<close>

definition main_start ::
  "(unit + unit) \<Rightarrow> ((usize \<times> usize) option \<Rightarrow> usize \<Rightarrow> usize) \<Rightarrow> kernel \<Rightarrow> boot_info \<Rightarrow> test_env \<Rightarrow> u64 \<Rightarrow> u64 \<Rightarrow> usize \<Rightarrow>
   'u hart \<Rightarrow> root_task \<Rightarrow> (unit + 'u test_prog) res" where
  "main_start logger alloc k bi env uintrvec handler exec_ptr ht rk =
     rbind (main_init logger alloc k (te_tcb env) bi rk) (\<lambda>rk'.
     async_syscall_test k env uintrvec handler exec_ptr
       \<lparr>tp_objects = rk_objects rk', tp_image = rk_image rk', tp_thread = thread_new Map.empty, tp_hart = ht,
        tp_frames = replicate TEST_PAGE_NUM 0\<rparr>)"

end
