(* ===== verification/Run_Loop.thy ===== *)
theory Run_Loop
  imports Syscall_Test
begin

text \<open>
  The executors of the benchmarks, turn by turn, so that other agents can be interleaved with the run loop
  (\<^verbatim>\<open>async_runtime/src/executor.rs\<close>): which coroutine a turn fetches, and what storing, removing and waking a
  coroutine keep.
\<close>

unbundle bit_operations_syntax

section \<open>The executors of the benchmarks\<close>

text \<open>Coroutine 0 receives, with priority \<open>rp\<close>; the coroutines 1 to \<open>n\<close> work, with the other one of the priorities 0
  and 1.  Only coroutine 0 is ever woken from an interrupt.  In the queue of priority 0 no coroutine
  has ended: such an entry would stall the executor.  The system-call benchmark has \<open>rp = 1\<close>, the client of
  the IPC benchmark \<open>rp = 0\<close>, and its server \<open>rp = 1\<close> with \<open>n = 0\<close>.\<close>

definition exec_ok :: "nat \<Rightarrow> nat \<Rightarrow> 'f executor \<Rightarrow> bool" where
  "exec_ok rp n ex \<longleftrightarrow> rp \<le> 1 \<and> ex_wf ex \<and> n < MAX_TASK_NUM \<and> live ex \<subseteq> {..n} \<and> length (ex_tasks_bak ex) = Suc n \<and>
     (\<forall>i\<in>live ex. ex_tasks ex ! i = Some i) \<and>
     (\<forall>i\<le>n. co_prio (ex_tasks_bak ex ! i) = (if i = 0 then rp else 1 - rp)) \<and>
     bm64_elems (ex_prio_bitmap ex) \<subseteq> {0, 1} \<and> (0 \<in> bm64_elems (ex_prio_bitmap ex) \<longleftrightarrow> ready ex 0 \<noteq> []) \<and>
     set (ready ex rp) \<subseteq> {0} \<and> set (ready ex 0) \<subseteq> {c. unat c \<in> live ex} \<and> set (ready ex (1 - rp)) \<subseteq> {c. unat c \<in> live ex} \<and>
     (\<forall>j. bit (ex_delay_wake_cids ex) j \<longrightarrow> j = 0)"

definition fut :: "'f executor \<Rightarrow> nat \<Rightarrow> 'f" where
  "fut ex i = co_future (ex_tasks_bak ex ! i)"

lemma exec_okD:
  assumes "exec_ok rp n ex"
  shows "ex_wf ex" "queues_wf ex" "tasks_wf ex" "n < MAX_TASK_NUM" "live ex \<subseteq> {..n}" "length (ex_tasks_bak ex) = Suc n"
    "\<And>i. i \<in> live ex \<Longrightarrow> ex_tasks ex ! i = Some i"
    "\<And>i. i \<le> n \<Longrightarrow> co_prio (ex_tasks_bak ex ! i) = (if i = 0 then rp else 1 - rp)"
    "bm64_elems (ex_prio_bitmap ex) \<subseteq> {0, 1}" "0 \<in> bm64_elems (ex_prio_bitmap ex) \<longleftrightarrow> ready ex 0 \<noteq> []"
    "set (ready ex rp) \<subseteq> {0}" "set (ready ex 0) \<subseteq> {c. unat c \<in> live ex}"
    "\<And>j. bit (ex_delay_wake_cids ex) j \<Longrightarrow> j = 0" "rp = 0 \<or> rp = 1" "set (ready ex (1 - rp)) \<subseteq> {c. unat c \<in> live ex}"
  using assms by (auto simp: exec_ok_def ex_wf_def)

lemma exec_ok_prio:
  assumes "exec_ok rp n ex" and "i \<in> live ex"
  shows "prio_of ex i = (if i = 0 then rp else 1 - rp)"
  using exec_okD(5,7,8) [OF assms(1)] assms(2) by (auto simp: prio_of_def)

lemma exec_ok_cid:
  assumes "exec_ok rp n ex" and "i \<in> live ex"
  shows "co_cid (ex_tasks_bak ex ! i) = of_nat i"
proof -
  have "i < MAX_TASK_NUM" using exec_okD(4,5) [OF assms(1)] assms(2) by auto
  then show ?thesis using exec_okD(3,7) [OF assms(1)] assms(2) by (auto simp: tasks_wf_def)
qed

text \<open>The queues of an executor change, its tasks do not.\<close>

lemma exec_ok_queues:
  assumes ok: "exec_ok rp n ex" and ex': "ex' = ex\<lparr>ex_delay_wake_cids := d, ex_prio_bitmap := bm, ex_ready_queue := rq, ex_current := cur\<rparr>"
    and "queues_wf ex'" and "bm64_elems bm \<subseteq> {0, 1}" "0 \<in> bm64_elems bm \<longleftrightarrow> ready ex' 0 \<noteq> []" and "set (ready ex' rp) \<subseteq> {0}"
    and "\<And>p. p \<in> {0, 1 - rp} \<Longrightarrow> set (ready ex' p) \<subseteq> {c. unat c \<in> live ex}" and "\<And>j. bit d j \<Longrightarrow> j = 0"
  shows "exec_ok rp n ex'" "live ex' = live ex" "ex_tasks_bak ex' = ex_tasks_bak ex" "fut ex' = fut ex"
proof -
  have "set (ready ex' 0) \<subseteq> {c. unat c \<in> live ex}" "set (ready ex' (1 - rp)) \<subseteq> {c. unat c \<in> live ex}" using assms(7) by blast+
  moreover show "live ex' = live ex" "ex_tasks_bak ex' = ex_tasks_bak ex" "fut ex' = fut ex" by (simp_all add: ex' fut_def fun_eq_iff)
  ultimately show "exec_ok rp n ex'" using assms(1-6,8) exec_okD [OF ok] by (auto simp: exec_ok_def ex_wf_def)
qed

text \<open>The delayed wake-ups: coroutine 0 is put at the end of its queue when it is marked and alive.\<close>

definition irq_wake :: "'f executor \<Rightarrow> coroutine_id list" where
  "irq_wake ex = (if ex_delay_wake_cids ex \<noteq> 0 \<and> 0 \<in> live ex then [0] else [])"

definition irq_ready :: "nat \<Rightarrow> 'f executor \<Rightarrow> nat \<Rightarrow> coroutine_id list" where
  "irq_ready rp ex p = ready ex p @ (if p = rp then irq_wake ex else [])"

lemma delivered_zero:
  assumes "\<And>j. bit d j \<Longrightarrow> j = 0"
  shows "filter (delivered d) [0..<64] = (if d = 0 then [] else [0])"
proof (cases "d = 0")
  case True
  then show ?thesis by (simp add: delivered.simps)
next
  case False
  then obtain j where j: "bit d j" using bit_eqI [of d 0] by auto
  with assms have "bit d 0" by metis
  then have "delivered d i \<longleftrightarrow> i = 0" for i using assms [of i] by (subst delivered.simps) auto
  then have "delivered d = (\<lambda>i. i = 0)" by auto
  then show ?thesis using False filter_range_singleton [of 0 64] by simp
qed

lemma actual_wake_irq:
  assumes ok: "exec_ok rp n ex" and room: "length (ready ex rp) < MAX_TASK_NUM - 1"
  shows "\<exists>ex'. actual_wake ex = Inr ex' \<and> exec_ok rp n ex' \<and> live ex' = live ex \<and> ex_tasks_bak ex' = ex_tasks_bak ex \<and>
    ready ex' 0 = irq_ready rp ex 0 \<and> ready ex' 1 = irq_ready rp ex 1 \<and> ex_delay_wake_cids ex' = 0 \<and>
    (ex_delay_wake_cids ex = 0 \<longrightarrow> ex' = ex)"
proof (cases "ex_delay_wake_cids ex = 0")
  case True
  then show ?thesis using ok by (auto simp: irq_wake_def irq_ready_def)
next
  case False
  note o = exec_okD [OF ok]
  let ?ex = "ex\<lparr>ex_delay_wake_cids := 0\<rparr>"
  have ok1: "exec_ok rp n ?ex" using o by (auto simp: exec_ok_def ex_wf_def)
  have aw: "actual_wake ex = wake_all ?ex [0]"
    using delivered_zero [OF o(13)] False by (simp add: actual_wake_wakes)
  have "length (ready ?ex (prio_of ?ex (unat (0 :: coroutine_id)))) < MAX_TASK_NUM - 1" if "0 \<in> live ?ex"
    using exec_ok_prio [OF ok1 that] room by simp
  then obtain ex' where w: "wake ?ex 0 = Inr ex'"
    using wake_ok [OF exec_okD(1) [OF ok1], of 0] by (auto simp: ex_consts)
  obtain bm rq where ex': "ex' = ?ex\<lparr>ex_prio_bitmap := bm, ex_ready_queue := rq\<rparr>" "ex_wf ex'"
    and el: "bm64_elems bm = (if 0 \<in> live ex then insert (prio_of ex 0) (bm64_elems (ex_prio_bitmap ex)) else bm64_elems (ex_prio_bitmap ex))"
    and rd: "\<forall>p<MAX_PRIO_NUM. ready ex' p = (if 0 \<in> live ex \<and> p = prio_of ex 0 then ready ex p @ [0] else ready ex p)"
    using wake_inv [OF exec_okD(1) [OF ok1] w] by auto
  have p: "prio_of ex 0 = rp" if "0 \<in> live ex" using exec_ok_prio [OF ok that] by simp
  have rd1: "ready ex' p = (if 0 \<in> live ex \<and> p = rp then ready ex p @ [0] else ready ex p)" if "p \<le> 1" for p
    using rd [rule_format, of p] that p by (auto simp: MAX_PRIO_NUM_def)
  have r: "ready ex' p = irq_ready rp ex p" if "p \<le> 1" for p
    unfolding rd1 [OF that] irq_ready_def irq_wake_def using False by simp
  have "exec_ok rp n ex' \<and> live ex' = live ex \<and> ex_tasks_bak ex' = ex_tasks_bak ex"
  proof -
    have up: "ex' = ex\<lparr>ex_delay_wake_cids := 0, ex_prio_bitmap := bm, ex_ready_queue := rq, ex_current := ex_current ex\<rparr>"
      by (simp add: ex'(1))
    have q: "queues_wf ex'" using ex'(2) by (simp add: ex_wf_def)
    have b: "bm64_elems bm \<subseteq> {0, 1}" "0 \<in> bm64_elems bm \<longleftrightarrow> ready ex' 0 \<noteq> []"
      using el o(9,10,14) p rd1 [of 0] by (auto split: if_splits)
    have "set (ready ex' rp) \<subseteq> {0}" using rd1 [of rp] o(11,14) by (auto split: if_splits)
    moreover have "set (ready ex' p) \<subseteq> {c. unat c \<in> live ex}" if "p \<in> {0, 1 - rp}" for p
      using rd1 [of p] o(12,15) that by (auto split: if_splits)
    ultimately show ?thesis using exec_ok_queues [OF ok up q b] by simp
  qed
  moreover have "ex_delay_wake_cids ex' = 0" by (simp add: ex'(1))
  moreover have "actual_wake ex = Inr ex'" using aw w by simp
  ultimately show ?thesis using r False by (intro exI [of _ ex']) simp
qed

text \<open>What \<^verbatim>\<open>fetch\<close> takes: a coroutine of priority 0 if one is ready, otherwise one of priority 1.\<close>

definition fetched_from :: "nat \<Rightarrow> nat \<Rightarrow> 'f executor \<Rightarrow> nat option \<Rightarrow> coroutine_id list \<Rightarrow> coroutine_id list \<Rightarrow> 'f executor \<Rightarrow> bool" where
  "fetched_from rp n ex r r0 r1 ex' \<longleftrightarrow> fetch ex = Inr (r, ex') \<and> exec_ok rp n ex' \<and> live ex' = live ex \<and> ex_tasks_bak ex' = ex_tasks_bak ex \<and>
     ready ex' 0 = r0 \<and> ready ex' 1 = r1 \<and> ex_delay_wake_cids ex' = 0 \<and> (\<forall>i. r = Some i \<longrightarrow> ex_current ex' = Some (of_nat i))"

lemma fetch_from_queue:
  assumes aw: "actual_wake ex0 = Inr ex" and ok: "exec_ok rp n ex" and d: "ex_delay_wake_cids ex = 0"
    and p: "p = 0 \<or> p = 1 \<and> ready ex 0 = []" and r: "ready ex p = c # cs"
  shows "\<exists>ex'. fetch ex0 = Inr (if unat c \<in> live ex then Some (unat c) else None, ex') \<and> exec_ok rp n ex' \<and> live ex' = live ex \<and>
    ex_tasks_bak ex' = ex_tasks_bak ex \<and> ready ex' p = cs \<and> ready ex' (1 - p) = ready ex (1 - p) \<and> ex_delay_wake_cids ex' = 0 \<and>
    (unat c \<in> live ex \<longrightarrow> ex_current ex' = Some c)"
proof -
  note o = exec_okD [OF ok]
  have pb: "p < MAX_PRIO_NUM" "1 - p < MAX_PRIO_NUM" "p < 64" using p by (auto simp: ex_consts)
  have pin: "p \<in> bm64_elems (ex_prio_bitmap ex)" using o(2) r pb by (auto simp: queues_wf_def)
  have none: "0 \<notin> bm64_elems (ex_prio_bitmap ex)" if "p = 1" using o(10) p that by auto
  let ?f = "bm64_find_first_one (ex_prio_bitmap ex)"
  have ne: "bm64_elems (ex_prio_bitmap ex) \<noteq> {}" using pin by auto
  then have fin: "?f \<in> bm64_elems (ex_prio_bitmap ex)" "?f \<le> p" using bm64.first_one_in bm64.first_one_le [of p "ex_prio_bitmap ex"] pin by auto
  then have f: "?f = p" using p none by (metis One_nat_def le_zero_eq le_Suc_eq)
  obtain ex' where pop: "popped ex p cs ex'"
    and res: "if unat c \<in> live ex then fetch ex0 = Inr (ex_tasks ex ! unat c, ex') \<and> ex_current ex' = Some c \<and>
       bm64_elems (ex_prio_bitmap ex') = (if cs = [] then bm64_elems (ex_prio_bitmap ex) - {p} else bm64_elems (ex_prio_bitmap ex))
     else fetch ex0 = Inr (None, ex') \<and> ex_current ex' = ex_current ex \<and> ex_prio_bitmap ex' = ex_prio_bitmap ex"
    using fetch_head [OF aw o(1) f _ r] pb by auto
  obtain bm rq cur where ex': "ex' = ex\<lparr>ex_prio_bitmap := bm, ex_ready_queue := rq, ex_current := cur\<rparr>" and q: "queues_wf ex'"
    and rd: "\<forall>q<MAX_PRIO_NUM. ready ex' q = (if q = p then cs else ready ex q)" using pop by (auto simp: popped_def)
  have rp: "ready ex' p = cs" "ready ex' (1 - p) = ready ex (1 - p)" using rd pb p by auto
  have live0: "unat c \<in> live ex" if "p = 0" using o(12) r that by auto
  have el: "bm64_elems bm \<subseteq> {0, 1}" "0 \<in> bm64_elems bm \<longleftrightarrow> ready ex' 0 \<noteq> []"
    using res o(9,10) p rp live0 none r by (auto simp: ex' split: if_splits)
  have sub: "set (ready ex' q) \<subseteq> set (ready ex q)" if "q \<le> 1" for q
    using rd [rule_format, of q] r that by (auto simp: ex_consts)
  have "set (ready ex' q) \<subseteq> {c. unat c \<in> live ex}" if "q \<in> {0, 1 - rp}" for q
    using subset_trans [OF sub [of q], of "{c. unat c \<in> live ex}"] o(12,14,15) that by (elim insertE emptyE; simp)
  moreover have "set (ready ex' rp) \<subseteq> {0}" using subset_trans [OF sub [of rp] o(11)] o(14) by auto
  moreover have up: "ex' = ex\<lparr>ex_delay_wake_cids := 0, ex_prio_bitmap := bm, ex_ready_queue := rq, ex_current := cur\<rparr>"
    using d by (simp add: ex')
  ultimately have k: "exec_ok rp n ex'" "live ex' = live ex" "ex_tasks_bak ex' = ex_tasks_bak ex" using exec_ok_queues [OF ok up q el] by auto
  have "fetch ex0 = Inr (if unat c \<in> live ex then Some (unat c) else None, ex')"
    using res o(7) [of "unat c"] by (auto split: if_splits)
  with k rp d res show ?thesis by (auto simp: ex' split: if_splits)
qed

lemma fetch_cases:
  assumes ok: "exec_ok rp n ex" and room: "length (ready ex rp) < MAX_TASK_NUM - 1"
  shows "\<exists>r r0 r1 ex'. fetched_from rp n ex r r0 r1 ex' \<and>
    (case irq_ready rp ex 0 of
       c # cs \<Rightarrow> unat c \<in> live ex \<and> r = Some (unat c) \<and> r0 = cs \<and> r1 = irq_ready rp ex 1
     | [] \<Rightarrow> r0 = [] \<and>
         (case irq_ready rp ex 1 of
            c # cs \<Rightarrow> r = (if unat c \<in> live ex then Some (unat c) else None) \<and> r1 = cs
          | [] \<Rightarrow> r = None \<and> r1 = [] \<and> (ex_delay_wake_cids ex = 0 \<longrightarrow> ex' = ex)))"
proof -
  obtain ex1 where aw: "actual_wake ex = Inr ex1" and ok1: "exec_ok rp n ex1"
    and same: "live ex1 = live ex" "ex_tasks_bak ex1 = ex_tasks_bak ex" "ready ex1 0 = irq_ready rp ex 0"
      "ready ex1 1 = irq_ready rp ex 1" "ex_delay_wake_cids ex1 = 0" "ex_delay_wake_cids ex = 0 \<longrightarrow> ex1 = ex"
    using actual_wake_irq [OF assms] by blast
  note o = exec_okD [OF ok1]
  show ?thesis
  proof (cases "irq_ready rp ex 0")
    case (Cons c cs)
    have "unat c \<in> live ex" using o(12) Cons same by auto
    with fetch_from_queue [OF aw ok1 same(5), of 0 c cs] Cons same show ?thesis
      by (auto simp: fetched_from_def)
  next
    case e0: Nil
    show ?thesis
    proof (cases "irq_ready rp ex 1")
      case (Cons c cs)
      with fetch_from_queue [OF aw ok1 same(5), of 1 c cs] same e0 show ?thesis
        by (auto simp: fetched_from_def)
    next
      case Nil
      have "fetch ex = Inr (None, ex1)"
      proof (cases "bm64_elems (ex_prio_bitmap ex1) = {}")
        case True
        with fetch_idle [OF aw] show ?thesis .
      next
        case False
        let ?f = "bm64_find_first_one (ex_prio_bitmap ex1)"
        have "?f \<in> bm64_elems (ex_prio_bitmap ex1)" using bm64.first_one_in False by blast
        then have "?f = 1" using o(9,10) same(3) e0 by auto
        then show ?thesis using fetch_marked_empty [OF aw o(2), of 1] Nil same(4) by simp
      qed
      then show ?thesis using Nil e0 same ok1 by (auto simp: fetched_from_def)
    qed
  qed
qed

lemma fetch_cases_receiver_last:
  assumes ok: "exec_ok 1 n ex" and room: "length (ready ex 1) < MAX_TASK_NUM - 1"
  shows "\<exists>r r0 r1 ex'. fetched_from 1 n ex r r0 r1 ex' \<and>
    (case ready ex 0 of
       c # cs \<Rightarrow> r = Some (unat c) \<and> r0 = cs \<and> r1 = ready ex 1 @ irq_wake ex
     | [] \<Rightarrow> r0 = [] \<and>
         (case ready ex 1 @ irq_wake ex of
            c # cs \<Rightarrow> r = (if 0 \<in> live ex then Some 0 else None) \<and> r1 = cs
          | [] \<Rightarrow> r = None \<and> r1 = [] \<and> (ex_delay_wake_cids ex = 0 \<longrightarrow> ex' = ex)))"
proof -
  have q: "irq_ready 1 ex 0 = ready ex 0" "irq_ready 1 ex 1 = ready ex 1 @ irq_wake ex" by (simp_all add: irq_ready_def)
  have c: "c = 0" if "ready ex 1 @ irq_wake ex = c # cs" for c cs
    using exec_okD(11) [OF ok] arg_cong [OF that, of set] by (auto simp: irq_wake_def split: if_splits)
  obtain r r0 r1 ex' where "fetched_from 1 n ex r r0 r1 ex'" and f: "case ready ex 0 of
       c # cs \<Rightarrow> unat c \<in> live ex \<and> r = Some (unat c) \<and> r0 = cs \<and> r1 = ready ex 1 @ irq_wake ex
     | [] \<Rightarrow> r0 = [] \<and>
         (case ready ex 1 @ irq_wake ex of
            c # cs \<Rightarrow> r = (if unat c \<in> live ex then Some (unat c) else None) \<and> r1 = cs
          | [] \<Rightarrow> r = None \<and> r1 = [] \<and> (ex_delay_wake_cids ex = 0 \<longrightarrow> ex' = ex))"
    using fetch_cases [OF assms] unfolding q by blast
  moreover have "case ready ex 0 of
       c # cs \<Rightarrow> r = Some (unat c) \<and> r0 = cs \<and> r1 = ready ex 1 @ irq_wake ex
     | [] \<Rightarrow> r0 = [] \<and>
         (case ready ex 1 @ irq_wake ex of
            c # cs \<Rightarrow> r = (if 0 \<in> live ex then Some 0 else None) \<and> r1 = cs
          | [] \<Rightarrow> r = None \<and> r1 = [] \<and> (ex_delay_wake_cids ex = 0 \<longrightarrow> ex' = ex))"
    using f c by (cases "ready ex 0"; cases "ready ex 1 @ irq_wake ex") simp_all
  ultimately show ?thesis by blast
qed

text \<open>A coroutine stores its new state, or is removed.\<close>

lemma exec_ok_set_future:
  assumes "exec_ok rp n ex" and "h \<le> n"
  shows "exec_ok rp n (ex\<lparr>ex_tasks_bak := (ex_tasks_bak ex)[h := (ex_tasks_bak ex ! h)\<lparr>co_future := f\<rparr>]\<rparr>)"
    and "fut (ex\<lparr>ex_tasks_bak := (ex_tasks_bak ex)[h := (ex_tasks_bak ex ! h)\<lparr>co_future := f\<rparr>]\<rparr>) = (fut ex)(h := f)"
  using assms by (auto simp: exec_ok_def fut_def nth_list_update fun_eq_iff)

lemma exec_ok_removed:
  assumes ok: "exec_ok rp n ex" and r: "removed ex c ex'" and c: "c \<notin> set (ready ex 0)" "c \<notin> set (ready ex (1 - rp))"
  shows "exec_ok rp n ex'" "fut ex' = fut ex" "ready ex' = ready ex" "ex_delay_wake_cids ex' = ex_delay_wake_cids ex"
proof -
  obtain m a where ex': "ex' = ex\<lparr>ex_tasks := (ex_tasks ex)[unat c := None], ex_coroutine_num := m, ex_cid_allocator := a\<rparr>"
    and wf: "ex_wf ex'" and l: "live ex' = live ex - {unat c}" using r by (auto simp: removed_def)
  note o = exec_okD [OF ok]
  have "ex_tasks ex' ! i = Some i" if "i \<in> live ex'" for i using that o(7) l by (auto simp: ex')
  moreover have "set (ready ex p) \<subseteq> {d. unat d \<in> live ex'}" if "c \<notin> set (ready ex p)" "set (ready ex p) \<subseteq> {d. unat d \<in> live ex}" for p
    using that l by (auto simp flip: word_unat_eq_iff)
  then have "set (ready ex 0) \<subseteq> {d. unat d \<in> live ex'}" "set (ready ex (1 - rp)) \<subseteq> {d. unat d \<in> live ex'}" using c o(12,15) by blast+
  moreover have same: "ready ex' = ready ex" "ex_tasks_bak ex' = ex_tasks_bak ex" "ex_prio_bitmap ex' = ex_prio_bitmap ex"
      "ex_delay_wake_cids ex' = ex_delay_wake_cids ex" by (simp_all add: ex' fun_eq_iff)
  moreover have "live ex' \<subseteq> {..n}" "rp \<le> 1" using o(5,14) l by auto
  ultimately show "exec_ok rp n ex'" unfolding exec_ok_def same using wf o by blast
  show "fut ex' = fut ex" "ready ex' = ready ex" "ex_delay_wake_cids ex' = ex_delay_wake_cids ex" by (simp_all add: ex' fut_def fun_eq_iff)
qed

text \<open>Waking the coroutines that work.\<close>

lemma wake_all_append: "wake_all ex (xs @ ys) = rbind (wake_all ex xs) (\<lambda>ex'. wake_all ex' ys)"
  by (induction xs arbitrary: ex) (simp_all add: rbind_assoc)

lemma exec_ok_wake_all:
  assumes ok: "exec_ok rp n ex" and cs: "\<forall>c\<in>set cs. unat c \<in> live ex \<and> c \<noteq> 0"
    and room: "length (ready ex 0) + length cs \<le> MAX_TASK_NUM - 1" "length (ready ex 1) + length cs \<le> MAX_TASK_NUM - 1"
  shows "\<exists>ex'. wake_all ex cs = Inr ex' \<and> exec_ok rp n ex' \<and> live ex' = live ex \<and> ex_tasks_bak ex' = ex_tasks_bak ex \<and>
    ready ex' (1 - rp) = ready ex (1 - rp) @ cs \<and> ready ex' rp = ready ex rp \<and> ex_delay_wake_cids ex' = ex_delay_wake_cids ex \<and> ex_current ex' = ex_current ex"
proof -
  note o = exec_okD [OF ok]
  have "ready ex p = []" if "p < MAX_PRIO_NUM" "p \<noteq> 0" "p \<noteq> 1" for p
    using o(2,9) that unfolding queues_wf_def by blast
  then have "length (ready ex p) + length cs \<le> MAX_TASK_NUM - 1" if "p < MAX_PRIO_NUM" for p
    using room that by (cases "p = 0 \<or> p = 1") auto
  moreover have "unat c < MAX_TASK_NUM" if "c \<in> set cs" for c using cs that o(4,5) by fastforce
  ultimately obtain ex' where w: "wake_all ex cs = Inr ex'" using wake_all_ok [OF o(1), of cs] by auto
  have prio: "prio_of ex (unat c) = 1 - rp" if "c \<in> set cs" for c
    using exec_ok_prio [OF ok, of "unat c"] cs that by (auto simp: unat_eq_0)
  have wk: "woken ex cs p = (if p = 1 - rp then cs else [])" for p
    using cs prio by (auto simp: woken_def filter_id_conv filter_empty_conv)
  obtain bm rq where ex': "ex' = ex\<lparr>ex_prio_bitmap := bm, ex_ready_queue := rq\<rparr>" and wf: "ex_wf ex'"
    and rd: "\<forall>p<MAX_PRIO_NUM. ready ex' p = ready ex p @ woken ex cs p \<and>
       (p \<in> bm64_elems (ex_prio_bitmap ex') \<longleftrightarrow> p \<in> bm64_elems (ex_prio_bitmap ex) \<or> woken ex cs p \<noteq> [])"
    using wake_all_inv [OF o(1) w] by blast
  have r: "ready ex' p = ready ex p @ (if p = 1 - rp then cs else [])" if "p \<le> 1" for p
    using rd [rule_format, of p] that wk by (simp add: ex_consts)
  have b: "p \<in> bm64_elems bm \<longleftrightarrow> p \<in> bm64_elems (ex_prio_bitmap ex) \<or> p = 1 - rp \<and> cs \<noteq> []" if "p < MAX_PRIO_NUM" for p
    using rd that wk by (auto simp: ex')
  have el: "bm64_elems bm \<subseteq> {0, 1}"
  proof
    fix p assume p: "p \<in> bm64_elems bm"
    then have "p < MAX_PRIO_NUM" using wf by (auto simp: ex_wf_def queues_wf_def ex')
    with b p o(9) show "p \<in> {0, 1}" by auto
  qed
  have el0: "0 \<in> bm64_elems bm \<longleftrightarrow> ready ex' 0 \<noteq> []" using b [of 0] o(10) r [of 0] by (auto simp: ex_consts)
  have up: "ex' = ex\<lparr>ex_delay_wake_cids := ex_delay_wake_cids ex, ex_prio_bitmap := bm, ex_ready_queue := rq, ex_current := ex_current ex\<rparr>"
    by (simp add: ex')
  have q: "queues_wf ex'" using wf by (simp add: ex_wf_def)
  have rr: "ready ex' (1 - rp) = ready ex (1 - rp) @ cs" "ready ex' rp = ready ex rp" using r [of "1 - rp"] r [of rp] o(14) by auto
  then have "set (ready ex' rp) \<subseteq> {0}" using o(11) by simp
  moreover have "set (ready ex' p) \<subseteq> {c. unat c \<in> live ex}" if "p \<in> {0, 1 - rp}" for p
    using r [of p] that o(12,15) cs by auto
  ultimately have "exec_ok rp n ex'" "live ex' = live ex" "ex_tasks_bak ex' = ex_tasks_bak ex"
    using exec_ok_queues [OF ok up q el el0 _ _ o(13)] by simp_all
  with w rr show ?thesis by (auto simp: ex')
qed

text \<open>The receiver is suspended again, or removed when it has ended.\<close>

lemma receiver_stored:
  fixes f :: 'f
  assumes ok: "exec_ok rp n ex" and "0 \<in> live ex" and "0 \<notin> set (ready ex 0)" "0 \<notin> set (ready ex (1 - rp))"
  defines "ex1 \<equiv> ex\<lparr>ex_tasks_bak := (ex_tasks_bak ex)[0 := (ex_tasks_bak ex ! 0)\<lparr>co_future := f\<rparr>]\<rparr>"
  shows "\<exists>ex'. (if fin then remove_task ex1 0 = Inr ex' else ex' = ex1) \<and> exec_ok rp n ex' \<and> live ex' = live ex - (if fin then {0} else {}) \<and>
    fut ex' = (fut ex)(0 := f) \<and> ready ex' = ready ex \<and> ex_delay_wake_cids ex' = ex_delay_wake_cids ex"
proof -
  note e1 = exec_ok_set_future [OF ok, of 0 f, simplified, folded ex1_def]
  have l1: "live ex1 = live ex" "ready ex1 = ready ex" "ex_delay_wake_cids ex1 = ex_delay_wake_cids ex"
    by (simp_all add: ex1_def live_def ready_def fun_eq_iff)
  then obtain ex' where r: "remove_task ex1 0 = Inr ex'" "removed ex1 0 ex'"
    using remove_task_ok [OF exec_okD(1) [OF e1(1)], of 0] assms(2) by auto
  have "0 \<notin> set (ready ex1 0)" "0 \<notin> set (ready ex1 (1 - rp))" using assms(3,4) l1 by simp_all
  note e' = exec_ok_removed [OF e1(1) r(2) this]
  have "live ex' = live ex - {0}" using r(2) l1 by (simp add: removed_def)
  then show ?thesis using r(1) e' e1 l1 by (cases fin) auto
qed

text \<open>The coroutines are spawned: the receiver first, then the others.\<close>

lemma exec_ok_first:
  assumes sp: "spawned executor_new f p cid ex" and p: "p \<le> 1"
  shows "cid = 0" "exec_ok p 0 ex" "live ex = {0}" "fut ex 0 = f" "ready ex p = [0]" "ready ex (1 - p) = []" "ex_delay_wake_cids ex = 0"
proof -
  have new: "live (executor_new :: 'a executor) = {}" "bm64_elems (ex_prio_bitmap (executor_new :: 'a executor)) = {}"
    "\<And>q. q < MAX_PRIO_NUM \<Longrightarrow> ready (executor_new :: 'a executor) q = []" by (simp_all add: ex_consts)
  have "{..<unat cid} = {}" using sp new(1) by (auto simp: spawned_def)
  then have "\<not> 0 < unat cid" by auto
  then show c: "cid = 0" by (simp add: unat_eq_0)
  have wf: "ex_wf ex" using sp by (simp add: spawned_def)
  have p01: "p = 0 \<or> p = 1" using p by auto
  then have q: "p < MAX_PRIO_NUM" "1 - p < MAX_PRIO_NUM" "1 - p \<noteq> p" by (auto simp: ex_consts)
  have bak: "ex_tasks_bak ex = [\<lparr>co_cid = 0, co_prio = p, co_future = f\<rparr>]" and l: "live ex = {0}" and r: "ready ex p = [0]" "ready ex (1 - p) = []"
    and bm: "bm64_elems (ex_prio_bitmap ex) = {p}" and d: "ex_delay_wake_cids ex = 0" and t: "ex_tasks ex ! 0 = Some 0"
    using sp new c q by (auto simp: spawned_def executor_new_def ex_consts)
  show "live ex = {0}" "ready ex p = [0]" "ready ex (1 - p) = []" "ex_delay_wake_cids ex = 0" using l r d by blast+
  show "fut ex 0 = f" by (simp add: fut_def bak)
  have n: "(0 :: nat) < MAX_TASK_NUM" by (simp add: MAX_TASK_NUM_def)
  show "exec_ok p 0 ex"
  proof (cases "p = 0")
    case True
    with wf l r bak bm d t n show ?thesis by (simp add: exec_ok_def)
  next
    case False
    then have "p = 1" using p01 by simp
    with wf l r bak bm d t n show ?thesis by (simp add: exec_ok_def)
  qed
qed

lemma exec_ok_next:
  assumes ok: "exec_ok rp n ex" and l: "live ex = {..n}" and sp: "spawned ex f (1 - rp) cid ex'" and n: "Suc n < MAX_TASK_NUM"
  shows "cid = of_nat (Suc n)" "exec_ok rp (Suc n) ex'" "live ex' = {..Suc n}" "\<And>i. i \<le> Suc n \<Longrightarrow> fut ex' i = (if i = Suc n then f else fut ex i)"
    "ready ex' (1 - rp) = ready ex (1 - rp) @ [of_nat (Suc n)]" "ready ex' rp = ready ex rp" "ex_delay_wake_cids ex' = ex_delay_wake_cids ex"
proof -
  note o = exec_okD [OF ok]
  have "unat cid \<notin> {..n}" "{..<unat cid} \<subseteq> {..n}" using sp l by (auto simp: spawned_def)
  then have "n < unat cid" "\<not> Suc n < unat cid" by auto
  then have c: "unat cid = Suc n" by simp
  then show c': "cid = of_nat (Suc n)" by (metis of_nat_unat ucast_id)
  have q: "rp < MAX_PRIO_NUM" "1 - rp < MAX_PRIO_NUM" "1 - rp \<noteq> rp" using o(14) by (auto simp: ex_consts)
  have s: "ex_wf ex'" "live ex' = {..Suc n}" "ex_tasks ex' = (ex_tasks ex)[Suc n := Some (length (ex_tasks_bak ex))]"
      "ex_tasks_bak ex' = ex_tasks_bak ex @ [\<lparr>co_cid = cid, co_prio = 1 - rp, co_future = f\<rparr>]"
      "ready ex' (1 - rp) = ready ex (1 - rp) @ [cid]" "ready ex' rp = ready ex rp"
      "bm64_elems (ex_prio_bitmap ex') = insert (1 - rp) (bm64_elems (ex_prio_bitmap ex))" "ex_delay_wake_cids ex' = ex_delay_wake_cids ex"
    using sp l c q by (auto simp: spawned_def)
  then show "live ex' = {..Suc n}" "ready ex' (1 - rp) = ready ex (1 - rp) @ [of_nat (Suc n)]" "ready ex' rp = ready ex rp"
    "ex_delay_wake_cids ex' = ex_delay_wake_cids ex" using c' by simp_all
  show "fut ex' i = (if i = Suc n then f else fut ex i)" if "i \<le> Suc n" for i
    using that s(4) o(6) by (auto simp: fut_def nth_append)
  have len: "length (ex_tasks ex) = MAX_TASK_NUM" using o(3) by (simp add: tasks_wf_def)
  have sub: "set (ready ex' p) \<subseteq> {c. unat c \<in> live ex'}" if "p \<in> {0, 1 - rp}" for p
  proof -
    have "set (ready ex p) \<subseteq> {c. unat c \<in> live ex}" using that o(12,15) by auto
    moreover have "set (ready ex' p) \<subseteq> insert cid (set (ready ex p))" using that s(5,6) o(14) by auto
    ultimately show ?thesis using c l s(2) by fastforce
  qed
  show "exec_ok rp (Suc n) ex'" unfolding exec_ok_def
  proof (intro conjI)
    show "\<forall>i\<in>live ex'. ex_tasks ex' ! i = Some i" using s(2,3) l o(6,7) len n by (auto simp: nth_list_update le_Suc_eq)
    show "\<forall>i\<le>Suc n. co_prio (ex_tasks_bak ex' ! i) = (if i = 0 then rp else 1 - rp)" using s(4) o(6,8) by (auto simp: nth_append less_Suc_eq_le)
    show "set (ready ex' 0) \<subseteq> {c. unat c \<in> live ex'}" "set (ready ex' (1 - rp)) \<subseteq> {c. unat c \<in> live ex'}" using sub by blast+
    show "0 \<in> bm64_elems (ex_prio_bitmap ex') \<longleftrightarrow> ready ex' 0 \<noteq> []" using s(5,6,7) o(10,14) by auto
    show "bm64_elems (ex_prio_bitmap ex') \<subseteq> {0, 1}" using s(7) o(9,14) by auto
  qed (use s o n in auto)
qed

section \<open>A thread and its executor\<close>

text \<open>A turn that polls a coroutine.\<close>

lemma turn_polls:
  assumes "fetch ex = Inr (Some h, ex1)" and "poll (fut ex1 h) ex1 w = Inr (p, fu, ex0, w')"
  shows "run_turn poll ex w =
    (let ex2 = ex0\<lparr>ex_tasks_bak := (ex_tasks_bak ex0)[h := (ex_tasks_bak ex0 ! h)\<lparr>co_future := fu\<rparr>]\<rparr> in
     case p of
       Ready \<Rightarrow> rbind (remove_task ex2 (co_cid (ex_tasks_bak ex1 ! h))) (\<lambda>ex3. Inr (True, ex3, w'))
     | Pending \<Rightarrow> Inr (True, ex2, w'))"
  using assms by (simp add: run_turn_def execute_def fut_def Let_def split: poll_result.split)

lemma th_wf_with_exec: "th_wf th \<Longrightarrow> ex_wf ex \<Longrightarrow> th_wf (th\<lparr>th_exec := ex\<rparr>)"
  by (simp add: th_wf_def)

text \<open>A value left for a coroutine that resumes is taken.\<close>

lemma yield_resume:
  assumes "th_wf th" and "ex_current (th_exec th) = Some c" and "unat c < MAX_TASK_NUM"
  shows "\<exists>v. yield_now_resume th = Inr (v, th\<lparr>th_immediate_value := (th_immediate_value th)[unat c := None]\<rparr>)"
    and "\<exists>r. seL4_Call_with_item_resume th = Inr (r, th\<lparr>th_immediate_value := (th_immediate_value th)[unat c := None]\<rparr>)"
proof -
  show "\<exists>v. yield_now_resume th = Inr (v, th\<lparr>th_immediate_value := (th_immediate_value th)[unat c := None]\<rparr>)"
    using assms by (simp add: yield_now_resume_def coroutine_get_current_def th_wf_def index_res_def)
  then obtain v where "yield_now_resume th = Inr (v, th\<lparr>th_immediate_value := (th_immediate_value th)[unat c := None]\<rparr>)" ..
  then show "\<exists>r. seL4_Call_with_item_resume th = Inr (r, th\<lparr>th_immediate_value := (th_immediate_value th)[unat c := None]\<rparr>)"
    by (cases v) (simp_all add: seL4_Call_with_item_resume_def)
qed

text \<open>An interrupt marks the receiver.\<close>

lemma interrupt_marks:
  assumes ok: "exec_ok rp n (th_exec th)" and wf: "th_wf th" and b: "badge < 64" "th_wake_map th badge = Some 0" and cnt: "th_uint_trigger th + 1 < 2 ^ 64"
  shows "\<exists>d. uintr_handler th (push_bit badge 1) =
      Inr (0, th\<lparr>th_uint_trigger := th_uint_trigger th + 1, th_exec := (th_exec th)\<lparr>ex_delay_wake_cids := d\<rparr>\<rparr>) \<and>
    d \<noteq> 0 \<and> exec_ok rp n ((th_exec th)\<lparr>ex_delay_wake_cids := d\<rparr>) \<and> fut ((th_exec th)\<lparr>ex_delay_wake_cids := d\<rparr>) = fut (th_exec th) \<and>
    th_wf (th\<lparr>th_uint_trigger := th_uint_trigger th + 1, th_exec := (th_exec th)\<lparr>ex_delay_wake_cids := d\<rparr>\<rparr>)"
proof -
  let ?ex = "th_exec th"
  define irqs where "irqs = (push_bit badge 1 :: u64)"
  have bits: "bit irqs v \<longleftrightarrow> v = badge" for v using b(1) by (auto simp: bit_simps irqs_def)
  obtain d where h: "uintr_handler th irqs = Inr (0, th\<lparr>th_uint_trigger := th_uint_trigger th + 1, th_exec := ?ex\<lparr>ex_delay_wake_cids := d\<rparr>\<rparr>)"
    and d: "\<forall>j. bit d j \<longleftrightarrow> bit (ex_delay_wake_cids ?ex) j \<or> j = 0"
    using uintr_handler_spec [OF cnt, of irqs] b(2) by (cases "uintr_handler th irqs") (auto simp: bits)
  have d0: "d \<noteq> 0" using d by (metis bit_0_eq bot_apply bot_bool_def)
  have ex': "exec_ok rp n (?ex\<lparr>ex_delay_wake_cids := d\<rparr>)" "fut (?ex\<lparr>ex_delay_wake_cids := d\<rparr>) = fut ?ex"
    using ok d by (auto simp: exec_ok_def ex_wf_def fut_def fun_eq_iff)
  have "th_wf (th\<lparr>th_uint_trigger := th_uint_trigger th + 1, th_exec := ?ex\<lparr>ex_delay_wake_cids := d\<rparr>\<rparr>)"
    using wf exec_okD(1) [OF ex'(1)] by (simp add: th_wf_def)
  with h d0 ex' show ?thesis by (auto simp: irqs_def)
qed

text \<open>The loop of a receiver of replies: every reply is delivered and its coroutine woken; the loop ends with
  the last reply expected.\<close>

lemma recv_reply_all:
  assumes b: "th_buffers th ptr = Some nb" "iq_wf (nb_res_items nb)" and its: "srb_list (nb_res_items nb) = its"
    and iv: "\<forall>it\<in>set its. unat (item_cid it) < length (th_immediate_value th)" and w: "wake_all (th_exec th) (map item_cid its) = Inr ex'"
    and n: "cnt < num" "cnt + length its \<le> num" "num < 2 ^ 64"
  defines "fin \<equiv> cnt + length its = num"
  shows "\<exists>q. recv_reply_loop ptr num cnt th = Inr (if fin then Ready else Pending, cnt + length its,
      th\<lparr>th_buffers := (th_buffers th)(ptr \<mapsto> nb\<lparr>nb_res_items := q, nb_recv_reply_status := fin \<and> nb_recv_reply_status nb\<rparr>),
        th_immediate_value := deliver (th_immediate_value th) its, th_exec := ex'\<rparr>) \<and> iq_wf q \<and> srb_list q = []"
proof (cases fin)
  case False
  with n have lt: "cnt + length its < num" by (simp add: fin_def)
  obtain q where q: "iq_wf q" "srb_list q = []" and loop: "recv_reply_loop ptr num cnt th =
      recv_reply_loop ptr num (cnt + length its) (th\<lparr>th_buffers := (th_buffers th)(ptr \<mapsto> nb\<lparr>nb_res_items := q\<rparr>),
        th_immediate_value := deliver (th_immediate_value th) its, th_exec := ex'\<rparr>)"
    using recv_reply_prefix [OF b, of its "[]" ex' cnt num] its iv w lt n(3) by auto
  show ?thesis
    unfolding loop using False q by (intro exI [of _ q]) (simp add: recv_reply_loop.simps iq.pop_empty [OF q])
next
  case True
  with n(1) have "its \<noteq> []" by (auto simp: fin_def)
  then obtain xs it where xs: "its = xs @ [it]" by (metis rev_exhaust)
  obtain ex1 where w1: "wake_all (th_exec th) (map item_cid xs) = Inr ex1" "wake ex1 (item_cid it) = Inr ex'"
    using w by (auto simp: xs wake_all_append)
  obtain q where q: "iq_wf q" "srb_list q = [it]" and loop: "recv_reply_loop ptr num cnt th =
      recv_reply_loop ptr num (cnt + length xs) (th\<lparr>th_buffers := (th_buffers th)(ptr \<mapsto> nb\<lparr>nb_res_items := q\<rparr>),
        th_immediate_value := deliver (th_immediate_value th) xs, th_exec := ex1\<rparr>)"
    using recv_reply_prefix [OF b, of xs "[it]" ex1 cnt num] its iv w1 True n by (auto simp: xs fin_def)
  let ?th = "th\<lparr>th_buffers := (th_buffers th)(ptr \<mapsto> nb\<lparr>nb_res_items := q\<rparr>),
        th_immediate_value := deliver (th_immediate_value th) xs, th_exec := ex1\<rparr>"
  have ne: "cnt + length xs + 1 = num" using True by (simp add: fin_def xs)
  obtain q' where q': "iq_wf q'" "srb_list q' = []" and lst: "recv_reply_loop ptr num (cnt + length xs) ?th =
      Inr (Ready, num, ?th\<lparr>th_buffers := (th_buffers ?th)(ptr \<mapsto> nb\<lparr>nb_res_items := q\<rparr>\<lparr>nb_res_items := q'\<rparr>),
        th_immediate_value := (th_immediate_value ?th)[unat (item_cid it) := Some it], th_exec := ex'\<rparr>)"
    using recv_reply_step [of ?th ptr "nb\<lparr>nb_res_items := q\<rparr>" it "[]" ex' "cnt + length xs" num] q w1(2) iv ne n(3)
    by (auto simp: xs Let_def)
  have "deliver iv (xs @ [it]) = (deliver iv xs)[unat (item_cid it) := Some it]" for iv by (induction xs arbitrary: iv) simp_all
  then show ?thesis
    unfolding loop lst using True q' ne by (intro exI [of _ q']) (simp add: xs fin_def)
qed

end
