(* ===== verification/Reply_Server.thy ===== *)
theory Reply_Server
  imports Syscall_Test Matrix
begin

text \<open>
  The serving side of a shared buffer.  The contract \<open>reply_server\<close> says what a client's coroutines rely
  on, whoever serves them: the kernel's handler of asynchronous system calls, which is not part of
  the repository, or a server coroutine.  It is interpreted on the repository's own server,
  \<^verbatim>\<open>recv_req_coroutine\<close> of \<^verbatim>\<open>src/ipc_test.rs\<close>.
\<close>

section \<open>Contract\<close>

abbreviation reqs :: "new_buffer \<Rightarrow> ipc_item list" where "reqs nb \<equiv> srb_list (nb_req_items nb)"
abbreviation ress :: "new_buffer \<Rightarrow> ipc_item list" where "ress nb \<equiv> srb_list (nb_res_items nb)"

text \<open>\<open>serve nb its irq nb'\<close>: on the buffer \<open>nb\<close> the server may take the requests \<open>its\<close>, raise the user interrupt
  if \<open>irq\<close>, and leave \<open>nb'\<close>.  Requests are taken in order and answered to the coroutine that made them;
  the receiver is interrupted when its flag is clear; with no request left the server clears its
  own flag and sleeps.  A server that is awake, with room for the replies, makes a step.  The server of the IPC benchmark
  is shown to keep this contract; of the kernel's handler of asynchronous system calls, which is not part of the
  repository, it is an assumption.\<close>

type_synonym handler = "new_buffer \<Rightarrow> ipc_item list \<Rightarrow> bool \<Rightarrow> new_buffer \<Rightarrow> bool"

definition served_by :: handler where
  "served_by nb its irq nb' \<longleftrightarrow> nb_wf nb' \<and>
     (if its = []
      then reqs nb = [] \<and> nb' = nb\<lparr>nb_recv_req_status := False\<rparr> \<and> \<not> irq
      else reqs nb = its @ reqs nb' \<and> (\<exists>rs. ress nb' = ress nb @ rs \<and> map item_cid rs = map item_cid its) \<and>
        nb_recv_req_status nb' = nb_recv_req_status nb \<and> nb_recv_reply_status nb' \<and> (irq \<longleftrightarrow> \<not> nb_recv_reply_status nb))"

locale reply_server =
  fixes serve :: handler
  assumes serve_step: "nb_wf nb \<Longrightarrow> serve nb its irq nb' \<Longrightarrow> served_by nb its irq nb'"
    and serve_awake: "nb_wf nb \<Longrightarrow> nb_recv_req_status nb \<Longrightarrow> length (reqs nb) + length (ress nb) \<le> MAX_ITEM_NUM \<Longrightarrow>
      \<exists>its irq nb'. serve nb its irq nb'"

section \<open>The server of the IPC benchmark\<close>

definition SEND_NUM :: usize where "SEND_NUM = 20480"
definition MATRIX_SIZE :: nat where "MATRIX_SIZE = 4"

text \<open>One iteration of the loop.  \<open>matrix\<close> is the outcome of \<^verbatim>\<open>matrix_test\<close>, whose result is dropped; it is
  \<^term>\<open>matrix_test_in checks MATRIX_SIZE\<close>, the build deciding whether overflow is checked.\<close>

definition recv_req_turn :: "'m res \<Rightarrow> sender_id option \<Rightarrow> new_buffer \<Rightarrow> (ipc_item option \<times> signal list \<times> new_buffer) res" where
  "recv_req_turn matrix server_sender_id nb =
     rbind (get_first_item (nb_req_items nb)) (\<lambda>(r, q). case r of
       Some item \<Rightarrow>
         rbind matrix (\<lambda>_.
         rbind (write_free_item (nb_res_items nb) item) (\<lambda>w. case w of
           Inl u \<Rightarrow> Inl UnwrapErr
         | Inr p \<Rightarrow>
             let nb1 = nb\<lparr>nb_req_items := q, nb_res_items := p\<rparr> in
             if nb_recv_reply_status nb1 = False
             then rbind (unwrap server_sender_id) (\<lambda>sid. Inr (Some item, [Uipi sid], nb1\<lparr>nb_recv_reply_status := True\<rparr>))
             else Inr (Some item, [], nb1)))
     | None \<Rightarrow> Inr (None, [], nb\<lparr>nb_req_items := q, nb_recv_req_status := False\<rparr>))"

definition req_queue_count :: "usize \<Rightarrow> 'f thread \<Rightarrow> nat" where
  "req_queue_count ptr th = (case th_buffers th ptr of None \<Rightarrow> 0 | Some nb \<Rightarrow> srb_count (nb_req_items nb))"

definition served_thread :: "usize \<Rightarrow> new_buffer \<Rightarrow> signal list \<Rightarrow> 'f thread \<Rightarrow> 'f thread" where
  "served_thread ptr nb sg th = th\<lparr>th_buffers := (th_buffers th)(ptr \<mapsto> nb), th_signals := th_signals th @ sg\<rparr>"

lemma recv_req_turn_count:
  "recv_req_turn matrix sid nb = Inr (Some item, sg, nb') \<Longrightarrow> srb_count (nb_req_items nb') < srb_count (nb_req_items nb)"
  by (auto simp: recv_req_turn_def Let_def unwrapped_Inr_iff dest: get_first_item_count split: option.splits if_splits)

text \<open>The loop from one suspension to the next; \<open>req_num\<close> is the function's static counter.\<close>

function ipc_recv_req_loop :: "'m res \<Rightarrow> async_args \<Rightarrow> usize \<Rightarrow> usize \<Rightarrow> 'f thread \<Rightarrow> (poll_result \<times> usize \<times> 'f thread) res" where
  "ipc_recv_req_loop matrix args ptr req_num th =
     (case th_buffers th ptr of
        None \<Rightarrow> Inl BadPointer
      | Some nb \<Rightarrow>
          rbind (recv_req_turn matrix (aa_server_sender_id args) nb) (\<lambda>(r, sg, nb'). case r of
            Some item \<Rightarrow>
              rbind (add_usize req_num 1) (\<lambda>n.
              if n = SEND_NUM then Inr (Ready, n, served_thread ptr nb' sg th)
              else ipc_recv_req_loop matrix args ptr n (served_thread ptr nb' sg th))
          | None \<Rightarrow> Inr (Pending, req_num, served_thread ptr nb' sg th)))"
  by pat_completeness auto
termination
  by (relation "measure (\<lambda>(matrix, args, ptr, n, th). req_queue_count ptr th)")
    (auto simp: req_queue_count_def served_thread_def dest: recv_req_turn_count)

declare ipc_recv_req_loop.simps [simp del]

definition recv_req_coroutine_poll ::
  "'m res \<Rightarrow> async_args \<Rightarrow> bool \<Rightarrow> usize \<Rightarrow> 'f thread \<Rightarrow> (poll_result \<times> usize \<times> 'f thread) res" where
  "recv_req_coroutine_poll matrix args first req_num th =
     rbind (unwrap (aa_ipc_new_buffer args)) (\<lambda>ptr.
     if first then ipc_recv_req_loop matrix args ptr req_num th
     else rbind (yield_now_resume th) (\<lambda>(v, th'). ipc_recv_req_loop matrix args ptr req_num th'))"

section \<open>The server keeps the contract\<close>

definition ipc_serve :: "'m \<Rightarrow> sender_id \<Rightarrow> handler" where
  "ipc_serve m sid nb its irq nb' \<longleftrightarrow>
     recv_req_turn (Inr m) (Some sid) nb = Inr (case its of [] \<Rightarrow> None | it # _ \<Rightarrow> Some it, if irq then [Uipi sid] else [], nb') \<and> length its \<le> 1"

lemma recv_req_turn_served:
  assumes wf: "nb_wf nb" and q: "reqs nb = it # its" and room: "length (ress nb) < MAX_ITEM_NUM"
  shows "\<exists>nb'. recv_req_turn (Inr m) (Some sid) nb = Inr (Some it, if nb_recv_reply_status nb then [] else [Uipi sid], nb') \<and>
    nb_wf nb' \<and> reqs nb' = its \<and> ress nb' = ress nb @ [it] \<and> nb_recv_req_status nb' = nb_recv_req_status nb \<and> nb_recv_reply_status nb'"
proof -
  obtain q' where "get_first_item (nb_req_items nb) = Inr (Some it, q')" "iq_wf q'" "srb_list q' = its"
    using iq.pop_ok [of "nb_req_items nb" it its] wf q by (auto simp: nb_wf_def)
  moreover obtain p where "write_free_item (nb_res_items nb) it = Inr (Inr p)" "iq_wf p" "srb_list p = ress nb @ [it]"
    using iq.push_ok [of "nb_res_items nb" it] wf room by (auto simp: nb_wf_def)
  ultimately show ?thesis by (auto simp: recv_req_turn_def nb_wf_def)
qed

lemma recv_req_turn_idle:
  assumes "nb_wf nb" and "reqs nb = []"
  shows "recv_req_turn matrix sid nb = Inr (None, [], nb\<lparr>nb_recv_req_status := False\<rparr>)"
  using iq.pop_empty [of "nb_req_items nb"] assms by (simp add: recv_req_turn_def nb_wf_def)

lemma recv_req_turn_full:
  assumes wf: "nb_wf nb" and q: "reqs nb = it # its" and full: "\<not> length (ress nb) < MAX_ITEM_NUM"
  shows "isl (recv_req_turn (Inr m) sid nb)"
proof -
  obtain q' where "get_first_item (nb_req_items nb) = Inr (Some it, q')"
    using iq.pop_ok [of "nb_req_items nb" it its] wf q by (auto simp: nb_wf_def)
  moreover have "write_free_item (nb_res_items nb) it = Inr (Inl ())"
    using iq.push_full [of "nb_res_items nb" it] iq.contents_bound [of "nb_res_items nb"] wf full by (auto simp: nb_wf_def)
  ultimately show ?thesis by (simp add: recv_req_turn_def)
qed

interpretation ipc: reply_server "ipc_serve m sid"
proof
  fix nb its irq nb'
  assume wf: "nb_wf nb" and s: "ipc_serve m sid nb its irq nb'"
  show "served_by nb its irq nb'"
  proof (cases "reqs nb")
    case Nil
    with s recv_req_turn_idle [OF wf, of "Inr m" "Some sid"] wf show ?thesis
      by (auto simp: ipc_serve_def served_by_def nb_wf_def split: list.splits if_splits)
  next
    case (Cons it rest)
    have room: "length (ress nb) < MAX_ITEM_NUM" using recv_req_turn_full [OF wf Cons, of m "Some sid"] s by (auto simp: ipc_serve_def)
    from recv_req_turn_served [OF wf Cons room, of m sid] s Cons show ?thesis
      by (cases its) (auto simp: ipc_serve_def served_by_def split: if_splits)
  qed
next
  fix nb
  assume wf: "nb_wf nb" and room: "length (reqs nb) + length (ress nb) \<le> MAX_ITEM_NUM"
  show "\<exists>its irq nb'. ipc_serve m sid nb its irq nb'"
  proof (cases "reqs nb")
    case Nil
    then show ?thesis using recv_req_turn_idle [OF wf, of "Inr m" "Some sid"]
      by (intro exI [of _ "[]"] exI [of _ False]) (simp add: ipc_serve_def)
  next
    case (Cons it rest)
    then have "length (ress nb) < MAX_ITEM_NUM" using room by simp
    from recv_req_turn_served [OF wf Cons this, of m sid] show ?thesis
      by (auto simp: ipc_serve_def intro!: exI [of _ "[it]"] exI [of _ "\<not> nb_recv_reply_status nb"])
  qed
qed

text \<open>A poll of the server serves everything in the queue, in order, and goes to sleep, or ends with the last request
  expected; it interrupts the client once, if the client's receiver was idle.\<close>

lemma ipc_recv_req_all:
  assumes "th_buffers th ptr = Some nb" and "nb_wf nb" and "length (reqs nb) + length (ress nb) \<le> MAX_ITEM_NUM"
    and "req_num < SEND_NUM" "req_num + length (reqs nb) \<le> SEND_NUM" and "aa_server_sender_id args = Some sid"
  shows "\<exists>nb'. ipc_recv_req_loop (Inr m) args ptr req_num th =
      Inr (if req_num + length (reqs nb) = SEND_NUM then Ready else Pending, req_num + length (reqs nb),
        served_thread ptr nb' (if reqs nb = [] \<or> nb_recv_reply_status nb then [] else [Uipi sid]) th) \<and>
    nb_wf nb' \<and> reqs nb' = [] \<and> ress nb' = ress nb @ reqs nb \<and>
    (nb_recv_req_status nb' \<longleftrightarrow> req_num + length (reqs nb) = SEND_NUM \<and> nb_recv_req_status nb) \<and>
    (nb_recv_reply_status nb' \<longleftrightarrow> reqs nb \<noteq> [] \<or> nb_recv_reply_status nb)"
  using assms
proof (induction "reqs nb" arbitrary: nb th req_num)
  case Nil
  then show ?case using recv_req_turn_idle [of nb "Inr m" "Some sid"] by (subst ipc_recv_req_loop.simps) (auto simp: nb_wf_def)
next
  case (Cons it its)
  have q: "reqs nb = it # its" using Cons.hyps(2) by simp
  have "length (ress nb) < MAX_ITEM_NUM" using Cons.prems(3) q by simp
  with recv_req_turn_served [OF Cons.prems(2) q, of m sid] obtain nb1 where
    t: "recv_req_turn (Inr m) (Some sid) nb = Inr (Some it, if nb_recv_reply_status nb then [] else [Uipi sid], nb1)"
    and nb1: "nb_wf nb1" "reqs nb1 = its" "ress nb1 = ress nb @ [it]" "nb_recv_req_status nb1 = nb_recv_req_status nb" "nb_recv_reply_status nb1" by blast
  let ?th = "served_thread ptr nb1 (if nb_recv_reply_status nb then [] else [Uipi sid]) th"
  have th: "th_buffers ?th ptr = Some nb1" by (simp add: served_thread_def)
  have merge: "served_thread ptr nb' [] ?th = served_thread ptr nb' (if reqs nb = [] \<or> nb_recv_reply_status nb then [] else [Uipi sid]) th" for nb'
    using q by (simp add: served_thread_def)
  have add: "add_usize req_num (Suc 0) = Inr (Suc req_num)" using Cons.prems(4) by (simp add: add_usize_def SEND_NUM_def)
  show ?case
  proof (cases "req_num + 1 = SEND_NUM")
    case True
    then have "length its = 0" using Cons.prems(5) q by (simp only: list.size)
    then have "its = []" by simp
    moreover have "ipc_recv_req_loop (Inr m) args ptr req_num th = Inr (Ready, req_num + 1, ?th)"
      using t Cons.prems(1,6) add True by (subst ipc_recv_req_loop.simps) (simp del: add_usize_Inr_iff)
    ultimately show ?thesis using True q nb1 by (intro exI [of _ nb1]) simp
  next
    case False
    have "length (reqs nb1) + length (ress nb1) \<le> MAX_ITEM_NUM" "req_num + 1 < SEND_NUM" "req_num + 1 + length (reqs nb1) \<le> SEND_NUM"
      using Cons.prems(3-5) q nb1 False by simp_all
    note ih = Cons.hyps(1) [OF nb1(2) [symmetric] th nb1(1) this Cons.prems(6)]
    have step: "ipc_recv_req_loop (Inr m) args ptr req_num th = ipc_recv_req_loop (Inr m) args ptr (req_num + 1) ?th"
      using t Cons.prems(1,6) add False by (subst ipc_recv_req_loop.simps) (simp del: add_usize_Inr_iff)
    have n: "req_num + 1 + length (reqs nb1) = req_num + length (reqs nb)" using q nb1(2) by simp
    show ?thesis unfolding step using ih [unfolded n] nb1 merge q by auto
  qed
qed

end
