(* ===== verification/Test_Polls.thy ===== *)
theory Test_Polls
  imports Run_Loop Reply_Server
begin

text \<open>
  The coroutines of the system-call benchmark (\<^verbatim>\<open>src/syscall_test.rs\<close>) poll by poll: the coroutine of a
  frame submits its next call or ends, and the receiver of replies takes every reply and wakes
  the coroutine it is for.
\<close>

section \<open>Polls of the coroutines\<close>

text \<open>The calls of the coroutine of a frame, in order, and how many of them a coroutine has still to make.\<close>

definition map_call :: "test_env \<Rightarrow> coroutine_id \<Rightarrow> u64 \<times> usize \<Rightarrow> ipc_item" where
  "map_call env c fv = item_riscv_page_map c (fst fv) (te_vspace env) (of_nat (snd fv)) (te_rights env) (te_attrs env)"

definition unmap_call :: "coroutine_id \<Rightarrow> u64 \<times> usize \<Rightarrow> ipc_item" where
  "unmap_call c fv = item_riscv_page_unmap c (fst fv)"

definition all_calls :: "test_env \<Rightarrow> coroutine_id \<Rightarrow> u64 \<times> usize \<Rightarrow> ipc_item list" where
  "all_calls env c fv = concat (replicate EPOCH [map_call env c fv, unmap_call c fv])"

fun calls_left :: "test_future \<Rightarrow> nat" where
  "calls_left (MemStart f v) = 2 * EPOCH"
| "calls_left (MemInMap f v n) = 2 * n + 1"
| "calls_left (MemInUnmap f v n) = 2 * n"
| "calls_left _ = 0"

text \<open>The future is that of the coroutine of the frame.\<close>

fun tests_frame :: "u64 \<times> usize \<Rightarrow> test_future \<Rightarrow> bool" where
  "tests_frame fv (MemStart f v) = (fv = (f, v))"
| "tests_frame fv (MemInMap f v n) = (fv = (f, v) \<and> n < EPOCH)"
| "tests_frame fv (MemInUnmap f v n) = (fv = (f, v) \<and> n < EPOCH)"
| "tests_frame fv _ = False"

lemma tests_frame_left: "tests_frame fv fu \<Longrightarrow> calls_left fu \<le> 2 * EPOCH"
  by (cases fu) auto

lemma pairs_nth: "i < 2 * n \<Longrightarrow> concat (replicate n [a, b]) ! i = (if even i then a else b)"
proof (induction n arbitrary: i)
  case (Suc n)
  show ?case
  proof (cases "i < 2")
    case True
    then show ?thesis by (cases i) (auto simp: less_Suc_eq)
  next
    case False
    then obtain j where "i = Suc (Suc j)" by (metis One_nat_def Suc_1 Suc_lessI add_2_eq_Suc' le_Suc_ex not_less old.nat.exhaust zero_less_Suc)
    with Suc show ?thesis by simp
  qed
qed simp

lemma length_all_calls [simp]: "length (all_calls env c fv) = 2 * EPOCH"
  by (simp add: all_calls_def length_concat sum_list_replicate)

lemma all_calls_next:
  assumes "tests_frame fv fu" and "calls_left fu \<noteq> 0"
  shows "take (Suc (2 * EPOCH - calls_left fu)) (all_calls env c fv) = take (2 * EPOCH - calls_left fu) (all_calls env c fv) @
    [if even (calls_left fu) then map_call env c fv else unmap_call c fv]"
proof -
  have le: "calls_left fu \<le> 2 * EPOCH" by (rule tests_frame_left [OF assms(1)])
  then have lt: "2 * EPOCH - calls_left fu < 2 * EPOCH" using assms(2) by linarith
  have "even (2 * EPOCH - calls_left fu) \<longleftrightarrow> even (calls_left fu)" using le by presburger
  then have "all_calls env c fv ! (2 * EPOCH - calls_left fu) = (if even (calls_left fu) then map_call env c fv else unmap_call c fv)"
    unfolding all_calls_def using pairs_nth [OF lt] by metis
  then show ?thesis using lt by (simp add: take_Suc_conv_app_nth)
qed

lemma all_calls_cid: "it \<in> set (all_calls env c fv) \<Longrightarrow> item_cid it = c"
  by (auto simp: all_calls_def map_call_def unmap_call_def item_riscv_page_map_def item_riscv_page_unmap_def split: if_splits)

text \<open>Submitting a system call.\<close>

lemma submit_call:
  assumes wf: "th_wf th" and cur: "ex_current (th_exec th) = Some c"
    and b: "th_sender_map th ! 63 = ptr" "ptr \<noteq> 0" "th_buffers th ptr = Some nb"
    and room: "length (reqs nb) < MAX_ITEM_NUM" "th_submit_syscall_cnt th + 1 < 2 ^ 64"
  shows "\<exists>th'. syscall_submit th item = Inr (True, th') \<and> th_wf th' \<and> submitted th ptr nb (item c) WakeSyscallHandler th'"
  using call_with_item_spec [OF wf _ room(2), of SYSCALL_SENDER ptr nb "item c"] assms
  by (simp add: syscall_submit_def coroutine_get_current_def SYSCALL_SENDER_def)

text \<open>A value left for the coroutine is taken.\<close>

definition resumed :: "test_future \<Rightarrow> coroutine_id \<Rightarrow> test_thread \<Rightarrow> test_thread" where
  "resumed fu c th =
     (case fu of
        MemStart f v \<Rightarrow> th
      | ReplyStart \<Rightarrow> th
      | _ \<Rightarrow> th\<lparr>th_immediate_value := (th_immediate_value th)[unat c := None]\<rparr>)"

lemma resumed_simps [simp]:
  "th_wf (resumed fu c th) = th_wf th" "th_exec (resumed fu c th) = th_exec th" "th_sender_map (resumed fu c th) = th_sender_map th"
  "th_buffers (resumed fu c th) = th_buffers th" "th_submit_syscall_cnt (resumed fu c th) = th_submit_syscall_cnt th"
  "th_uint_trigger (resumed fu c th) = th_uint_trigger th" "th_reply_count (resumed fu c th) = th_reply_count th"
  "th_wake_map (resumed fu c th) = th_wake_map th"
  "length (th_immediate_value (resumed fu c th)) = length (th_immediate_value th)"
  by (simp_all add: resumed_def split: test_future.split)

lemma resumed_upd [simp]: "(resumed fu c th)\<lparr>th_immediate_value := iv\<rparr> = th\<lparr>th_immediate_value := iv\<rparr>"
  by (simp add: resumed_def split: test_future.split)

text \<open>A poll of the coroutine of a frame: it makes its next call and is suspended, or ends.\<close>

lemma mem_poll:
  assumes wf: "th_wf th" and cur: "ex_current (th_exec th) = Some c" "unat c < MAX_TASK_NUM"
    and b: "th_sender_map th ! 63 = ptr" "ptr \<noteq> 0" "th_buffers th ptr = Some nb"
    and room: "length (reqs nb) < MAX_ITEM_NUM" "th_submit_syscall_cnt th + 1 < 2 ^ 64"
    and fu: "tests_frame fv fu"
  shows "if calls_left fu = 0 then test_step env fu th = Inr (Ready, MemDone, resumed fu c th)
    else \<exists>fu' th'. test_step env fu th = Inr (Pending, fu', th') \<and> tests_frame fv fu' \<and> Suc (calls_left fu') = calls_left fu \<and> th_wf th' \<and>
      submitted (resumed fu c th) ptr nb (if even (calls_left fu) then map_call env c fv else unmap_call c fv) WakeSyscallHandler th'"
proof -
  let ?r = "resumed fu c th"
  have sub: "\<exists>th'. syscall_submit ?r item = Inr (True, th') \<and> th_wf th' \<and> submitted ?r ptr nb (item c) WakeSyscallHandler th'" for item
    by (rule submit_call) (use wf cur b room in simp_all)
  have e: "EPOCH = Suc 9" by (simp add: EPOCH_def)
  obtain f v where fv: "fv = (f, v)" by fastforce
  have m: "\<exists>th'. mem_round env f v (Suc n) ?r = Inr (Pending, MemInMap f v n, th') \<and> th_wf th' \<and>
      submitted ?r ptr nb (map_call env c fv) WakeSyscallHandler th'" for n
    using sub [of "\<lambda>c. map_call env c fv"]
    by (auto simp: syscall_riscv_page_map_def seL4_RISCV_Page_Map_def map_call_def fv)
  have u: "\<exists>th'. mem_unmap env f v n ?r = Inr (Pending, MemInUnmap f v n, th') \<and> th_wf th' \<and>
      submitted ?r ptr nb (unmap_call c fv) WakeSyscallHandler th'" for n
    using sub [of "\<lambda>c. unmap_call c fv"]
    by (auto simp: mem_unmap.simps syscall_riscv_page_unmap_def seL4_RISCV_Page_Unmap_def unmap_call_def fv)
  obtain r where res: "seL4_Call_with_item_resume th = Inr (r, th\<lparr>th_immediate_value := (th_immediate_value th)[unat c := None]\<rparr>)"
    using yield_resume(2) [OF wf cur] ..
  from fu fv consider (start) "fu = MemStart f v" | (map) n where "fu = MemInMap f v n" "n < EPOCH"
    | (unmap) n where "fu = MemInUnmap f v n" "n < EPOCH" by (cases fu) auto
  then show ?thesis
  proof cases
    case start
    then have "?r = th" by (auto simp: resumed_def image_iff)
    with m [of 9] start show ?thesis by (auto simp: test_step_def e fv simp del: mem_round.simps)
  next
    case map
    then have "?r = th\<lparr>th_immediate_value := (th_immediate_value th)[unat c := None]\<rparr>" by (auto simp: resumed_def)
    with u [of n] map res show ?thesis by (auto simp: test_step_def fv simp del: mem_unmap.simps)
  next
    case unmap
    then have r: "?r = th\<lparr>th_immediate_value := (th_immediate_value th)[unat c := None]\<rparr>" by (auto simp: resumed_def)
    show ?thesis
    proof (cases n)
      case 0
      with unmap res r show ?thesis by (simp add: test_step_def)
    next
      case (Suc k)
      with m [of k] unmap res r show ?thesis by (auto simp: test_step_def fv simp del: mem_round.simps)
    qed
  qed
qed

text \<open>A poll of the receiver of replies: it takes all replies, and ends with the last one expected.\<close>

lemma reply_step:
  assumes wf: "th_wf th" and fu: "fu = ReplyStart \<or> fu = ReplyYield \<and> ex_current (th_exec th) = Some 0"
  defines "th0 \<equiv> resumed fu 0 th"
  shows "test_step env fu th = rbind (recv_reply_loop (te_buffer env) (te_reply_num env) (th_reply_count th0) th0) (\<lambda>(p, n, th1).
      Inr (p, ReplyYield, th1\<lparr>th_reply_count := n\<rparr>))"
proof (cases "fu = ReplyStart")
  case True
  then have "th0 = th" by (simp add: th0_def resumed_def)
  with True show ?thesis
    by (cases "recv_reply_loop (te_buffer env) (te_reply_num env) (th_reply_count th0) th0")
      (auto simp: test_step_def recv_reply_coroutine_async_syscall_poll_def)
next
  case False
  then have "fu = ReplyYield" "ex_current (th_exec th) = Some 0" using fu by auto
  moreover obtain v where "yield_now_resume th = Inr (v, th0)"
    using yield_resume(1) [OF wf, of 0] calculation by (auto simp: th0_def resumed_def ex_consts)
  ultimately show ?thesis
    by (cases "recv_reply_loop (te_buffer env) (te_reply_num env) (th_reply_count th0) th0")
      (auto simp: test_step_def recv_reply_coroutine_async_syscall_poll_def)
qed

lemma reply_poll:
  assumes wf: "th_wf th" and b: "th_buffers th (te_buffer env) = Some nb" and its: "ress nb = its"
    and fu: "fu = ReplyStart \<or> fu = ReplyYield \<and> ex_current (th_exec th) = Some 0"
    and cids: "\<forall>it\<in>set its. unat (item_cid it) < MAX_TASK_NUM" and w: "wake_all (th_exec th) (map item_cid its) = Inr ex'"
    and n: "th_reply_count th < te_reply_num env" "th_reply_count th + length its \<le> te_reply_num env" "te_reply_num env < 2 ^ 64"
  defines "fin \<equiv> th_reply_count th + length its = te_reply_num env"
  shows "\<exists>q iv. test_step env fu th = Inr (if fin then Ready else Pending, ReplyYield,
      th\<lparr>th_buffers := (th_buffers th)(te_buffer env \<mapsto> nb\<lparr>nb_res_items := q, nb_recv_reply_status := fin \<and> nb_recv_reply_status nb\<rparr>),
        th_immediate_value := iv, th_exec := ex', th_reply_count := th_reply_count th + length its\<rparr>) \<and>
    iq_wf q \<and> srb_list q = [] \<and> length iv = length (th_immediate_value th)"
proof -
  let ?ptr = "te_buffer env" and ?num = "te_reply_num env"
  define th0 where "th0 = resumed fu 0 th"
  have th0: "th_buffers th0 ?ptr = Some nb" "th_exec th0 = th_exec th" "th_reply_count th0 = th_reply_count th"
      "length (th_immediate_value th0) = MAX_TASK_NUM" "iq_wf (nb_res_items nb)"
    using wf b by (auto simp: th0_def th_wf_def nb_wf_def ran_def)
  note step = reply_step [OF wf fu, of env, folded th0_def]
  have iv: "\<forall>it\<in>set its. unat (item_cid it) < length (th_immediate_value th0)" using cids th0(4) by simp
  obtain q where "recv_reply_loop ?ptr ?num (th_reply_count th0) th0 = Inr (if fin then Ready else Pending, th_reply_count th0 + length its,
      th0\<lparr>th_buffers := (th_buffers th0)(?ptr \<mapsto> nb\<lparr>nb_res_items := q, nb_recv_reply_status := fin \<and> nb_recv_reply_status nb\<rparr>),
        th_immediate_value := deliver (th_immediate_value th0) its, th_exec := ex'\<rparr>)" "iq_wf q" "srb_list q = []"
    using recv_reply_all [OF th0(1,5) its iv, of ex' "th_reply_count th0" ?num] w n th0(2,3) by (auto simp: fin_def)
  moreover have "th0\<lparr>th_buffers := bs, th_immediate_value := v, th_exec := ex', th_reply_count := c\<rparr> =
      th\<lparr>th_buffers := bs, th_immediate_value := v, th_exec := ex', th_reply_count := c\<rparr>" for bs v c
    by (simp add: th0_def resumed_def split: test_future.split)
  moreover have "length (th_immediate_value th0) = length (th_immediate_value th)" "th_buffers th0 = th_buffers th" by (simp_all add: th0_def)
  ultimately show ?thesis
    unfolding step by (intro exI [of _ q] exI [of _ "deliver (th_immediate_value th0) its"]) (simp add: th0(3))
qed

end
