(* ===== verification/Syscall_Sys.thy ===== *)
theory Syscall_Sys
  imports Test_Polls Reply_Server
begin

text \<open>
  The system-call benchmark together with the kernel's handler: a step relation with turns of the
  run loop, steps of the handler and user interrupts, its invariant, and the measure of the work
  that is left.  A turn and a step of the handler are each one step: the handler does not run between
  the moment at which the receiver of replies finds its queue empty and the moment at which it
  clears its flag, nor the other way round.  Interrupts need no such assumption, since the delayed
  wake-ups are taken with one atomic exchange at the start of a turn.
\<close>

unbundle bit_operations_syntax

section \<open>The program and the kernel\<close>

text \<open>The program's thread, the pending user interrupt, and the requests the kernel has taken.\<close>

record test_sys =
  sy_th :: test_thread
  sy_irq :: bool
  sy_served :: "ipc_item list"

text \<open>A turn of the run loop, a step of the kernel's handler, and the delivery of the interrupt; the
  interrupt of the registered vector is \<open>badge\<close>.\<close>

inductive sys_step :: "handler \<Rightarrow> test_env \<Rightarrow> nat \<Rightarrow> test_sys \<Rightarrow> test_sys \<Rightarrow> bool" for serve env badge where
  turn: "run_turn (test_poll env) (th_exec (sy_th s)) (sy_th s) = Inr (go_on, ex, th) \<Longrightarrow>
    sys_step serve env badge s (s\<lparr>sy_th := th\<lparr>th_exec := ex\<rparr>\<rparr>)"
| handler: "th_buffers (sy_th s) (te_buffer env) = Some nb \<Longrightarrow> serve nb its irq nb' \<Longrightarrow>
    sys_step serve env badge s (s\<lparr>sy_th := (sy_th s)\<lparr>th_buffers := (th_buffers (sy_th s))(te_buffer env \<mapsto> nb')\<rparr>,
      sy_irq := sy_irq s \<or> irq, sy_served := sy_served s @ its\<rparr>)"
| interrupt: "sy_irq s \<Longrightarrow> uintr_handler (sy_th s) (push_bit badge 1) = Inr (x, th) \<Longrightarrow>
    sys_step serve env badge s (s\<lparr>sy_th := th, sy_irq := False\<rparr>)"

inductive_cases sys_step_cases: "sys_step serve env badge s s'"

section \<open>Invariant\<close>

definition left_of :: "test_future executor \<Rightarrow> nat \<Rightarrow> nat" where
  "left_of ex i = (if i \<in> live ex then calls_left (fut ex i) else 0)"

definition tokens :: "test_sys \<Rightarrow> nat" where
  "tokens s = length (ready (th_exec (sy_th s)) 1) + (if ex_delay_wake_cids (th_exec (sy_th s)) \<noteq> 0 then 1 else 0) + (if sy_irq s then 1 else 0)"

text \<open>What does not change: the registrations.\<close>

definition setup_ok :: "test_env \<Rightarrow> nat \<Rightarrow> nat \<Rightarrow> test_sys \<Rightarrow> new_buffer \<Rightarrow> bool" where
  "setup_ok env badge n s nb \<longleftrightarrow> th_wf (sy_th s) \<and> exec_ok 1 n (th_exec (sy_th s)) \<and> 0 < n \<and> n \<le> 1000 \<and> te_reply_num env = 2 * EPOCH * n \<and>
     te_buffer env \<noteq> 0 \<and> th_sender_map (sy_th s) ! 63 = te_buffer env \<and> th_buffers (sy_th s) (te_buffer env) = Some nb \<and>
     badge < 64 \<and> th_wake_map (sy_th s) badge = Some 0 \<and> fut (th_exec (sy_th s)) 0 \<in> {ReplyStart, ReplyYield}"

text \<open>Every coroutine of a frame that has not ended is in exactly one place: ready, with a request in the
  queue, or with a reply in the queue.\<close>

definition places_ok :: "(u64 \<times> usize) list \<Rightarrow> test_sys \<Rightarrow> new_buffer \<Rightarrow> bool" where
  "places_ok plan s nb \<longleftrightarrow> (let ex = th_exec (sy_th s); cs = ready ex 0 @ map item_cid (reqs nb) @ map item_cid (ress nb) in
     distinct cs \<and> unat ` set cs = live ex - {0} \<and> (\<forall>i\<in>live ex - {0}. tests_frame (plan ! (i - 1)) (fut ex i)))"

text \<open>The requests made are the first calls of each coroutine, and they are counted.\<close>

definition calls_ok :: "test_env \<Rightarrow> (u64 \<times> usize) list \<Rightarrow> test_sys \<Rightarrow> new_buffer \<Rightarrow> bool" where
  "calls_ok env plan s nb \<longleftrightarrow> (let ex = th_exec (sy_th s); n = length plan in
     (\<forall>i. 1 \<le> i \<and> i \<le> n \<longrightarrow> filter (\<lambda>it. item_cid it = of_nat i) (sy_served s @ reqs nb) =
        take (2 * EPOCH - left_of ex i) (all_calls env (of_nat i) (plan ! (i - 1)))) \<and>
     length (sy_served s) + length (reqs nb) + (\<Sum>i = 1..n. left_of ex i) = 2 * EPOCH * n \<and>
     th_reply_count (sy_th s) + length (ress nb) = length (sy_served s) \<and>
     (0 \<in> live ex \<longleftrightarrow> th_reply_count (sy_th s) < 2 * EPOCH * n) \<and>
     th_submit_syscall_cnt (sy_th s) \<le> length (sy_served s) + length (reqs nb) \<and>
     th_uint_trigger (sy_th s) + (if sy_irq s then 1 else 0) \<le> length (sy_served s))"

text \<open>No wake-up is lost: a request has its handler awake, and a reply its receiver woken.\<close>

definition wakes_ok :: "test_sys \<Rightarrow> new_buffer \<Rightarrow> bool" where
  "wakes_ok s nb \<longleftrightarrow> (reqs nb \<noteq> [] \<longrightarrow> nb_recv_req_status nb) \<and> (ress nb \<noteq> [] \<longrightarrow> nb_recv_reply_status nb) \<and>
     (0 \<in> live (th_exec (sy_th s)) \<and> nb_recv_reply_status nb \<longrightarrow> 0 < tokens s) \<and>
     tokens s + (if nb_recv_reply_status nb then 0 else 1) \<le> 2"

definition sys_ok :: "test_env \<Rightarrow> nat \<Rightarrow> (u64 \<times> usize) list \<Rightarrow> test_sys \<Rightarrow> new_buffer \<Rightarrow> bool" where
  "sys_ok env badge plan s nb \<longleftrightarrow>
     setup_ok env badge (length plan) s nb \<and> places_ok plan s nb \<and> calls_ok env plan s nb \<and> wakes_ok s nb"

text \<open>The work that is left.\<close>

definition work :: "nat \<Rightarrow> test_sys \<Rightarrow> new_buffer \<Rightarrow> nat" where
  "work n s nb = 8 * (\<Sum>i = 1..n. left_of (th_exec (sy_th s)) i) + 6 * length (reqs nb) + 3 * length (ress nb) +
     2 * length (ready (th_exec (sy_th s)) 0) + (if nb_recv_req_status nb then 1 else 0) + tokens s + (if sy_irq s then 1 else 0)"

lemmas sys_parts = setup_ok_def places_ok_def calls_ok_def wakes_ok_def tokens_def

lemma sys_okD:
  assumes "sys_ok env badge plan s nb"
  shows "setup_ok env badge (length plan) s nb" "places_ok plan s nb" "calls_ok env plan s nb" "wakes_ok s nb"
  using assms by (simp_all add: sys_ok_def)

lemma sys_ok_nb_wf: "sys_ok env badge plan s nb \<Longrightarrow> nb_wf nb"
  by (auto simp: sys_ok_def setup_ok_def th_wf_def ran_def)

text \<open>The number of coroutines bounds the queues.\<close>

lemma places_bound:
  assumes "sys_ok env badge plan s nb"
  shows "length (ready (th_exec (sy_th s)) 0) + length (reqs nb) + length (ress nb) \<le> 1000"
proof -
  let ?ex = "th_exec (sy_th s)"
  let ?cs = "ready ?ex 0 @ map item_cid (reqs nb) @ map item_cid (ress nb)"
  have d: "distinct ?cs" and im: "unat ` set ?cs = live ?ex - {0}" and l: "live ?ex \<subseteq> {..length plan}" "length plan \<le> 1000"
    using sys_okD(1,2) [OF assms] by (auto simp: sys_parts Let_def exec_ok_def)
  have "inj_on unat (set ?cs)" by (simp add: inj_on_def word_unat_eq_iff)
  then have "length ?cs = card (live ?ex - {0})" using im d by (metis card_image distinct_card)
  also have "\<dots> \<le> card {1..length plan}" using l(1) by (intro card_mono) auto
  finally show ?thesis using l(2) by simp
qed

section \<open>Steps of the kernel and interrupts\<close>

lemma move_to_end:
  "distinct (r @ q @ p @ i) \<longleftrightarrow> distinct (r @ (i @ q) @ p)" "set (r @ q @ p @ i) = set (r @ (i @ q) @ p)"
  by auto

lemma handler_calls:
  assumes ok: "calls_ok env plan s nb" and q: "reqs nb = its @ reqs nb'" "ress nb' = ress nb @ rs" "length rs = length its" "its \<noteq> []"
    and s': "th_exec (sy_th s') = th_exec (sy_th s)" "sy_served s' = sy_served s @ its" "sy_irq s' \<longleftrightarrow> sy_irq s \<or> irq"
      "th_reply_count (sy_th s') = th_reply_count (sy_th s)" "th_uint_trigger (sy_th s') = th_uint_trigger (sy_th s)"
      "th_submit_syscall_cnt (sy_th s') = th_submit_syscall_cnt (sy_th s)"
  shows "calls_ok env plan s' nb'"
proof -
  have all: "sy_served s' @ reqs nb' = sy_served s @ reqs nb" using q(1) s'(2) by simp
  have lens: "length (sy_served s') = length (sy_served s) + length its" "length (ress nb') = length (ress nb) + length its"
      "length (reqs nb) = length its + length (reqs nb')" "0 < length its"
    using q s'(2) by simp_all
  show ?thesis using ok lens(4) unfolding calls_ok_def Let_def all s'(1,3-6) lens(1-3)
    by (elim conjE, intro conjI) (assumption | linarith | (cases irq; cases "sy_irq s"; simp only: if_True if_False simp_thms; linarith))+
qed

lemma handler_step:
  assumes ok: "sys_ok env badge plan s nb" and sv: "served_by nb its irq nb'"
  defines "s' \<equiv> s\<lparr>sy_th := (sy_th s)\<lparr>th_buffers := (th_buffers (sy_th s))(te_buffer env \<mapsto> nb')\<rparr>,
      sy_irq := sy_irq s \<or> irq, sy_served := sy_served s @ its\<rparr>"
  shows "sys_ok env badge plan s' nb'" and "work (length plan) s' nb' < work (length plan) s nb \<or> s' = s"
    and "nb_recv_req_status nb \<Longrightarrow> s' \<noteq> s"
proof -
  note o = sys_okD [OF ok]
  have wf: "nb_wf nb'" using sv by (simp add: served_by_def)
  have ex': "th_exec (sy_th s') = th_exec (sy_th s)" by (simp add: s'_def)
  have su: "setup_ok env badge (length plan) s' nb'"
    using o(1) th_wf_buffer [OF _ wf] by (auto simp: setup_ok_def s'_def)
  have b: "th_buffers (sy_th s) (te_buffer env) = Some nb" using o(1) by (simp add: setup_ok_def)
  have "sys_ok env badge plan s' nb' \<and> (work (length plan) s' nb' < work (length plan) s nb \<or> \<not> nb_recv_req_status nb \<and> s' = s)"
  proof (cases "its = []")
    case True
    with sv have nb': "reqs nb = []" "nb' = nb\<lparr>nb_recv_req_status := False\<rparr>" "\<not> irq" by (auto simp: served_by_def)
    have "sys_ok env badge plan s' nb'" unfolding sys_ok_def
      using o(2-4) su True nb' by (simp add: places_ok_def calls_ok_def wakes_ok_def tokens_def s'_def Let_def)
    moreover have "work (length plan) s' nb' < work (length plan) s nb" if "nb_recv_req_status nb"
      using True nb' that by (simp add: work_def tokens_def s'_def)
    moreover have "s' = s" if "\<not> nb_recv_req_status nb"
      using True nb' that b by (simp add: s'_def map_upd_triv)
    ultimately show ?thesis by blast
  next
    case False
    with sv obtain rs where sv': "reqs nb = its @ reqs nb'" "ress nb' = ress nb @ rs" "map item_cid rs = map item_cid its"
        "nb_recv_req_status nb' = nb_recv_req_status nb" "nb_recv_reply_status nb'" "irq \<longleftrightarrow> \<not> nb_recv_reply_status nb"
      by (auto simp: served_by_def)
    have len: "length rs = length its" using sv'(3) by (metis length_map)
    have cs: "map item_cid (reqs nb) = map item_cid its @ map item_cid (reqs nb')" "map item_cid (ress nb') = map item_cid (ress nb) @ map item_cid its"
      using sv'(1-3) by simp_all
    have "places_ok plan s' nb'"
      using o(2) unfolding places_ok_def Let_def cs ex' move_to_end .
    moreover have "calls_ok env plan s' nb'"
      by (rule handler_calls [OF o(3) sv'(1,2) len False]) (simp_all add: s'_def)
    moreover have "wakes_ok s' nb'"
      using o(4) sv' False by (auto simp: wakes_ok_def tokens_def s'_def)
    moreover obtain k where "length its = Suc k" using False by (cases its) simp_all
    then have "work (length plan) s' nb' < work (length plan) s nb"
      using sv' len by (auto simp: work_def tokens_def s'_def)
    ultimately show ?thesis using su by (simp add: sys_ok_def)
  qed
  moreover have "nb' = nb" if "s' = s" using b that by (metis option.inject su setup_ok_def)
  ultimately show "sys_ok env badge plan s' nb'" "work (length plan) s' nb' < work (length plan) s nb \<or> s' = s"
    "nb_recv_req_status nb \<Longrightarrow> s' \<noteq> s" by blast+
qed

lemma interrupt_step:
  assumes ok: "sys_ok env badge plan s nb" and irq: "sy_irq s"
  shows "\<exists>x th. uintr_handler (sy_th s) (push_bit badge 1) = Inr (x, th) \<and>
    sys_ok env badge plan (s\<lparr>sy_th := th, sy_irq := False\<rparr>) nb \<and> work (length plan) (s\<lparr>sy_th := th, sy_irq := False\<rparr>) nb < work (length plan) s nb"
proof -
  note o = sys_okD [OF ok]
  let ?th = "sy_th s" and ?ex = "th_exec (sy_th s)"
  have su: "th_wf ?th" "exec_ok 1 (length plan) ?ex" "badge < 64" "th_wake_map ?th badge = Some 0" using o(1) by (auto simp: setup_ok_def)
  have sv: "length (sy_served s) \<le> 2 * EPOCH * length plan" "length plan \<le> 1000" "th_uint_trigger ?th + 1 \<le> length (sy_served s)"
    using o(1,3) irq by (auto simp: setup_ok_def calls_ok_def Let_def)
  have "2 * EPOCH * length plan \<le> 20000" using sv(2) by (simp add: EPOCH_def)
  then have cnt: "th_uint_trigger ?th + 1 < 2 ^ 64" using sv(1,3) by simp
  obtain d where h: "uintr_handler ?th (push_bit badge 1) = Inr (0, ?th\<lparr>th_uint_trigger := th_uint_trigger ?th + 1, th_exec := ?ex\<lparr>ex_delay_wake_cids := d\<rparr>\<rparr>)"
    and d0: "d \<noteq> 0" and ex': "exec_ok 1 (length plan) (?ex\<lparr>ex_delay_wake_cids := d\<rparr>)" "fut (?ex\<lparr>ex_delay_wake_cids := d\<rparr>) = fut ?ex"
    and wf': "th_wf (?th\<lparr>th_uint_trigger := th_uint_trigger ?th + 1, th_exec := ?ex\<lparr>ex_delay_wake_cids := d\<rparr>\<rparr>)"
    using interrupt_marks [OF su(2,1,3,4) cnt] by blast
  let ?ex' = "?ex\<lparr>ex_delay_wake_cids := d\<rparr>"
  let ?th' = "?th\<lparr>th_uint_trigger := th_uint_trigger ?th + 1, th_exec := ?ex'\<rparr>"
  let ?s = "s\<lparr>sy_th := ?th', sy_irq := False\<rparr>"
  have left: "left_of ?ex' = left_of ?ex" using ex' by (simp add: left_of_def fun_eq_iff)
  from wf' have "setup_ok env badge (length plan) ?s nb" using o(1) ex' by (simp add: setup_ok_def)
  moreover have "places_ok plan ?s nb" using o(2) ex' by (simp add: places_ok_def Let_def)
  moreover have "calls_ok env plan ?s nb" using o(3) left irq by (simp add: calls_ok_def Let_def)
  moreover have "wakes_ok ?s nb" using o(4) irq d0 by (auto simp: wakes_ok_def tokens_def)
  moreover have "work (length plan) ?s nb < work (length plan) s nb" using irq d0 left by (simp add: work_def tokens_def)
  ultimately show ?thesis using h by (auto simp: sys_ok_def)
qed

end
