(* ===== verification/Syscall_Turn.thy ===== *)
theory Syscall_Turn
  imports Syscall_Sys
begin

text \<open>
  The turns of the run loop in the composed system: by the coroutine that is fetched, a turn keeps
  the invariant and leaves less work.
\<close>

section \<open>Turns of the run loop\<close>

definition after :: "test_sys \<Rightarrow> test_future executor \<Rightarrow> test_thread \<Rightarrow> test_sys" where
  "after s ex th = s\<lparr>sy_th := th\<lparr>th_exec := ex\<rparr>\<rparr>"

lemma after_simps [simp]:
  "th_exec (sy_th (after s ex th)) = ex" "sy_irq (after s ex th) = sy_irq s" "sy_served (after s ex th) = sy_served s"
  "th_reply_count (sy_th (after s ex th)) = th_reply_count th" "th_uint_trigger (sy_th (after s ex th)) = th_uint_trigger th"
  "th_submit_syscall_cnt (sy_th (after s ex th)) = th_submit_syscall_cnt th"
  by (simp_all add: after_def)

lemma turn_task:
  assumes "fetch ex = Inr (Some h, ex1)" and "test_step env (fut ex1 h) (th\<lparr>th_exec := ex1\<rparr>) = Inr (p, fu, th')"
  shows "run_turn (test_poll env) ex th =
    (let ex2 = (th_exec th')\<lparr>ex_tasks_bak := (ex_tasks_bak (th_exec th'))[h := (ex_tasks_bak (th_exec th') ! h)\<lparr>co_future := fu\<rparr>]\<rparr> in
     case p of
       Ready \<Rightarrow> rbind (remove_task ex2 (co_cid (ex_tasks_bak ex1 ! h))) (\<lambda>ex3. Inr (True, ex3, th'))
     | Pending \<Rightarrow> Inr (True, ex2, th'))"
  by (rule turn_polls [OF assms(1)]) (use assms(2) in \<open>simp add: test_poll_def\<close>)

lemma setup_ok_after:
  assumes "setup_ok env badge n s nb" and "th_wf th" "exec_ok 1 n ex" and "fut ex 0 \<in> {ReplyStart, ReplyYield}"
    and "th_sender_map th = th_sender_map (sy_th s)" "th_wake_map th = th_wake_map (sy_th s)" "th_buffers th (te_buffer env) = Some nb'"
  shows "setup_ok env badge n (after s ex th) nb'"
  using assms by (auto simp: setup_ok_def after_def intro!: th_wf_with_exec dest: exec_okD(1))

text \<open>The bounds the counters need.\<close>

lemma calls_bound:
  assumes "sys_ok env badge plan s nb"
  shows "length (sy_served s) + length (reqs nb) \<le> te_reply_num env" "te_reply_num env \<le> 20000"
    "th_submit_syscall_cnt (sy_th s) + 1 < 2 ^ 64" "length (ready (th_exec (sy_th s)) 1) \<le> 2"
    "te_reply_num env = 2 * EPOCH * length plan"
proof -
  note o = sys_okD [OF assms]
  show r: "te_reply_num env = 2 * EPOCH * length plan" using o(1) by (simp add: setup_ok_def)
  then show s: "length (sy_served s) + length (reqs nb) \<le> te_reply_num env" using o(3) by (simp add: calls_ok_def Let_def)
  show b: "te_reply_num env \<le> 20000" using o(1) r by (simp add: setup_ok_def EPOCH_def)
  have "th_submit_syscall_cnt (sy_th s) \<le> length (sy_served s) + length (reqs nb)" using o(3) by (simp add: calls_ok_def Let_def)
  then show "th_submit_syscall_cnt (sy_th s) + 1 < 2 ^ 64" using s b by simp
  show "length (ready (th_exec (sy_th s)) 1) \<le> 2" using o(4) by (simp add: wakes_ok_def tokens_def)
qed

text \<open>What a turn establishes: it does not panic, and it changes nothing or brings the program forward.\<close>

definition turn_ok :: "test_env \<Rightarrow> nat \<Rightarrow> (u64 \<times> usize) list \<Rightarrow> test_sys \<Rightarrow> new_buffer \<Rightarrow> bool" where
  "turn_ok env badge plan s nb \<longleftrightarrow> (\<exists>go_on ex th nb'. run_turn (test_poll env) (th_exec (sy_th s)) (sy_th s) = Inr (go_on, ex, th) \<and>
     sys_ok env badge plan (after s ex th) nb' \<and>
     (work (length plan) (after s ex th) nb' < work (length plan) s nb \<or> after s ex th = s \<and> \<not> go_on \<and>
        ready (th_exec (sy_th s)) 0 = [] \<and> ready (th_exec (sy_th s)) 1 = [] \<and> ex_delay_wake_cids (th_exec (sy_th s)) = 0))"

text \<open>Nothing is ready.\<close>

lemma turn_idle:
  assumes ok: "sys_ok env badge plan s nb" and f: "fetched_from 1 (length plan) (th_exec (sy_th s)) None r0 r1 ex'"
    and r0: "r0 = ready (th_exec (sy_th s)) 0"
    and step: "ex' = th_exec (sy_th s) \<and> ready ex' 0 = [] \<and> ready ex' 1 = [] \<and> ex_delay_wake_cids ex' = 0 \<or>
      0 \<notin> live (th_exec (sy_th s)) \<and> length r1 < length (ready (th_exec (sy_th s)) 1) + (if ex_delay_wake_cids (th_exec (sy_th s)) \<noteq> 0 then 1 else 0)"
  shows "turn_ok env badge plan s nb"
proof -
  let ?ex = "th_exec (sy_th s)"
  note o = sys_okD [OF ok]
  have fe: "fetch ?ex = Inr (None, ex')" and k: "exec_ok 1 (length plan) ex'" "live ex' = live ?ex" "ex_tasks_bak ex' = ex_tasks_bak ?ex"
      "ready ex' 0 = ready ?ex 0" "ready ex' 1 = r1" "ex_delay_wake_cids ex' = 0"
    using f r0 by (auto simp: fetched_from_def)
  have t: "run_turn (test_poll env) ?ex (sy_th s) = Inr (False, ex', sy_th s)" by (simp add: run_turn_def fe)
  have fu: "fut ex' = fut ?ex" "left_of ex' = left_of ?ex" using k by (auto simp: fut_def left_of_def fun_eq_iff)
  show ?thesis
  proof (cases "ex' = ?ex")
    case True
    then have same: "after s ex' (sy_th s) = s" by (simp add: after_def)
    have "ready ?ex 0 = [] \<and> ready ?ex 1 = [] \<and> ex_delay_wake_cids ?ex = 0" using step k(5,6) True by auto
    then show ?thesis unfolding turn_ok_def using t ok same True by (intro exI [of _ False] exI [of _ ex'] exI [of _ "sy_th s"] exI [of _ nb]) simp
  next
    case False
    let ?s = "after s ex' (sy_th s)"
    have nl: "0 \<notin> live ?ex" and lt: "tokens ?s < tokens s" using step False k by (auto simp: tokens_def)
    have "setup_ok env badge (length plan) ?s nb"
      by (rule setup_ok_after) (use o(1) k fu in \<open>auto simp: setup_ok_def\<close>)
    moreover have "places_ok plan ?s nb" using o(2) k fu by (simp add: places_ok_def Let_def)
    moreover have "calls_ok env plan ?s nb" using o(3) k fu by (simp add: calls_ok_def Let_def)
    moreover have "wakes_ok ?s nb" using o(4) k nl lt by (simp add: wakes_ok_def)
    moreover have "work (length plan) ?s nb < work (length plan) s nb" using lt k fu by (simp add: work_def)
    ultimately show ?thesis unfolding turn_ok_def sys_ok_def using t by blast
  qed
qed

text \<open>The coroutine of a frame is polled.\<close>

lemma item_cid_call: "item_cid (map_call env c fv) = c" "item_cid (unmap_call c fv) = c"
  by (simp_all add: map_call_def unmap_call_def item_riscv_page_map_def item_riscv_page_unmap_def)

lemma sum_decr:
  fixes f g :: "nat \<Rightarrow> nat"
  assumes "h \<in> A" "finite A" and "Suc (f h) = g h" "\<And>i. i \<in> A \<Longrightarrow> i \<noteq> h \<Longrightarrow> f i = g i"
  shows "Suc (sum f A) = sum g A"
proof -
  have "sum f (A - {h}) = sum g (A - {h})" using assms(4) by (intro sum.cong) auto
  with assms show ?thesis by (simp add: sum.remove [of A h])
qed

text \<open>The facts about the coroutine at the head of the queue.\<close>

lemma head_of_queue:
  assumes ok: "sys_ok env badge plan s nb" and r: "ready (th_exec (sy_th s)) 0 = c # cs"
  shows "unat c \<in> live (th_exec (sy_th s))" "c \<noteq> 0" "1 \<le> unat c" "unat c \<le> length plan" "unat c < MAX_TASK_NUM"
    "tests_frame (plan ! (unat c - 1)) (fut (th_exec (sy_th s)) (unat c))" "c \<notin> set cs"
proof -
  note o = sys_okD [OF ok]
  have "unat ` set (ready (th_exec (sy_th s)) 0) \<subseteq> live (th_exec (sy_th s)) - {0}" "distinct (c # cs)"
    and t: "\<forall>i\<in>live (th_exec (sy_th s)) - {0}. tests_frame (plan ! (i - 1)) (fut (th_exec (sy_th s)) i)"
    using o(2) r by (auto simp: places_ok_def Let_def)
  then show l: "unat c \<in> live (th_exec (sy_th s))" "c \<noteq> 0" "c \<notin> set cs" using r by (auto simp: unat_eq_0)
  then show "1 \<le> unat c" by (simp add: Suc_le_eq unat_gt_0)
  show "unat c \<le> length plan" "unat c < MAX_TASK_NUM" using o(1) l(1) by (auto simp: setup_ok_def exec_ok_def)
  show "tests_frame (plan ! (unat c - 1)) (fut (th_exec (sy_th s)) (unat c))" using t l by (simp add: unat_eq_0)
qed

text \<open>The executor after the fetch, and what the poll does.\<close>

definition frame_fetched :: "nat \<Rightarrow> test_sys \<Rightarrow> coroutine_id \<Rightarrow> coroutine_id list \<Rightarrow> test_future executor \<Rightarrow> bool" where
  "frame_fetched n s c cs ex1 \<longleftrightarrow> ready (th_exec (sy_th s)) 0 = c # cs \<and>
     fetched_from 1 n (th_exec (sy_th s)) (Some (unat c)) cs (ready (th_exec (sy_th s)) 1 @ irq_wake (th_exec (sy_th s))) ex1"

lemma frame_fetchedD:
  assumes "frame_fetched n s c cs ex1"
  shows "ready (th_exec (sy_th s)) 0 = c # cs" "fetch (th_exec (sy_th s)) = Inr (Some (unat c), ex1)" "exec_ok 1 n ex1"
    "live ex1 = live (th_exec (sy_th s))" "fut ex1 = fut (th_exec (sy_th s))" "ready ex1 0 = cs"
    "ready ex1 1 = ready (th_exec (sy_th s)) 1 @ irq_wake (th_exec (sy_th s))" "ex_delay_wake_cids ex1 = 0" "ex_current ex1 = Some c"
  using assms by (auto simp: frame_fetched_def fetched_from_def fut_def fun_eq_iff)

lemma frame_poll:
  assumes ok: "sys_ok env badge plan s nb" and f: "frame_fetched n s c cs ex1" and n: "n = length plan"
  defines "fu \<equiv> fut (th_exec (sy_th s)) (unat c)" and "fv \<equiv> plan ! (unat c - 1)" and "th \<equiv> (sy_th s)\<lparr>th_exec := ex1\<rparr>"
  shows "th_wf th" and "if calls_left fu = 0 then test_step env fu th = Inr (Ready, MemDone, resumed fu c th)
    else \<exists>fu' th'. test_step env fu th = Inr (Pending, fu', th') \<and> tests_frame fv fu' \<and> Suc (calls_left fu') = calls_left fu \<and> th_wf th' \<and>
      submitted (resumed fu c th) (te_buffer env) nb (if even (calls_left fu) then map_call env c fv else unmap_call c fv) WakeSyscallHandler th'"
proof -
  note k = frame_fetchedD [OF f] and hd = head_of_queue [OF ok frame_fetchedD(1) [OF f]] and b = calls_bound [OF ok]
  have su: "th_wf (sy_th s)" "te_buffer env \<noteq> 0" "th_sender_map (sy_th s) ! 63 = te_buffer env" "th_buffers (sy_th s) (te_buffer env) = Some nb"
    using sys_okD(1) [OF ok] by (auto simp: setup_ok_def)
  show wf: "th_wf th" unfolding th_def by (rule th_wf_with_exec [OF su(1) exec_okD(1) [OF k(3)]])
  have "length (reqs nb) < MAX_ITEM_NUM" using places_bound [OF ok] by (simp add: MAX_ITEM_NUM_def)
  then show "if calls_left fu = 0 then test_step env fu th = Inr (Ready, MemDone, resumed fu c th)
    else \<exists>fu' th'. test_step env fu th = Inr (Pending, fu', th') \<and> tests_frame fv fu' \<and> Suc (calls_left fu') = calls_left fu \<and> th_wf th' \<and>
      submitted (resumed fu c th) (te_buffer env) nb (if even (calls_left fu) then map_call env c fv else unmap_call c fv) WakeSyscallHandler th'"
    by (intro mem_poll) (use wf k(9) hd su b(3) in \<open>simp_all add: th_def fu_def fv_def\<close>)
qed

lemma frame_tokens:
  assumes "ready ex 1 = ready (th_exec (sy_th s)) 1 @ irq_wake (th_exec (sy_th s))" "ex_delay_wake_cids ex = 0"
  shows "tokens (after s ex th) \<le> tokens s" "0 \<in> live (th_exec (sy_th s)) \<Longrightarrow> tokens (after s ex th) = tokens s"
  using assms by (auto simp: tokens_def irq_wake_def)

lemma frame_wakes:
  assumes "wakes_ok s nb" and "tokens (after s ex th) \<le> tokens s" "0 \<in> live (th_exec (sy_th s)) \<Longrightarrow> tokens (after s ex th) = tokens s"
    and "0 \<in> live ex \<Longrightarrow> 0 \<in> live (th_exec (sy_th s))" and "nb_recv_reply_status nb' = nb_recv_reply_status nb"
    and "ress nb' = ress nb" "reqs nb' \<noteq> [] \<Longrightarrow> nb_recv_req_status nb'"
  shows "wakes_ok (after s ex th) nb'"
  unfolding wakes_ok_def using assms by (simp add: wakes_ok_def)

lemma frame_places:
  assumes "places_ok plan s nb" and "ready (th_exec (sy_th s)) 0 = c # cs"
  defines "q \<equiv> map item_cid (reqs nb) @ map item_cid (ress nb)"
  shows "distinct (cs @ q)" "c \<notin> set (cs @ q)" "insert (unat c) (unat ` set (cs @ q)) = live (th_exec (sy_th s)) - {0}"
      "\<forall>i\<in>live (th_exec (sy_th s)) - {0}. tests_frame (plan ! (i - 1)) (fut (th_exec (sy_th s)) i)"
  using assms(1) unfolding places_ok_def Let_def assms(2) q_def by auto

lemma turn_frame_ends:
  assumes ok: "sys_ok env badge plan s nb" and f: "frame_fetched (length plan) s c cs ex1"
    and fin: "calls_left (fut (th_exec (sy_th s)) (unat c)) = 0"
  shows "turn_ok env badge plan s nb"
proof -
  let ?ex = "th_exec (sy_th s)" and ?h = "unat c" and ?n = "length plan" and ?q = "map item_cid (reqs nb) @ map item_cid (ress nb)"
  note o = sys_okD [OF ok] and k = frame_fetchedD [OF f] and poll = frame_poll [OF ok f refl]
  note hd = head_of_queue [OF ok k(1)] and pl = frame_places [OF o(2) k(1)]
  let ?th = "resumed (fut ?ex ?h) c ((sy_th s)\<lparr>th_exec := ex1\<rparr>)"
  let ?ex2 = "ex1\<lparr>ex_tasks_bak := (ex_tasks_bak ex1)[?h := (ex_tasks_bak ex1 ! ?h)\<lparr>co_future := MemDone\<rparr>]\<rparr>"
  note e2 = exec_ok_set_future [OF k(3) hd(4), of MemDone]
  have cid: "co_cid (ex_tasks_bak ex1 ! ?h) = c" using exec_ok_cid [OF k(3), of ?h] hd(1) k(4) by simp
  have l2: "live ?ex2 = live ?ex" "ready ?ex2 = ready ex1" using k(4) by (simp_all add: live_def ready_def fun_eq_iff)
  then obtain ex3 where rm: "remove_task ?ex2 c = Inr ex3" "removed ?ex2 c ex3"
    using remove_task_ok [OF exec_okD(1) [OF e2(1)], of c] hd(1) by auto
  have "c \<notin> set (ready ?ex2 0)" "c \<notin> set (ready ?ex2 (1 - 1))" using hd(7) k(6) l2 by simp_all
  note e3 = exec_ok_removed [OF e2(1) rm(2) this]
  have l3: "live ex3 = live ?ex - {?h}" using rm(2) l2 by (simp add: removed_def)
  let ?s = "after s ex3 ?th"
  have t: "run_turn (test_poll env) ?ex (sy_th s) = Inr (True, ex3, ?th)"
    using turn_task [OF k(2), of env "sy_th s"] poll(2) fin k(5) rm(1) cid by (simp add: Let_def)
  have fu3: "fut ex3 i = fut ?ex i" if "i \<noteq> ?h" for i using e3(2) e2(2) k(5) that by simp
  have left: "left_of ex3 = left_of ?ex" using fu3 fin by (auto simp: left_of_def l3 fun_eq_iff)
  have r3: "ready ex3 0 = cs" "ready ex3 1 = ready ?ex 1 @ irq_wake ?ex" "ex_delay_wake_cids ex3 = 0"
    using e3(3,4) l2 k by simp_all
  have "setup_ok env badge ?n ?s nb"
    by (rule setup_ok_after [OF o(1)]) (use poll(1) e3(1) o(1) fu3 [of 0] hd in \<open>auto simp: setup_ok_def\<close>)
  moreover have "places_ok plan ?s nb" unfolding places_ok_def Let_def after_simps r3
  proof (intro conjI)
    have "?h \<notin> unat ` set (cs @ ?q)" using pl(2) by (auto simp: word_unat_eq_iff [symmetric])
    then have "unat ` set (cs @ ?q) = insert ?h (unat ` set (cs @ ?q)) - {?h}" by auto
    then show "unat ` set (cs @ ?q) = live ex3 - {0}" unfolding pl(3) l3 by auto
    show "\<forall>i\<in>live ex3 - {0}. tests_frame (plan ! (i - 1)) (fut ex3 i)" using pl(4) l3 fu3 by auto
  qed (rule pl(1))
  moreover have "calls_ok env plan ?s nb"
  proof -
    have "0 \<in> live ex3 \<longleftrightarrow> 0 \<in> live ?ex" using l3 hd(3) by auto
    then show ?thesis using o(3) unfolding calls_ok_def Let_def after_simps left by simp
  qed
  moreover have "wakes_ok ?s nb"
    by (rule frame_wakes [OF o(4) frame_tokens [OF r3(2,3)]]) (use o(4) l3 in \<open>auto simp: wakes_ok_def\<close>)
  moreover have "work ?n ?s nb < work ?n s nb" using frame_tokens(1) [OF r3(2,3), of ?th] r3(1) k(1) by (simp add: work_def left)
  ultimately show ?thesis unfolding turn_ok_def sys_ok_def using t by blast
qed

text \<open>A call is one more of the coroutine's calls, and one less to make.\<close>

lemma calls_ok_submit:
  assumes ok: "calls_ok env plan s nb" and h: "1 \<le> unat c" "unat c \<le> length plan" "unat c \<in> live (th_exec (sy_th s))" "length plan \<le> 1000"
    and fu: "tests_frame (plan ! (unat c - 1)) fu" "fu = fut (th_exec (sy_th s)) (unat c)" "Suc (calls_left fu') = calls_left fu"
    and ex: "live ex = live (th_exec (sy_th s))" "fut ex = (fut (th_exec (sy_th s)))(unat c := fu')"
    and nb': "reqs nb' = reqs nb @ [if even (calls_left fu) then map_call env c (plan ! (unat c - 1)) else unmap_call c (plan ! (unat c - 1))]"
      "ress nb' = ress nb"
    and th: "th_reply_count th = th_reply_count (sy_th s)" "th_uint_trigger th = th_uint_trigger (sy_th s)"
      "th_submit_syscall_cnt th \<le> th_submit_syscall_cnt (sy_th s) + 1"
  shows "calls_ok env plan (after s ex th) nb'" and "Suc (\<Sum>i = 1..length plan. left_of ex i) = (\<Sum>i = 1..length plan. left_of (th_exec (sy_th s)) i)"
proof -
  let ?ex = "th_exec (sy_th s)" and ?h = "unat c" and ?fv = "plan ! (unat c - 1)"
  let ?it = "if even (calls_left fu) then map_call env c ?fv else unmap_call c ?fv"
  have left: "Suc (left_of ex ?h) = left_of ?ex ?h" "left_of ?ex ?h = calls_left fu" "\<And>i. i \<noteq> ?h \<Longrightarrow> left_of ex i = left_of ?ex i"
    using ex fu h(3) by (auto simp: left_of_def)
  show sum: "Suc (\<Sum>i = 1..length plan. left_of ex i) = (\<Sum>i = 1..length plan. left_of ?ex i)"
    by (rule sum_decr [of ?h]) (use h left in auto)
  have flt: "filter (\<lambda>it. item_cid it = of_nat i) (sy_served s @ reqs nb') =
      take (2 * EPOCH - left_of ex i) (all_calls env (of_nat i) (plan ! (i - 1)))" if i: "1 \<le> i" "i \<le> length plan" for i
  proof (cases "i = ?h")
    case False
    have "of_nat i \<noteq> c"
    proof
      assume "of_nat i = c"
      then have "unat (of_nat i :: coroutine_id) = ?h" by simp
      then show False using False i h(4) by (simp add: unat_of_nat)
    qed
    then show ?thesis using ok i left(3) [OF False] nb' by (auto simp: calls_ok_def Let_def item_cid_call)
  next
    case True
    have "Suc (2 * EPOCH - calls_left fu) = 2 * EPOCH - left_of ex ?h"
      using left tests_frame_left [OF fu(1)] by simp
    moreover have "filter (\<lambda>it. item_cid it = c) (sy_served s @ reqs nb) = take (2 * EPOCH - calls_left fu) (all_calls env c ?fv)"
      using ok i True left(2) by (auto simp: calls_ok_def Let_def)
    ultimately show ?thesis using all_calls_next [OF fu(1), of env c] fu(3) nb' True by (auto simp: item_cid_call)
  qed
  have len: "length (reqs nb') = Suc (length (reqs nb))" using nb' by simp
  show "calls_ok env plan (after s ex th) nb'"
    using ok flt sum th unfolding calls_ok_def Let_def after_simps ex(1) nb'(2) len by (auto simp del: srb_list_length)
qed

lemma turn_frame_calls:
  assumes ok: "sys_ok env badge plan s nb" and f: "frame_fetched (length plan) s c cs ex1"
    and more: "calls_left (fut (th_exec (sy_th s)) (unat c)) \<noteq> 0"
  shows "turn_ok env badge plan s nb"
proof -
  let ?ex = "th_exec (sy_th s)" and ?h = "unat c" and ?n = "length plan" and ?fu = "fut (th_exec (sy_th s)) (unat c)"
  note o = sys_okD [OF ok] and k = frame_fetchedD [OF f] and poll = frame_poll [OF ok f refl]
  note hd = head_of_queue [OF ok k(1)] and pl = frame_places [OF o(2) k(1)]
  define it where "it = (if even (calls_left ?fu) then map_call env c (plan ! (?h - 1)) else unmap_call c (plan ! (?h - 1)))"
  obtain fu' th' where st: "test_step env ?fu ((sy_th s)\<lparr>th_exec := ex1\<rparr>) = Inr (Pending, fu', th')" and tf: "tests_frame (plan ! (?h - 1)) fu'"
    and lf: "Suc (calls_left fu') = calls_left ?fu" and wf: "th_wf th'"
    and sub: "submitted (resumed ?fu c ((sy_th s)\<lparr>th_exec := ex1\<rparr>)) (te_buffer env) nb it WakeSyscallHandler th'"
    using poll(2) more by (auto simp: it_def)
  obtain q where q: "th_buffers th' (te_buffer env) = Some (nb\<lparr>nb_req_items := q, nb_recv_req_status := True\<rparr>)" "srb_list q = reqs nb @ [it]"
    and th': "th_exec th' = ex1" "th_sender_map th' = th_sender_map (sy_th s)" "th_wake_map th' = th_wake_map (sy_th s)"
      "th_reply_count th' = th_reply_count (sy_th s)" "th_uint_trigger th' = th_uint_trigger (sy_th s)"
      "th_submit_syscall_cnt th' \<le> th_submit_syscall_cnt (sy_th s) + 1"
    using sub by (auto simp: submitted_def)
  let ?nb = "nb\<lparr>nb_req_items := q, nb_recv_req_status := True\<rparr>"
  let ?ex2 = "ex1\<lparr>ex_tasks_bak := (ex_tasks_bak ex1)[?h := (ex_tasks_bak ex1 ! ?h)\<lparr>co_future := fu'\<rparr>]\<rparr>"
  note e2 = exec_ok_set_future [OF k(3) hd(4), of fu']
  have l2: "live ?ex2 = live ?ex" "ready ?ex2 = ready ex1" using k(4) by (simp_all add: live_def ready_def fun_eq_iff)
  have t: "run_turn (test_poll env) ?ex (sy_th s) = Inr (True, ?ex2, th')"
    using turn_task [OF k(2), of env "sy_th s"] st k(5) th'(1) by (simp add: Let_def)
  have fu2: "fut ?ex2 = (fut ?ex)(?h := fu')" using e2(2) k(5) by simp
  have r2: "ready ?ex2 0 = cs" "ready ?ex2 1 = ready ?ex 1 @ irq_wake ?ex" "ex_delay_wake_cids ?ex2 = 0" using l2 k by simp_all
  have cid: "item_cid it = c" by (simp add: it_def item_cid_call)
  have "setup_ok env badge ?n (after s ?ex2 th') ?nb"
    by (rule setup_ok_after [OF o(1) wf e2(1)]) (use o(1) fu2 th' q hd in \<open>auto simp: setup_ok_def\<close>)
  moreover have "places_ok plan (after s ?ex2 th') ?nb" unfolding places_ok_def Let_def after_simps r2(1) l2(1) fu2
  proof (intro conjI)
    let ?cs = "cs @ map item_cid (reqs ?nb) @ map item_cid (ress ?nb)"
    show "distinct ?cs" using pl(1,2) q(2) cid by auto
    have "set ?cs = insert c (set (cs @ map item_cid (reqs nb) @ map item_cid (ress nb)))" using q(2) cid by auto
    then show "unat ` set ?cs = live ?ex - {0}" using pl(3) by simp
    show "\<forall>i\<in>live ?ex - {0}. tests_frame (plan ! (i - 1)) (((fut ?ex)(?h := fu')) i)" using pl(4) tf by simp
  qed
  moreover have n: "?n \<le> 1000" using o(1) by (simp add: setup_ok_def)
  note cs = calls_ok_submit [OF o(3) hd(3,4,1) n hd(6) refl lf l2(1) fu2, of ?nb th']
  have "calls_ok env plan (after s ?ex2 th') ?nb" by (rule cs(1)) (use q(2) it_def th' in simp_all)
  moreover have sum: "Suc (\<Sum>i = 1..?n. left_of ?ex2 i) = (\<Sum>i = 1..?n. left_of ?ex i)" by (rule cs(2)) (use q(2) it_def th' in simp_all)
  moreover have "wakes_ok (after s ?ex2 th') ?nb"
    by (rule frame_wakes [OF o(4) frame_tokens [OF r2(2,3)]]) (use l2 in simp_all)
  moreover have "work ?n (after s ?ex2 th') ?nb < work ?n s nb"
    using frame_tokens(1) [OF r2(2,3), of th'] sum r2(1) k(1) arg_cong [OF q(2), of length] unfolding work_def after_simps by simp
  ultimately show ?thesis unfolding turn_ok_def sys_ok_def using t by blast
qed

text \<open>The receiver of replies is polled: every reply is taken and its coroutine woken.\<close>

definition receiver_fetched :: "nat \<Rightarrow> test_sys \<Rightarrow> coroutine_id list \<Rightarrow> test_future executor \<Rightarrow> bool" where
  "receiver_fetched n s cs ex1 \<longleftrightarrow> ready (th_exec (sy_th s)) 0 = [] \<and> 0 \<in> live (th_exec (sy_th s)) \<and>
     (\<exists>c. ready (th_exec (sy_th s)) 1 @ irq_wake (th_exec (sy_th s)) = c # cs) \<and> fetched_from 1 n (th_exec (sy_th s)) (Some 0) [] cs ex1"

lemma receiver_fetchedD:
  assumes "receiver_fetched n s cs ex1"
  shows "ready (th_exec (sy_th s)) 0 = []" "fetch (th_exec (sy_th s)) = Inr (Some 0, ex1)" "exec_ok 1 n ex1"
    "live ex1 = live (th_exec (sy_th s))" "fut ex1 = fut (th_exec (sy_th s))" "ready ex1 0 = []"
    "ready ex1 1 = cs" "ex_delay_wake_cids ex1 = 0" "ex_current ex1 = Some 0" "0 \<in> live (th_exec (sy_th s))"
  using assms by (auto simp: receiver_fetched_def fetched_from_def fut_def fun_eq_iff)

lemma receiver_tokens:
  assumes "receiver_fetched n s cs ex1" and "ready ex 1 = cs" "ex_delay_wake_cids ex = 0"
  shows "Suc (tokens (after s ex th)) = tokens s"
proof -
  obtain c where c: "ready (th_exec (sy_th s)) 1 @ irq_wake (th_exec (sy_th s)) = c # cs" "0 \<in> live (th_exec (sy_th s))"
    using assms(1) by (auto simp: receiver_fetched_def)
  have "length (ready (th_exec (sy_th s)) 1) + length (irq_wake (th_exec (sy_th s))) = Suc (length cs)"
    using arg_cong [OF c(1), of length] by simp
  then show ?thesis using assms(2,3) c(2) by (auto simp: tokens_def irq_wake_def split: if_splits)
qed

text \<open>The coroutines of the replies are suspended, and there is room for all of them.\<close>

lemma receiver_wakes:
  assumes ok: "sys_ok env badge plan s nb" and f: "receiver_fetched (length plan) s cs ex1"
  defines "its \<equiv> ress nb"
  shows "\<forall>it\<in>set its. unat (item_cid it) < MAX_TASK_NUM" and "0 \<notin> set (map item_cid its)"
    and "\<exists>ex2. wake_all ex1 (map item_cid its) = Inr ex2 \<and> exec_ok 1 (length plan) ex2 \<and> live ex2 = live (th_exec (sy_th s)) \<and>
      fut ex2 = fut (th_exec (sy_th s)) \<and> ready ex2 0 = map item_cid its \<and> ready ex2 1 = cs \<and> ex_delay_wake_cids ex2 = 0 \<and> ex_tasks_bak ex2 = ex_tasks_bak ex1"
proof -
  note o = sys_okD [OF ok] and k = receiver_fetchedD [OF f] and b = calls_bound [OF ok] and p = places_bound [OF ok]
  have "unat ` set (map item_cid its) \<subseteq> live (th_exec (sy_th s)) - {0}" using o(2) by (auto simp: places_ok_def Let_def its_def)
  then have lv: "\<forall>c\<in>set (map item_cid its). unat c \<in> live ex1 \<and> c \<noteq> 0" using k(4) by (auto simp: image_subset_iff)
  then show "\<forall>it\<in>set its. unat (item_cid it) < MAX_TASK_NUM" using live_less [of _ ex1] by simp
  show "0 \<notin> set (map item_cid its)" using lv by blast
  have "length cs \<le> tokens (after s ex1 (sy_th s))" "tokens s \<le> 2" using o(4) k(7) by (simp_all add: wakes_ok_def tokens_def)
  then have "length cs \<le> 2" using receiver_tokens [OF f k(7,8), of "sy_th s"] by linarith
  moreover have "length (map item_cid its) \<le> 1000" using p by (simp add: its_def)
  ultimately show "\<exists>ex2. wake_all ex1 (map item_cid its) = Inr ex2 \<and> exec_ok 1 (length plan) ex2 \<and> live ex2 = live (th_exec (sy_th s)) \<and>
      fut ex2 = fut (th_exec (sy_th s)) \<and> ready ex2 0 = map item_cid its \<and> ready ex2 1 = cs \<and> ex_delay_wake_cids ex2 = 0 \<and> ex_tasks_bak ex2 = ex_tasks_bak ex1"
    using exec_ok_wake_all [OF k(3) lv] k by (auto simp: ex_consts fut_def fun_eq_iff)
qed

text \<open>The invariant after the receiver has taken the replies.\<close>

lemma receiver_sys_ok:
  assumes ok: "sys_ok env badge plan s nb" and f: "receiver_fetched (length plan) s cs ex1"
    and ex: "exec_ok 1 (length plan) ex" "live ex = live (th_exec (sy_th s)) - (if fin then {0} else {})" "fut ex = (fut (th_exec (sy_th s)))(0 := ReplyYield)"
      "ready ex 0 = map item_cid (ress nb)" "ready ex 1 = cs" "ex_delay_wake_cids ex = 0"
    and fin: "fin \<longleftrightarrow> th_reply_count (sy_th s) + length (ress nb) = te_reply_num env"
    and nb': "reqs nb' = reqs nb" "ress nb' = []" "nb_recv_req_status nb' = nb_recv_req_status nb" "nb_recv_reply_status nb' \<longleftrightarrow> fin \<and> nb_recv_reply_status nb"
    and th: "th_wf th" "th_sender_map th = th_sender_map (sy_th s)" "th_wake_map th = th_wake_map (sy_th s)" "th_buffers th (te_buffer env) = Some nb'"
      "th_reply_count th = th_reply_count (sy_th s) + length (ress nb)" "th_uint_trigger th = th_uint_trigger (sy_th s)"
      "th_submit_syscall_cnt th = th_submit_syscall_cnt (sy_th s)"
  shows "sys_ok env badge plan (after s ex th) nb'" "work (length plan) (after s ex th) nb' < work (length plan) s nb"
proof -
  note o = sys_okD [OF ok] and k = receiver_fetchedD [OF f] and b = calls_bound [OF ok] and t = receiver_tokens [OF f ex(5,6), of th]
  have left: "left_of ex i = left_of (th_exec (sy_th s)) i" if "i \<in> {1..length plan}" for i
    using ex(2,3) that by (auto simp: left_of_def)
  then have sum: "(\<Sum>i = 1..length plan. left_of ex i) = (\<Sum>i = 1..length plan. left_of (th_exec (sy_th s)) i)" by (intro sum.cong) simp_all
  have "setup_ok env badge (length plan) (after s ex th) nb'"
    by (rule setup_ok_after [OF o(1) th(1) ex(1) _ th(2,3,4)]) (simp add: ex(3))
  moreover have "places_ok plan (after s ex th) nb'"
  proof -
    have "set (map item_cid (ress nb) @ map item_cid (reqs nb) @ map item_cid []) = set ([] @ map item_cid (reqs nb) @ map item_cid (ress nb))" by auto
    then show ?thesis using o(2) unfolding places_ok_def Let_def after_simps ex(2,3,4) nb' k(1) by auto
  qed
  moreover have "calls_ok env plan (after s ex th) nb'"
  proof -
    have cnt: "th_reply_count (sy_th s) + length (ress nb) = length (sy_served s)" "0 \<in> live (th_exec (sy_th s))" using o(3) k(10) by (simp_all add: calls_ok_def Let_def)
    then have "0 \<in> live ex \<longleftrightarrow> th_reply_count th < 2 * EPOCH * length plan" using fin ex(2) b(1,5) th(5) by auto
    then show ?thesis
      using o(3) left cnt(1) unfolding calls_ok_def Let_def after_simps nb' th sum by simp
  qed
  moreover have "wakes_ok (after s ex th) nb'"
    using o(4) t nb' ex(2) by (cases fin; cases "nb_recv_reply_status nb") (auto simp: wakes_ok_def)
  ultimately show "sys_ok env badge plan (after s ex th) nb'" by (simp add: sys_ok_def)
  show "work (length plan) (after s ex th) nb' < work (length plan) s nb"
    unfolding work_def after_simps using t sum ex(4) nb' k(1) by simp
qed

lemma turn_receiver:
  assumes ok: "sys_ok env badge plan s nb" and f: "receiver_fetched (length plan) s cs ex1"
  shows "turn_ok env badge plan s nb"
proof -
  let ?ex = "th_exec (sy_th s)" and ?n = "length plan" and ?th = "(sy_th s)\<lparr>th_exec := ex1\<rparr>" and ?its = "ress nb"
  note o = sys_okD [OF ok] and k = receiver_fetchedD [OF f] and b = calls_bound [OF ok] and w = receiver_wakes [OF ok f]
  obtain ex2 where w2: "wake_all ex1 (map item_cid ?its) = Inr ex2" and e2: "exec_ok 1 ?n ex2" "live ex2 = live ?ex" "fut ex2 = fut ?ex"
      "ready ex2 0 = map item_cid ?its" "ready ex2 1 = cs" "ex_delay_wake_cids ex2 = 0"
    using w(3) by blast
  have su: "th_wf (sy_th s)" "th_buffers (sy_th s) (te_buffer env) = Some nb" "fut ?ex 0 \<in> {ReplyStart, ReplyYield}"
    using o(1) by (auto simp: setup_ok_def)
  define fin where "fin \<longleftrightarrow> th_reply_count (sy_th s) + length ?its = te_reply_num env"
  have cnt: "th_reply_count (sy_th s) + length ?its = length (sy_served s)" "th_reply_count (sy_th s) < te_reply_num env"
    using o(3) k(10) b(5) by (simp_all add: calls_ok_def Let_def)
  have wf1: "th_wf ?th" using th_wf_with_exec [OF su(1) exec_okD(1) [OF k(3)]] .
  obtain q iv where st: "test_step env (fut ?ex 0) ?th = Inr (if fin then Ready else Pending, ReplyYield,
      ?th\<lparr>th_buffers := (th_buffers ?th)(te_buffer env \<mapsto> nb\<lparr>nb_res_items := q, nb_recv_reply_status := fin \<and> nb_recv_reply_status nb\<rparr>),
        th_immediate_value := iv, th_exec := ex2, th_reply_count := th_reply_count ?th + length ?its\<rparr>)"
    and q: "iq_wf q" "srb_list q = []" and iv: "length iv = length (th_immediate_value (sy_th s))"
    using reply_poll [OF wf1, of env nb ?its "fut ?ex 0" ex2] su k(9) w(1) w2 cnt b(1,2) by (auto simp: fin_def)
  define nb' where "nb' = nb\<lparr>nb_res_items := q, nb_recv_reply_status := fin \<and> nb_recv_reply_status nb\<rparr>"
  define th' where "th' = ?th\<lparr>th_buffers := (th_buffers ?th)(te_buffer env \<mapsto> nb'),
        th_immediate_value := iv, th_exec := ex2, th_reply_count := th_reply_count ?th + length ?its\<rparr>"
  have "nb_wf nb'" using sys_ok_nb_wf [OF ok] q by (simp add: nb_wf_def nb'_def)
  then have wf': "th_wf th'" using wf1 exec_okD(1) [OF e2(1)] iv by (auto simp: th_wf_def th'_def ran_def)
  have cid: "co_cid (ex_tasks_bak ex1 ! 0) = 0" using exec_ok_cid [OF k(3), of 0] k(4,10) by simp
  obtain ex where stored: "if fin then remove_task (ex2\<lparr>ex_tasks_bak := (ex_tasks_bak ex2)[0 := (ex_tasks_bak ex2 ! 0)\<lparr>co_future := ReplyYield\<rparr>]\<rparr>) 0 = Inr ex
      else ex = ex2\<lparr>ex_tasks_bak := (ex_tasks_bak ex2)[0 := (ex_tasks_bak ex2 ! 0)\<lparr>co_future := ReplyYield\<rparr>]\<rparr>"
    and e: "exec_ok 1 ?n ex" "live ex = live ?ex - (if fin then {0} else {})" "fut ex = (fut ?ex)(0 := ReplyYield)"
      "ready ex 0 = map item_cid ?its" "ready ex 1 = cs" "ex_delay_wake_cids ex = 0"
    using receiver_stored [OF e2(1), of fin ReplyYield] e2 k(10) w(2) by auto
  have t: "run_turn (test_poll env) ?ex (sy_th s) = Inr (True, ex, th')"
    using turn_task [OF k(2), of env "sy_th s"] st k(5) stored cid by (cases fin) (simp_all add: th'_def nb'_def Let_def)
  note r = receiver_sys_ok [OF ok f e fin_def, of nb' th']
  have "sys_ok env badge plan (after s ex th') nb'" "work ?n (after s ex th') nb' < work ?n s nb"
    by (rule r; use q wf' in \<open>simp add: nb'_def th'_def\<close>)+
  then show ?thesis unfolding turn_ok_def using t by blast
qed

lemma turn_sys_ok:
  assumes ok: "sys_ok env badge plan s nb"
  shows "turn_ok env badge plan s nb"
proof -
  let ?ex = "th_exec (sy_th s)"
  have "exec_ok 1 (length plan) ?ex" using sys_okD(1) [OF ok] by (simp add: setup_ok_def)
  moreover have "length (ready ?ex 1) < MAX_TASK_NUM - 1" using calls_bound(4) [OF ok] by (simp add: ex_consts)
  ultimately obtain r r0 r1 ex' where f: "fetched_from 1 (length plan) ?ex r r0 r1 ex'"
    and c: "case ready ?ex 0 of
       c # cs \<Rightarrow> r = Some (unat c) \<and> r0 = cs \<and> r1 = ready ?ex 1 @ irq_wake ?ex
     | [] \<Rightarrow> r0 = [] \<and>
         (case ready ?ex 1 @ irq_wake ?ex of
            c # cs \<Rightarrow> r = (if 0 \<in> live ?ex then Some 0 else None) \<and> r1 = cs
          | [] \<Rightarrow> r = None \<and> r1 = [] \<and> (ex_delay_wake_cids ?ex = 0 \<longrightarrow> ex' = ?ex))"
    using fetch_cases_receiver_last by blast
  show ?thesis
  proof (cases "ready ?ex 0")
    case (Cons d cs)
    with f c have "frame_fetched (length plan) s d cs ex'" by (simp add: frame_fetched_def)
    then show ?thesis using turn_frame_ends [OF ok] turn_frame_calls [OF ok] by blast
  next
    case e0: Nil
    show ?thesis
    proof (cases "r = None")
      case False
      with f c e0 obtain cs where "receiver_fetched (length plan) s cs ex'"
        by (auto simp: receiver_fetched_def split: list.splits if_splits)
      then show ?thesis by (rule turn_receiver [OF ok])
    next
      case True
      with f c e0 have step: "ex' = ?ex \<and> ready ex' 0 = [] \<and> ready ex' 1 = [] \<and> ex_delay_wake_cids ex' = 0 \<or>
          0 \<notin> live ?ex \<and> length r1 < length (ready ?ex 1) + (if ex_delay_wake_cids ?ex \<noteq> 0 then 1 else 0)"
        by (auto simp: fetched_from_def irq_wake_def split: list.splits if_splits)
      show ?thesis by (rule turn_idle [OF ok f [unfolded True] _ step]) (use c e0 in simp)
    qed
  qed
qed

end
