(* ===== verification/Syscall_Run.thy ===== *)
theory Syscall_Run
  imports Syscall_Turn
begin

text \<open>
  The composed system runs to its end: no step panics, every step that changes something leaves less
  work, and where nothing changes the test is over.  The lemmas hold for every handler that keeps
  the contract of a reply server.
\<close>

section \<open>The composed system\<close>

text \<open>A step that changes something.\<close>

definition sys_change :: "handler \<Rightarrow> test_env \<Rightarrow> nat \<Rightarrow> test_sys \<Rightarrow> test_sys \<Rightarrow> bool" where
  "sys_change serve env badge s s' \<longleftrightarrow> sys_step serve env badge s s' \<and> s' \<noteq> s"

definition no_panic :: "test_env \<Rightarrow> nat \<Rightarrow> test_sys \<Rightarrow> bool" where
  "no_panic env badge s \<longleftrightarrow> \<not> isl (run_turn (test_poll env) (th_exec (sy_th s)) (sy_th s)) \<and>
     (sy_irq s \<longrightarrow> \<not> isl (uintr_handler (sy_th s) (push_bit badge 1)))"

text \<open>The test is over: no coroutine is left, every reply has been counted, and of every frame the kernel
  has served all calls, in order.\<close>

definition test_over :: "test_env \<Rightarrow> (u64 \<times> usize) list \<Rightarrow> test_sys \<Rightarrow> bool" where
  "test_over env plan s \<longleftrightarrow> is_empty (th_exec (sy_th s)) \<and> th_reply_count (sy_th s) = te_reply_num env \<and>
     length (sy_served s) = te_reply_num env \<and>
     (\<forall>i. 1 \<le> i \<and> i \<le> length plan \<longrightarrow>
        filter (\<lambda>it. item_cid it = of_nat i) (sy_served s) = all_calls env (of_nat i) (plan ! (i - 1)))"

context reply_server
begin

lemma step_ok:
  assumes ok: "sys_ok env badge plan s nb" and st: "sys_step serve env badge s s'"
  shows "\<exists>nb'. sys_ok env badge plan s' nb' \<and> (work (length plan) s' nb' < work (length plan) s nb \<or> s' = s)"
  using st
proof cases
  case (turn go_on ex th)
  with turn_sys_ok [OF ok] show ?thesis by (auto simp: turn_ok_def after_def)
next
  case (handler nb0 its irq nb')
  then have "nb0 = nb" using sys_okD(1) [OF ok] by (simp add: setup_ok_def)
  then have "served_by nb its irq nb'" using handler serve_step [OF sys_ok_nb_wf [OF ok]] by blast
  from handler_step [OF ok this] handler show ?thesis by blast
next
  case (interrupt x th)
  with interrupt_step [OF ok] show ?thesis by auto
qed

lemma change_ok:
  assumes "(sys_change serve env badge ^^ k) s s'" and "sys_ok env badge plan s nb"
  shows "\<exists>nb'. sys_ok env badge plan s' nb' \<and> k + work (length plan) s' nb' \<le> work (length plan) s nb"
  using assms
proof (induction k arbitrary: s')
  case (Suc k)
  then obtain s1 where s1: "(sys_change serve env badge ^^ k) s s1" "sys_change serve env badge s1 s'" by auto
  with Suc obtain nb1 where "sys_ok env badge plan s1 nb1" "k + work (length plan) s1 nb1 \<le> work (length plan) s nb" by blast
  with step_ok [of env badge plan s1 nb1 s'] s1(2) show ?case by (fastforce simp: sys_change_def)
qed auto

lemma panic_free:
  assumes ok: "sys_ok env badge plan s nb"
  shows "no_panic env badge s"
  using turn_sys_ok [OF ok] interrupt_step [OF ok] by (auto simp: no_panic_def turn_ok_def)

text \<open>Where nothing changes, nothing is ready, no interrupt is pending and the handler sleeps.\<close>

lemma stuck_idle:
  assumes ok: "sys_ok env badge plan s nb" and stuck: "\<not> (\<exists>s'. sys_change serve env badge s s')"
  shows "ready (th_exec (sy_th s)) 0 = []" "tokens s = 0" "\<not> nb_recv_req_status nb"
proof -
  let ?ex = "th_exec (sy_th s)" and ?n = "length plan"
  note o = sys_okD [OF ok]
  have same: "s' = s" if "sys_step serve env badge s s'" for s' using stuck that by (auto simp: sys_change_def)
  obtain go_on ex th nb' where t: "run_turn (test_poll env) ?ex (sy_th s) = Inr (go_on, ex, th)" and ok': "sys_ok env badge plan (after s ex th) nb'"
    and w: "work ?n (after s ex th) nb' < work ?n s nb \<or> after s ex th = s \<and> \<not> go_on \<and> ready ?ex 0 = [] \<and> ready ?ex 1 = [] \<and> ex_delay_wake_cids ?ex = 0"
    using turn_sys_ok [OF ok] by (auto simp: turn_ok_def)
  have b: "th_buffers (sy_th s) (te_buffer env) = Some nb" using o(1) by (auto simp: setup_ok_def)
  have "after s ex th = s" using same sys_step.turn [OF t] by (simp add: after_def)
  moreover from this have "nb' = nb" using sys_okD(1) [OF ok'] b by (simp add: setup_ok_def)
  ultimately have idle: "ready ?ex 0 = []" "ready ?ex 1 = []" "ex_delay_wake_cids ?ex = 0" using w by auto
  then show "ready ?ex 0 = []" by blast
  have irq: "\<not> sy_irq s"
  proof
    assume i: "sy_irq s"
    then obtain x th1 where h: "uintr_handler (sy_th s) (push_bit badge 1) = Inr (x, th1)" using interrupt_step [OF ok] by blast
    have "s\<lparr>sy_th := th1, sy_irq := False\<rparr> = s" by (rule same) (rule sys_step.interrupt [OF i h])
    then have "sy_irq s = False" by (metis test_sys.select_convs(2) test_sys.surjective test_sys.update_convs(2))
    with i show False by simp
  qed
  show "tokens s = 0" using idle irq by (simp add: tokens_def)
  show "\<not> nb_recv_req_status nb"
  proof
    assume a: "nb_recv_req_status nb"
    have "length (reqs nb) + length (ress nb) \<le> MAX_ITEM_NUM" using places_bound [OF ok] by (simp add: MAX_ITEM_NUM_def)
    then obtain its i nb1 where sv: "serve nb its i nb1" using serve_awake [OF sys_ok_nb_wf [OF ok] a] by blast
    have "s\<lparr>sy_th := (sy_th s)\<lparr>th_buffers := (th_buffers (sy_th s))(te_buffer env \<mapsto> nb1)\<rparr>, sy_irq := sy_irq s \<or> i, sy_served := sy_served s @ its\<rparr> = s"
      by (rule same) (rule sys_step.handler, rule b, rule sv)
    with handler_step(3) [OF ok serve_step [OF sys_ok_nb_wf [OF ok] sv] a] show False by blast
  qed
qed

lemma stuck_over:
  assumes ok: "sys_ok env badge plan s nb" and stuck: "\<not> (\<exists>s'. sys_change serve env badge s s')"
  shows "test_over env plan s"
proof -
  let ?ex = "th_exec (sy_th s)" and ?n = "length plan"
  note o = sys_okD [OF ok] and i = stuck_idle [OF assms]
  have ex: "exec_ok 1 ?n ?ex" using o(1) by (simp add: setup_ok_def)
  have q: "reqs nb = []" using o(4) i(3) by (simp add: wakes_ok_def)
  have cnt: "th_reply_count (sy_th s) + length (ress nb) = length (sy_served s)" "0 \<in> live ?ex \<longleftrightarrow> th_reply_count (sy_th s) < te_reply_num env"
    "length (sy_served s) + length (reqs nb) + (\<Sum>i = 1..?n. left_of ?ex i) = te_reply_num env"
    using o(3) calls_bound(5) [OF ok] by (simp_all add: calls_ok_def Let_def)
  have p: "ress nb = []"
  proof (cases "0 \<in> live ?ex")
    case True
    then have "\<not> nb_recv_reply_status nb" using o(4) i(2) by (simp add: wakes_ok_def)
    then show ?thesis using o(4) by (auto simp: wakes_ok_def)
  next
    case False
    then have "length (ress nb) = 0" using cnt by linarith
    then show ?thesis by (simp only: length_0_conv)
  qed
  have l: "live ?ex - {0} = {}" using o(2) i(1) q p by (simp add: places_ok_def Let_def)
  then have left: "left_of ?ex i = 0" if "1 \<le> i" for i using that by (auto simp: left_of_def)
  then have sum: "(\<Sum>i = 1..?n. left_of ?ex i) = 0" by simp
  then have tot: "length (sy_served s) = te_reply_num env" "th_reply_count (sy_th s) = te_reply_num env" using cnt(1,3) q p by simp_all
  then have "live ?ex = {}" using cnt(2) l by auto
  then have "is_empty ?ex" using exec_okD(3) [OF ex] by (simp add: is_empty_def tasks_wf_def)
  then show ?thesis using tot o(3) left q by (simp add: test_over_def calls_ok_def Let_def)
qed

text \<open>From any state that satisfies the invariant: no panic, a bounded number of changes, and the end of the
  test where nothing changes any more.\<close>

lemma runs_to_the_end:
  assumes "sys_ok env badge plan s0 nb0" and "(sys_change serve env badge ^^ k) s0 s"
  shows "k \<le> work (length plan) s0 nb0" "no_panic env badge s" "(\<exists>s'. sys_change serve env badge s s') \<or> test_over env plan s"
proof -
  obtain nb where ok: "sys_ok env badge plan s nb" and b: "k + work (length plan) s nb \<le> work (length plan) s0 nb0"
    using change_ok [OF assms(2,1)] by blast
  show "k \<le> work (length plan) s0 nb0" using b by simp
  show "no_panic env badge s" by (rule panic_free [OF ok])
  show "(\<exists>s'. sys_change serve env badge s s') \<or> test_over env plan s" using stuck_over [OF ok] by blast
qed

end

end
