(* ===== verification/Syscall_Start.thy ===== *)
theory Syscall_Start
  imports Syscall_Run
begin

text \<open>
  From the set-up of the program (\<^verbatim>\<open>main\<close> and \<^verbatim>\<open>async_syscall_test\<close>) to the invariant, and the theorem on
  the program as a whole.
\<close>

section \<open>The start of the test\<close>

text \<open>What the coroutines are spawned with: frame and address.\<close>

fun plan_from :: "usize list \<Rightarrow> usize \<Rightarrow> (u64 \<times> usize) list" where
  "plan_from [] vaddr = []"
| "plan_from (frame # frames) vaddr = (of_nat frame, vaddr) # plan_from frames (vaddr + TEST_PAGE_SIZE)"

lemma length_plan_from [simp]: "length (plan_from frames vaddr) = length frames"
  by (induction frames arbitrary: vaddr) simp_all

definition started :: "(u64 \<times> usize) list \<Rightarrow> test_future executor \<Rightarrow> bool" where
  "started pl ex \<longleftrightarrow> exec_ok 1 (length pl) ex \<and> live ex = {..length pl} \<and> ready ex 0 = map of_nat [1..<Suc (length pl)] \<and> ready ex 1 = [0] \<and>
     ex_delay_wake_cids ex = 0 \<and> fut ex 0 = ReplyStart \<and> (\<forall>i<length pl. fut ex (Suc i) = MemStart (fst (pl ! i)) (snd (pl ! i)))"

lemma started_receiver:
  assumes "coroutine_spawn executor_new ReplyStart = Inr (cid, ex)"
  shows "cid = 0" "started [] ex" "ex_wf ex"
proof -
  have "spawned executor_new ReplyStart 1 cid ex" using spawn_inv [OF executor_new_wf] assms by (simp add: coroutine_spawn_def)
  note f = exec_ok_first [OF this, simplified]
  show "cid = 0" "started [] ex" "ex_wf ex" using f exec_okD(1) [OF f(2)] by (auto simp: started_def)
qed

lemma started_next:
  assumes st: "started pl ex" and sp: "spawned ex (MemStart f v) 0 cid ex'" and n: "Suc (length pl) < MAX_TASK_NUM"
  shows "started (pl @ [(f, v)]) ex'"
proof -
  have ok: "exec_ok 1 (length pl) ex" and l: "live ex = {..length pl}" and r: "ready ex 0 = map of_nat [1..<Suc (length pl)]" "ready ex 1 = [0]"
    and d: "ex_delay_wake_cids ex = 0" and fu: "fut ex 0 = ReplyStart" "\<forall>i<length pl. fut ex (Suc i) = MemStart (fst (pl ! i)) (snd (pl ! i))"
    using st by (auto simp: started_def)
  note nx = exec_ok_next [OF ok l _ n, of "MemStart f v" cid ex', simplified, OF sp]
  show ?thesis using nx r d fu unfolding started_def by (auto simp: nth_append less_Suc_eq)
qed

lemma spawn_tests_ok:
  assumes "started pl ex" and "length pl + length frames \<le> 1000" and "vaddr + length frames * TEST_PAGE_SIZE < 2 ^ 64"
  shows "\<exists>ex'. spawn_tests frames vaddr ex = Inr ex' \<and> started (pl @ plan_from frames vaddr) ex'"
  using assms
proof (induction frames arbitrary: pl ex vaddr)
  case (Cons frame frames)
  have ok: "exec_ok 1 (length pl) ex" "live ex = {..length pl}" "length (ready ex 0) = length pl"
    using Cons.prems(1) by (simp_all add: started_def del: upt_Suc)
  then obtain cid ex1 where sp: "spawn ex (MemStart (of_nat frame) vaddr) 0 = Inr (cid, ex1)" "spawned ex (MemStart (of_nat frame) vaddr) 0 cid ex1"
    using spawn_total [OF exec_okD(1) [OF ok(1)], of 0 "MemStart (of_nat frame) vaddr"] Cons.prems(2) by (auto simp: ex_consts)
  have "started (pl @ [(of_nat frame, vaddr)]) ex1" by (rule started_next [OF Cons.prems(1) sp(2)]) (use Cons.prems(2) in \<open>simp add: ex_consts\<close>)
  from Cons.IH [OF this, of "vaddr + TEST_PAGE_SIZE"] sp(1) Cons.prems(2,3) show ?case
    by (auto simp: add_usize_def algebra_simps)
qed simp

text \<open>The invariant holds at the start.\<close>

lemma start_sys_ok:
  assumes st: "started plan (th_exec th)" and n: "0 < length plan" "length plan \<le> 1000" and env: "te_reply_num env = 2 * EPOCH * length plan" "te_buffer env \<noteq> 0"
    and th: "th_wf th" "th_sender_map th ! 63 = te_buffer env" "th_buffers th (te_buffer env) = Some new_buffer_new" "th_wake_map th badge = Some 0" "badge < 64"
      "th_uint_trigger th = 0" "th_reply_count th = 0" "th_submit_syscall_cnt th = 0"
  defines "s \<equiv> \<lparr>sy_th = th, sy_irq = False, sy_served = []\<rparr>"
  shows "sys_ok env badge plan s new_buffer_new" "work (length plan) s new_buffer_new = 162 * length plan + 1"
proof -
  let ?ex = "th_exec th" and ?n = "length plan"
  have ok: "exec_ok 1 ?n ?ex" and l: "live ?ex = {..?n}" and r: "ready ?ex 0 = map of_nat [1..<Suc ?n]" "ready ?ex 1 = [0]"
    and d: "ex_delay_wake_cids ?ex = 0" and fu: "fut ?ex 0 = ReplyStart" "\<forall>i<?n. fut ?ex (Suc i) = MemStart (fst (plan ! i)) (snd (plan ! i))"
    using st by (auto simp: started_def)
  have fu': "fut ?ex i = MemStart (fst (plan ! (i - 1))) (snd (plan ! (i - 1)))" if "1 \<le> i" "i \<le> ?n" for i
    using fu(2) [rule_format, of "i - 1"] that by (cases i) auto
  have nb: "reqs new_buffer_new = []" "ress new_buffer_new = []" "\<not> nb_recv_req_status new_buffer_new" "\<not> nb_recv_reply_status new_buffer_new"
    by (simp_all add: new_buffer_new_def items_queue_new_list)
  have left: "left_of ?ex i = 2 * EPOCH" if "1 \<le> i" "i \<le> ?n" for i using fu' [OF that] that l by (simp add: left_of_def)
  then have sum: "(\<Sum>i = 1..?n. left_of ?ex i) = 2 * EPOCH * ?n" by simp
  have u: "unat (of_nat i :: coroutine_id) = i" if "i \<le> ?n" for i using that n by (simp add: unat_of_nat)
  have "setup_ok env badge ?n s new_buffer_new" using assms ok fu by (simp add: setup_ok_def s_def)
  moreover have "places_ok plan s new_buffer_new"
  proof -
    have "inj_on (of_nat :: nat \<Rightarrow> coroutine_id) {1..<Suc ?n}" by (rule inj_onI) (metis atLeastLessThan_iff less_Suc_eq_le u)
    then have "distinct (ready ?ex 0)" unfolding r(1) by (simp add: distinct_map del: upt_Suc)
    moreover have "unat ` set (ready ?ex 0) = {1..<Suc ?n}" unfolding r(1) using u by (force simp: image_iff)
    then have "unat ` set (ready ?ex 0) = live ?ex - {0}" using l by auto
    ultimately show ?thesis using l fu' nb by (auto simp: places_ok_def s_def Let_def)
  qed
  moreover have "calls_ok env plan s new_buffer_new"
    using nb left sum l th n by (simp add: calls_ok_def s_def Let_def EPOCH_def)
  moreover have "wakes_ok s new_buffer_new" using nb r d by (simp add: wakes_ok_def tokens_def s_def)
  ultimately show "sys_ok env badge plan s new_buffer_new" by (simp add: sys_ok_def)
  show "work ?n s new_buffer_new = 162 * ?n + 1"
    unfolding work_def using sum nb r d by (simp add: tokens_def s_def EPOCH_def del: upt_Suc)
qed


section \<open>Setting up\<close>

lemma question_Inr_iff: "(case s of Inl e \<Rightarrow> Inr (Inl ()) | Inr x \<Rightarrow> F x) = Inr (Inr y) \<longleftrightarrow> (\<exists>x. s = Inr x \<and> F x = Inr (Inr y))"
  by (cases s) simp_all

text \<open>The receiver of replies has number 0, and its interrupt vector is 0.\<close>

lemma setup_state:
  assumes s: "async_syscall_setup k env uintrvec handler exec_ptr tp = Inr (Inr tp1)" and new: "tp_thread tp = thread_new Map.empty"
  shows "te_buffer env \<noteq> 0" "th_wf (tp_thread tp1)" "started [] (th_exec (tp_thread tp1))" "th_sender_map (tp_thread tp1) ! 63 = te_buffer env"
    "th_buffers (tp_thread tp1) (te_buffer env) = Some new_buffer_new" "th_wake_map (tp_thread tp1) 0 = Some 0"
    "th_uint_trigger (tp_thread tp1) = 0" "th_reply_count (tp_thread tp1) = 0" "th_submit_syscall_cnt (tp_thread tp1) = 0"
proof -
  let ?th = "(thread_new Map.empty :: test_thread)\<lparr>th_buffers := [te_buffer env \<mapsto> new_buffer_new]\<rparr>"
  have init: "executor_init (th_exec (thread_new Map.empty :: test_thread)) = executor_new" "th_exec ?th = executor_new"
    by (simp_all add: executor_init_def executor_new_def thread_new_def)
  have th1: "((tp_thread tp)\<lparr>th_exec := executor_init (th_exec (tp_thread tp))\<rparr>)
      \<lparr>th_buffers := (th_buffers ((tp_thread tp)\<lparr>th_exec := executor_init (th_exec (tp_thread tp))\<rparr>))(te_buffer env \<mapsto> new_buffer_new)\<rparr> = ?th"
    unfolding new init by (simp add: thread_new_def)
  obtain cid ex badge th2 sm where b: "te_buffer env \<noteq> 0" and c: "coroutine_spawn executor_new ReplyStart = Inr (cid, ex)"
    and r: "register_recv_cid (?th\<lparr>th_exec := ex\<rparr>) cid = (Some badge, th2)" and sm: "store_res (th_sender_map th2) 63 (te_buffer env) = Inr sm"
    and tp1: "tp_thread tp1 = th2\<lparr>th_sender_map := sm\<rparr>"
    using s unfolding async_syscall_setup_def Let_def th1 init(2) register_async_syscall_buffer_def
    by (auto simp: question_Inr_iff split_def prod_eq_iff)
  note st = started_receiver [OF c]
  have wf: "th_wf (?th\<lparr>th_exec := ex\<rparr>)"
    using st(3) by (simp add: th_wf_def thread_new_def new_buffer_new_wf ia_new_wf ia_new_used)
  obtain a where al: "ia_allocate MAX_UINT_VEC (ia_new MAX_UINT_VEC) = (Some badge, a)"
    and th2: "th2 = ?th\<lparr>th_exec := ex, th_uint_vec_allocator := a, th_wake_map := [badge \<mapsto> cid]\<rparr>"
    using r by (auto simp: register_recv_cid_def thread_new_def split: prod.splits option.splits)
  have badge: "badge = 0"
    using ia.alloc_least [OF ia_new_wf al] by (simp add: ia_new_used)
  have "th_wf th2" using register_recv_cid_spec [OF wf r] by simp
  then have wf1: "th_wf (tp_thread tp1)" and sm': "sm ! 63 = te_buffer env" using sm by (auto simp: tp1 th_wf_def store_res_def split: if_splits)
  show "te_buffer env \<noteq> 0" "th_wf (tp_thread tp1)" using b wf1 by auto
  show "started [] (th_exec (tp_thread tp1))" "th_sender_map (tp_thread tp1) ! 63 = te_buffer env"
    "th_buffers (tp_thread tp1) (te_buffer env) = Some new_buffer_new" "th_wake_map (tp_thread tp1) 0 = Some 0"
    "th_uint_trigger (tp_thread tp1) = 0" "th_reply_count (tp_thread tp1) = 0" "th_submit_syscall_cnt (tp_thread tp1) = 0"
    using st sm' badge by (simp_all add: tp1 th2 thread_new_def)
qed

text \<open>Setting the pages up leaves the thread alone and provides 512 frames.\<close>

lemma performance_test_init_frames:
  assumes "performance_test_init k tp = Inr tp'"
  shows "length (tp_frames tp') = TEST_PAGE_NUM" "tp_thread tp' = tp_thread tp"
  using assms by (auto simp: performance_test_init_def rmap_Inr_iff Let_def)

lemma sync_pages_ok:
  assumes "vaddr + length frames * TEST_PAGE_SIZE < 2 ^ 64"
  shows "\<exists>oa'. sync_pages k frames vaddr oa = Inr oa'"
  using assms by (induction frames arbitrary: vaddr oa) (auto simp: add_usize_def algebra_simps)

definition start_of :: "'u test_prog \<Rightarrow> test_sys" where
  "start_of tp = \<lparr>sy_th = tp_thread tp, sy_irq = False, sy_served = []\<rparr>"

definition plan_of :: "'u test_prog \<Rightarrow> (u64 \<times> usize) list" where
  "plan_of tp = plan_from (tp_frames tp) TEST_START_ADDR"

lemma test_starts:
  assumes s: "async_syscall_setup k env uintrvec handler exec_ptr tp0 = Inr (Inr tp1)" and new: "tp_thread tp0 = thread_new Map.empty"
    and i: "performance_test_init k tp1 = Inr tp2" and n: "te_reply_num env = TEST_REPLY_NUM"
  shows "\<exists>tp. async_syscall_test k env uintrvec handler exec_ptr tp0 = Inr (Inr tp) \<and>
    sys_ok env 0 (plan_of tp) (start_of tp) new_buffer_new \<and> work (length (plan_of tp)) (start_of tp) new_buffer_new = 82945"
proof -
  note th = setup_state [OF s new] and f = performance_test_init_frames [OF i]
  have b: "TEST_START_ADDR + length (tp_frames tp2) * TEST_PAGE_SIZE < 2 ^ 64" "length (tp_frames tp2) = 512"
    using f(1) by (simp_all add: TEST_START_ADDR_def TEST_PAGE_SIZE_def TEST_PAGE_NUM_def MAX_PAGE_NUM_BITS_def)
  obtain oa where oa: "sync_memory_test k tp2 = Inr (tp2\<lparr>tp_objects := oa\<rparr>)"
    using sync_pages_ok [OF b(1), of k "tp_objects tp2"] by (auto simp: sync_memory_test_def)
  obtain ex where ex: "spawn_tests (tp_frames tp2) TEST_START_ADDR (th_exec (tp_thread tp1)) = Inr ex"
    and st: "started (plan_from (tp_frames tp2) TEST_START_ADDR) ex"
    using spawn_tests_ok [OF th(3), of "tp_frames tp2" TEST_START_ADDR] b by auto
  define tp where "tp = tp2\<lparr>tp_objects := oa, tp_thread := (tp_thread tp2)\<lparr>th_exec := ex\<rparr>\<rparr>"
  have run: "async_syscall_test k env uintrvec handler exec_ptr tp0 = Inr (Inr tp)"
    using s i oa ex f(2) by (simp add: async_syscall_test_def run_performance_test_all_def async_memory_test_def tp_def)
  have pl: "plan_of tp = plan_from (tp_frames tp2) TEST_START_ADDR" "length (plan_of tp) = 512" using b(2) by (simp_all add: plan_of_def tp_def)
  have thr: "tp_thread tp = (tp_thread tp1)\<lparr>th_exec := ex\<rparr>" using f(2) by (simp add: tp_def)
  have "th_wf (tp_thread tp)" unfolding thr using th(2) st by (auto simp: started_def intro: th_wf_with_exec dest: exec_okD(1))
  moreover have "tp_frames tp2 \<noteq> []" using b(2) by auto
  ultimately have "sys_ok env 0 (plan_of tp) (start_of tp) new_buffer_new \<and>
      work (length (plan_of tp)) (start_of tp) new_buffer_new = 162 * length (plan_of tp) + 1"
    using start_sys_ok [of "plan_of tp" "tp_thread tp" env 0] st pl th n
    by (simp add: start_of_def thr TEST_REPLY_NUM_def TEST_PAGE_NUM_def MAX_PAGE_NUM_BITS_def EPOCH_def)
  then show ?thesis using run pl(2) by auto
qed

text \<open>C1. The program as a whole.  After a set-up in which the kernel's calls succeed, with any handler
  of system calls that keeps the contract, and however the turns of the run loop, the steps of
  the handler and the interrupts are interleaved: no turn and no interrupt panics, at most 82945 steps
  change anything, and in a state that no step changes the program is over.  Then no coroutine is
  left, 10240 replies have been counted, and the kernel has served, for each of the 512 frames,
  exactly ten times a mapping followed by an unmapping of that frame.\<close>

theorem syscall_test_runs_to_the_end:
  assumes "reply_server serve"
    and "async_syscall_setup k env uintrvec handler exec_ptr tp0 = Inr (Inr tp1)" and "tp_thread tp0 = thread_new Map.empty"
    and "performance_test_init k tp1 = Inr tp2" and "te_reply_num env = TEST_REPLY_NUM"
  shows "\<exists>tp. async_syscall_test k env uintrvec handler exec_ptr tp0 = Inr (Inr tp) \<and>
    (\<forall>n s. (sys_change serve env 0 ^^ n) (start_of tp) s \<longrightarrow>
      n \<le> 82945 \<and> no_panic env 0 s \<and> ((\<exists>s'. sys_change serve env 0 s s') \<or> test_over env (plan_of tp) s))"
proof -
  obtain tp where tp: "async_syscall_test k env uintrvec handler exec_ptr tp0 = Inr (Inr tp)"
    "sys_ok env 0 (plan_of tp) (start_of tp) new_buffer_new" "work (length (plan_of tp)) (start_of tp) new_buffer_new = 82945"
    using test_starts [OF assms(2-5)] by blast
  show ?thesis using reply_server.runs_to_the_end [OF assms(1) tp(2)] tp by (intro exI [of _ tp]) simp
qed

definition test_env_example :: test_env where
  "test_env_example = \<lparr>te_tcb = 1, te_vspace = 3, te_rights = 3, te_attrs = 0, te_buffer = 69632, te_reply_num = TEST_REPLY_NUM\<rparr>"

definition test_prog_example :: "u64 test_prog" where
  "test_prog_example = \<lparr>tp_objects = oa_new pool_boot, tp_image = image_example, tp_thread = thread_new Map.empty, tp_hart = hart_example,
     tp_frames = replicate TEST_PAGE_NUM 0\<rparr>"

lemma setup_example:
  "\<exists>tp1. async_syscall_setup kernel_example test_env_example 65536 131072 4096 test_prog_example = Inr (Inr tp1) \<and>
     regions_used [True, False, False, False] 202 (tp_objects tp1)"
proof -
  have slot: "get_user_image_frame_slot image_example 69632 = Inr 101"
    using frame_slot_eq(1) [OF image_example_ok, of 69632]
    by (simp add: image_example_start image_example_stop) (simp add: image_example_def)
  obtain oa1 where n: "alloc_ntfn kernel_example (oa_new pool_boot) = Inr (Inr 200, oa1)" and oa1: "regions_used [True, False, False, False] 201 oa1"
    using object_allocated [of 0 "[False, False, False]" 200 "oa_new pool_boot" BNotification] unfolding alloc_ntfn_def
    using pool_boot_regions by (auto simp: kernel_example_def)
  define oa2 where "oa2 = oa1\<lparr>oa_empty_start := 202\<rparr>"
  have e: "get_empty_slot oa1 = Inr (201, oa2)" and oa2: "regions_used [True, False, False, False] 202 oa2"
    using oa1 by (simp_all add: regions_used_def get_empty_slot_def oa2_def)
  have init: "executor_init executor_new = (executor_new :: test_future executor)" by (simp add: executor_init_def executor_new_def)
  obtain cid ex where sp: "coroutine_spawn (executor_new :: test_future executor) ReplyStart = Inr (cid, ex)"
    using spawn_total [OF executor_new_wf, of 1 ReplyStart] by (auto simp: coroutine_spawn_def ex_consts)
  obtain v a where al: "ia_allocate MAX_UINT_VEC (ia_new MAX_UINT_VEC) = (Some v, a)"
    using ia.alloc_total [OF ia_new_wf [of MAX_UINT_VEC]] by (auto simp: ia_new_used MAX_UINT_VEC_def)
  show ?thesis
    unfolding async_syscall_setup_def test_env_example_def test_prog_example_def Let_def
    using oa2
    by (simp add: init n e sp al register_recv_cid_def slot guard_res_def kunwrap_def kcall_res_def register_receiver_def register_async_syscall_buffer_def
        invoke_def kernel_accepts store_res_def thread_new_def Let_def regions_used_def del: rbind_Inr_iff)
qed

lemma performance_test_init_example:
  assumes oa: "regions_used [True, False, False, False] 202 (tp_objects tp)"
  shows "\<exists>tp'. performance_test_init kernel_example tp = Inr tp'"
proof -
  obtain oa1 where 1: "alloc_many_frame kernel_example 8 (tp_objects tp) = Inr (map (\<lambda>i. 202 + i) [0..<256], oa1)"
      "regions_used [True, True, False, False] 458 oa1"
    using frames_allocated [of 1 "[False, False]" 202 "tp_objects tp"] oa by auto
  obtain oa2 where 2: "alloc_many_frame kernel_example 8 oa1 = Inr (map (\<lambda>i. 458 + i) [0..<256], oa2)"
      "regions_used [True, True, True, False] 714 oa2"
    using frames_allocated [of 2 "[False]" 458 oa1] 1(2) by (auto simp: numeral_2_eq_2)
  obtain oa3 where 3: "alloc_page_table kernel_example oa2 = Inr (Inr 714, oa3)"
    using object_allocated [of 3 "[]" 714 oa2 BPageTable] 2(2) unfolding alloc_page_table_def
    by (auto simp: numeral_3_eq_3 kernel_example_def)
  let ?f = "\<lambda>i. if i < TEST_PAGE_NUM div 2 then index_res (map (\<lambda>i. 202 + i) [0..<256]) i
      else index_res (map (\<lambda>i. 458 + i) [0..<256]) (i - TEST_PAGE_NUM div 2)"
  have "rmap ?f [0..<TEST_PAGE_NUM] = Inr (map (\<lambda>i. if i < 256 then 202 + i else 458 + (i - 256)) [0..<TEST_PAGE_NUM])"
    unfolding rmap_Inr_iff by (auto simp: index_res_def TEST_PAGE_NUM_def MAX_PAGE_NUM_BITS_def)
  then show ?thesis
    using 1(1) 2(1) 3 unfolding performance_test_init_def Let_def
    by (simp add: MAX_PAGE_NUM_BITS_def kunwrap_def del: rbind_Inr_iff)
qed

theorem syscall_test_runs_to_the_end_witness:
  "\<exists>tp n s. async_syscall_test kernel_example test_env_example 65536 131072 4096 test_prog_example = Inr (Inr tp) \<and>
     (sys_change (ipc_serve () 0) test_env_example 0 ^^ n) (start_of tp) s \<and> n \<le> 82945 \<and> test_over test_env_example (plan_of tp) s"
proof -
  obtain tp1 where s: "async_syscall_setup kernel_example test_env_example 65536 131072 4096 test_prog_example = Inr (Inr tp1)"
    "regions_used [True, False, False, False] 202 (tp_objects tp1)" using setup_example by blast
  obtain tp2 where i: "performance_test_init kernel_example tp1 = Inr tp2" using performance_test_init_example [OF s(2)] by blast
  have "tp_thread test_prog_example = thread_new Map.empty" "te_reply_num test_env_example = TEST_REPLY_NUM"
    by (simp_all add: test_prog_example_def test_env_example_def)
  moreover have "reply_server (ipc_serve () 0)" by (rule ipc.reply_server_axioms)
  ultimately obtain tp where
    tp: "async_syscall_test kernel_example test_env_example 65536 131072 4096 test_prog_example = Inr (Inr tp)"
    and run: "\<forall>n s. (sys_change (ipc_serve () 0) test_env_example 0 ^^ n) (start_of tp) s \<longrightarrow> n \<le> 82945 \<and>
      ((\<exists>s'. sys_change (ipc_serve () 0) test_env_example 0 s s') \<or> test_over test_env_example (plan_of tp) s)"
    using syscall_test_runs_to_the_end [of "ipc_serve () 0", OF _ s(1) _ i] by blast
  from bounded_run_ends [OF run] run tp show ?thesis by blast
qed

end
