(* ===== verification/Ipc_Setup.thy ===== *)
theory Ipc_Setup
  imports Run_Loop Reply_Server
begin

unbundle bit_operations_syntax

text \<open>
  How the two threads of the IPC benchmark (\<^verbatim>\<open>src/ipc_test.rs\<close>) set up their channel.  The main thread
  (\<^verbatim>\<open>async_ipc_test\<close>, the server) creates the helper thread (\<^verbatim>\<open>async_helper_thread\<close>, the client); they exchange
  capabilities and sender identifiers through the shared \<^verbatim>\<open>AsyncArgs\<close>, each waiting in a loop for the
  other's fields.  A step is what a thread does between two accesses to what they share: the arguments
  and the object allocator, both behind locks.  The network stack's threads (\<^verbatim>\<open>async_tcp_test.rs\<close>) use
  the same exchange.

  The shared buffer is memory of both threads and is entered in the store of each.
\<close>

section \<open>State\<close>

definition COROUTINE_NUM :: usize where "COROUTINE_NUM = 8"

datatype ipc_future =
    ServerStart
  | ServerYield
  | RecvStart
  | RecvYield
  | CallStart sender_id u64
  | CallWait sender_id u64
  | CallDone

type_synonym ipc_thread = "ipc_future thread"

datatype ipc_server_pc = SBegin | SCreate | SChild usize | SWait | SRegister | SReady sender_id | SRun | SFailed

datatype ipc_client_pc = CNone | CStart | CWait | CSpawn | CSlot usize usize | CMint usize usize usize
  | CPublish sender_id usize | CWaitReady sender_id | CRun

text \<open>What the threads get from outside: the addresses that \<^verbatim>\<open>alloc_zeroed\<close> returned, the capability of the
  main thread, and the kernel's answer to the registration of a sender for a notification.\<close>

record ipc_env =
  ie_exec :: usize
  ie_child_exec :: usize
  ie_buffer :: usize
  ie_args :: usize
  ie_tcb :: usize
  ie_ipc_buffer :: usize
  ie_stack :: usize
  ie_func :: u64
  ie_image :: image_utils
  ie_uintrvec :: u64
  ie_handler :: u64
  ie_sender :: "u64 \<Rightarrow> unit + u64"

record 'u ipc_sys =
  is_args :: async_args
  is_objects :: object_allocator
  is_server :: ipc_server_pc
  is_client :: ipc_client_pc
  is_sth :: ipc_thread
  is_cth :: ipc_thread
  is_sht :: "'u hart"
  is_cht :: "'u hart"

section \<open>The server\<close>

text \<open>The question-mark operator on a kernel invocation: \<^verbatim>\<open>async_ipc_test\<close> returns with the error.\<close>

definition try_invoke :: "kernel \<Rightarrow> kcall \<Rightarrow> 'u ipc_sys \<Rightarrow> ('u ipc_sys \<Rightarrow> 'u ipc_sys res) \<Rightarrow> 'u ipc_sys res" where
  "try_invoke k c s f =
     (case invoke k c (is_objects s) of
        (Inl e, oa) \<Rightarrow> Inr (s\<lparr>is_objects := oa, is_server := SFailed\<rparr>)
      | (Inr u, oa) \<Rightarrow> f (s\<lparr>is_objects := oa\<rparr>))"

text \<open>Up to the arguments the helper thread waits for; it does not exist yet.\<close>

definition ipc_server_publish :: "kernel \<Rightarrow> ipc_env \<Rightarrow> usize \<Rightarrow> usize \<Rightarrow> 'u ipc_sys \<Rightarrow> 'u ipc_sys res" where
  "ipc_server_publish k env unbadged badged s =
     (case invoke k (RegisterReceiver unbadged (ie_tcb env)) (is_objects s) of (registered, oa) \<Rightarrow>
      case register_receiver (ie_uintrvec env) (ie_handler env) registered (is_sht s) of (r, ht) \<Rightarrow>
      let s1 = s\<lparr>is_objects := oa, is_sht := ht\<rparr>; add_buffer = (\<lambda>bufs. bufs(ie_buffer env \<mapsto> new_buffer_new)) in
      case r of
        Inl e \<Rightarrow> Inr (s1\<lparr>is_server := SFailed\<rparr>)
      | Inr _ \<Rightarrow>
          rbind (guard_res (ie_buffer env \<noteq> 0) ExplicitPanic) (\<lambda>_.
          Inr (s1\<lparr>is_sth := (is_sth s)\<lparr>th_buffers := add_buffer (th_buffers (is_sth s))\<rparr>,
            is_cth := (is_cth s)\<lparr>th_buffers := add_buffer (th_buffers (is_cth s))\<rparr>,
            is_args := (is_args s)\<lparr>aa_req_ntfn := Some (of_nat badged), aa_ipc_new_buffer := Some (ie_buffer env)\<rparr>,
            is_server := SCreate\<rparr>)))"

definition ipc_server_begin :: "kernel \<Rightarrow> ipc_env \<Rightarrow> 'u ipc_sys \<Rightarrow> 'u ipc_sys res" where
  "ipc_server_begin k env s =
     rbind (guard_res (ie_exec env \<noteq> 0) ExplicitPanic) (\<lambda>_.
     let th0 = (is_sth s)\<lparr>th_exec := executor_init (th_exec (is_sth s))\<rparr> in
     rbind (kunwrap (alloc_ntfn k (is_objects s))) (\<lambda>(unbadged, oa1).
     rbind (get_empty_slot oa1) (\<lambda>(badged, oa2).
     rbind (spawn (th_exec th0) ServerStart 1) (\<lambda>(cid, ex).
     case register_recv_cid (th0\<lparr>th_exec := ex\<rparr>) cid of (r, th1) \<Rightarrow>
     rbind (unwrap r) (\<lambda>badge.
     try_invoke k (CNodeMint badged unbadged badge) (s\<lparr>is_objects := oa2, is_sth := th1\<rparr>) (\<lambda>s2.
     try_invoke k (TcbBindNotification (ie_tcb env) unbadged) s2 (ipc_server_publish k env unbadged badged)))))))"

definition ipc_server_step :: "kernel \<Rightarrow> ipc_env \<Rightarrow> 'u ipc_sys \<Rightarrow> 'u ipc_sys res" where
  "ipc_server_step k env s =
     (case is_server s of
        SBegin \<Rightarrow> ipc_server_begin k env s
      | SCreate \<Rightarrow>
          rbind (create_thread k (ie_image env) (ie_ipc_buffer env) (ie_stack env) (ie_func env) (ie_args env) 255 0 True (is_objects s)) (\<lambda>(r, oa).
          case r of
            Inl e \<Rightarrow> Inr (s\<lparr>is_objects := oa, is_server := SFailed\<rparr>)
          | Inr tcb \<Rightarrow> Inr (s\<lparr>is_objects := oa, is_server := SChild tcb, is_client := CStart\<rparr>))
      | SChild tcb \<Rightarrow> Inr (s\<lparr>is_args := (is_args s)\<lparr>aa_child_tcb := Some (of_nat tcb)\<rparr>, is_server := SWait\<rparr>)
      | SWait \<Rightarrow> if aa_reply_ntfn (is_args s) \<noteq> None then Inr (s\<lparr>is_server := SRegister\<rparr>) else Inr s
      | SRegister \<Rightarrow>
          rbind (unwrap (aa_reply_ntfn (is_args s))) (\<lambda>ntfn. case ie_sender env ntfn of
            Inl e \<Rightarrow> Inl ExplicitPanic
          | Inr reply_id \<Rightarrow> Inr (s\<lparr>is_server := SReady reply_id\<rparr>))
      | SReady reply_id \<Rightarrow>
          Inr (s\<lparr>is_args := (is_args s)\<lparr>aa_server_sender_id := Some reply_id, aa_server_ready := True\<rparr>, is_server := SRun\<rparr>)
      | SRun \<Rightarrow> Inr s
      | SFailed \<Rightarrow> Inr s)"

section \<open>The client\<close>

text \<open>The coroutines of the client: \<^verbatim>\<open>client_call_test\<close> with the calls that are left, a static variable.\<close>

definition client_call_round ::
  "sender_id \<Rightarrow> u64 \<Rightarrow> usize \<Rightarrow> ipc_thread \<Rightarrow> (poll_result \<times> ipc_future \<times> usize \<times> ipc_thread) res" where
  "client_call_round sid msg mute_send_num th =
     (if 0 < mute_send_num
      then rbind (coroutine_get_current (th_exec th)) (\<lambda>cid.
        rbind (seL4_Call_with_item th sid (item_from cid (ucast msg))) (\<lambda>(suspended, th').
        if suspended then Inr (Pending, CallWait sid msg, mute_send_num - 1, th') else Inl ExplicitPanic))
      else Inr (Ready, CallDone, mute_send_num, th))"

definition client_call_resume ::
  "sender_id \<Rightarrow> u64 \<Rightarrow> usize \<Rightarrow> ipc_thread \<Rightarrow> (poll_result \<times> ipc_future \<times> usize \<times> ipc_thread) res" where
  "client_call_resume sid msg mute_send_num th =
     rbind (seL4_Call_with_item_resume th) (\<lambda>(r, th'). case r of
       Inl e \<Rightarrow> Inl ExplicitPanic
     | Inr reply \<Rightarrow> client_call_round sid msg mute_send_num th')"

fun spawn_callers :: "nat list \<Rightarrow> sender_id \<Rightarrow> ipc_future executor \<Rightarrow> ipc_future executor res" where
  "spawn_callers [] sid ex = Inr ex"
| "spawn_callers (i # is) sid ex =
     rbind (coroutine_spawn ex (CallStart sid (of_nat (100 + i)))) (\<lambda>(cid, ex'). spawn_callers is sid ex')"

definition ipc_client_step :: "kernel \<Rightarrow> ipc_env \<Rightarrow> 'u ipc_sys \<Rightarrow> 'u ipc_sys res" where
  "ipc_client_step k env s =
     (let a = is_args s; th = is_cth s in
      case is_client s of
        CNone \<Rightarrow> Inr s
      | CStart \<Rightarrow>
          rbind (guard_res (ie_child_exec env \<noteq> 0) ExplicitPanic) (\<lambda>_.
          Inr (s\<lparr>is_cth := th\<lparr>th_exec := executor_init (th_exec th)\<rparr>, is_client := CWait\<rparr>))
      | CWait \<Rightarrow>
          if aa_child_tcb a \<noteq> None \<and> aa_req_ntfn a \<noteq> None \<and> aa_ipc_new_buffer a \<noteq> None
          then Inr (s\<lparr>is_client := CSpawn\<rparr>) else Inr s
      | CSpawn \<Rightarrow>
          rbind (unwrap (aa_ipc_new_buffer a)) (\<lambda>_.
          rbind (spawn (th_exec th) RecvStart 0) (\<lambda>(cid, ex).
          case register_recv_cid (th\<lparr>th_exec := ex\<rparr>) cid of (r, th1) \<Rightarrow>
          rbind (unwrap r) (\<lambda>badge.
          rbind (unwrap (aa_child_tcb a)) (\<lambda>_.
          rbind (kunwrap (alloc_ntfn k (is_objects s))) (\<lambda>(reply_ntfn, oa).
          Inr (s\<lparr>is_cth := th1, is_objects := oa, is_client := CSlot reply_ntfn badge\<rparr>))))))
      | CSlot reply_ntfn badge \<Rightarrow>
          rbind (get_empty_slot (is_objects s)) (\<lambda>(slot, oa).
          Inr (s\<lparr>is_objects := oa, is_client := CMint reply_ntfn slot badge\<rparr>))
      | CMint reply_ntfn slot badge \<Rightarrow>
          rbind (unwrap (aa_child_tcb a)) (\<lambda>tcb.
          rbind (kunwrap (kcall_res k (CNodeMint slot reply_ntfn badge) (is_objects s))) (\<lambda>(_, oa1).
          rbind (kunwrap (kcall_res k (TcbBindNotification (unat tcb) reply_ntfn) oa1)) (\<lambda>(_, oa2).
          case invoke k (RegisterReceiver reply_ntfn (unat tcb)) oa2 of (registered, oa3) \<Rightarrow>
          case register_receiver (ie_uintrvec env) (ie_handler env) registered (is_cht s) of
            (Inl e, ht) \<Rightarrow> Inl UnwrapErr
          | (Inr _, ht) \<Rightarrow>
              rbind (unwrap (aa_req_ntfn a)) (\<lambda>req_ntfn.
              rbind (unwrap (aa_ipc_new_buffer a)) (\<lambda>new_buffer.
              rbind (register_sender_buffer th (ie_sender env req_ntfn) new_buffer) (\<lambda>(r, th1). case r of
                Inl e \<Rightarrow> Inl ExplicitPanic
              | Inr sender_id \<Rightarrow>
                  Inr (s\<lparr>is_cth := th1, is_cht := ht, is_objects := oa3, is_client := CPublish sender_id slot\<rparr>)))))))
      | CPublish sender_id slot \<Rightarrow>
          Inr (s\<lparr>is_args := a\<lparr>aa_client_sender_id := Some sender_id, aa_reply_ntfn := Some (of_nat slot)\<rparr>,
            is_client := CWaitReady sender_id\<rparr>)
      | CWaitReady sender_id \<Rightarrow>
          if aa_server_ready a
          then rbind (spawn_callers [0..<COROUTINE_NUM] sender_id (th_exec th)) (\<lambda>ex.
            Inr (s\<lparr>is_cth := th\<lparr>th_exec := ex\<rparr>, is_client := CRun\<rparr>))
          else Inr s
      | CRun \<Rightarrow> Inr s)"

text \<open>A round of a calling coroutine: one request of the coroutine while calls are left, otherwise its end.\<close>

lemma client_call_round_ok:
  assumes "th_wf th" and "ex_current (th_exec th) = Some c" and "unat sid < 64" and "th_sender_map th ! unat sid = ptr" "ptr \<noteq> 0" "th_buffers th ptr = Some nb"
    and "length (reqs nb) < MAX_ITEM_NUM" "th_submit_syscall_cnt th + 1 < 2 ^ 64"
  shows "if mute = 0 then client_call_round sid msg mute th = Inr (Ready, CallDone, 0, th)
    else \<exists>th'. client_call_round sid msg mute th = Inr (Pending, CallWait sid msg, mute - 1, th') \<and> th_wf th' \<and>
      submitted th ptr nb (item_from c (ucast msg)) (if sid = 63 then WakeSyscallHandler else Uipi sid) th'"
  using call_with_item_spec [OF assms(1,3) assms(8,4), of nb "item_from c (ucast msg)"] assms
  by (auto simp: client_call_round_def coroutine_get_current_def)

section \<open>Interleaving\<close>

inductive ipc_step :: "kernel \<Rightarrow> ipc_env \<Rightarrow> 'u ipc_sys \<Rightarrow> 'u ipc_sys \<Rightarrow> bool" for k env where
  server: "ipc_server_step k env s = Inr s' \<Longrightarrow> ipc_step k env s s'"
| client: "ipc_client_step k env s = Inr s' \<Longrightarrow> ipc_step k env s s'"

inductive_cases ipc_step_cases: "ipc_step k env s s'"

definition ipc_change :: "kernel \<Rightarrow> ipc_env \<Rightarrow> 'u ipc_sys \<Rightarrow> 'u ipc_sys \<Rightarrow> bool" where
  "ipc_change k env s s' \<longleftrightarrow> ipc_step k env s s' \<and> s' \<noteq> s"

definition ipc_start :: "object_allocator \<Rightarrow> 'u hart \<Rightarrow> 'u hart \<Rightarrow> 'u ipc_sys" where
  "ipc_start oa sht cht = \<lparr>is_args = async_args_new, is_objects = oa, is_server = SBegin, is_client = CNone,
     is_sth = thread_new Map.empty, is_cth = thread_new Map.empty, is_sht = sht, is_cht = cht\<rparr>"

text \<open>A thread that has the shared buffer, still empty, and whose coroutine 0 is registered for vector 0; nothing
  has happened on it yet.\<close>

definition idle_thread :: "ipc_env \<Rightarrow> ipc_thread \<Rightarrow> bool" where
  "idle_thread env th \<longleftrightarrow> th_wf th \<and> th_wake_map th 0 = Some 0 \<and> th_buffers th (ie_buffer env) = Some new_buffer_new \<and> ie_buffer env \<noteq> 0 \<and>
     th_signals th = [] \<and> th_uint_trigger th = 0 \<and> th_submit_syscall_cnt th = 0 \<and> ex_delay_wake_cids (th_exec th) = 0"

text \<open>A thread with its first coroutine, of priority \<open>p\<close>, and the client's thread with all its coroutines.\<close>

definition one_coroutine :: "ipc_env \<Rightarrow> nat \<Rightarrow> ipc_future \<Rightarrow> ipc_thread \<Rightarrow> bool" where
  "one_coroutine env p f th \<longleftrightarrow> idle_thread env th \<and> exec_ok p 0 (th_exec th) \<and> live (th_exec th) = {0} \<and>
     ready (th_exec th) p = [0] \<and> ready (th_exec th) (1 - p) = [] \<and> fut (th_exec th) 0 = f"

definition callers_spawned :: "sender_id \<Rightarrow> nat \<Rightarrow> ipc_future executor \<Rightarrow> bool" where
  "callers_spawned sid m ex \<longleftrightarrow> exec_ok 0 m ex \<and> live ex = {..m} \<and> ready ex 0 = [0] \<and> ready ex 1 = map of_nat [1..<Suc m] \<and>
     ex_delay_wake_cids ex = 0 \<and> fut ex 0 = RecvStart \<and> (\<forall>i<m. fut ex (Suc i) = CallStart sid (of_nat (100 + i)))"

lemma first_coroutine:
  assumes th: "th_wf th" "th_exec th = executor_new" "th_uint_vec_allocator th = ia_new MAX_UINT_VEC" "th_wake_map th = Map.empty" and p: "p \<le> 1"
  shows "\<exists>ex a. spawn (th_exec th) f p = Inr (0, ex) \<and>
    register_recv_cid (th\<lparr>th_exec := ex\<rparr>) 0 = (Some 0, th\<lparr>th_exec := ex, th_uint_vec_allocator := a, th_wake_map := [0 \<mapsto> 0]\<rparr>) \<and>
    th_wf (th\<lparr>th_exec := ex, th_uint_vec_allocator := a, th_wake_map := [0 \<mapsto> 0]\<rparr>) \<and>
    exec_ok p 0 ex \<and> live ex = {0} \<and> ready ex p = [0] \<and> ready ex (1 - p) = [] \<and> fut ex 0 = f \<and> ex_delay_wake_cids ex = 0"
proof -
  obtain cid ex where sp: "spawn (th_exec th) f p = Inr (cid, ex)" "spawned (th_exec th) f p cid ex"
    using spawn_total [of "th_exec th" p f] executor_new_wf p by (auto simp: th(2) ex_consts)
  note ex = exec_ok_first [OF sp(2) [unfolded th(2)] p]
  have wf: "th_wf (th\<lparr>th_exec := ex\<rparr>)" using th(1) exec_okD(1) [OF ex(2)] by (simp add: th_wf_def)
  obtain v a where al: "ia_allocate MAX_UINT_VEC (ia_new MAX_UINT_VEC) = (Some v, a)" and v: "v = 0"
    using ia.alloc_total [OF ia_new_wf [of MAX_UINT_VEC]] by (auto simp: ia_new_used MAX_UINT_VEC_def)
  have r: "register_recv_cid (th\<lparr>th_exec := ex\<rparr>) 0 = (Some 0, th\<lparr>th_exec := ex, th_uint_vec_allocator := a, th_wake_map := [0 \<mapsto> 0]\<rparr>)"
    using al v th by (simp add: register_recv_cid_def)
  with register_recv_cid_spec [OF wf r] sp(1) ex show ?thesis by auto
qed

lemma callers_spawned_next:
  assumes st: "callers_spawned sid m ex" and sp: "spawned ex (CallStart sid (of_nat (100 + m))) 1 cid ex'" and m: "Suc m < MAX_TASK_NUM"
  shows "callers_spawned sid (Suc m) ex'"
proof -
  have ok: "exec_ok 0 m ex" "live ex = {..m}" using st by (simp_all add: callers_spawned_def)
  note n = exec_ok_next [OF ok _ m, of "CallStart sid (of_nat (100 + m))" cid ex', simplified]
  show ?thesis using n st sp unfolding callers_spawned_def by (auto simp: less_Suc_eq)
qed

lemma spawn_callers_ok:
  assumes "callers_spawned sid m ex" and "m + k < 2000"
  shows "\<exists>ex'. spawn_callers [m..<m + k] sid ex = Inr ex' \<and> callers_spawned sid (m + k) ex'"
  using assms
proof (induction k arbitrary: ex m)
  case (Suc k)
  have up: "[m..<m + Suc k] = m # [Suc m..<Suc m + k]" by (simp add: upt_conv_Cons)
  have ok: "exec_ok 0 m ex" "live ex = {..m}" "length (ready ex 1) = m" using Suc.prems(1) by (simp_all add: callers_spawned_def del: upt_Suc)
  let ?f = "CallStart sid (of_nat (100 + m))"
  obtain cid ex1 where sp: "coroutine_spawn ex ?f = Inr (cid, ex1)" "spawned ex ?f 1 cid ex1"
    using spawn_total [OF exec_okD(1) [OF ok(1)], of 1 ?f] ok(2,3) Suc.prems(2) by (auto simp: ex_consts coroutine_spawn_def)
  have "callers_spawned sid (Suc m) ex1" using callers_spawned_next [OF Suc.prems(1) sp(2)] Suc.prems(2) by (simp add: ex_consts)
  from Suc.IH [OF this] Suc.prems(2) sp(1) show ?case unfolding up by auto
qed simp

section \<open>Invariant\<close>

fun server_rank :: "ipc_server_pc \<Rightarrow> nat" where
  "server_rank SCreate = 0"
| "server_rank (SChild tcb) = 1"
| "server_rank SWait = 2"
| "server_rank SRegister = 3"
| "server_rank (SReady rid) = 4"
| "server_rank _ = 5"

fun client_rank :: "ipc_client_pc \<Rightarrow> nat" where
  "client_rank CNone = 0"
| "client_rank CStart = 0"
| "client_rank CWait = 1"
| "client_rank CSpawn = 2"
| "client_rank (CSlot n badge) = 3"
| "client_rank (CMint n slot badge) = 4"
| "client_rank (CPublish sid slot) = 5"
| "client_rank (CWaitReady sid) = 6"
| "client_rank CRun = 7"

definition rank :: "'u ipc_sys \<Rightarrow> nat" where
  "rank s = server_rank (is_server s) + client_rank (is_client s)"

text \<open>What the kernel and the allocator provide: invocations are accepted, senders get identifiers below 64,
  the helper thread is created with capability \<open>tcb\<close>, and there is one more notification and slot.\<close>

definition ipc_resources :: "kernel \<Rightarrow> ipc_env \<Rightarrow> object_allocator \<Rightarrow> usize \<Rightarrow> object_allocator \<Rightarrow> bool" where
  "ipc_resources k env oa tcb oa2 \<longleftrightarrow> (\<forall>c. k_accepts k c) \<and> (\<forall>ntfn. \<exists>sid. ie_sender env ntfn = Inr sid \<and> unat sid < 64) \<and> ie_child_exec env \<noteq> 0 \<and>
     create_thread k (ie_image env) (ie_ipc_buffer env) (ie_stack env) (ie_func env) (ie_args env) 255 0 True oa = Inr (Inr tcb, oa2) \<and>
     (\<exists>n oa3. alloc_ntfn k oa2 = Inr (Inr n, oa3) \<and> oa_empty_start oa3 < oa_empty_end oa3)"

text \<open>The arguments as far as the server has filled them in, and as far as the client has.\<close>

definition server_args :: "ipc_env \<Rightarrow> usize \<Rightarrow> ipc_server_pc \<Rightarrow> async_args \<Rightarrow> bool" where
  "server_args env tcb sp a \<longleftrightarrow> aa_ipc_new_buffer a = Some (ie_buffer env) \<and> aa_req_ntfn a \<noteq> None \<and>
     aa_child_tcb a = (if server_rank sp < 2 then None else Some (of_nat tcb)) \<and> (aa_server_ready a \<longleftrightarrow> sp = SRun) \<and>
     (2 < server_rank sp \<longrightarrow> aa_reply_ntfn a \<noteq> None) \<and>
     (case sp of
        SCreate \<Rightarrow> True
      | SChild t \<Rightarrow> t = tcb
      | SWait \<Rightarrow> True
      | SRegister \<Rightarrow> True
      | SReady rid \<Rightarrow> ie_sender env (the (aa_reply_ntfn a)) = Inr rid
      | SRun \<Rightarrow> (\<exists>rid. aa_server_sender_id a = Some rid \<and> ie_sender env (the (aa_reply_ntfn a)) = Inr rid)
      | _ \<Rightarrow> False)"

definition client_args :: "ipc_env \<Rightarrow> ipc_client_pc \<Rightarrow> async_args \<Rightarrow> bool" where
  "client_args env cp a \<longleftrightarrow> (aa_reply_ntfn a \<noteq> None \<longleftrightarrow> 5 < client_rank cp) \<and>
     (if 5 < client_rank cp then \<exists>sid. aa_client_sender_id a = Some sid \<and> ie_sender env (the (aa_req_ntfn a)) = Inr sid else aa_client_sender_id a = None)"

text \<open>The client's own state.\<close>

definition has_sender :: "ipc_env \<Rightarrow> sender_id \<Rightarrow> async_args \<Rightarrow> ipc_thread \<Rightarrow> bool" where
  "has_sender env sid a th \<longleftrightarrow> ie_sender env (the (aa_req_ntfn a)) = Inr sid \<and> unat sid < 64 \<and> th_sender_map th ! unat sid = ie_buffer env"

definition fresh_client :: "ipc_env \<Rightarrow> ipc_thread \<Rightarrow> bool" where
  "fresh_client env th \<longleftrightarrow> ie_buffer env \<noteq> 0 \<and> th = (thread_new Map.empty)\<lparr>th_buffers := [ie_buffer env \<mapsto> new_buffer_new]\<rparr>"

fun client_inv :: "kernel \<Rightarrow> ipc_env \<Rightarrow> object_allocator \<Rightarrow> ipc_client_pc \<Rightarrow> async_args \<Rightarrow> ipc_thread \<Rightarrow> object_allocator \<Rightarrow> bool" where
  "client_inv k env oa2 CNone a th oa = fresh_client env th"
| "client_inv k env oa2 CStart a th oa = (fresh_client env th \<and> oa = oa2)"
| "client_inv k env oa2 CWait a th oa = (fresh_client env th \<and> oa = oa2)"
| "client_inv k env oa2 CSpawn a th oa = (fresh_client env th \<and> oa = oa2)"
| "client_inv k env oa2 (CSlot n badge) a th oa = (one_coroutine env 0 RecvStart th \<and> badge = 0 \<and> oa_empty_start oa < oa_empty_end oa)"
| "client_inv k env oa2 (CMint n slot badge) a th oa = (one_coroutine env 0 RecvStart th \<and> badge = 0)"
| "client_inv k env oa2 (CPublish sid slot) a th oa = (one_coroutine env 0 RecvStart th \<and> has_sender env sid a th)"
| "client_inv k env oa2 (CWaitReady sid) a th oa = (one_coroutine env 0 RecvStart th \<and> has_sender env sid a th \<and> aa_client_sender_id a = Some sid)"
| "client_inv k env oa2 CRun a th oa = (idle_thread env th \<and>
     (\<exists>sid. aa_client_sender_id a = Some sid \<and> has_sender env sid a th \<and> callers_spawned sid COROUTINE_NUM (th_exec th)))"

definition ipc_inv :: "kernel \<Rightarrow> ipc_env \<Rightarrow> usize \<Rightarrow> object_allocator \<Rightarrow> object_allocator \<Rightarrow> 'u ipc_sys \<Rightarrow> bool" where
  "ipc_inv k env tcb oa1 oa2 s \<longleftrightarrow> one_coroutine env 1 ServerStart (is_sth s) \<and> server_args env tcb (is_server s) (is_args s) \<and>
     client_args env (is_client s) (is_args s) \<and> client_inv k env oa2 (is_client s) (is_args s) (is_cth s) (is_objects s) \<and>
     (is_server s = SCreate \<longleftrightarrow> is_client s = CNone) \<and> (is_server s = SCreate \<longrightarrow> is_objects s = oa1) \<and>
     (1 < client_rank (is_client s) \<longrightarrow> 2 \<le> server_rank (is_server s)) \<and> (is_client s = CRun \<longrightarrow> is_server s = SRun)"

lemma client_inv_cong:
  "aa_req_ntfn a' = aa_req_ntfn a \<Longrightarrow> aa_client_sender_id a' = aa_client_sender_id a \<Longrightarrow> client_inv k env oa2 cp a' th oa = client_inv k env oa2 cp a th oa"
  by (cases cp) (simp_all add: has_sender_def)

lemma server_step_ok:
  assumes inv: "ipc_inv k env tcb oa1 oa2 s" and res: "ipc_resources k env oa1 tcb oa2"
  shows "\<exists>s'. ipc_server_step k env s = Inr s' \<and> ipc_inv k env tcb oa1 oa2 s' \<and>
    (rank s' = Suc (rank s) \<or> s' = s \<and> (is_server s = SRun \<or> is_server s = SWait \<and> client_rank (is_client s) \<le> 5))"
proof (cases "is_server s")
  case SCreate
  then show ?thesis using inv res
    by (auto simp: ipc_server_step_def ipc_inv_def ipc_resources_def rank_def server_args_def client_args_def)
next
  case (SChild t)
  then show ?thesis using inv
    by (auto simp: ipc_server_step_def ipc_inv_def rank_def server_args_def client_args_def client_inv_cong [of "_\<lparr>aa_child_tcb := _\<rparr>" "is_args s"])
next
  case SWait
  then show ?thesis using inv
    by (auto simp: ipc_server_step_def ipc_inv_def rank_def server_args_def client_args_def)
next
  case SRegister
  obtain ntfn where n: "aa_reply_ntfn (is_args s) = Some ntfn" using inv SRegister by (auto simp: ipc_inv_def server_args_def)
  obtain rid where "ie_sender env ntfn = Inr rid" using res by (auto simp: ipc_resources_def)
  with n SRegister inv show ?thesis
    by (auto simp: ipc_server_step_def ipc_inv_def rank_def server_args_def client_args_def)
next
  case (SReady rid)
  then show ?thesis using inv
    by (auto simp: ipc_server_step_def ipc_inv_def rank_def server_args_def client_args_def
        client_inv_cong [of "_\<lparr>aa_server_sender_id := _, aa_server_ready := _\<rparr>" "is_args s"])
qed (use inv in \<open>auto simp: ipc_server_step_def ipc_inv_def server_args_def\<close>)

lemma fresh_client_facts:
  assumes "fresh_client env th"
  shows "th_wf th" "th_exec th = executor_new" "th_uint_vec_allocator th = ia_new MAX_UINT_VEC" "th_wake_map th = Map.empty"
    "th_buffers th = [ie_buffer env \<mapsto> new_buffer_new]" "th\<lparr>th_exec := executor_init (th_exec th)\<rparr> = th"
    "ie_buffer env \<noteq> 0" "th_signals th = []" "th_uint_trigger th = 0" "th_submit_syscall_cnt th = 0"
proof -
  have "th_wf (thread_new [ie_buffer env \<mapsto> new_buffer_new] :: ipc_thread)" by (rule thread_new_wf) (simp add: new_buffer_new_wf)
  then show "th_wf th" using assms by (simp add: fresh_client_def thread_new_def)
  show e: "th_exec th = executor_new" and "th_uint_vec_allocator th = ia_new MAX_UINT_VEC" "th_wake_map th = Map.empty"
    "th_buffers th = [ie_buffer env \<mapsto> new_buffer_new]" using assms by (simp_all add: fresh_client_def thread_new_def)
  have "executor_init executor_new = (executor_new :: ipc_future executor)" by (simp add: executor_init_def executor_new_def)
  then show "th\<lparr>th_exec := executor_init (th_exec th)\<rparr> = th" using assms by (simp add: fresh_client_def thread_new_def)
  show "ie_buffer env \<noteq> 0" "th_signals th = []" "th_uint_trigger th = 0" "th_submit_syscall_cnt th = 0"
    using assms by (simp_all add: fresh_client_def thread_new_def)
qed

definition client_goal :: "kernel \<Rightarrow> ipc_env \<Rightarrow> usize \<Rightarrow> object_allocator \<Rightarrow> object_allocator \<Rightarrow> 'u ipc_sys \<Rightarrow> bool" where
  "client_goal k env tcb oa1 oa2 s \<longleftrightarrow> (\<exists>s'. ipc_client_step k env s = Inr s' \<and> ipc_inv k env tcb oa1 oa2 s' \<and>
    (rank s' = Suc (rank s) \<or> s' = s \<and> (is_client s = CNone \<or> is_client s = CRun \<or>
       is_client s = CWait \<and> server_rank (is_server s) < 2 \<or> (\<exists>sid. is_client s = CWaitReady sid) \<and> is_server s \<noteq> SRun)))"

lemma client_spawns:
  assumes inv: "ipc_inv k env tcb oa1 oa2 s" and res: "ipc_resources k env oa1 tcb oa2" and c: "is_client s = CSpawn"
  shows "client_goal k env tcb oa1 oa2 s"
proof -
  have fr: "fresh_client env (is_cth s)" and oa: "is_objects s = oa2" and r2: "2 \<le> server_rank (is_server s)"
    using inv c by (auto simp: ipc_inv_def)
  note f = fresh_client_facts [OF fr]
  obtain ex b where sp: "spawn (th_exec (is_cth s)) RecvStart 0 = Inr (0, ex)"
      "register_recv_cid ((is_cth s)\<lparr>th_exec := ex\<rparr>) 0 = (Some 0, (is_cth s)\<lparr>th_exec := ex, th_uint_vec_allocator := b, th_wake_map := [0 \<mapsto> 0]\<rparr>)"
    and wf: "th_wf ((is_cth s)\<lparr>th_exec := ex, th_uint_vec_allocator := b, th_wake_map := [0 \<mapsto> 0]\<rparr>)"
    and ex: "exec_ok 0 0 ex" "live ex = {0}" "ready ex 0 = [0]" "ready ex 1 = []" "fut ex 0 = RecvStart" "ex_delay_wake_cids ex = 0"
    using first_coroutine [OF f(1-4), of 0 RecvStart] by auto
  define th1 where "th1 = (is_cth s)\<lparr>th_exec := ex, th_uint_vec_allocator := b, th_wake_map := [0 \<mapsto> 0]\<rparr>"
  have one: "one_coroutine env 0 RecvStart th1" using wf ex f by (simp add: one_coroutine_def idle_thread_def th1_def)
  obtain n oa3 where n: "alloc_ntfn k oa2 = Inr (Inr n, oa3)" "oa_empty_start oa3 < oa_empty_end oa3" using res by (auto simp: ipc_resources_def)
  have a: "aa_ipc_new_buffer (is_args s) = Some (ie_buffer env)" "aa_child_tcb (is_args s) = Some (of_nat tcb)"
    using inv r2 by (auto simp: ipc_inv_def server_args_def)
  let ?s = "s\<lparr>is_cth := th1, is_objects := oa3, is_client := CSlot n 0\<rparr>"
  have "ipc_client_step k env s = Inr ?s"
    using c sp n a oa by (simp add: ipc_client_step_def kunwrap_def Let_def th1_def)
  moreover have "ipc_inv k env tcb oa1 oa2 ?s"
    using inv c one n(2) r2 by (auto simp: ipc_inv_def client_args_def)
  ultimately show ?thesis using c by (auto simp: client_goal_def rank_def)
qed

lemma client_registers:
  assumes inv: "ipc_inv k env tcb oa1 oa2 s" and res: "ipc_resources k env oa1 tcb oa2" and c: "is_client s = CMint n slot badge"
  shows "client_goal k env tcb oa1 oa2 s"
proof -
  have r2: "2 \<le> server_rank (is_server s)" and one: "one_coroutine env 0 RecvStart (is_cth s)" using inv c by (auto simp: ipc_inv_def)
  obtain rq where a: "aa_ipc_new_buffer (is_args s) = Some (ie_buffer env)" "aa_child_tcb (is_args s) = Some (of_nat tcb)" "aa_req_ntfn (is_args s) = Some rq"
    using inv r2 by (auto simp: ipc_inv_def server_args_def)
  have acc: "k_accepts k c" for c using res by (simp add: ipc_resources_def)
  obtain sid where sid: "ie_sender env rq = Inr sid" "unat sid < 64" using res by (auto simp: ipc_resources_def)
  have len: "length (th_sender_map (is_cth s)) = 64" using one by (simp add: one_coroutine_def idle_thread_def th_wf_def)
  define th1 where "th1 = (is_cth s)\<lparr>th_sender_map := (th_sender_map (is_cth s))[unat sid := ie_buffer env]\<rparr>"
  have reg: "register_sender_buffer (is_cth s) (ie_sender env rq) (ie_buffer env) = Inr (Inr sid, th1)"
    using sid len by (simp add: register_sender_buffer_def store_res_def th1_def)
  obtain ht oa3 where st: "ipc_client_step k env s = Inr (s\<lparr>is_cth := th1, is_cht := ht, is_objects := oa3, is_client := CPublish sid slot\<rparr>)"
    using c a reg acc
    by (simp add: ipc_client_step_def kunwrap_def kcall_res_def invoke_def register_receiver_def Let_def del: rbind_Inr_iff)
  have "one_coroutine env 0 RecvStart th1" using one len by (auto simp: one_coroutine_def idle_thread_def th1_def th_wf_def)
  moreover have "has_sender env sid (is_args s) th1" using sid len a(3) by (simp add: has_sender_def th1_def)
  ultimately have "ipc_inv k env tcb oa1 oa2 (s\<lparr>is_cth := th1, is_cht := ht, is_objects := oa3, is_client := CPublish sid slot\<rparr>)"
    using inv c r2 by (auto simp: ipc_inv_def client_args_def)
  with st c show ?thesis by (auto simp: client_goal_def rank_def)
qed

lemma client_calls:
  assumes inv: "ipc_inv k env tcb oa1 oa2 s" and c: "is_client s = CWaitReady sid" and r: "is_server s = SRun"
  shows "client_goal k env tcb oa1 oa2 s"
proof -
  have one: "one_coroutine env 0 RecvStart (is_cth s)" and sid: "has_sender env sid (is_args s) (is_cth s)" "aa_client_sender_id (is_args s) = Some sid"
    and rd: "aa_server_ready (is_args s)" using inv c r by (auto simp: ipc_inv_def server_args_def)
  let ?ex = "th_exec (is_cth s)"
  have "callers_spawned sid 0 ?ex" using one by (auto simp: one_coroutine_def idle_thread_def callers_spawned_def)
  from spawn_callers_ok [OF this, of COROUTINE_NUM] obtain ex' where
    sp: "spawn_callers [0..<COROUTINE_NUM] sid ?ex = Inr ex'" and ex': "callers_spawned sid COROUTINE_NUM ex'"
    by (auto simp: COROUTINE_NUM_def)
  let ?s = "s\<lparr>is_cth := (is_cth s)\<lparr>th_exec := ex'\<rparr>, is_client := CRun\<rparr>"
  have "ipc_client_step k env s = Inr ?s" using c rd sp by (simp add: ipc_client_step_def Let_def)
  moreover have "idle_thread env ((is_cth s)\<lparr>th_exec := ex'\<rparr>)"
    using one ex' exec_okD(1) [of 0 COROUTINE_NUM ex'] by (auto simp: one_coroutine_def idle_thread_def callers_spawned_def intro: th_wf_with_exec)
  then have "client_inv k env oa2 CRun (is_args s) ((is_cth s)\<lparr>th_exec := ex'\<rparr>) (is_objects s)"
    using ex' sid by (simp add: has_sender_def)
  then have "ipc_inv k env tcb oa1 oa2 ?s" using inv c r by (auto simp: ipc_inv_def client_args_def simp del: client_inv.simps(9))
  ultimately show ?thesis using c by (auto simp: client_goal_def rank_def)
qed

lemma client_step_ok:
  assumes inv: "ipc_inv k env tcb oa1 oa2 s" and res: "ipc_resources k env oa1 tcb oa2"
  shows "client_goal k env tcb oa1 oa2 s"
proof (cases "is_client s")
  case CStart
  then have fr: "fresh_client env (is_cth s)" using inv by (auto simp: ipc_inv_def)
  have "ipc_client_step k env s = Inr (s\<lparr>is_client := CWait\<rparr>)"
    using CStart res fresh_client_facts(6) [OF fr] by (simp add: ipc_client_step_def ipc_resources_def guard_res_def Let_def)
  moreover have "ipc_inv k env tcb oa1 oa2 (s\<lparr>is_client := CWait\<rparr>)" using inv CStart by (auto simp: ipc_inv_def client_args_def)
  ultimately show ?thesis using CStart by (auto simp: client_goal_def rank_def)
next
  case CWait
  have "aa_child_tcb (is_args s) \<noteq> None \<and> aa_req_ntfn (is_args s) \<noteq> None \<and> aa_ipc_new_buffer (is_args s) \<noteq> None \<longleftrightarrow> \<not> server_rank (is_server s) < 2"
    using inv by (auto simp: ipc_inv_def server_args_def)
  with CWait inv show ?thesis
    by (cases "server_rank (is_server s) < 2") (auto simp: client_goal_def ipc_client_step_def ipc_inv_def rank_def client_args_def Let_def)
next
  case (CSlot n badge)
  then show ?thesis using inv
    by (auto simp: client_goal_def ipc_client_step_def ipc_inv_def rank_def client_args_def get_empty_slot_def Let_def)
next
  case (CPublish sid slot)
  then show ?thesis using inv
    by (auto simp: client_goal_def ipc_client_step_def ipc_inv_def rank_def client_args_def server_args_def has_sender_def Let_def split: ipc_server_pc.splits)
next
  case (CWaitReady sid)
  then show ?thesis
  proof (cases "is_server s = SRun")
    case True
    with inv CWaitReady show ?thesis by (rule client_calls)
  next
    case False
    with inv CWaitReady show ?thesis by (auto simp: client_goal_def ipc_client_step_def ipc_inv_def server_args_def Let_def)
  qed
qed (use inv res in \<open>simp_all add: client_spawns client_registers\<close>, simp_all add: client_goal_def ipc_client_step_def Let_def)

section \<open>The channel is set up\<close>

text \<open>Both threads are about to run: the arguments are complete and consistent with the kernel's
  registrations, each thread's receiver is ready and registered, and the client's sender is mapped
  to the shared buffer, which is empty.\<close>

definition channel_ready :: "ipc_env \<Rightarrow> usize \<Rightarrow> 'u ipc_sys \<Rightarrow> bool" where
  "channel_ready env tcb s \<longleftrightarrow> is_server s = SRun \<and> is_client s = CRun \<and>
     (\<exists>rq rp sid rid. is_args s = \<lparr>aa_req_ntfn = Some rq, aa_reply_ntfn = Some rp, aa_server_sender_id = Some rid, aa_client_sender_id = Some sid,
        aa_child_tcb = Some (of_nat tcb), aa_ipc_new_buffer = Some (ie_buffer env), aa_server_ready = True\<rparr> \<and>
        ie_sender env rq = Inr sid \<and> ie_sender env rp = Inr rid \<and> unat sid < 64 \<and> th_sender_map (is_cth s) ! unat sid = ie_buffer env \<and>
        callers_spawned sid COROUTINE_NUM (th_exec (is_cth s))) \<and>
     one_coroutine env 1 ServerStart (is_sth s) \<and> idle_thread env (is_cth s)"

lemma try_invoke_ok: "try_invoke k c s f = Inr s1 \<Longrightarrow> is_server s1 = SCreate \<Longrightarrow> \<exists>oa. f (s\<lparr>is_objects := oa\<rparr>) = Inr s1"
  by (auto simp: try_invoke_def split: prod.splits sum.splits)

lemma begin_inv:
  assumes b: "ipc_server_step k env (ipc_start oa sht cht) = Inr s1" and c: "is_server s1 = SCreate"
  shows "ipc_inv k env tcb (is_objects s1) oa2 s1" "rank s1 = 0"
proof -
  let ?th = "thread_new Map.empty :: ipc_thread"
  have wf: "th_wf ?th" by (rule thread_new_wf) simp
  have new: "th_exec ?th = executor_new" "th_uint_vec_allocator ?th = ia_new MAX_UINT_VEC" "th_wake_map ?th = Map.empty" by (simp_all add: thread_new_def)
  have init: "executor_init executor_new = (executor_new :: ipc_future executor)" by (simp add: executor_init_def executor_new_def)
  obtain ex b where sp: "spawn executor_new ServerStart 1 = Inr (0, ex)"
      "register_recv_cid (?th\<lparr>th_exec := ex\<rparr>) 0 = (Some 0, ?th\<lparr>th_exec := ex, th_uint_vec_allocator := b, th_wake_map := [0 \<mapsto> 0]\<rparr>)"
    and wf1: "th_wf (?th\<lparr>th_exec := ex, th_uint_vec_allocator := b, th_wake_map := [0 \<mapsto> 0]\<rparr>)"
    and ex: "exec_ok 1 0 ex" "live ex = {0}" "ready ex 1 = [0]" "ready ex 0 = []" "fut ex 0 = ServerStart" "ex_delay_wake_cids ex = 0"
    using first_coroutine [OF wf new, of 1 ServerStart] new(1) by auto
  define th1 where "th1 = ?th\<lparr>th_exec := ex, th_uint_vec_allocator := b, th_wake_map := [0 \<mapsto> 0]\<rparr>"
  note sp2 = sp(2) [folded th1_def]
  obtain badged where s1: "is_sth s1 = th1\<lparr>th_buffers := (th_buffers th1)(ie_buffer env \<mapsto> new_buffer_new)\<rparr>"
      "is_cth s1 = ?th\<lparr>th_buffers := [ie_buffer env \<mapsto> new_buffer_new]\<rparr>"
      "is_args s1 = async_args_new\<lparr>aa_req_ntfn := Some (of_nat badged), aa_ipc_new_buffer := Some (ie_buffer env)\<rparr>" "is_client s1 = CNone" "ie_buffer env \<noteq> 0"
  proof -
    let ?s = "ipc_start oa sht cht"
    obtain oa2 badged unbadged where "try_invoke k (CNodeMint badged unbadged 0) (?s\<lparr>is_objects := oa2, is_sth := th1\<rparr>) (\<lambda>s2.
       try_invoke k (TcbBindNotification (ie_tcb env) unbadged) s2 (ipc_server_publish k env unbadged badged)) = Inr s1"
      using b by (auto simp: ipc_server_step_def ipc_start_def ipc_server_begin_def Let_def init new(1) sp(1) [unfolded One_nat_def] sp2)
    from try_invoke_ok [OF this c] obtain oa3 where
      "try_invoke k (TcbBindNotification (ie_tcb env) unbadged) (?s\<lparr>is_objects := oa3, is_sth := th1\<rparr>) (ipc_server_publish k env unbadged badged) = Inr s1"
      by (auto simp: ipc_start_def)
    from try_invoke_ok [OF this c] obtain oa4 where "ipc_server_publish k env unbadged badged (?s\<lparr>is_objects := oa4, is_sth := th1\<rparr>) = Inr s1"
      by (auto simp: ipc_start_def)
    with c have "is_sth s1 = th1\<lparr>th_buffers := (th_buffers th1)(ie_buffer env \<mapsto> new_buffer_new)\<rparr> \<and>
      is_cth s1 = ?th\<lparr>th_buffers := [ie_buffer env \<mapsto> new_buffer_new]\<rparr> \<and>
      is_args s1 = async_args_new\<lparr>aa_req_ntfn := Some (of_nat badged), aa_ipc_new_buffer := Some (ie_buffer env)\<rparr> \<and> is_client s1 = CNone \<and> ie_buffer env \<noteq> 0"
      by (auto simp: ipc_server_publish_def ipc_start_def thread_new_def split_def Let_def guard_res_def split: sum.splits if_splits)
    then show ?thesis using that by blast
  qed
  show "rank s1 = 0" using c s1 by (simp add: rank_def)
  have "one_coroutine env 1 ServerStart (is_sth s1)" unfolding s1(1) one_coroutine_def idle_thread_def
    using wf1 ex s1(5) th_wf_buffer [OF wf1 new_buffer_new_wf, of "ie_buffer env"] by (simp add: th1_def thread_new_def)
  then show "ipc_inv k env tcb (is_objects s1) oa2 s1"
    using c s1 by (simp add: ipc_inv_def server_args_def client_args_def async_args_new_def fresh_client_def)
qed

text \<open>Every step keeps the invariant and brings one of the two threads forward, or changes nothing.\<close>

lemma ipc_step_ok:
  assumes inv: "ipc_inv k env tcb oa1 oa2 s" and res: "ipc_resources k env oa1 tcb oa2" and st: "ipc_step k env s s'"
  shows "ipc_inv k env tcb oa1 oa2 s' \<and> (rank s' = Suc (rank s) \<or> s' = s)"
  using st server_step_ok [OF inv res] client_step_ok [OF inv res] by cases (auto simp: client_goal_def)

lemma ipc_run_ok:
  assumes "(ipc_change k env ^^ n) s s'" and "ipc_inv k env tcb oa1 oa2 s" and "ipc_resources k env oa1 tcb oa2"
  shows "ipc_inv k env tcb oa1 oa2 s' \<and> rank s' = rank s + n"
  using assms
proof (induction n arbitrary: s')
  case (Suc n)
  then obtain s1 where s1: "(ipc_change k env ^^ n) s s1" "ipc_change k env s1 s'" by auto
  have "ipc_inv k env tcb oa1 oa2 s1" "rank s1 = rank s + n" using Suc s1(1) by auto
  moreover have "ipc_step k env s1 s'" "s' \<noteq> s1" using s1(2) by (simp_all add: ipc_change_def)
  ultimately show ?case using ipc_step_ok [of k env tcb oa1 oa2 s1 s'] Suc.prems(3) by auto
qed simp

lemma rank_bound: "rank s \<le> 12"
  by (cases "is_server s"; cases "is_client s") (simp_all add: rank_def)

lemma ipc_stuck_ready:
  assumes inv: "ipc_inv k env tcb oa1 oa2 s" and res: "ipc_resources k env oa1 tcb oa2" and stuck: "\<not> (\<exists>s'. ipc_change k env s s')"
  shows "channel_ready env tcb s"
proof -
  have same: "s' = s" if "ipc_step k env s s'" for s' using stuck that by (auto simp: ipc_change_def)
  have sv: "is_server s = SRun \<or> is_server s = SWait \<and> client_rank (is_client s) \<le> 5"
    using server_step_ok [OF inv res] same ipc_step.server [of k env s] by fastforce
  have cl: "is_client s = CNone \<or> is_client s = CRun \<or> is_client s = CWait \<and> server_rank (is_server s) < 2 \<or>
      (\<exists>sid. is_client s = CWaitReady sid) \<and> is_server s \<noteq> SRun"
    using client_step_ok [OF inv res] same ipc_step.client [of k env s] unfolding client_goal_def by fastforce
  have none: "is_client s \<noteq> CNone" using inv sv by (auto simp: ipc_inv_def)
  have run: "is_server s = SRun" "is_client s = CRun" using sv cl none inv by (auto simp: ipc_inv_def)
  let ?a = "is_args s"
  obtain rq rp rid sid where "aa_req_ntfn ?a = Some rq" "aa_reply_ntfn ?a = Some rp" "aa_server_sender_id ?a = Some rid" "ie_sender env rp = Inr rid"
      "aa_client_sender_id ?a = Some sid" "ie_sender env rq = Inr sid" "unat sid < 64" "th_sender_map (is_cth s) ! unat sid = ie_buffer env" "callers_spawned sid COROUTINE_NUM (th_exec (is_cth s))"
    using inv run by (auto simp: ipc_inv_def server_args_def has_sender_def)
  moreover have "aa_child_tcb ?a = Some (of_nat tcb)" "aa_ipc_new_buffer ?a = Some (ie_buffer env)" "aa_server_ready ?a"
    using inv run by (auto simp: ipc_inv_def server_args_def)
  ultimately have "\<exists>rq rp sid rid. ?a = \<lparr>aa_req_ntfn = Some rq, aa_reply_ntfn = Some rp, aa_server_sender_id = Some rid, aa_client_sender_id = Some sid,
        aa_child_tcb = Some (of_nat tcb), aa_ipc_new_buffer = Some (ie_buffer env), aa_server_ready = True\<rparr> \<and>
        ie_sender env rq = Inr sid \<and> ie_sender env rp = Inr rid \<and> unat sid < 64 \<and> th_sender_map (is_cth s) ! unat sid = ie_buffer env \<and>
        callers_spawned sid COROUTINE_NUM (th_exec (is_cth s))"
    by (intro exI [of _ rq] exI [of _ rp] exI [of _ sid] exI [of _ rid]) (cases ?a; simp)
  then show ?thesis using inv run by (simp add: channel_ready_def ipc_inv_def)
qed

text \<open>In every interleaving the threads come to the point where both run.\<close>

lemma channel_setup_runs:
  assumes "ipc_server_step k env (ipc_start oa sht cht) = Inr s1" and "is_server s1 = SCreate"
    and "ipc_resources k env (is_objects s1) tcb oa2"
  shows "\<forall>n s. (ipc_change k env ^^ n) s1 s \<longrightarrow>
    n \<le> 12 \<and> \<not> isl (ipc_server_step k env s) \<and> \<not> isl (ipc_client_step k env s) \<and> ((\<exists>s'. ipc_change k env s s') \<or> channel_ready env tcb s)"
proof (intro allI impI)
  fix n s
  assume r: "(ipc_change k env ^^ n) s1 s"
  have inv: "ipc_inv k env tcb (is_objects s1) oa2 s" and n: "rank s = n"
    using ipc_run_ok [OF r begin_inv(1) [OF assms(1,2)] assms(3)] begin_inv(2) [OF assms(1,2)] by auto
  show "n \<le> 12 \<and> \<not> isl (ipc_server_step k env s) \<and> \<not> isl (ipc_client_step k env s) \<and> ((\<exists>s'. ipc_change k env s s') \<or> channel_ready env tcb s)"
    using n rank_bound [of s] server_step_ok [OF inv assms(3)] client_step_ok [OF inv assms(3)] ipc_stuck_ready [OF inv assms(3)]
    by (auto simp: client_goal_def)
qed

text \<open>C12. The set-up of an IPC channel.  Once the main thread has published its notification and the
  shared buffer, and with a kernel that accepts the invocations, every interleaving of the two
  threads is free of panics, makes at most 12 changing steps, and can stop only when both threads
  are about to run: the arguments are complete, each sender identifier is the kernel's for the
  other side's notification, the client's sender leads to the shared buffer, and each side's
  receiving coroutine is ready and registered.  So no thread reads an argument before it is set,
  and neither waits for ever.\<close>

theorem channel_set_up:
  assumes "ipc_server_step k env (ipc_start oa sht cht) = Inr s1" and "is_server s1 = SCreate"
    and "ipc_resources k env (is_objects s1) tcb oa2"
  shows "\<forall>n s. (ipc_change k env ^^ n) s1 s \<longrightarrow>
    n \<le> 12 \<and> \<not> isl (ipc_server_step k env s) \<and> \<not> isl (ipc_client_step k env s) \<and> ((\<exists>s'. ipc_change k env s s') \<or> channel_ready env tcb s)"
  using assms by (rule channel_setup_runs)

definition ipc_env_example :: ipc_env where
  "ipc_env_example = \<lparr>ie_exec = 4096, ie_child_exec = 8192, ie_buffer = 73728, ie_args = 9, ie_tcb = 1, ie_ipc_buffer = 69632, ie_stack = 1048576,
     ie_func = 4096, ie_image = image_example, ie_uintrvec = 65536, ie_handler = 131072, ie_sender = (\<lambda>ntfn. Inr (ntfn AND 31))\<rparr>"

lemma ipc_begin_example:
  "\<exists>s1. ipc_server_step kernel_example ipc_env_example (ipc_start (oa_new pool_boot) hart_example hart_example) = Inr s1 \<and> is_server s1 = SCreate \<and>
     regions_used [True, False, False, False] 202 (is_objects s1)"
proof -
  obtain oa1 where n: "alloc_ntfn kernel_example (oa_new pool_boot) = Inr (Inr 200, oa1)" and oa1: "regions_used [True, False, False, False] 201 oa1"
    using object_allocated [of 0 "[False, False, False]" 200 "oa_new pool_boot" BNotification] pool_boot_regions unfolding alloc_ntfn_def
    by (auto simp: kernel_example_def)
  define oa2 where "oa2 = oa1\<lparr>oa_empty_start := 202\<rparr>"
  have e: "get_empty_slot oa1 = Inr (201, oa2)" and oa2: "regions_used [True, False, False, False] 202 oa2"
    using oa1 by (simp_all add: regions_used_def get_empty_slot_def oa2_def)
  let ?th = "thread_new Map.empty :: ipc_thread"
  have new: "th_exec ?th = executor_new" "executor_init executor_new = (executor_new :: ipc_future executor)"
    by (simp_all add: thread_new_def executor_init_def executor_new_def)
  obtain ex th1 where sp: "spawn executor_new ServerStart 1 = Inr (0, ex)" "register_recv_cid (?th\<lparr>th_exec := ex\<rparr>) 0 = (Some 0, th1)"
    using first_coroutine [of ?th 1 ServerStart] thread_new_wf [of Map.empty] by (auto simp: thread_new_def)
  show ?thesis
    using oa2 by (simp add: ipc_server_step_def ipc_start_def ipc_server_begin_def ipc_server_publish_def try_invoke_def invoke_def kernel_accepts
        register_receiver_def kunwrap_def n e new sp [unfolded One_nat_def] ipc_env_example_def guard_res_def regions_used_def Let_def del: rbind_Inr_iff)
qed

lemma ipc_resources_example:
  assumes oa: "regions_used [True, False, False, False] 202 oa"
  shows "\<exists>oa2. ipc_resources kernel_example ipc_env_example oa 202 oa2"
proof -
  have slot: "get_user_image_frame_slot image_example 69632 = Inr 101"
    using frame_slot_eq(1) [OF image_example_ok, of 69632]
    by (simp add: image_example_start image_example_stop) (simp add: image_example_def)
  have tp: "thread_pointer 256 128 1048576 = Inr (of_nat (1048576 + 4096 * 128))"
    using thread_pointer_middle [of 1048576 256 128] by simp
  obtain oa1 where t: "alloc_tcb kernel_example oa = Inr (Inr 202, oa1)" "regions_used [True, True, False, False] 203 oa1"
    using object_allocated [of 1 "[False, False]" 202 oa BTCB] oa unfolding alloc_tcb_def by (auto simp: kernel_example_def)
  obtain oa2 where e: "alloc_ep kernel_example oa1 = Inr (Inr 203, oa2)" "regions_used [True, True, True, False] 204 oa2"
    using object_allocated [of 2 "[False]" 203 oa1 BEndpoint] t(2) unfolding alloc_ep_def by (auto simp: kernel_example_def numeral_2_eq_2)
  obtain oa3 where ct: "create_thread kernel_example image_example 69632 1048576 4096 9 255 0 True oa = Inr (Inr 202, oa3)"
      "regions_used [True, True, True, False] 204 oa3"
    using slot tp t(1) e by (simp add: create_thread_def kbind_def kcall_res_def invoke_def kernel_accepts regions_used_def del: rbind_Inr_iff)
  obtain oa4 where n: "alloc_ntfn kernel_example oa3 = Inr (Inr 204, oa4)" "regions_used [True, True, True, True] 205 oa4"
    using object_allocated [of 3 "[]" 204 oa3 BNotification] ct(2) unfolding alloc_ntfn_def by (auto simp: kernel_example_def numeral_3_eq_3)
  have "unat (ntfn AND 31 :: u64) < 64" for ntfn using word_and_le1 [of ntfn 31] by (simp add: word_le_nat_alt)
  then show ?thesis using ct n
    by (intro exI [of _ oa3]) (auto simp: ipc_resources_def ipc_env_example_def kernel_accepts regions_used_def)
qed

lemma channel_ready_example: "\<exists>s :: u64 ipc_sys. channel_ready ipc_env_example 202 s"
proof -
  obtain s1 where s1: "ipc_server_step kernel_example ipc_env_example (ipc_start (oa_new pool_boot) hart_example hart_example) = Inr s1" "is_server s1 = SCreate"
      "regions_used [True, False, False, False] 202 (is_objects s1)" using ipc_begin_example by blast
  obtain oa2 where "ipc_resources kernel_example ipc_env_example (is_objects s1) 202 oa2" using ipc_resources_example [OF s1(3)] by blast
  from channel_setup_runs [OF s1(1,2) this]
  have "\<forall>n s. (ipc_change kernel_example ipc_env_example ^^ n) s1 s \<longrightarrow>
      n \<le> 12 \<and> ((\<exists>s'. ipc_change kernel_example ipc_env_example s s') \<or> channel_ready ipc_env_example 202 s)" by blast
  from bounded_run_ends [OF this] show ?thesis by blast
qed

theorem channel_set_up_witness:
  "\<exists>s1 n s. ipc_server_step kernel_example ipc_env_example (ipc_start (oa_new pool_boot) hart_example hart_example) = Inr s1 \<and>
     (ipc_change kernel_example ipc_env_example ^^ n) s1 s \<and> n \<le> 12 \<and> channel_ready ipc_env_example 202 s"
proof -
  obtain s1 where s1: "ipc_server_step kernel_example ipc_env_example (ipc_start (oa_new pool_boot) hart_example hart_example) = Inr s1" "is_server s1 = SCreate"
      "regions_used [True, False, False, False] 202 (is_objects s1)" using ipc_begin_example by blast
  obtain oa2 where "ipc_resources kernel_example ipc_env_example (is_objects s1) 202 oa2" using ipc_resources_example [OF s1(3)] by blast
  note run = channel_set_up [OF s1(1,2) this]
  have "\<forall>n s. (ipc_change kernel_example ipc_env_example ^^ n) s1 s \<longrightarrow>
      n \<le> 12 \<and> ((\<exists>s'. ipc_change kernel_example ipc_env_example s s') \<or> channel_ready ipc_env_example 202 s)" using run by blast
  from bounded_run_ends [OF this] run s1(1) show ?thesis by blast
qed

end
