(* ===== verification/Ipc_Sys.thy ===== *)
theory Ipc_Sys
  imports Ipc_Setup
begin

text \<open>
  The two threads of the IPC benchmark (\<^verbatim>\<open>src/ipc_test.rs\<close>) once their channel is set up: each runs its
  coroutines until none is left, the client's receiver and its eight callers on the one side, the
  server's coroutine on the other.  A step is a turn of one thread's run loop or the delivery of a user
  interrupt.  As in the system-call benchmark a turn is one step: the other thread does not run between the
  moment at which a receiver finds its queue empty and the moment at which it clears its flag.
\<close>

unbundle bit_operations_syntax

section \<open>Polls\<close>

text \<open>The thread that runs, and the static variables of the program: \<^verbatim>\<open>MUTE_SEND_NUM\<close>, the \<^verbatim>\<open>REPLY_COUNT\<close> of
  \<^verbatim>\<open>recv_reply_coroutine\<close> and the \<^verbatim>\<open>REQ_NUM\<close> of \<^verbatim>\<open>recv_req_coroutine\<close>.\<close>

record ipc_world =
  iw_th :: ipc_thread
  iw_mute_send_num :: usize
  iw_reply_count :: usize
  iw_req_num :: usize

text \<open>One poll of a coroutine; a finished one is not polled again.\<close>

definition ipc_poll_future :: "'m res \<Rightarrow> async_args \<Rightarrow> ipc_future \<Rightarrow> ipc_world \<Rightarrow> (poll_result \<times> ipc_future \<times> ipc_world) res" where
  "ipc_poll_future matrix args f w =
     (let th = iw_th w;
          server = (\<lambda>first. rbind (recv_req_coroutine_poll matrix args first (iw_req_num w) th) (\<lambda>(p, n, th').
            Inr (p, ServerYield, w\<lparr>iw_th := th', iw_req_num := n\<rparr>)));
          receiver = (\<lambda>first. rbind (recv_reply_coroutine_poll (aa_ipc_new_buffer args) SEND_NUM first (iw_reply_count w) th) (\<lambda>(p, n, th').
            Inr (p, RecvYield, w\<lparr>iw_th := th', iw_reply_count := n\<rparr>)));
          caller = (\<lambda>r. rbind r (\<lambda>(p, f', m, th'). Inr (p, f', w\<lparr>iw_th := th', iw_mute_send_num := m\<rparr>)))
      in case f of
        ServerStart \<Rightarrow> server True
      | ServerYield \<Rightarrow> server False
      | RecvStart \<Rightarrow> receiver True
      | RecvYield \<Rightarrow> receiver False
      | CallStart sid msg \<Rightarrow> caller (client_call_round sid msg (iw_mute_send_num w) th)
      | CallWait sid msg \<Rightarrow> caller (client_call_resume sid msg (iw_mute_send_num w) th)
      | CallDone \<Rightarrow> Inl ExplicitPanic)"

definition ipc_poll :: "'m res \<Rightarrow> async_args \<Rightarrow> (ipc_future, ipc_world) poll_fn" where
  "ipc_poll matrix args f ex w =
     rbind (ipc_poll_future matrix args f (w\<lparr>iw_th := (iw_th w)\<lparr>th_exec := ex\<rparr>\<rparr>)) (\<lambda>(p, f', w'). Inr (p, f', th_exec (iw_th w'), w'))"

section \<open>The two threads\<close>

record ipc_run =
  ir_cth :: ipc_thread
  ir_sth :: ipc_thread
  ir_mute_send_num :: usize
  ir_reply_count :: usize
  ir_req_num :: usize

definition ipc_run_start :: "'u ipc_sys \<Rightarrow> ipc_run" where
  "ipc_run_start s = \<lparr>ir_cth = is_cth s, ir_sth = is_sth s, ir_mute_send_num = SEND_NUM, ir_reply_count = 0, ir_req_num = 0\<rparr>"

text \<open>The other thread sees the shared buffer as the one that ran left it.\<close>

definition share_buffer :: "async_args \<Rightarrow> ipc_thread \<Rightarrow> ipc_thread \<Rightarrow> ipc_thread" where
  "share_buffer args th other =
     (case aa_ipc_new_buffer args of
        None \<Rightarrow> other
      | Some ptr \<Rightarrow> other\<lparr>th_buffers := (th_buffers other)(ptr := th_buffers th ptr)\<rparr>)"

definition ipc_world_of :: "ipc_thread \<Rightarrow> ipc_run \<Rightarrow> ipc_world" where
  "ipc_world_of th r = \<lparr>iw_th = th, iw_mute_send_num = ir_mute_send_num r, iw_reply_count = ir_reply_count r, iw_req_num = ir_req_num r\<rparr>"

text \<open>A turn of the client, and of the server.\<close>

definition client_turn :: "'m res \<Rightarrow> async_args \<Rightarrow> ipc_run \<Rightarrow> ipc_run res" where
  "client_turn matrix args r =
     rbind (run_turn (ipc_poll matrix args) (th_exec (ir_cth r)) (ipc_world_of (ir_cth r) r)) (\<lambda>(go_on, ex, w).
     Inr \<lparr>ir_cth = (iw_th w)\<lparr>th_exec := ex\<rparr>, ir_sth = share_buffer args (iw_th w) (ir_sth r), ir_mute_send_num = iw_mute_send_num w,
       ir_reply_count = iw_reply_count w, ir_req_num = iw_req_num w\<rparr>)"

definition server_turn :: "'m res \<Rightarrow> async_args \<Rightarrow> ipc_run \<Rightarrow> ipc_run res" where
  "server_turn matrix args r =
     rbind (run_turn (ipc_poll matrix args) (th_exec (ir_sth r)) (ipc_world_of (ir_sth r) r)) (\<lambda>(go_on, ex, w).
     Inr \<lparr>ir_cth = share_buffer args (iw_th w) (ir_cth r), ir_sth = (iw_th w)\<lparr>th_exec := ex\<rparr>, ir_mute_send_num = iw_mute_send_num w,
       ir_reply_count = iw_reply_count w, ir_req_num = iw_req_num w\<rparr>)"

text \<open>User interrupts: those a thread has sent to an identifier are pending until they are taken, all at once.
  Each side's coroutine is registered for vector 0.\<close>

definition uipi_pending :: "sender_id option \<Rightarrow> ipc_thread \<Rightarrow> bool" where
  "uipi_pending sid th \<longleftrightarrow> (case sid of None \<Rightarrow> False | Some i \<Rightarrow> Uipi i \<in> set (th_signals th))"

definition uipi_taken :: "sender_id option \<Rightarrow> ipc_thread \<Rightarrow> ipc_thread" where
  "uipi_taken sid th = (case sid of None \<Rightarrow> th | Some i \<Rightarrow> th\<lparr>th_signals := removeAll (Uipi i) (th_signals th)\<rparr>)"

definition client_interrupt :: "async_args \<Rightarrow> ipc_run \<Rightarrow> ipc_run res" where
  "client_interrupt args r =
     (if uipi_pending (aa_server_sender_id args) (ir_sth r)
      then rbind (uintr_handler (ir_cth r) (push_bit 0 1)) (\<lambda>(x, th).
        Inr (r\<lparr>ir_cth := th, ir_sth := uipi_taken (aa_server_sender_id args) (ir_sth r)\<rparr>))
      else Inr r)"

definition server_interrupt :: "async_args \<Rightarrow> ipc_run \<Rightarrow> ipc_run res" where
  "server_interrupt args r =
     (if uipi_pending (aa_client_sender_id args) (ir_cth r)
      then rbind (uintr_handler (ir_sth r) (push_bit 0 1)) (\<lambda>(x, th).
        Inr (r\<lparr>ir_sth := th, ir_cth := uipi_taken (aa_client_sender_id args) (ir_cth r)\<rparr>))
      else Inr r)"

definition ipc_moves :: "'m res \<Rightarrow> async_args \<Rightarrow> ipc_run \<Rightarrow> ipc_run res list" where
  "ipc_moves matrix args r = [client_turn matrix args r, server_turn matrix args r, client_interrupt args r, server_interrupt args r]"

text \<open>A step that changes something.\<close>

definition ipc_run_change :: "'m res \<Rightarrow> async_args \<Rightarrow> ipc_run \<Rightarrow> ipc_run \<Rightarrow> bool" where
  "ipc_run_change matrix args r r' \<longleftrightarrow> Inr r' \<in> set (ipc_moves matrix args r) \<and> r' \<noteq> r"

text \<open>The benchmark is over: no coroutine is left on either side, and every call has been made, served and
  answered.\<close>

definition ipc_over :: "ipc_run \<Rightarrow> bool" where
  "ipc_over r \<longleftrightarrow> is_empty (th_exec (ir_cth r)) \<and> is_empty (th_exec (ir_sth r)) \<and> ir_mute_send_num r = 0 \<and>
     ir_reply_count r = SEND_NUM \<and> ir_req_num r = SEND_NUM"

section \<open>Invariant\<close>

abbreviation cex :: "ipc_run \<Rightarrow> ipc_future executor" where "cex r \<equiv> th_exec (ir_cth r)"
abbreviation sex :: "ipc_run \<Rightarrow> ipc_future executor" where "sex r \<equiv> th_exec (ir_sth r)"

text \<open>The wake-ups that are under way for a receiver: in its queue, marked, or as a pending interrupt.\<close>

definition wake_tokens :: "nat \<Rightarrow> ipc_future executor \<Rightarrow> ipc_thread \<Rightarrow> nat" where
  "wake_tokens rp ex other = length (ready ex rp) + (if ex_delay_wake_cids ex \<noteq> 0 then 1 else 0) + (if th_signals other \<noteq> [] then 1 else 0)"

abbreviation ctok :: "ipc_run \<Rightarrow> nat" where "ctok r \<equiv> wake_tokens 0 (cex r) (ir_sth r)"
abbreviation stok :: "ipc_run \<Rightarrow> nat" where "stok r \<equiv> wake_tokens 1 (sex r) (ir_cth r)"

text \<open>What the set-up of the channel has established.\<close>

definition channel_args :: "async_args \<Rightarrow> usize \<Rightarrow> sender_id \<Rightarrow> sender_id \<Rightarrow> bool" where
  "channel_args args ptr sid rid \<longleftrightarrow> aa_ipc_new_buffer args = Some ptr \<and> aa_client_sender_id args = Some sid \<and> aa_server_sender_id args = Some rid \<and>
     ptr \<noteq> 0 \<and> unat sid < 64 \<and> sid \<noteq> 63"

definition client_ok :: "usize \<Rightarrow> sender_id \<Rightarrow> ipc_thread \<Rightarrow> new_buffer \<Rightarrow> bool" where
  "client_ok ptr sid th nb \<longleftrightarrow> th_wf th \<and> exec_ok 0 COROUTINE_NUM (th_exec th) \<and> th_buffers th ptr = Some nb \<and> th_wake_map th 0 = Some 0 \<and>
     th_sender_map th ! unat sid = ptr \<and> set (th_signals th) \<subseteq> {Uipi sid} \<and> th_submit_syscall_cnt th = 0 \<and> fut (th_exec th) 0 \<in> {RecvStart, RecvYield}"

definition server_ok :: "usize \<Rightarrow> sender_id \<Rightarrow> ipc_thread \<Rightarrow> new_buffer \<Rightarrow> bool" where
  "server_ok ptr rid th nb \<longleftrightarrow> th_wf th \<and> exec_ok 1 0 (th_exec th) \<and> ready (th_exec th) 0 = [] \<and> th_buffers th ptr = Some nb \<and> th_wake_map th 0 = Some 0 \<and>
     set (th_signals th) \<subseteq> {Uipi rid} \<and> fut (th_exec th) 0 \<in> {ServerStart, ServerYield}"

text \<open>Every caller that has not ended is in exactly one place: ready, with a request in the queue, or with a
  reply in the queue.  A ready one that waits for a reply has it.\<close>

definition callers_ok :: "sender_id \<Rightarrow> ipc_thread \<Rightarrow> new_buffer \<Rightarrow> bool" where
  "callers_ok sid th nb \<longleftrightarrow> (let ex = th_exec th; cs = ready ex 1 @ map item_cid (reqs nb) @ map item_cid (ress nb) in
     distinct cs \<and> unat ` set cs = live ex - {0} \<and> (\<forall>i\<in>live ex - {0}. \<exists>msg. fut ex i \<in> {CallStart sid msg, CallWait sid msg}) \<and>
     (\<forall>c\<in>set (ready ex 1). (\<exists>msg. fut ex (unat c) = CallStart sid msg) \<or> th_immediate_value th ! unat c \<noteq> None))"

text \<open>Every call is still to be made, in the queue of requests, or served; every served one is answered.  While calls
  are left to be made there is a caller.\<close>

definition counts_ok :: "ipc_run \<Rightarrow> new_buffer \<Rightarrow> bool" where
  "counts_ok r nb \<longleftrightarrow> ir_mute_send_num r + length (reqs nb) + ir_req_num r = SEND_NUM \<and>
     ir_reply_count r + length (ress nb) = ir_req_num r \<and>
     (0 \<in> live (cex r) \<longleftrightarrow> ir_reply_count r < SEND_NUM) \<and> (0 \<in> live (sex r) \<longleftrightarrow> ir_req_num r < SEND_NUM) \<and>
     (ir_mute_send_num r = 0 \<or> live (cex r) - {0} \<noteq> {}) \<and>
     th_uint_trigger (ir_cth r) + (if th_signals (ir_sth r) = [] then 0 else 1) \<le> ir_req_num r \<and>
     th_uint_trigger (ir_sth r) + (if th_signals (ir_cth r) = [] then 0 else 1) + ir_mute_send_num r \<le> SEND_NUM"

text \<open>No wake-up is lost, and the client's receiver, whose priority is the higher one, never has one to spare: it
  would stay in its queue when the receiver has ended and stall the callers.\<close>

definition run_wakes_ok :: "ipc_run \<Rightarrow> new_buffer \<Rightarrow> bool" where
  "run_wakes_ok r nb \<longleftrightarrow> (reqs nb \<noteq> [] \<longrightarrow> nb_recv_req_status nb) \<and> (ress nb \<noteq> [] \<longrightarrow> nb_recv_reply_status nb) \<and>
     (0 \<in> live (sex r) \<and> nb_recv_req_status nb \<longrightarrow> 0 < stok r) \<and> stok r + (if nb_recv_req_status nb then 0 else 1) \<le> 2 \<and>
     (if fut (cex r) 0 = RecvStart then ready (cex r) 0 = [0] \<and> ctok r = 1 \<and> \<not> nb_recv_reply_status nb \<and> ir_mute_send_num r = SEND_NUM
      else if 0 \<in> live (cex r) then ctok r = (if nb_recv_reply_status nb then 1 else 0)
      else ctok r = 0)"

definition run_ok :: "async_args \<Rightarrow> usize \<Rightarrow> sender_id \<Rightarrow> sender_id \<Rightarrow> ipc_run \<Rightarrow> new_buffer \<Rightarrow> bool" where
  "run_ok args ptr sid rid r nb \<longleftrightarrow> channel_args args ptr sid rid \<and> client_ok ptr sid (ir_cth r) nb \<and> server_ok ptr rid (ir_sth r) nb \<and>
     callers_ok sid (ir_cth r) nb \<and> counts_ok r nb \<and> run_wakes_ok r nb"

text \<open>The work that is left.\<close>

definition run_work :: "ipc_run \<Rightarrow> new_buffer \<Rightarrow> nat" where
  "run_work r nb = 5 * ir_mute_send_num r + 3 * length (reqs nb) + length (ress nb) + length (ready (cex r) 1) + stok r + ctok r +
     (if th_signals (ir_cth r) = [] then 0 else 1) + (if th_signals (ir_sth r) = [] then 0 else 1)"

lemma run_wakesD:
  assumes "run_wakes_ok r nb"
  shows "reqs nb \<noteq> [] \<Longrightarrow> nb_recv_req_status nb" "ress nb \<noteq> [] \<Longrightarrow> nb_recv_reply_status nb"
    "0 \<in> live (sex r) \<Longrightarrow> nb_recv_req_status nb \<Longrightarrow> 0 < stok r" "stok r + (if nb_recv_req_status nb then 0 else 1) \<le> 2"
    "fut (cex r) 0 = RecvStart \<Longrightarrow> ready (cex r) 0 = [0]" "fut (cex r) 0 = RecvStart \<Longrightarrow> ctok r = 1" "fut (cex r) 0 = RecvStart \<Longrightarrow> \<not> nb_recv_reply_status nb"
    "fut (cex r) 0 = RecvStart \<Longrightarrow> ir_mute_send_num r = SEND_NUM"
    "fut (cex r) 0 \<noteq> RecvStart \<Longrightarrow> ctok r = (if 0 \<in> live (cex r) \<and> nb_recv_reply_status nb then 1 else 0)" "ctok r \<le> 1" "stok r \<le> 2"
  using assms by (simp_all add: run_wakes_ok_def split: if_split_asm)

lemma run_okD:
  assumes "run_ok args ptr sid rid r nb"
  shows "channel_args args ptr sid rid" "client_ok ptr sid (ir_cth r) nb" "server_ok ptr rid (ir_sth r) nb"
    "callers_ok sid (ir_cth r) nb" "counts_ok r nb" "run_wakes_ok r nb" "nb_wf nb"
  using assms by (auto simp: run_ok_def client_ok_def th_wf_def ran_def)

text \<open>The number of callers bounds the queues.\<close>

lemma callers_bound:
  assumes "run_ok args ptr sid rid r nb"
  shows "length (ready (cex r) 1) + length (reqs nb) + length (ress nb) \<le> COROUTINE_NUM" "length (ready (cex r) 0) \<le> 1" "length (ready (sex r) 1) \<le> 2"
proof -
  note o = run_okD [OF assms]
  let ?cs = "ready (cex r) 1 @ map item_cid (reqs nb) @ map item_cid (ress nb)"
  have d: "distinct ?cs" and im: "unat ` set ?cs = live (cex r) - {0}" and l: "live (cex r) \<subseteq> {..COROUTINE_NUM}"
    using o(2,4) by (auto simp: client_ok_def callers_ok_def Let_def exec_ok_def)
  have "inj_on unat (set ?cs)" by (simp add: inj_on_def word_unat_eq_iff)
  then have "length ?cs = card (live (cex r) - {0})" using im d by (metis card_image distinct_card)
  also have "\<dots> \<le> card {1..COROUTINE_NUM}" using l by (intro card_mono) auto
  finally show "length (ready (cex r) 1) + length (reqs nb) + length (ress nb) \<le> COROUTINE_NUM" by simp
  show "length (ready (cex r) 0) \<le> 1" "length (ready (sex r) 1) \<le> 2" using run_wakesD(10,11) [OF o(6)] by (simp_all add: wake_tokens_def)
qed

text \<open>What a step establishes: it does not panic, keeps the invariant, and leaves less work or changes nothing.\<close>

definition move_ok :: "async_args \<Rightarrow> usize \<Rightarrow> sender_id \<Rightarrow> sender_id \<Rightarrow> ipc_run \<Rightarrow> new_buffer \<Rightarrow> ipc_run res \<Rightarrow> bool" where
  "move_ok args ptr sid rid r nb m \<longleftrightarrow> (\<exists>r' nb'. m = Inr r' \<and> run_ok args ptr sid rid r' nb' \<and> (run_work r' nb' < run_work r nb \<or> r' = r))"

section \<open>Interrupts\<close>

lemma pending_iff: "set (th_signals th) \<subseteq> {Uipi i} \<Longrightarrow> uipi_pending (Some i) th \<longleftrightarrow> th_signals th \<noteq> []"
  by (cases "th_signals th") (auto simp: uipi_pending_def)

lemma taken_eq: "set (th_signals th) \<subseteq> {Uipi i} \<Longrightarrow> uipi_taken (Some i) th = th\<lparr>th_signals := []\<rparr>"
proof -
  assume "set (th_signals th) \<subseteq> {Uipi i}"
  then have "removeAll (Uipi i) (th_signals th) = []" by (auto simp: removeAll_filter_not_eq filter_empty_conv)
  then show ?thesis by (simp add: uipi_taken_def)
qed

lemma client_interrupt_ok:
  assumes ok: "run_ok args ptr sid rid r nb"
  shows "move_ok args ptr sid rid r nb (client_interrupt args r)" "th_signals (ir_sth r) \<noteq> [] \<Longrightarrow> client_interrupt args r \<noteq> Inr r"
proof -
  note o = run_okD [OF ok]
  let ?c = "ir_cth r" and ?s = "ir_sth r"
  have c: "th_wf ?c" "exec_ok 0 COROUTINE_NUM (cex r)" "th_wake_map ?c 0 = Some 0" and sg: "set (th_signals ?s) \<subseteq> {Uipi rid}" and a: "aa_server_sender_id args = Some rid"
    using o(1-3) by (simp_all add: channel_args_def client_ok_def server_ok_def)
  have "move_ok args ptr sid rid r nb (client_interrupt args r) \<and> (th_signals ?s \<noteq> [] \<longrightarrow> client_interrupt args r \<noteq> Inr r)"
  proof (cases "th_signals ?s = []")
    case True
    then have "client_interrupt args r = Inr r" by (simp add: client_interrupt_def a pending_iff [OF sg])
    then show ?thesis using ok True by (auto simp: move_ok_def)
  next
    case False
    have "th_uint_trigger ?c + 1 < 2 ^ 64" using o(5) False by (simp add: counts_ok_def SEND_NUM_def)
    from interrupt_marks [OF c(2,1) _ c(3) this] obtain d where
      h: "uintr_handler ?c (push_bit 0 1) = Inr (0, ?c\<lparr>th_uint_trigger := th_uint_trigger ?c + 1, th_exec := (cex r)\<lparr>ex_delay_wake_cids := d\<rparr>\<rparr>)"
      and d: "d \<noteq> 0" "exec_ok 0 COROUTINE_NUM ((cex r)\<lparr>ex_delay_wake_cids := d\<rparr>)" "fut ((cex r)\<lparr>ex_delay_wake_cids := d\<rparr>) = fut (cex r)"
        "th_wf (?c\<lparr>th_uint_trigger := th_uint_trigger ?c + 1, th_exec := (cex r)\<lparr>ex_delay_wake_cids := d\<rparr>\<rparr>)" by auto
    let ?r = "r\<lparr>ir_cth := ?c\<lparr>th_uint_trigger := th_uint_trigger ?c + 1, th_exec := (cex r)\<lparr>ex_delay_wake_cids := d\<rparr>\<rparr>, ir_sth := ?s\<lparr>th_signals := []\<rparr>\<rparr>"
    have m: "client_interrupt args r = Inr ?r" by (simp only: client_interrupt_def a pending_iff [OF sg] False taken_eq [OF sg] h) simp
    note w = run_wakesD [OF o(6)]
    have tok: "ex_delay_wake_cids (cex r) = 0" "ready (cex r) 0 = []" "ctok r = 1"
      using w(10) False by (simp_all add: wake_tokens_def split: if_split_asm)
    have st: "fut (cex r) 0 \<noteq> RecvStart" using w(5) tok(2) by auto
    have lv: "0 \<in> live (cex r)" "nb_recv_reply_status nb" using w(9) [OF st, unfolded tok(3)] by (auto split: if_split_asm)
    have "client_ok ptr sid (ir_cth ?r) nb" using o(2) d by (simp add: client_ok_def)
    moreover have "server_ok ptr rid (ir_sth ?r) nb" using o(3) by (simp add: server_ok_def th_wf_def)
    moreover have "callers_ok sid (ir_cth ?r) nb" using o(4) d by (simp add: callers_ok_def Let_def)
    moreover have "counts_ok ?r nb" using o(5) False by (simp add: counts_ok_def)
    moreover have "ctok ?r = ctok r" "stok ?r = stok r" using tok d(1) by (simp_all add: wake_tokens_def)
    then have "run_wakes_ok ?r nb" "run_work ?r nb < run_work r nb" using o(6) d(3) tok lv st False by (simp_all add: run_wakes_ok_def run_work_def)
    ultimately have "move_ok args ptr sid rid r nb (client_interrupt args r)" using o(1) m by (auto simp: move_ok_def run_ok_def)
    moreover have "?r \<noteq> r" using False by (metis ipc_run.select_convs(2) ipc_run.surjective ipc_run.update_convs(2) thread.select_convs(10) thread.surjective thread.update_convs(10))
    ultimately show ?thesis using m by simp
  qed
  then show "move_ok args ptr sid rid r nb (client_interrupt args r)" "th_signals ?s \<noteq> [] \<Longrightarrow> client_interrupt args r \<noteq> Inr r" by blast+
qed

lemma server_interrupt_ok:
  assumes ok: "run_ok args ptr sid rid r nb"
  shows "move_ok args ptr sid rid r nb (server_interrupt args r)" "th_signals (ir_cth r) \<noteq> [] \<Longrightarrow> server_interrupt args r \<noteq> Inr r"
proof -
  note o = run_okD [OF ok]
  let ?c = "ir_cth r" and ?s = "ir_sth r"
  have c: "th_wf ?s" "exec_ok 1 0 (sex r)" "th_wake_map ?s 0 = Some 0" and sg: "set (th_signals ?c) \<subseteq> {Uipi sid}" and a: "aa_client_sender_id args = Some sid"
    using o(1-3) by (simp_all add: channel_args_def client_ok_def server_ok_def)
  have "move_ok args ptr sid rid r nb (server_interrupt args r) \<and> (th_signals ?c \<noteq> [] \<longrightarrow> server_interrupt args r \<noteq> Inr r)"
  proof (cases "th_signals ?c = []")
    case True
    then have "server_interrupt args r = Inr r" by (simp add: server_interrupt_def a pending_iff [OF sg])
    then show ?thesis using ok True by (auto simp: move_ok_def)
  next
    case False
    have "th_uint_trigger ?s + 1 < 2 ^ 64" using o(5) False by (simp add: counts_ok_def SEND_NUM_def)
    from interrupt_marks [OF c(2,1) _ c(3) this] obtain d where
      h: "uintr_handler ?s (push_bit 0 1) = Inr (0, ?s\<lparr>th_uint_trigger := th_uint_trigger ?s + 1, th_exec := (sex r)\<lparr>ex_delay_wake_cids := d\<rparr>\<rparr>)"
      and d: "d \<noteq> 0" "exec_ok 1 0 ((sex r)\<lparr>ex_delay_wake_cids := d\<rparr>)" "fut ((sex r)\<lparr>ex_delay_wake_cids := d\<rparr>) = fut (sex r)"
        "th_wf (?s\<lparr>th_uint_trigger := th_uint_trigger ?s + 1, th_exec := (sex r)\<lparr>ex_delay_wake_cids := d\<rparr>\<rparr>)" by auto
    let ?r = "r\<lparr>ir_sth := ?s\<lparr>th_uint_trigger := th_uint_trigger ?s + 1, th_exec := (sex r)\<lparr>ex_delay_wake_cids := d\<rparr>\<rparr>, ir_cth := ?c\<lparr>th_signals := []\<rparr>\<rparr>"
    have m: "server_interrupt args r = Inr ?r" by (simp only: server_interrupt_def a pending_iff [OF sg] False taken_eq [OF sg] h) simp
    have "client_ok ptr sid (ir_cth ?r) nb" using o(2) by (simp add: client_ok_def th_wf_def)
    moreover have "server_ok ptr rid (ir_sth ?r) nb" using o(3) d by (simp add: server_ok_def)
    moreover have "callers_ok sid (ir_cth ?r) nb" using o(4) by (simp add: callers_ok_def Let_def)
    moreover have "counts_ok ?r nb" using o(5) False by (simp add: counts_ok_def)
    moreover have "ctok ?r = ctok r" "stok ?r \<le> stok r" "0 < stok ?r" using False d(1) by (simp_all add: wake_tokens_def)
    then have "run_wakes_ok ?r nb" "run_work ?r nb < run_work r nb" using o(6) d(3) False by (simp_all add: run_wakes_ok_def run_work_def)
    ultimately have "move_ok args ptr sid rid r nb (server_interrupt args r)" using o(1) m by (auto simp: move_ok_def run_ok_def)
    moreover have "?r \<noteq> r" using False by (metis ipc_run.select_convs(1) ipc_run.surjective ipc_run.update_convs(1) thread.select_convs(10) thread.surjective thread.update_convs(10))
    ultimately show ?thesis using m by simp
  qed
  then show "move_ok args ptr sid rid r nb (server_interrupt args r)" "th_signals ?c \<noteq> [] \<Longrightarrow> server_interrupt args r \<noteq> Inr r" by blast+
qed

end
