(* ===== verification/Ipc_Turn.thy ===== *)
theory Ipc_Turn
  imports Ipc_Sys
begin

text \<open>
  The turns of the two threads of the IPC benchmark: by the coroutine that is fetched, a turn keeps the
  invariant and leaves less work.
\<close>

section \<open>Turns of the server\<close>

text \<open>A step of the server: the buffer, the server's thread and the counter of requests change.\<close>

definition server_moved :: "ipc_run \<Rightarrow> usize \<Rightarrow> new_buffer \<Rightarrow> ipc_thread \<Rightarrow> usize \<Rightarrow> ipc_run" where
  "server_moved r ptr nb th n = r\<lparr>ir_cth := (ir_cth r)\<lparr>th_buffers := (th_buffers (ir_cth r))(ptr \<mapsto> nb)\<rparr>, ir_sth := th, ir_req_num := n\<rparr>"

lemma server_moved_simps [simp]:
  "cex (server_moved r ptr nb th n) = cex r" "ir_sth (server_moved r ptr nb th n) = th" "ir_req_num (server_moved r ptr nb th n) = n"
  "ir_mute_send_num (server_moved r ptr nb th n) = ir_mute_send_num r" "ir_reply_count (server_moved r ptr nb th n) = ir_reply_count r"
  "th_signals (ir_cth (server_moved r ptr nb th n)) = th_signals (ir_cth r)" "th_uint_trigger (ir_cth (server_moved r ptr nb th n)) = th_uint_trigger (ir_cth r)"
  "wake_tokens rp ex (ir_cth (server_moved r ptr nb th n)) = wake_tokens rp ex (ir_cth r)"
  by (simp_all add: server_moved_def wake_tokens_def)

lemma server_moved_client:
  assumes "client_ok ptr sid (ir_cth r) nb" and "nb_wf nb'"
  shows "client_ok ptr sid (ir_cth (server_moved r ptr nb' th n)) nb'"
  using assms th_wf_buffer [of "ir_cth r" nb' ptr] by (simp add: client_ok_def server_moved_def)

lemma server_turn_eq:
  assumes t: "run_turn (ipc_poll matrix args) (sex r) (ipc_world_of (ir_sth r) r) = Inr (go_on, ex, (ipc_world_of (ir_sth r) r)\<lparr>iw_th := th, iw_req_num := n\<rparr>)"
    and a: "aa_ipc_new_buffer args = Some ptr" and b: "th_buffers th ptr = Some nb"
  shows "server_turn matrix args r = Inr (server_moved r ptr nb (th\<lparr>th_exec := ex\<rparr>) n)"
  using t a b by (simp add: server_turn_def ipc_world_of_def share_buffer_def server_moved_def)

text \<open>The server has not ended and is fetched.\<close>

lemma server_poll:
  assumes ok: "run_ok args ptr sid rid r nb" and l: "0 \<in> live (sex r)" and ex1: "exec_ok 1 0 ex1" "fut ex1 = fut (sex r)" "ex_current ex1 = Some 0"
  defines "n \<equiv> ir_req_num r + length (reqs nb)" and "sg \<equiv> (if reqs nb = [] \<or> nb_recv_reply_status nb then [] else [Uipi rid])"
  shows "\<exists>th nb'. ipc_poll (Inr m) args (fut ex1 0) ex1 (ipc_world_of (ir_sth r) r) =
      Inr (if n = SEND_NUM then Ready else Pending, ServerYield, ex1, (ipc_world_of (ir_sth r) r)\<lparr>iw_th := th, iw_req_num := n\<rparr>) \<and>
    th_wf th \<and> th_exec th = ex1 \<and> th_buffers th ptr = Some nb' \<and> th_signals th = th_signals (ir_sth r) @ sg \<and> th_wake_map th = th_wake_map (ir_sth r) \<and>
    th_uint_trigger th = th_uint_trigger (ir_sth r) \<and> nb_wf nb' \<and> reqs nb' = [] \<and> ress nb' = ress nb @ reqs nb \<and>
    (nb_recv_req_status nb' \<longleftrightarrow> n = SEND_NUM \<and> nb_recv_req_status nb) \<and> (nb_recv_reply_status nb' \<longleftrightarrow> reqs nb \<noteq> [] \<or> nb_recv_reply_status nb)"
proof -
  note o = run_okD [OF ok]
  let ?w = "ipc_world_of (ir_sth r) r" and ?th1 = "(ir_sth r)\<lparr>th_exec := ex1\<rparr>"
  have s: "th_wf (ir_sth r)" "th_buffers (ir_sth r) ptr = Some nb" "fut (sex r) 0 \<in> {ServerStart, ServerYield}"
    and a: "aa_ipc_new_buffer args = Some ptr" "aa_server_sender_id args = Some rid" using o(1,3) by (simp_all add: server_ok_def channel_args_def)
  have wf1: "th_wf ?th1" by (rule th_wf_with_exec [OF s(1) exec_okD(1) [OF ex1(1)]])
  define th0 where "th0 = (if fut (sex r) 0 = ServerStart then ?th1 else ?th1\<lparr>th_immediate_value := (th_immediate_value ?th1)[0 := None]\<rparr>)"
  have th0: "th_wf th0" "th_exec th0 = ex1" "th_buffers th0 = th_buffers (ir_sth r)" "th_signals th0 = th_signals (ir_sth r)"
      "th_wake_map th0 = th_wake_map (ir_sth r)" "th_uint_trigger th0 = th_uint_trigger (ir_sth r)"
    using wf1 by (auto simp: th0_def th_wf_def)
  have poll: "ipc_poll (Inr m) args (fut ex1 0) ex1 ?w = rbind (ipc_recv_req_loop (Inr m) args ptr (ir_req_num r) th0) (\<lambda>(p, n, th).
      Inr (p, ServerYield, th_exec th, ?w\<lparr>iw_th := th, iw_req_num := n\<rparr>))"
  proof (cases "fut (sex r) 0 = ServerStart")
    case True
    then show ?thesis by (simp add: ipc_poll_def ipc_poll_future_def ex1(2) recv_req_coroutine_poll_def a(1) ipc_world_of_def th0_def rbind_assoc split_def)
  next
    case False
    then have f: "fut (sex r) 0 = ServerYield" using s(3) by simp
    obtain v where "yield_now_resume ?th1 = Inr (v, th0)" using yield_resume(1) [OF wf1, of 0] ex1(3) f by (auto simp: th0_def ex_consts)
    with f show ?thesis by (simp add: ipc_poll_def ipc_poll_future_def ex1(2) recv_req_coroutine_poll_def a(1) ipc_world_of_def rbind_assoc split_def)
  qed
  have cnt: "ir_req_num r < SEND_NUM" "ir_req_num r + length (reqs nb) \<le> SEND_NUM" using o(5) l by (simp_all add: counts_ok_def)
  have room: "length (reqs nb) + length (ress nb) \<le> MAX_ITEM_NUM" using callers_bound(1) [OF ok] by (simp add: COROUTINE_NUM_def MAX_ITEM_NUM_def)
  obtain nb' where loop: "ipc_recv_req_loop (Inr m) args ptr (ir_req_num r) th0 = Inr (if n = SEND_NUM then Ready else Pending, n, served_thread ptr nb' sg th0)"
    and nb': "nb_wf nb'" "reqs nb' = []" "ress nb' = ress nb @ reqs nb" "nb_recv_req_status nb' \<longleftrightarrow> n = SEND_NUM \<and> nb_recv_req_status nb"
      "nb_recv_reply_status nb' \<longleftrightarrow> reqs nb \<noteq> [] \<or> nb_recv_reply_status nb"
    using ipc_recv_req_all [of th0 ptr nb "ir_req_num r" args rid m] th0(3) s(2) o(7) room cnt a(2) by (auto simp: n_def sg_def)
  have "th_wf (served_thread ptr nb' sg th0)" using th_wf_buffer [OF th0(1) nb'(1), of ptr] by (simp add: served_thread_def th_wf_def)
  then show ?thesis unfolding poll loop using th0 nb'
    by (intro exI [of _ "served_thread ptr nb' sg th0"] exI [of _ nb']) (simp add: served_thread_def)
qed

lemma callers_ok_served:
  assumes "callers_ok sid th nb" and "reqs nb' = []" "ress nb' = ress nb @ reqs nb"
  shows "callers_ok sid (th\<lparr>th_buffers := bs\<rparr>) nb'"
  using assms unfolding callers_ok_def Let_def by (auto simp: Un_commute Un_left_commute)

text \<open>The invariant after the server has taken every request.\<close>

lemma server_served_ok:
  assumes ok: "run_ok args ptr sid rid r nb" and l: "0 \<in> live (sex r)"
    and n: "n = ir_req_num r + length (reqs nb)" and sg: "sg = (if reqs nb = [] \<or> nb_recv_reply_status nb then [] else [Uipi rid])"
    and th: "th_wf th" "th_buffers th ptr = Some nb'" "th_signals th = th_signals (ir_sth r) @ sg" "th_wake_map th = th_wake_map (ir_sth r)"
      "th_uint_trigger th = th_uint_trigger (ir_sth r)"
    and ex: "exec_ok 1 0 (th_exec th)" "live (th_exec th) = live (sex r) - (if n = SEND_NUM then {0} else {})" "fut (th_exec th) 0 = ServerYield"
      "ready (th_exec th) 0 = []" "Suc (wake_tokens 1 (th_exec th) (ir_cth r)) = stok r"
    and nb': "nb_wf nb'" "reqs nb' = []" "ress nb' = ress nb @ reqs nb" "nb_recv_req_status nb' \<longleftrightarrow> n = SEND_NUM \<and> nb_recv_req_status nb"
      "nb_recv_reply_status nb' \<longleftrightarrow> reqs nb \<noteq> [] \<or> nb_recv_reply_status nb"
  shows "run_ok args ptr sid rid (server_moved r ptr nb' th n) nb'" "run_work (server_moved r ptr nb' th n) nb' < run_work r nb"
proof -
  note o = run_okD [OF ok] and w = run_wakesD [OF run_okD(6) [OF ok]]
  let ?r = "server_moved r ptr nb' th n"
  have cnt: "ir_req_num r < SEND_NUM" "ir_mute_send_num r + length (reqs nb) + ir_req_num r = SEND_NUM" "ir_reply_count r + length (ress nb) = ir_req_num r"
    "0 \<in> live (cex r)"
    using o(5) l by (auto simp: counts_ok_def)
  have start: "reqs nb = []" if "fut (cex r) 0 = RecvStart"
  proof -
    have "length (reqs nb) = 0" using w(8) [OF that] cnt(2) by linarith
    then show ?thesis by (simp only: length_0_conv)
  qed
  have sent: "ctok r = 0" "fut (cex r) 0 \<noteq> RecvStart" "th_signals (ir_sth r) = []" if "sg \<noteq> []"
  proof -
    have q: "reqs nb \<noteq> []" "\<not> nb_recv_reply_status nb" using that sg by (auto split: if_split_asm)
    then show f: "fut (cex r) 0 \<noteq> RecvStart" using start by blast
    show "ctok r = 0" using w(9) [OF f] q(2) by simp
    then show "th_signals (ir_sth r) = []" by (simp add: wake_tokens_def split: if_split_asm)
  qed
  have ct: "ctok ?r = ctok r + length sg" using sent sg th(3) by (auto simp: wake_tokens_def)
  have "set sg \<subseteq> {Uipi rid}" by (simp add: sg)
  then have "server_ok ptr rid (ir_sth ?r) nb'" using o(3) th ex by (simp add: server_ok_def)
  moreover have "client_ok ptr sid (ir_cth ?r) nb'" by (rule server_moved_client [OF o(2) nb'(1)])
  moreover have "callers_ok sid (ir_cth ?r) nb'" using callers_ok_served [OF o(4) nb'(2,3)] by (simp add: server_moved_def)
  moreover have sgl: "length sg \<le> length (reqs nb)" "length sg \<le> 1" using sg by (cases "reqs nb"; simp)+
  have "counts_ok ?r nb'"
  proof -
    have "0 \<in> live (th_exec th) \<longleftrightarrow> n < SEND_NUM" using ex(2) l n cnt(2) by auto
    moreover have "th_uint_trigger (ir_cth r) + (if th_signals th = [] then 0 else 1) \<le> n"
    proof -
      have tr: "th_uint_trigger (ir_cth r) + (if th_signals (ir_sth r) = [] then 0 else 1) \<le> ir_req_num r" using o(5) by (simp add: counts_ok_def)
      show ?thesis
      proof (cases "sg = []")
        case True
        then show ?thesis using tr th(3) n by simp
      next
        case False
        then have "0 < length sg" by simp
        then have "th_uint_trigger (ir_cth r) + 1 \<le> n" using tr sgl(1) n by linarith
        then show ?thesis using th(3) False by simp
      qed
    qed
    ultimately show ?thesis using o(5) n nb'(2,3) th(5) by (simp add: counts_ok_def)
  qed
  moreover have "run_wakes_ok ?r nb'"
  proof -
    have "ctok ?r = (if nb_recv_reply_status nb' then 1 else 0)" if f: "fut (cex r) 0 \<noteq> RecvStart"
      using ct w(9) [OF f] cnt(4) nb'(5) sg by auto
    moreover have "\<not> nb_recv_reply_status nb'" "ctok ?r = 1" if f: "fut (cex r) 0 = RecvStart"
      using start [OF f] w(6,7) [OF f] nb'(5) ct sg by auto
    moreover have "ress nb' \<noteq> [] \<Longrightarrow> nb_recv_reply_status nb'" using nb'(3,5) w(2) by auto
    moreover have "0 \<notin> live (th_exec th)" if "nb_recv_req_status nb'" using that nb'(4) ex(2) by auto
    moreover have "stok ?r \<le> 1" using ex(5) w(11) by simp
    ultimately show ?thesis using w(5,8) cnt(4) nb'(2) by (simp add: run_wakes_ok_def)
  qed
  ultimately show "run_ok args ptr sid rid ?r nb'" using o(1) by (simp add: run_ok_def)
  have "run_work ?r nb' + 2 * length (reqs nb) + 1 \<le> run_work r nb + 2 * length sg"
  proof (cases "sg = []")
    case True
    then show ?thesis using ct ex(5) nb'(2,3) th(3) by (simp add: run_work_def)
  next
    case False
    then have "sg = [Uipi rid]" using sg by (simp split: if_split_asm)
    then show ?thesis using ct ex(5) nb'(2,3) th(3) sent(3) by (simp add: run_work_def)
  qed
  then show "run_work ?r nb' < run_work r nb" using sgl(1) by linarith
qed

text \<open>Every turn of the server.\<close>

lemma server_turn_polls:
  assumes ok: "run_ok args ptr sid rid r nb" and l: "0 \<in> live (sex r)"
    and f: "fetched_from 1 0 (sex r) (Some 0) [] cs ex1" and cs: "ready (sex r) 1 @ irq_wake (sex r) = c # cs"
  shows "\<exists>r' nb'. server_turn (Inr m) args r = Inr r' \<and> run_ok args ptr sid rid r' nb' \<and> run_work r' nb' < run_work r nb"
proof -
  note o = run_okD [OF ok]
  have k: "fetch (sex r) = Inr (Some 0, ex1)" "exec_ok 1 0 ex1" "live ex1 = live (sex r)" "ready ex1 0 = []" "ready ex1 1 = cs" "ex_delay_wake_cids ex1 = 0"
      "ex_current ex1 = Some 0" "fut ex1 = fut (sex r)"
    using f by (auto simp: fetched_from_def fut_def fun_eq_iff)
  define n where "n = ir_req_num r + length (reqs nb)"
  define sg where "sg = (if reqs nb = [] \<or> nb_recv_reply_status nb then [] else [Uipi rid])"
  obtain th nb' where poll: "ipc_poll (Inr m) args (fut ex1 0) ex1 (ipc_world_of (ir_sth r) r) =
      Inr (if n = SEND_NUM then Ready else Pending, ServerYield, ex1, (ipc_world_of (ir_sth r) r)\<lparr>iw_th := th, iw_req_num := n\<rparr>)"
    and th: "th_wf th" "th_exec th = ex1" "th_buffers th ptr = Some nb'" "th_signals th = th_signals (ir_sth r) @ sg" "th_wake_map th = th_wake_map (ir_sth r)"
      "th_uint_trigger th = th_uint_trigger (ir_sth r)"
    and nb': "nb_wf nb'" "reqs nb' = []" "ress nb' = ress nb @ reqs nb" "nb_recv_req_status nb' \<longleftrightarrow> n = SEND_NUM \<and> nb_recv_req_status nb"
      "nb_recv_reply_status nb' \<longleftrightarrow> reqs nb \<noteq> [] \<or> nb_recv_reply_status nb"
    using server_poll [OF ok l k(2,8,7), of m] unfolding n_def [symmetric] sg_def [symmetric] by blast
  have cid: "co_cid (ex_tasks_bak ex1 ! 0) = 0" using exec_ok_cid [OF k(2), of 0] k(3) l by simp
  let ?fin = "n = SEND_NUM"
  obtain ex where stored: "if ?fin then remove_task (ex1\<lparr>ex_tasks_bak := (ex_tasks_bak ex1)[0 := (ex_tasks_bak ex1 ! 0)\<lparr>co_future := ServerYield\<rparr>]\<rparr>) 0 = Inr ex
      else ex = ex1\<lparr>ex_tasks_bak := (ex_tasks_bak ex1)[0 := (ex_tasks_bak ex1 ! 0)\<lparr>co_future := ServerYield\<rparr>]\<rparr>"
    and e: "exec_ok 1 0 ex" "live ex = live (sex r) - (if ?fin then {0} else {})" "fut ex = (fut (sex r))(0 := ServerYield)"
      "ready ex = ready ex1" "ex_delay_wake_cids ex = 0"
    using receiver_stored [OF k(2), of ?fin ServerYield] k l by auto
  have t: "run_turn (ipc_poll (Inr m) args) (sex r) (ipc_world_of (ir_sth r) r) = Inr (True, ex, (ipc_world_of (ir_sth r) r)\<lparr>iw_th := th, iw_req_num := n\<rparr>)"
    using turn_polls [where poll = "ipc_poll (Inr m) args" and w = "ipc_world_of (ir_sth r) r", OF k(1) poll] stored cid by (cases ?fin) (simp_all add: Let_def)
  have a: "aa_ipc_new_buffer args = Some ptr" using o(1) by (simp add: channel_args_def)
  have "length (ready (sex r) 1) + length (irq_wake (sex r)) = Suc (length cs)" using arg_cong [OF cs, of length] by simp
  then have tok: "Suc (wake_tokens 1 ex (ir_cth r)) = stok r" using e(4,5) k(5) l by (auto simp: wake_tokens_def irq_wake_def split: if_split_asm)
  have wf': "th_wf (th\<lparr>th_exec := ex\<rparr>)" by (rule th_wf_with_exec [OF th(1) exec_okD(1) [OF e(1)]])
  note s = server_served_ok [OF ok l n_def sg_def wf', of nb']
  have "run_ok args ptr sid rid (server_moved r ptr nb' (th\<lparr>th_exec := ex\<rparr>) n) nb'" "run_work (server_moved r ptr nb' (th\<lparr>th_exec := ex\<rparr>) n) nb' < run_work r nb"
    by (rule s; use th nb' e k tok in simp)+
  with server_turn_eq [OF t a th(3)] show ?thesis by blast
qed

lemma server_turn_ok:
  assumes ok: "run_ok args ptr sid rid r nb"
  shows "move_ok args ptr sid rid r nb (server_turn (Inr m) args r)"
    and "server_turn (Inr m) args r = Inr r \<Longrightarrow> ready (sex r) 1 = [] \<and> ex_delay_wake_cids (sex r) = 0"
proof -
  note o = run_okD [OF ok] and w = run_wakesD [OF run_okD(6) [OF ok]]
  have s: "exec_ok 1 0 (sex r)" "ready (sex r) 0 = []" "th_buffers (ir_sth r) ptr = Some nb" "th_buffers (ir_cth r) ptr = Some nb" and a: "aa_ipc_new_buffer args = Some ptr"
    using o(1-3) by (auto simp: server_ok_def client_ok_def channel_args_def)
  have "length (ready (sex r) 1) < MAX_TASK_NUM - 1" using callers_bound(3) [OF ok] by (simp add: ex_consts)
  from fetch_cases_receiver_last [OF s(1) this] obtain f r1 ex' where
    f: "fetched_from 1 0 (sex r) f [] r1 ex'" and
    c: "case ready (sex r) 1 @ irq_wake (sex r) of
            c # cs \<Rightarrow> f = (if 0 \<in> live (sex r) then Some 0 else None) \<and> r1 = cs
          | [] \<Rightarrow> f = None \<and> r1 = [] \<and> (ex_delay_wake_cids (sex r) = 0 \<longrightarrow> ex' = sex r)" by (auto simp: s(2))
  have "move_ok args ptr sid rid r nb (server_turn (Inr m) args r) \<and>
    (server_turn (Inr m) args r = Inr r \<longrightarrow> ready (sex r) 1 = [] \<and> ex_delay_wake_cids (sex r) = 0)"
  proof (cases f)
    case (Some i)
    then obtain d cs where cs: "ready (sex r) 1 @ irq_wake (sex r) = d # cs" "0 \<in> live (sex r)" "i = 0" "r1 = cs"
      using c by (auto split: list.splits if_split_asm)
    with server_turn_polls [OF ok cs(2), of cs ex' d m] f Some have
      "\<exists>r' nb'. server_turn (Inr m) args r = Inr r' \<and> run_ok args ptr sid rid r' nb' \<and> run_work r' nb' < run_work r nb" by simp
    then obtain r' nb' where t: "server_turn (Inr m) args r = Inr r'" "run_ok args ptr sid rid r' nb'" "run_work r' nb' < run_work r nb" by blast
    have "r' \<noteq> r"
    proof
      assume "r' = r"
      then have "nb' = nb" using run_okD(2) [OF t(2)] s(4) by (simp add: client_ok_def)
      with \<open>r' = r\<close> t(3) show False by simp
    qed
    then show ?thesis using t by (auto simp: move_ok_def)
  next
    case None
    have k: "fetch (sex r) = Inr (None, ex')" "exec_ok 1 0 ex'" "live ex' = live (sex r)" "ready ex' 0 = []" "ready ex' 1 = r1" "ex_delay_wake_cids ex' = 0"
      "fut ex' = fut (sex r)"
      using f None by (auto simp: fetched_from_def fut_def fun_eq_iff)
    let ?r = "server_moved r ptr nb ((ir_sth r)\<lparr>th_exec := ex'\<rparr>) (ir_req_num r)"
    have "run_turn (ipc_poll (Inr m) args) (sex r) (ipc_world_of (ir_sth r) r) = Inr (False, ex', (ipc_world_of (ir_sth r) r)\<lparr>iw_th := ir_sth r, iw_req_num := ir_req_num r\<rparr>)"
      by (simp add: run_turn_def k(1) ipc_world_of_def)
    then have t: "server_turn (Inr m) args r = Inr ?r" by (rule server_turn_eq [OF _ a s(3)])
    have buf: "(ir_cth r)\<lparr>th_buffers := (th_buffers (ir_cth r))(ptr \<mapsto> nb)\<rparr> = ir_cth r" using s(4) by (simp add: map_upd_triv)
    show ?thesis
    proof (cases "ex' = sex r")
      case True
      then have "?r = r" using buf by (simp add: server_moved_def)
      moreover have "ready (sex r) 1 = [] \<and> ex_delay_wake_cids (sex r) = 0"
        using k(5,6) c True None by (cases "ready (sex r) 1 @ irq_wake (sex r)") (auto simp: irq_wake_def split: if_split_asm)
      ultimately show ?thesis using t ok by (auto simp: move_ok_def)
    next
      case False
      have dead: "0 \<notin> live (sex r)" and lt: "wake_tokens 1 ex' (ir_cth r) < stok r"
        using c None False k(5,6) by (auto simp: wake_tokens_def irq_wake_def split: list.splits if_split_asm)
      have "server_ok ptr rid (ir_sth ?r) nb" using o(3) k exec_okD(1) [OF k(2)] by (simp add: server_ok_def th_wf_with_exec)
      moreover have "client_ok ptr sid (ir_cth ?r) nb" by (rule server_moved_client [OF o(2,7)])
      moreover have "callers_ok sid (ir_cth ?r) nb" using o(4) buf by (simp add: server_moved_def)
      moreover have "counts_ok ?r nb" using o(5) k(3) by (simp add: counts_ok_def)
      moreover have "ctok ?r = ctok r" "stok ?r < stok r" using lt by (simp_all add: wake_tokens_def)
      then have "run_wakes_ok ?r nb" "run_work ?r nb < run_work r nb" using o(6) k(3) dead by (simp_all add: run_wakes_ok_def run_work_def)
      ultimately have "move_ok args ptr sid rid r nb (server_turn (Inr m) args r)" using o(1) t by (auto simp: move_ok_def run_ok_def)
      moreover have "?r \<noteq> r" using False by (metis server_moved_simps(2) thread.select_convs(1) thread.surjective thread.update_convs(1))
      ultimately show ?thesis using t by simp
    qed
  qed
  then show "move_ok args ptr sid rid r nb (server_turn (Inr m) args r)"
    "server_turn (Inr m) args r = Inr r \<Longrightarrow> ready (sex r) 1 = [] \<and> ex_delay_wake_cids (sex r) = 0" by blast+
qed

end
