(* ===== verification/Ipc_Client.thy ===== *)
theory Ipc_Client
  imports Ipc_Turn
begin

text \<open>
  The turns of the client of the IPC benchmark in which its receiver runs and delivers every reply.
\<close>

section \<open>A turn of the client\<close>

definition client_moved :: "ipc_run \<Rightarrow> usize \<Rightarrow> new_buffer \<Rightarrow> ipc_thread \<Rightarrow> usize \<Rightarrow> usize \<Rightarrow> ipc_run" where
  "client_moved r ptr nb th m n = r\<lparr>ir_cth := th, ir_sth := (ir_sth r)\<lparr>th_buffers := (th_buffers (ir_sth r))(ptr \<mapsto> nb)\<rparr>,
     ir_mute_send_num := m, ir_reply_count := n\<rparr>"

lemma client_moved_simps [simp]:
  "sex (client_moved r ptr nb th m n) = sex r" "ir_cth (client_moved r ptr nb th m n) = th" "ir_req_num (client_moved r ptr nb th m n) = ir_req_num r"
  "ir_mute_send_num (client_moved r ptr nb th m n) = m" "ir_reply_count (client_moved r ptr nb th m n) = n"
  "th_signals (ir_sth (client_moved r ptr nb th m n)) = th_signals (ir_sth r)" "th_uint_trigger (ir_sth (client_moved r ptr nb th m n)) = th_uint_trigger (ir_sth r)"
  "wake_tokens rp ex (ir_sth (client_moved r ptr nb th m n)) = wake_tokens rp ex (ir_sth r)"
  by (simp_all add: client_moved_def wake_tokens_def)

lemma client_moved_server:
  assumes "server_ok ptr rid (ir_sth r) nb" and "nb_wf nb'"
  shows "server_ok ptr rid (ir_sth (client_moved r ptr nb' th m n)) nb'"
  using assms th_wf_buffer [of "ir_sth r" nb' ptr] by (simp add: server_ok_def client_moved_def)

lemma callers_okD:
  assumes "callers_ok sid th nb"
  shows "distinct (ready (th_exec th) 1 @ map item_cid (reqs nb) @ map item_cid (ress nb))"
    "unat ` set (ready (th_exec th) 1 @ map item_cid (reqs nb) @ map item_cid (ress nb)) = live (th_exec th) - {0}"
    "\<forall>i\<in>live (th_exec th) - {0}. \<exists>msg. fut (th_exec th) i \<in> {CallStart sid msg, CallWait sid msg}"
    "\<forall>c\<in>set (ready (th_exec th) 1). (\<exists>msg. fut (th_exec th) (unat c) = CallStart sid msg) \<or> th_immediate_value th ! unat c \<noteq> None"
  using assms unfolding callers_ok_def Let_def by - (elim conjE, assumption)+

lemma callers_live:
  assumes "callers_ok sid th nb" and "c \<in> set (ready (th_exec th) 1) \<or> c \<in> item_cid ` set (reqs nb) \<or> c \<in> item_cid ` set (ress nb)"
  shows "unat c \<in> live (th_exec th)" "unat c \<noteq> 0" "c \<noteq> 0"
proof -
  have "unat c \<in> unat ` set (ready (th_exec th) 1 @ map item_cid (reqs nb) @ map item_cid (ress nb))" using assms(2) by (intro imageI) auto
  then have "unat c \<in> live (th_exec th) - {0}" unfolding callers_okD(2) [OF assms(1)] .
  then show "unat c \<in> live (th_exec th)" "unat c \<noteq> 0" "c \<noteq> 0" by auto
qed

text \<open>A turn of the client that brings the benchmark forward; it leaves the server's executor and counter alone.\<close>

definition client_moves :: "'m res \<Rightarrow> async_args \<Rightarrow> usize \<Rightarrow> sender_id \<Rightarrow> sender_id \<Rightarrow> ipc_run \<Rightarrow> new_buffer \<Rightarrow> bool" where
  "client_moves matrix args ptr sid rid r nb \<longleftrightarrow> (\<exists>r' nb'. client_turn matrix args r = Inr r' \<and> run_ok args ptr sid rid r' nb' \<and>
     run_work r' nb' < run_work r nb \<and> sex r' = sex r \<and> ir_req_num r' = ir_req_num r)"

lemma client_turn_eq:
  assumes t: "run_turn (ipc_poll matrix args) (cex r) (ipc_world_of (ir_cth r) r) =
      Inr (go_on, ex, (ipc_world_of (ir_cth r) r)\<lparr>iw_th := th, iw_mute_send_num := m, iw_reply_count := n\<rparr>)"
    and a: "aa_ipc_new_buffer args = Some ptr" and b: "th_buffers th ptr = Some nb"
  shows "client_turn matrix args r = Inr (client_moved r ptr nb (th\<lparr>th_exec := ex\<rparr>) m n)"
  using t a b by (simp add: client_turn_def ipc_world_of_def share_buffer_def client_moved_def)

section \<open>The receiver\<close>

lemma deliver_keeps: "iv ! i \<noteq> None \<Longrightarrow> deliver iv its ! i \<noteq> None"
proof (induction its arbitrary: iv)
  case (Cons it its)
  have "iv[unat (item_cid it) := Some it] ! i \<noteq> None"
    using Cons.prems by (cases "unat (item_cid it) = i"; cases "i < length iv") (simp_all add: list_update_beyond)
  with Cons.IH show ?case by simp
qed simp

lemma deliver_reaches: "it \<in> set its \<Longrightarrow> unat (item_cid it) < length iv \<Longrightarrow> deliver iv its ! unat (item_cid it) \<noteq> None"
proof (induction its arbitrary: iv)
  case (Cons i its)
  show ?case
  proof (cases "it \<in> set its")
    case True
    with Cons.IH Cons.prems(2) show ?thesis by simp
  next
    case False
    with Cons.prems have "it = i" by simp
    then show ?thesis using Cons.prems(2) deliver_keeps [of "iv[unat (item_cid i) := Some i]" "unat (item_cid i)" its] by simp
  qed
qed simp

text \<open>The invariant after the receiver has taken every reply.\<close>

lemma receiver_moved_ok:
  assumes ok: "run_ok args ptr sid rid r nb" and l: "0 \<in> live (cex r)" and ct: "ctok r = 1"
    and n: "n = ir_reply_count r + length (ress nb)"
    and th: "th_wf th" "th_buffers th ptr = Some nb'" "th_signals th = th_signals (ir_cth r)" "th_wake_map th = th_wake_map (ir_cth r)"
      "th_uint_trigger th = th_uint_trigger (ir_cth r)" "th_sender_map th = th_sender_map (ir_cth r)" "th_submit_syscall_cnt th = th_submit_syscall_cnt (ir_cth r)"
      "\<And>c. c \<in> set (ready (cex r) 1) \<Longrightarrow> th_immediate_value (ir_cth r) ! unat c \<noteq> None \<Longrightarrow> th_immediate_value th ! unat c \<noteq> None"
      "\<And>c. c \<in> item_cid ` set (ress nb) \<Longrightarrow> th_immediate_value th ! unat c \<noteq> None"
    and ex: "exec_ok 0 COROUTINE_NUM (th_exec th)" "live (th_exec th) = live (cex r) - (if n = SEND_NUM then {0} else {})" "fut (th_exec th) = (fut (cex r))(0 := RecvYield)"
      "ready (th_exec th) 0 = []" "ready (th_exec th) 1 = ready (cex r) 1 @ map item_cid (ress nb)" "wake_tokens 0 (th_exec th) (ir_sth r) = 0"
    and nb': "nb_wf nb'" "reqs nb' = reqs nb" "ress nb' = []" "nb_recv_req_status nb' = nb_recv_req_status nb"
      "nb_recv_reply_status nb' \<longleftrightarrow> n = SEND_NUM \<and> nb_recv_reply_status nb"
  shows "run_ok args ptr sid rid (client_moved r ptr nb' th (ir_mute_send_num r) n) nb'"
    "run_work (client_moved r ptr nb' th (ir_mute_send_num r) n) nb' < run_work r nb"
proof -
  note o = run_okD [OF ok] and w = run_wakesD [OF run_okD(6) [OF ok]]
  let ?r = "client_moved r ptr nb' th (ir_mute_send_num r) n"
  have "client_ok ptr sid (ir_cth ?r) nb'" using o(2) th(1-7) ex(1,3) by (simp add: client_ok_def)
  moreover have "server_ok ptr rid (ir_sth ?r) nb'" by (rule client_moved_server [OF o(3) nb'(1)])
  moreover have "callers_ok sid (ir_cth ?r) nb'"
  proof -
    note c = callers_okD [OF o(4)]
    have "\<forall>c\<in>set (ready (th_exec th) 1). (\<exists>msg. fut (th_exec th) (unat c) = CallStart sid msg) \<or> th_immediate_value th ! unat c \<noteq> None"
    proof
      fix c assume "c \<in> set (ready (th_exec th) 1)"
      then consider "c \<in> set (ready (cex r) 1)" | "c \<in> item_cid ` set (ress nb)" using ex(5) by auto
      then show "(\<exists>msg. fut (th_exec th) (unat c) = CallStart sid msg) \<or> th_immediate_value th ! unat c \<noteq> None"
      proof cases
        case 1
        then show ?thesis using c(4) th(8) callers_live(2) [OF o(4), of c] ex(3) by auto
      qed (use th(9) in blast)
    qed
    moreover have "distinct (ready (th_exec th) 1 @ map item_cid (reqs nb') @ map item_cid (ress nb'))" using c(1) unfolding ex(5) nb'(2,3) by auto
    moreover have "set (ready (th_exec th) 1 @ map item_cid (reqs nb') @ map item_cid (ress nb')) = set (ready (cex r) 1 @ map item_cid (reqs nb) @ map item_cid (ress nb))"
      unfolding ex(5) nb'(2,3) by auto
    then have "unat ` set (ready (th_exec th) 1 @ map item_cid (reqs nb') @ map item_cid (ress nb')) = live (th_exec th) - {0}" using c(2) ex(2) by auto
    moreover have "\<forall>i\<in>live (th_exec th) - {0}. \<exists>msg. fut (th_exec th) i \<in> {CallStart sid msg, CallWait sid msg}" using c(3) ex(2,3) by auto
    ultimately show ?thesis unfolding callers_ok_def Let_def client_moved_simps by blast
  qed
  moreover have "counts_ok ?r nb'"
  proof -
    have "0 \<in> live (th_exec th) \<longleftrightarrow> n < SEND_NUM" using o(5) ex(2) l n by (auto simp: counts_ok_def)
    moreover have "live (th_exec th) \<subseteq> {0} \<longleftrightarrow> live (cex r) \<subseteq> {0}" using ex(2) by auto
    ultimately show ?thesis using o(5) n nb'(2,3) th(3,5) by (simp add: counts_ok_def)
  qed
  moreover have "stok ?r = stok r" using th(3) by (simp add: wake_tokens_def)
  then have "run_wakes_ok ?r nb'" using w ex(2,3,6) nb' by (auto simp: run_wakes_ok_def)
  ultimately show "run_ok args ptr sid rid ?r nb'" using o(1) by (simp add: run_ok_def)
  show "run_work ?r nb' < run_work r nb" using \<open>stok ?r = stok r\<close> ct ex(5,6) nb'(2,3) th(3) by (simp add: run_work_def)
qed

text \<open>The receiver has not ended and is fetched.\<close>

lemma receiver_poll:
  assumes ok: "run_ok args ptr sid rid r nb" and ex1: "exec_ok 0 COROUTINE_NUM ex1" "fut ex1 = fut (cex r)" "ex_current ex1 = Some 0"
    and l: "0 \<in> live (cex r)" and w: "wake_all ex1 (map item_cid (ress nb)) = Inr ex2" "ex_wf ex2"
  defines "n \<equiv> ir_reply_count r + length (ress nb)"
  shows "\<exists>th nb'. ipc_poll matrix args (fut ex1 0) ex1 (ipc_world_of (ir_cth r) r) =
      Inr (if n = SEND_NUM then Ready else Pending, RecvYield, ex2,
        (ipc_world_of (ir_cth r) r)\<lparr>iw_th := th, iw_mute_send_num := ir_mute_send_num r, iw_reply_count := n\<rparr>) \<and>
    th_wf th \<and> th_exec th = ex2 \<and> th_buffers th ptr = Some nb' \<and> th_signals th = th_signals (ir_cth r) \<and> th_wake_map th = th_wake_map (ir_cth r) \<and>
    th_uint_trigger th = th_uint_trigger (ir_cth r) \<and> th_sender_map th = th_sender_map (ir_cth r) \<and> th_submit_syscall_cnt th = th_submit_syscall_cnt (ir_cth r) \<and>
    (\<forall>c :: coroutine_id. c \<noteq> 0 \<and> th_immediate_value (ir_cth r) ! unat c \<noteq> None \<longrightarrow> th_immediate_value th ! unat c \<noteq> None) \<and>
    (\<forall>c\<in>item_cid ` set (ress nb). th_immediate_value th ! unat c \<noteq> None) \<and>
    nb_wf nb' \<and> reqs nb' = reqs nb \<and> ress nb' = [] \<and> nb_recv_req_status nb' = nb_recv_req_status nb \<and>
    (nb_recv_reply_status nb' \<longleftrightarrow> n = SEND_NUM \<and> nb_recv_reply_status nb)"
proof -
  note o = run_okD [OF ok]
  let ?w = "ipc_world_of (ir_cth r) r" and ?th1 = "(ir_cth r)\<lparr>th_exec := ex1\<rparr>" and ?its = "ress nb"
  have s: "th_wf (ir_cth r)" "th_buffers (ir_cth r) ptr = Some nb" "fut (cex r) 0 \<in> {RecvStart, RecvYield}"
    and a: "aa_ipc_new_buffer args = Some ptr" using o(1,2) by (simp_all add: client_ok_def channel_args_def)
  have wf1: "th_wf ?th1" by (rule th_wf_with_exec [OF s(1) exec_okD(1) [OF ex1(1)]])
  define th0 where "th0 = (if fut (cex r) 0 = RecvStart then ?th1 else ?th1\<lparr>th_immediate_value := (th_immediate_value ?th1)[0 := None]\<rparr>)"
  have th0: "th_wf th0" "th_exec th0 = ex1" "th_buffers th0 = th_buffers (ir_cth r)" "th_signals th0 = th_signals (ir_cth r)"
      "th_wake_map th0 = th_wake_map (ir_cth r)" "th_uint_trigger th0 = th_uint_trigger (ir_cth r)" "th_sender_map th0 = th_sender_map (ir_cth r)"
      "th_submit_syscall_cnt th0 = th_submit_syscall_cnt (ir_cth r)" "length (th_immediate_value th0) = MAX_TASK_NUM"
    using wf1 by (auto simp: th0_def th_wf_def)
  have iv0: "th_immediate_value th0 ! unat c = th_immediate_value (ir_cth r) ! unat c" if "c \<noteq> (0 :: coroutine_id)" for c
    using that by (simp add: th0_def unat_eq_0)
  have poll: "ipc_poll matrix args (fut ex1 0) ex1 ?w = rbind (recv_reply_loop ptr SEND_NUM (ir_reply_count r) th0) (\<lambda>(p, n, th).
      Inr (p, RecvYield, th_exec th, ?w\<lparr>iw_th := th, iw_mute_send_num := ir_mute_send_num r, iw_reply_count := n\<rparr>))"
  proof (cases "fut (cex r) 0 = RecvStart")
    case True
    then show ?thesis by (simp add: ipc_poll_def ipc_poll_future_def ex1(2) recv_reply_coroutine_poll_def a(1) ipc_world_of_def th0_def rbind_assoc split_def)
  next
    case False
    then have f: "fut (cex r) 0 = RecvYield" using s(3) by simp
    obtain v where "yield_now_resume ?th1 = Inr (v, th0)" using yield_resume(1) [OF wf1, of 0] ex1(3) f by (auto simp: th0_def ex_consts)
    with f show ?thesis by (simp add: ipc_poll_def ipc_poll_future_def ex1(2) recv_reply_coroutine_poll_def a(1) ipc_world_of_def rbind_assoc split_def)
  qed
  have cnt: "ir_reply_count r < SEND_NUM" "ir_reply_count r + length ?its \<le> SEND_NUM" "SEND_NUM < 2 ^ 64" using o(5) l by (simp_all add: counts_ok_def SEND_NUM_def)
  have iv: "unat (item_cid it) < length (th_immediate_value th0)" if "it \<in> set ?its" for it
    using callers_live(1) [OF o(4), of "item_cid it"] live_less [of "unat (item_cid it)" "cex r"] that th0(9) by auto
  obtain q where loop: "recv_reply_loop ptr SEND_NUM (ir_reply_count r) th0 = Inr (if n = SEND_NUM then Ready else Pending, n,
      th0\<lparr>th_buffers := (th_buffers th0)(ptr \<mapsto> nb\<lparr>nb_res_items := q, nb_recv_reply_status := n = SEND_NUM \<and> nb_recv_reply_status nb\<rparr>),
        th_immediate_value := deliver (th_immediate_value th0) ?its, th_exec := ex2\<rparr>)" and q: "iq_wf q" "srb_list q = []"
    using recv_reply_all [of th0 ptr nb ?its ex2 "ir_reply_count r" SEND_NUM] th0(2,3) s(2) o(7) iv w(1) cnt by (auto simp: n_def nb_wf_def)
  define nb' where "nb' = nb\<lparr>nb_res_items := q, nb_recv_reply_status := n = SEND_NUM \<and> nb_recv_reply_status nb\<rparr>"
  define th where "th = th0\<lparr>th_buffers := (th_buffers th0)(ptr \<mapsto> nb'), th_immediate_value := deliver (th_immediate_value th0) ?its, th_exec := ex2\<rparr>"
  have nb': "nb_wf nb'" using o(7) q(1) by (simp add: nb'_def nb_wf_def)
  have wf': "th_wf th" using th_wf_with_exec [OF th_wf_buffer [OF th0(1) nb', of ptr] w(2)] th0(9) by (simp add: th_def th_wf_def)
  have "(\<forall>c :: coroutine_id. c \<noteq> 0 \<and> th_immediate_value (ir_cth r) ! unat c \<noteq> None \<longrightarrow> th_immediate_value th ! unat c \<noteq> None)"
    using iv0 deliver_keeps [of "th_immediate_value th0" _ ?its] by (auto simp: th_def)
  moreover have "\<forall>c\<in>item_cid ` set ?its. th_immediate_value th ! unat c \<noteq> None"
    using deliver_reaches [OF _ iv] by (auto simp: th_def)
  ultimately show ?thesis
    unfolding poll loop using th0 wf' nb' q by (intro exI [of _ th] exI [of _ nb']) (simp add: th_def nb'_def)
qed

lemma receiver_turn:
  assumes ok: "run_ok args ptr sid rid r nb" and f: "fetched_from 0 COROUTINE_NUM (cex r) (Some 0) r0 (ready (cex r) 1) ex1"
    and cs: "ready (cex r) 0 @ irq_wake (cex r) = c # r0" and l: "0 \<in> live (cex r)"
  shows "client_moves matrix args ptr sid rid r nb"
proof -
  note o = run_okD [OF ok] and wk = run_wakesD [OF run_okD(6) [OF ok]]
  have "length (ready (cex r) 0) + length (irq_wake (cex r)) = Suc (length r0)" using arg_cong [OF cs, of length] by simp
  then have ct: "ctok r = 1" and r0: "r0 = []" and sgs: "th_signals (ir_sth r) = []"
    using wk(10) by (auto simp: wake_tokens_def irq_wake_def split: if_split_asm)
  have k: "fetch (cex r) = Inr (Some 0, ex1)" "exec_ok 0 COROUTINE_NUM ex1" "live ex1 = live (cex r)" "ready ex1 0 = []" "ready ex1 1 = ready (cex r) 1" "ex_delay_wake_cids ex1 = 0"
      "ex_current ex1 = Some 0" "fut ex1 = fut (cex r)"
    using f r0 by (auto simp: fetched_from_def fut_def fun_eq_iff)
  define n where "n = ir_reply_count r + length (ress nb)"
  have lv: "\<forall>c\<in>set (map item_cid (ress nb)). unat c \<in> live ex1 \<and> c \<noteq> 0" using callers_live(1,3) [OF o(4)] k(3) by auto
  obtain ex2 where w2: "wake_all ex1 (map item_cid (ress nb)) = Inr ex2" and e2: "exec_ok 0 COROUTINE_NUM ex2" "live ex2 = live (cex r)" "ex_tasks_bak ex2 = ex_tasks_bak ex1"
      "ready ex2 1 = ready (cex r) 1 @ map item_cid (ress nb)" "ready ex2 0 = []" "ex_delay_wake_cids ex2 = 0"
    using exec_ok_wake_all [OF k(2) lv] k callers_bound(1) [OF ok] by (auto simp: ex_consts COROUTINE_NUM_def)
  obtain th nb' where poll: "ipc_poll matrix args (fut ex1 0) ex1 (ipc_world_of (ir_cth r) r) =
      Inr (if n = SEND_NUM then Ready else Pending, RecvYield, ex2,
        (ipc_world_of (ir_cth r) r)\<lparr>iw_th := th, iw_mute_send_num := ir_mute_send_num r, iw_reply_count := n\<rparr>)"
    and th: "th_wf th" "th_exec th = ex2" "th_buffers th ptr = Some nb'" "th_signals th = th_signals (ir_cth r)" "th_wake_map th = th_wake_map (ir_cth r)"
      "th_uint_trigger th = th_uint_trigger (ir_cth r)" "th_sender_map th = th_sender_map (ir_cth r)" "th_submit_syscall_cnt th = th_submit_syscall_cnt (ir_cth r)"
    and iv: "\<forall>c :: coroutine_id. c \<noteq> 0 \<and> th_immediate_value (ir_cth r) ! unat c \<noteq> None \<longrightarrow> th_immediate_value th ! unat c \<noteq> None"
      "\<forall>c\<in>item_cid ` set (ress nb). th_immediate_value th ! unat c \<noteq> None"
    and nb': "nb_wf nb'" "reqs nb' = reqs nb" "ress nb' = []" "nb_recv_req_status nb' = nb_recv_req_status nb"
      "nb_recv_reply_status nb' \<longleftrightarrow> n = SEND_NUM \<and> nb_recv_reply_status nb"
    using receiver_poll [OF ok k(2,8,7) l w2 exec_okD(1) [OF e2(1)], of matrix] unfolding n_def [symmetric] by blast
  have cid: "co_cid (ex_tasks_bak ex1 ! 0) = 0" using exec_ok_cid [OF k(2), of 0] k(3) l by simp
  let ?fin = "n = SEND_NUM"
  have z: "0 \<notin> set (ready ex2 0)" "0 \<notin> set (ready ex2 (1 - 0))" using e2(4,5) callers_live(3) [OF o(4)] by (auto simp del: One_nat_def)
  obtain ex where stored: "if ?fin then remove_task (ex2\<lparr>ex_tasks_bak := (ex_tasks_bak ex2)[0 := (ex_tasks_bak ex2 ! 0)\<lparr>co_future := RecvYield\<rparr>]\<rparr>) 0 = Inr ex
      else ex = ex2\<lparr>ex_tasks_bak := (ex_tasks_bak ex2)[0 := (ex_tasks_bak ex2 ! 0)\<lparr>co_future := RecvYield\<rparr>]\<rparr>"
    and e: "exec_ok 0 COROUTINE_NUM ex" "live ex = live (cex r) - (if ?fin then {0} else {})" "fut ex = (fut ex2)(0 := RecvYield)"
      "ready ex = ready ex2" "ex_delay_wake_cids ex = 0"
    using receiver_stored [OF e2(1) _ z, of ?fin RecvYield] e2 l by auto
  have fu: "fut ex2 = fut (cex r)" using e2(3) k(8) by (simp add: fut_def fun_eq_iff)
  have t: "run_turn (ipc_poll matrix args) (cex r) (ipc_world_of (ir_cth r) r) =
      Inr (True, ex, (ipc_world_of (ir_cth r) r)\<lparr>iw_th := th, iw_mute_send_num := ir_mute_send_num r, iw_reply_count := n\<rparr>)"
    using turn_polls [where poll = "ipc_poll matrix args" and w = "ipc_world_of (ir_cth r) r", OF k(1) poll] stored cid by (cases ?fin) (simp_all add: Let_def)
  have a: "aa_ipc_new_buffer args = Some ptr" using o(1) by (simp add: channel_args_def)
  have wf': "th_wf (th\<lparr>th_exec := ex\<rparr>)" by (rule th_wf_with_exec [OF th(1) exec_okD(1) [OF e(1)]])
  have iv1: "th_immediate_value th ! unat c \<noteq> None" if "c \<in> set (ready (cex r) 1)" "th_immediate_value (ir_cth r) ! unat c \<noteq> None" for c
    using iv(1) callers_live(3) [OF o(4), of c] that by blast
  note s = receiver_moved_ok [OF ok l ct n_def wf', of nb']
  have "run_ok args ptr sid rid (client_moved r ptr nb' (th\<lparr>th_exec := ex\<rparr>) (ir_mute_send_num r) n) nb'"
      "run_work (client_moved r ptr nb' (th\<lparr>th_exec := ex\<rparr>) (ir_mute_send_num r) n) nb' < run_work r nb"
    by (rule s; use th nb' e e2 fu iv1 iv(2) sgs in \<open>force simp: wake_tokens_def\<close>)+
  with client_turn_eq [OF t a th(3)] show ?thesis by (auto simp: client_moves_def)
qed

end
