(* ===== verification/Ipc_Caller.thy ===== *)
theory Ipc_Caller
  imports Ipc_Client
begin

text \<open>
  The turns of the client of the IPC benchmark in which a caller makes its next call or ends, and every turn
  of the client.
\<close>

section \<open>The callers\<close>

lemma call_resumes:
  assumes "th_wf th" and "ex_current (th_exec th) = Some c" and "unat c < MAX_TASK_NUM" and "th_immediate_value th ! unat c = Some it"
  shows "seL4_Call_with_item_resume th = Inr (Inr it, th\<lparr>th_immediate_value := (th_immediate_value th)[unat c := None]\<rparr>)"
  using assms by (simp add: seL4_Call_with_item_resume_def yield_now_resume_def coroutine_get_current_def th_wf_def index_res_def)

text \<open>The caller at the head of the queue is polled: it makes its next call, or ends.  \<open>th0\<close> is its thread once the
  reply is taken.\<close>

definition resumes :: "ipc_thread \<Rightarrow> coroutine_id \<Rightarrow> ipc_thread \<Rightarrow> bool" where
  "resumes th c th0 \<longleftrightarrow> th_wf th0 \<and> th_exec th0 = th_exec th \<and> th_buffers th0 = th_buffers th \<and> th_signals th0 = th_signals th \<and>
     th_wake_map th0 = th_wake_map th \<and> th_uint_trigger th0 = th_uint_trigger th \<and> th_sender_map th0 = th_sender_map th \<and>
     th_submit_syscall_cnt th0 = th_submit_syscall_cnt th \<and> (\<forall>c'. c' \<noteq> c \<longrightarrow> th_immediate_value th0 ! unat c' = th_immediate_value th ! unat c')"

lemma caller_poll:
  assumes ok: "run_ok args ptr sid rid r nb" and rd: "ready (cex r) 1 = c # cs"
    and ex1: "exec_ok 0 COROUTINE_NUM ex1" "fut ex1 = fut (cex r)" "ex_current ex1 = Some c"
  defines "w \<equiv> ipc_world_of (ir_cth r) r"
  shows "\<exists>th0. resumes ((ir_cth r)\<lparr>th_exec := ex1\<rparr>) c th0 \<and>
    (if ir_mute_send_num r = 0
     then ipc_poll matrix args (fut ex1 (unat c)) ex1 w = Inr (Ready, CallDone, ex1, w\<lparr>iw_th := th0, iw_mute_send_num := 0, iw_reply_count := ir_reply_count r\<rparr>)
     else \<exists>th msg. ipc_poll matrix args (fut ex1 (unat c)) ex1 w =
         Inr (Pending, CallWait sid msg, ex1, w\<lparr>iw_th := th, iw_mute_send_num := ir_mute_send_num r - 1, iw_reply_count := ir_reply_count r\<rparr>) \<and>
       th_wf th \<and> submitted th0 ptr nb (item_from c (ucast msg)) (Uipi sid) th)"
proof -
  note o = run_okD [OF ok]
  let ?th1 = "(ir_cth r)\<lparr>th_exec := ex1\<rparr>" and ?m = "ir_mute_send_num r"
  have s: "th_wf (ir_cth r)" "th_buffers (ir_cth r) ptr = Some nb" "th_sender_map (ir_cth r) ! unat sid = ptr" "th_submit_syscall_cnt (ir_cth r) = 0"
    and a: "ptr \<noteq> 0" "unat sid < 64" "sid \<noteq> 63" using o(1,2) by (simp_all add: client_ok_def channel_args_def)
  have wf1: "th_wf ?th1" by (rule th_wf_with_exec [OF s(1) exec_okD(1) [OF ex1(1)]])
  have hd: "c \<in> set (ready (cex r) 1)" unfolding rd by simp
  note lv = callers_live(1,2) [OF o(4) disjI1 [OF hd]]
  have c: "unat c < MAX_TASK_NUM" using live_less [OF lv(1)] by simp
  have "unat c \<in> live (cex r) - {0}" using lv by simp
  from bspec [OF callers_okD(3) [OF o(4)] this] obtain msg where
    fu: "fut (cex r) (unat c) = CallStart sid msg \<or> fut (cex r) (unat c) = CallWait sid msg" by auto
  define th0 where "th0 = (if fut (cex r) (unat c) = CallStart sid msg then ?th1 else ?th1\<lparr>th_immediate_value := (th_immediate_value ?th1)[unat c := None]\<rparr>)"
  have res: "resumes ?th1 c th0" using wf1 by (auto simp: resumes_def th0_def th_wf_def nth_list_update word_unat_eq_iff)
  have th0: "th_wf th0" "th_exec th0 = ex1" "th_buffers th0 = th_buffers (ir_cth r)" "th_sender_map th0 = th_sender_map (ir_cth r)"
      "th_submit_syscall_cnt th0 = 0" using res s(4) by (simp_all add: resumes_def)
  have poll: "ipc_poll matrix args (fut ex1 (unat c)) ex1 w = rbind (client_call_round sid msg ?m th0) (\<lambda>(p, f, m, th).
      Inr (p, f, th_exec th, w\<lparr>iw_th := th, iw_mute_send_num := m, iw_reply_count := ir_reply_count r\<rparr>))"
  proof (cases "fut (cex r) (unat c) = CallStart sid msg")
    case True
    then show ?thesis by (simp add: ipc_poll_def ipc_poll_future_def ex1(2) ipc_world_of_def w_def th0_def rbind_assoc split_def)
  next
    case False
    then have f: "fut (cex r) (unat c) = CallWait sid msg" using fu by simp
    then have "th_immediate_value (ir_cth r) ! unat c \<noteq> None" using bspec [OF callers_okD(4) [OF o(4)] hd] by auto
    then obtain it where it: "th_immediate_value ?th1 ! unat c = Some it" by auto
    have "seL4_Call_with_item_resume ?th1 = Inr (Inr it, th0)" using call_resumes [OF wf1 _ c it] ex1(3) f by (simp add: th0_def)
    with f show ?thesis by (simp add: ipc_poll_def ipc_poll_future_def ex1(2) ipc_world_of_def w_def client_call_resume_def rbind_assoc split_def)
  qed
  have room: "length (reqs nb) < MAX_ITEM_NUM" using callers_bound(1) [OF ok] by (simp add: COROUTINE_NUM_def MAX_ITEM_NUM_def)
  have rnd: "if ?m = 0 then client_call_round sid msg ?m th0 = Inr (Ready, CallDone, 0, th0)
    else \<exists>th'. client_call_round sid msg ?m th0 = Inr (Pending, CallWait sid msg, ?m - 1, th') \<and> th_wf th' \<and>
      submitted th0 ptr nb (item_from c (ucast msg)) (Uipi sid) th'"
    using client_call_round_ok [of th0 c sid ptr nb ?m msg] th0 s(2,3) a ex1(3) room by (cases "?m = 0") simp_all
  show ?thesis
  proof (cases "?m = 0")
    case True
    with rnd th0(2) have "ipc_poll matrix args (fut ex1 (unat c)) ex1 w = Inr (Ready, CallDone, ex1, w\<lparr>iw_th := th0, iw_mute_send_num := 0, iw_reply_count := ir_reply_count r\<rparr>)"
      unfolding poll by simp
    then show ?thesis using res True by auto
  next
    case False
    with rnd obtain th where t: "client_call_round sid msg ?m th0 = Inr (Pending, CallWait sid msg, ?m - 1, th)" "th_wf th"
        "submitted th0 ptr nb (item_from c (ucast msg)) (Uipi sid) th" by auto
    then have "th_exec th = ex1" using th0(2) by (simp add: submitted_def)
    then have "ipc_poll matrix args (fut ex1 (unat c)) ex1 w =
         Inr (Pending, CallWait sid msg, ex1, w\<lparr>iw_th := th, iw_mute_send_num := ?m - 1, iw_reply_count := ir_reply_count r\<rparr>)" unfolding poll t(1) by simp
    then show ?thesis using res False t(2,3) by auto
  qed
qed

text \<open>The facts a caller's turn starts from.\<close>

lemma caller_fetched:
  assumes ok: "run_ok args ptr sid rid r nb" and f: "fetched_from 0 COROUTINE_NUM (cex r) (Some (unat c)) [] cs ex1"
    and q0: "ready (cex r) 0 @ irq_wake (cex r) = []" and rd: "ready (cex r) 1 = c # cs"
  shows "fetch (cex r) = Inr (Some (unat c), ex1)" "exec_ok 0 COROUTINE_NUM ex1" "live ex1 = live (cex r)" "ready ex1 0 = []" "ready ex1 1 = cs"
    "ex_delay_wake_cids ex1 = 0" "ex_current ex1 = Some c" "fut ex1 = fut (cex r)" "fut (cex r) 0 \<noteq> RecvStart"
    "wake_tokens 0 ex1 (ir_sth r) = ctok r" "unat c \<in> live (cex r)" "c \<noteq> 0" "unat c \<noteq> 0" "unat c \<le> COROUTINE_NUM"
proof -
  note o = run_okD [OF ok] and wk = run_wakesD [OF run_okD(6) [OF ok]]
  show k: "fetch (cex r) = Inr (Some (unat c), ex1)" "exec_ok 0 COROUTINE_NUM ex1" "live ex1 = live (cex r)" "ready ex1 0 = []" "ready ex1 1 = cs"
    "ex_delay_wake_cids ex1 = 0" "ex_current ex1 = Some c" "fut ex1 = fut (cex r)"
    using f by (auto simp: fetched_from_def fut_def fun_eq_iff)
  have hd: "c \<in> set (ready (cex r) 1)" unfolding rd by simp
  show lv: "unat c \<in> live (cex r)" "unat c \<noteq> 0" "c \<noteq> 0" using callers_live [OF o(4) disjI1 [OF hd]] by blast+
  show "unat c \<le> COROUTINE_NUM" using exec_okD(5) [of 0 COROUTINE_NUM "cex r"] lv(1) o(2) by (auto simp: client_ok_def)
  show st: "fut (cex r) 0 \<noteq> RecvStart" using wk(5) q0 by auto
  have "ex_delay_wake_cids (cex r) = 0"
  proof (rule ccontr)
    assume d: "ex_delay_wake_cids (cex r) \<noteq> 0"
    then have "0 \<notin> live (cex r)" using q0 by (simp add: irq_wake_def split: if_split_asm)
    then have "ctok r = 0" using wk(9) [OF st] by simp
    then show False using d by (simp add: wake_tokens_def)
  qed
  then show "wake_tokens 0 ex1 (ir_sth r) = ctok r" using k(4,6) q0 by (simp add: wake_tokens_def)
qed

lemma caller_ends:
  assumes ok: "run_ok args ptr sid rid r nb" and f: "fetched_from 0 COROUTINE_NUM (cex r) (Some (unat c)) [] cs ex1"
    and q0: "ready (cex r) 0 @ irq_wake (cex r) = []" and rd: "ready (cex r) 1 = c # cs" and m: "ir_mute_send_num r = 0"
  shows "client_moves matrix args ptr sid rid r nb"
proof -
  note o = run_okD [OF ok] and wk = run_wakesD [OF run_okD(6) [OF ok]] and k = caller_fetched [OF ok f q0 rd]
  let ?h = "unat c"
  obtain th where res: "resumes ((ir_cth r)\<lparr>th_exec := ex1\<rparr>) c th"
    and poll: "ipc_poll matrix args (fut ex1 ?h) ex1 (ipc_world_of (ir_cth r) r) =
      Inr (Ready, CallDone, ex1, (ipc_world_of (ir_cth r) r)\<lparr>iw_th := th, iw_mute_send_num := 0, iw_reply_count := ir_reply_count r\<rparr>)"
    using caller_poll [OF ok rd k(2,8,7), of matrix] m by auto
  let ?ex2 = "ex1\<lparr>ex_tasks_bak := (ex_tasks_bak ex1)[?h := (ex_tasks_bak ex1 ! ?h)\<lparr>co_future := CallDone\<rparr>]\<rparr>"
  note e2 = exec_ok_set_future [OF k(2,14), of CallDone]
  have cid: "co_cid (ex_tasks_bak ex1 ! ?h) = c" using exec_ok_cid [OF k(2), of ?h] k(3,11) by simp
  have l2: "live ?ex2 = live (cex r)" "ready ?ex2 = ready ex1" "ex_delay_wake_cids ?ex2 = 0" using k(3,6) by (simp_all add: live_def ready_def fun_eq_iff)
  then obtain ex where rm: "remove_task ?ex2 c = Inr ex" "removed ?ex2 c ex"
    using remove_task_ok [OF exec_okD(1) [OF e2(1)], of c] k(11) by auto
  have dc: "distinct (c # cs @ map item_cid (reqs nb) @ map item_cid (ress nb))" using callers_okD(1) [OF o(4)] unfolding rd by simp
  have "c \<notin> set (ready ?ex2 0)" "c \<notin> set (ready ?ex2 (1 - 0))" using dc k(4,5) unfolding l2(2) by auto
  note e = exec_ok_removed [OF e2(1) rm(2) this]
  have l: "live ex = live (cex r) - {?h}" using rm(2) l2(1) by (simp add: removed_def)
  have r3: "ready ex 0 = []" "ready ex 1 = cs" "ex_delay_wake_cids ex = 0" using e(3,4) l2(2,3) k(4,5) by simp_all
  have fu: "fut ex i = fut (cex r) i" if "i \<noteq> ?h" for i using e(2) e2(2) k(8) that by simp
  have a: "aa_ipc_new_buffer args = Some ptr" using o(1) by (simp add: channel_args_def)
  have c: "th_buffers (ir_cth r) ptr = Some nb" using o(2) by (simp add: client_ok_def)
  have t: "run_turn (ipc_poll matrix args) (cex r) (ipc_world_of (ir_cth r) r) =
      Inr (True, ex, (ipc_world_of (ir_cth r) r)\<lparr>iw_th := th, iw_mute_send_num := 0, iw_reply_count := ir_reply_count r\<rparr>)"
    using turn_polls [where poll = "ipc_poll matrix args" and w = "ipc_world_of (ir_cth r) r", OF k(1) poll] rm(1) cid by (simp add: Let_def)
  let ?r = "client_moved r ptr nb (th\<lparr>th_exec := ex\<rparr>) 0 (ir_reply_count r)"
  have "client_ok ptr sid (ir_cth ?r) nb"
    using o(2) res e(1) fu [of 0] k(13) th_wf_with_exec [of th ex] exec_okD(1) [OF e(1)] by (simp add: client_ok_def resumes_def)
  moreover have "server_ok ptr rid (ir_sth ?r) nb" by (rule client_moved_server [OF o(3,7)])
  moreover have "callers_ok sid (ir_cth ?r) nb"
  proof -
    have im: "insert ?h (unat ` set (cs @ map item_cid (reqs nb) @ map item_cid (ress nb))) = live (cex r) - {0}"
      using callers_okD(2) [OF o(4)] unfolding rd by simp
    have nin: "?h \<notin> unat ` set (cs @ map item_cid (reqs nb) @ map item_cid (ress nb))" using dc by (auto simp flip: word_unat_eq_iff)
    have "live ex - {0} = (live (cex r) - {0}) - {?h}" using l by auto
    then have "unat ` set (cs @ map item_cid (reqs nb) @ map item_cid (ress nb)) = live ex - {0}"
      unfolding im [symmetric] Diff_insert_absorb [OF nin] by (rule sym)
    moreover have "\<forall>i\<in>live ex - {0}. \<exists>msg. fut ex i \<in> {CallStart sid msg, CallWait sid msg}"
    proof
      fix i assume "i \<in> live ex - {0}"
      then have "i \<noteq> ?h" "i \<in> live (cex r) - {0}" using l by auto
      then show "\<exists>msg. fut ex i \<in> {CallStart sid msg, CallWait sid msg}" using bspec [OF callers_okD(3) [OF o(4)]] fu by simp
    qed
    moreover have "(\<exists>msg. fut ex (unat d) = CallStart sid msg) \<or> th_immediate_value th ! unat d \<noteq> None" if d: "d \<in> set cs" for d
    proof -
      have "d \<noteq> c" "d \<in> set (ready (cex r) 1)" using dc d unfolding rd by auto
      moreover from this have "unat d \<noteq> ?h" by (simp add: word_unat_eq_iff)
      ultimately show ?thesis using bspec [OF callers_okD(4) [OF o(4)], of d] fu [of "unat d"] res by (simp add: resumes_def)
    qed
    ultimately show ?thesis using dc r3(2) by (simp add: callers_ok_def Let_def)
  qed
  moreover have th: "th_signals th = th_signals (ir_cth r)" "th_uint_trigger th = th_uint_trigger (ir_cth r)" and z: "0 \<in> live ex \<longleftrightarrow> 0 \<in> live (cex r)"
    using res l k(13) by (auto simp: resumes_def)
  then have "counts_ok ?r nb" using o(5) m by (simp add: counts_ok_def)
  moreover have tok: "ctok ?r = ctok r" "stok ?r = stok r" using k(4,6,10) r3 th by (simp_all add: wake_tokens_def)
  have "run_wakes_ok ?r nb" using o(6) fu [of 0] k(9,13) z unfolding run_wakes_ok_def tok by simp
  ultimately have "run_ok args ptr sid rid ?r nb" using o(1) by (simp add: run_ok_def)
  moreover have "run_work ?r nb < run_work r nb" unfolding run_work_def tok using r3(2) rd m th(1) by simp
  ultimately show ?thesis using client_turn_eq [OF t a, of nb] res c by (auto simp: client_moves_def resumes_def)
qed

lemma caller_submits:
  assumes ok: "run_ok args ptr sid rid r nb" and f: "fetched_from 0 COROUTINE_NUM (cex r) (Some (unat c)) [] cs ex1"
    and q0: "ready (cex r) 0 @ irq_wake (cex r) = []" and rd: "ready (cex r) 1 = c # cs" and m: "ir_mute_send_num r \<noteq> 0"
    and res: "resumes ((ir_cth r)\<lparr>th_exec := ex1\<rparr>) c th0" and sub: "submitted th0 ptr nb it (Uipi sid) th" "item_cid it = c" and wf: "th_wf th"
    and ex: "exec_ok 0 COROUTINE_NUM ex" "live ex = live (cex r)" "fut ex = (fut (cex r))(unat c := CallWait sid msg)"
      "ready ex 0 = []" "ready ex 1 = cs" "ex_delay_wake_cids ex = 0"
  shows "\<exists>nb'. th_buffers th ptr = Some nb' \<and> run_ok args ptr sid rid (client_moved r ptr nb' (th\<lparr>th_exec := ex\<rparr>) (ir_mute_send_num r - 1) (ir_reply_count r)) nb' \<and>
    run_work (client_moved r ptr nb' (th\<lparr>th_exec := ex\<rparr>) (ir_mute_send_num r - 1) (ir_reply_count r)) nb' < run_work r nb"
proof -
  note o = run_okD [OF ok] and wk = run_wakesD [OF run_okD(6) [OF ok]] and k = caller_fetched [OF ok f q0 rd]
  obtain q where bf: "th_buffers th = (th_buffers th0)(ptr \<mapsto> nb\<lparr>nb_req_items := q, nb_recv_req_status := True\<rparr>)" and q: "iq_wf q" "srb_list q = reqs nb @ [it]"
    using sub(1) by (auto simp: submitted_def)
  define nb' where "nb' = nb\<lparr>nb_req_items := q, nb_recv_req_status := True\<rparr>"
  have nb': "nb_wf nb'" "reqs nb' = reqs nb @ [it]" "ress nb' = ress nb" "nb_recv_req_status nb'" "nb_recv_reply_status nb' = nb_recv_reply_status nb"
    using o(7) q by (simp_all add: nb'_def nb_wf_def)
  have th: "th_buffers th ptr = Some nb'" "th_signals th = th_signals (ir_cth r) @ (if nb_recv_req_status nb then [] else [Uipi sid])"
      "th_wake_map th = th_wake_map (ir_cth r)" "th_uint_trigger th = th_uint_trigger (ir_cth r)" "th_sender_map th = th_sender_map (ir_cth r)"
      "th_submit_syscall_cnt th = th_submit_syscall_cnt (ir_cth r)" "\<forall>d. d \<noteq> c \<longrightarrow> th_immediate_value th ! unat d = th_immediate_value (ir_cth r) ! unat d"
    using bf sub(1) res by (simp_all add: submitted_def resumes_def nb'_def)
  let ?r = "client_moved r ptr nb' (th\<lparr>th_exec := ex\<rparr>) (ir_mute_send_num r - 1) (ir_reply_count r)"
  have "client_ok ptr sid (ir_cth ?r) nb'"
    using o(2) th(1-6) ex(1,3) k(13) th_wf_with_exec [OF wf exec_okD(1) [OF ex(1)]] by (simp add: client_ok_def)
  moreover have "server_ok ptr rid (ir_sth ?r) nb'" by (rule client_moved_server [OF o(3) nb'(1)])
  moreover have "callers_ok sid (ir_cth ?r) nb'"
  proof -
    have dc: "distinct (c # cs @ map item_cid (reqs nb) @ map item_cid (ress nb))" using callers_okD(1) [OF o(4)] unfolding rd by simp
    then have "distinct (cs @ map item_cid (reqs nb') @ map item_cid (ress nb'))" unfolding nb'(2,3) using sub(2) by auto
    moreover have "set (cs @ map item_cid (reqs nb') @ map item_cid (ress nb')) = set (ready (cex r) 1 @ map item_cid (reqs nb) @ map item_cid (ress nb))"
      unfolding nb'(2,3) rd using sub(2) by auto
    then have "unat ` set (cs @ map item_cid (reqs nb') @ map item_cid (ress nb')) = live ex - {0}" unfolding ex(2) using callers_okD(2) [OF o(4)] by simp
    moreover have "\<forall>i\<in>live ex - {0}. \<exists>msg. fut ex i \<in> {CallStart sid msg, CallWait sid msg}"
      using callers_okD(3) [OF o(4)] unfolding ex(2,3) by auto
    moreover have "(\<exists>msg. fut ex (unat d) = CallStart sid msg) \<or> th_immediate_value th ! unat d \<noteq> None" if d: "d \<in> set cs" for d
    proof -
      have "d \<noteq> c" "d \<in> set (ready (cex r) 1)" using dc d unfolding rd by auto
      moreover from this have "unat d \<noteq> unat c" by (simp add: word_unat_eq_iff)
      ultimately show ?thesis using bspec [OF callers_okD(4) [OF o(4)], of d] ex(3) th(7) by simp
    qed
    ultimately show ?thesis using ex(5) by (simp add: callers_ok_def Let_def)
  qed
  moreover have "counts_ok ?r nb'"
  proof -
    have "length (reqs nb') = Suc (length (reqs nb))" using nb'(2) by (simp only: length_append list.size)
    moreover have "th_uint_trigger (ir_sth r) + (if th_signals (ir_cth r) = [] then 0 else 1) + ir_mute_send_num r \<le> SEND_NUM"
      using o(5) by (simp add: counts_ok_def)
    then have "th_uint_trigger (ir_sth r) + (if th_signals th = [] then 0 else 1) + (ir_mute_send_num r - 1) \<le> SEND_NUM"
      using m by (cases "th_signals th = []"; cases "th_signals (ir_cth r) = []"; simp)
    ultimately show ?thesis using o(5) nb'(3) th(4) ex(2) m by (auto simp: counts_ok_def)
  qed
  moreover have ct: "ctok ?r = ctok r" using k(4,6,10) ex(4,6) by (simp add: wake_tokens_def)
  have st: "stok ?r + (if nb_recv_req_status nb then 0 else if th_signals (ir_cth r) = [] then 0 else 1) = stok r + (if nb_recv_req_status nb then 0 else 1)"
    using th(2) by (simp add: wake_tokens_def)
  have pos: "0 < stok ?r" if "0 \<in> live (sex r)"
  proof (cases "nb_recv_req_status nb")
    case True
    then show ?thesis using st wk(3) [OF that True] by simp
  next
    case False
    then show ?thesis using th(2) by (simp add: wake_tokens_def)
  qed
  have "stok ?r \<le> 2" using st wk(4) by (simp split: if_split_asm)
  then have "run_wakes_ok ?r nb'" unfolding run_wakes_ok_def ct using o(6) nb' ex(2,3) k(9,13) pos by (simp add: run_wakes_ok_def)
  ultimately have "run_ok args ptr sid rid ?r nb'" using o(1) by (simp add: run_ok_def)
  moreover have "run_work ?r nb' < run_work r nb"
  proof -
    have "length (reqs nb') = Suc (length (reqs nb))" using nb'(2) by (simp only: length_append list.size)
    moreover have "length (ready (cex r) 1) = Suc (length cs)" unfolding rd by simp
    moreover have "(if th_signals th = [] then 0 else 1 :: nat) \<le> (if th_signals (ir_cth r) = [] then 0 else 1) + (if nb_recv_req_status nb then 0 else 1)"
      using th(2) by simp
    moreover have "stok ?r \<le> stok r + 1" using st by (simp split: if_split_asm)
    ultimately show ?thesis using ct ex(5) nb'(3) m unfolding run_work_def client_moved_simps thread.simps
      by (cases "nb_recv_req_status nb"; cases "th_signals (ir_cth r) = []") simp_all
  qed
  ultimately show ?thesis using th(1) by blast
qed

lemma caller_calls:
  assumes ok: "run_ok args ptr sid rid r nb" and f: "fetched_from 0 COROUTINE_NUM (cex r) (Some (unat c)) [] cs ex1"
    and q0: "ready (cex r) 0 @ irq_wake (cex r) = []" and rd: "ready (cex r) 1 = c # cs" and m: "ir_mute_send_num r \<noteq> 0"
  shows "client_moves matrix args ptr sid rid r nb"
proof -
  note o = run_okD [OF ok] and k = caller_fetched [OF ok f q0 rd]
  let ?h = "unat c" and ?w = "ipc_world_of (ir_cth r) r" and ?m = "ir_mute_send_num r - 1"
  obtain th0 th msg where res: "resumes ((ir_cth r)\<lparr>th_exec := ex1\<rparr>) c th0"
    and poll: "ipc_poll matrix args (fut ex1 ?h) ex1 ?w =
      Inr (Pending, CallWait sid msg, ex1, ?w\<lparr>iw_th := th, iw_mute_send_num := ?m, iw_reply_count := ir_reply_count r\<rparr>)"
    and sub: "th_wf th" "submitted th0 ptr nb (item_from c (ucast msg)) (Uipi sid) th"
    using caller_poll [OF ok rd k(2,8,7), of matrix] m by auto
  let ?ex = "ex1\<lparr>ex_tasks_bak := (ex_tasks_bak ex1)[?h := (ex_tasks_bak ex1 ! ?h)\<lparr>co_future := CallWait sid msg\<rparr>]\<rparr>"
  note e = exec_ok_set_future [OF k(2,14), of "CallWait sid msg"]
  have l: "live ?ex = live (cex r)" "ready ?ex = ready ex1" "ex_delay_wake_cids ?ex = 0" using k(3,6) by (simp_all add: live_def ready_def fun_eq_iff)
  have cid: "item_cid (item_from c (ucast msg)) = c" by (simp add: item_from_def)
  obtain nb' where nb': "th_buffers th ptr = Some nb'" "run_ok args ptr sid rid (client_moved r ptr nb' (th\<lparr>th_exec := ?ex\<rparr>) ?m (ir_reply_count r)) nb'"
      "run_work (client_moved r ptr nb' (th\<lparr>th_exec := ?ex\<rparr>) ?m (ir_reply_count r)) nb' < run_work r nb"
    using caller_submits [OF ok f q0 rd m res sub(2) cid sub(1) e(1) l(1)] e(2) k(4,5,8) l(2,3) by auto
  have t: "run_turn (ipc_poll matrix args) (cex r) ?w = Inr (True, ?ex, ?w\<lparr>iw_th := th, iw_mute_send_num := ?m, iw_reply_count := ir_reply_count r\<rparr>)"
    using turn_polls [where poll = "ipc_poll matrix args" and w = ?w, OF k(1) poll] by (simp add: Let_def)
  have a: "aa_ipc_new_buffer args = Some ptr" using o(1) by (simp add: channel_args_def)
  show ?thesis using client_turn_eq [OF t a nb'(1)] nb'(2,3) by (auto simp: client_moves_def)
qed

section \<open>Every turn of the client\<close>

lemma client_turn_cases:
  assumes ok: "run_ok args ptr sid rid r nb"
  shows "client_moves matrix args ptr sid rid r nb \<or>
    client_turn matrix args r = Inr r \<and> ready (cex r) 0 = [] \<and> ready (cex r) 1 = [] \<and> ex_delay_wake_cids (cex r) = 0"
proof -
  note o = run_okD [OF ok] and wk = run_wakesD [OF run_okD(6) [OF ok]]
  have s: "exec_ok 0 COROUTINE_NUM (cex r)" "th_buffers (ir_sth r) ptr = Some nb" "th_buffers (ir_cth r) ptr = Some nb" and a: "aa_ipc_new_buffer args = Some ptr"
    using o(1-3) by (auto simp: server_ok_def client_ok_def channel_args_def)
  have q: "irq_ready 0 (cex r) 0 = ready (cex r) 0 @ irq_wake (cex r)" "irq_ready 0 (cex r) 1 = ready (cex r) 1" by (simp_all add: irq_ready_def)
  have "length (ready (cex r) 0) < MAX_TASK_NUM - 1" using callers_bound(2) [OF ok] by (simp add: ex_consts)
  from fetch_cases [OF s(1) this, unfolded q] obtain f r0 r1 ex' where
    f: "fetched_from 0 COROUTINE_NUM (cex r) f r0 r1 ex'" and
    c: "case ready (cex r) 0 @ irq_wake (cex r) of
       c # cs \<Rightarrow> unat c \<in> live (cex r) \<and> f = Some (unat c) \<and> r0 = cs \<and> r1 = ready (cex r) 1
     | [] \<Rightarrow> r0 = [] \<and>
         (case ready (cex r) 1 of
            c # cs \<Rightarrow> f = (if unat c \<in> live (cex r) then Some (unat c) else None) \<and> r1 = cs
          | [] \<Rightarrow> f = None \<and> r1 = [] \<and> (ex_delay_wake_cids (cex r) = 0 \<longrightarrow> ex' = cex r))"
    by blast
  show ?thesis
  proof (cases "ready (cex r) 0 @ irq_wake (cex r)")
    case (Cons d cs)
    have "d \<in> set (ready (cex r) 0 @ irq_wake (cex r))" unfolding Cons by simp
    then have "d = 0" using exec_okD(11) [OF s(1)] by (auto simp: irq_wake_def split: if_split_asm)
    then show ?thesis using receiver_turn [OF ok, of cs ex' d matrix] f c Cons by simp
  next
    case q0: Nil
    show ?thesis
    proof (cases "ready (cex r) 1")
      case (Cons d cs)
      have "unat d \<in> live (cex r)" using callers_live(1) [OF o(4), of d] unfolding Cons by simp
      then have "fetched_from 0 COROUTINE_NUM (cex r) (Some (unat d)) [] cs ex'" using f c q0 Cons by simp
      then show ?thesis using caller_ends [OF ok _ q0 Cons, of ex' matrix] caller_calls [OF ok _ q0 Cons, of ex' matrix] by blast
    next
      case Nil
      have "fut (cex r) 0 \<noteq> RecvStart" using wk(5) q0 by auto
      from wk(9) [OF this] have d: "ex_delay_wake_cids (cex r) = 0"
        using q0 by (cases "0 \<in> live (cex r)") (auto simp: wake_tokens_def irq_wake_def split: if_split_asm)
      then have k: "fetch (cex r) = Inr (None, cex r)" using f c q0 Nil by (simp add: fetched_from_def)
      then have "run_turn (ipc_poll matrix args) (cex r) (ipc_world_of (ir_cth r) r) =
          Inr (False, cex r, (ipc_world_of (ir_cth r) r)\<lparr>iw_th := ir_cth r, iw_mute_send_num := ir_mute_send_num r, iw_reply_count := ir_reply_count r\<rparr>)"
        by (simp add: run_turn_def ipc_world_of_def)
      from client_turn_eq [OF this a s(3)] have "client_turn matrix args r = Inr r" using s(2) by (simp add: client_moved_def map_upd_triv)
      then show ?thesis using d q0 Nil by simp
    qed
  qed
qed

lemma client_turn_ok:
  assumes ok: "run_ok args ptr sid rid r nb"
  shows "move_ok args ptr sid rid r nb (client_turn matrix args r)"
    and "client_turn matrix args r = Inr r \<Longrightarrow> ready (cex r) 0 = [] \<and> ready (cex r) 1 = [] \<and> ex_delay_wake_cids (cex r) = 0"
proof -
  show "move_ok args ptr sid rid r nb (client_turn matrix args r)" using client_turn_cases [OF ok, of matrix] ok by (auto simp: move_ok_def client_moves_def)
  assume same: "client_turn matrix args r = Inr r"
  have "nb' = nb" if "run_ok args ptr sid rid r nb'" for nb' using run_okD(2) [OF that] run_okD(2) [OF ok] by (simp add: client_ok_def)
  then show "ready (cex r) 0 = [] \<and> ready (cex r) 1 = [] \<and> ex_delay_wake_cids (cex r) = 0" using client_turn_cases [OF ok, of matrix] same by (auto simp: client_moves_def)
qed

end
