(* ===== verification/Ipc_Run.thy ===== *)
theory Ipc_Run
  imports Ipc_Caller
begin

text \<open>
  The IPC benchmark runs to its end: no step panics, every step that changes something leaves less work,
  and where nothing changes both threads are through.
\<close>

unbundle bit_operations_syntax

section \<open>The composed system\<close>

lemma moves_ok:
  assumes ok: "run_ok args ptr sid rid r nb" and m: "mv \<in> set (ipc_moves (Inr m) args r)"
  shows "move_ok args ptr sid rid r nb mv"
  using m client_turn_ok(1) [OF ok] server_turn_ok(1) [OF ok] client_interrupt_ok(1) [OF ok] server_interrupt_ok(1) [OF ok]
  by (auto simp: ipc_moves_def)

lemma run_change_ok:
  assumes "(ipc_run_change (Inr m) args ^^ k) r r'" and "run_ok args ptr sid rid r nb"
  shows "\<exists>nb'. run_ok args ptr sid rid r' nb' \<and> k + run_work r' nb' \<le> run_work r nb"
  using assms
proof (induction k arbitrary: r')
  case (Suc k)
  then obtain r1 where r1: "(ipc_run_change (Inr m) args ^^ k) r r1" "ipc_run_change (Inr m) args r1 r'" by auto
  with Suc obtain nb1 where ok: "run_ok args ptr sid rid r1 nb1" and le: "k + run_work r1 nb1 \<le> run_work r nb" by blast
  have "move_ok args ptr sid rid r1 nb1 (Inr r')" using moves_ok [OF ok, of "Inr r'" m] r1(2) by (simp add: ipc_run_change_def)
  then obtain nb' where "run_ok args ptr sid rid r' nb'" "run_work r' nb' < run_work r1 nb1" using r1(2) by (auto simp: move_ok_def ipc_run_change_def)
  then show ?case using le by (intro exI [of _ nb']) simp
qed auto

text \<open>Where nothing changes, nothing is ready and no interrupt is pending.\<close>

lemma run_stuck_idle:
  assumes ok: "run_ok args ptr sid rid r nb" and stuck: "\<not> (\<exists>r'. ipc_run_change (Inr m) args r r')"
  shows "ready (cex r) 0 = []" "ready (cex r) 1 = []" "ctok r = 0" "stok r = 0"
proof -
  have same: "mv = Inr r" if "mv \<in> set (ipc_moves (Inr m) args r)" for mv
    using moves_ok [OF ok that] stuck that by (auto simp: move_ok_def ipc_run_change_def)
  have mv: "client_turn (Inr m) args r = Inr r" "server_turn (Inr m) args r = Inr r" "client_interrupt args r = Inr r" "server_interrupt args r = Inr r"
    using same by (auto simp: ipc_moves_def)
  have "th_signals (ir_cth r) = []" "th_signals (ir_sth r) = []" using client_interrupt_ok(2) [OF ok] server_interrupt_ok(2) [OF ok] mv(3,4) by blast+
  then show "ready (cex r) 0 = []" "ready (cex r) 1 = []" "ctok r = 0" "stok r = 0"
    using client_turn_ok(2) [OF ok mv(1)] server_turn_ok(2) [OF ok mv(2)] by (auto simp: wake_tokens_def)
qed

lemma run_stuck_over:
  assumes ok: "run_ok args ptr sid rid r nb" and stuck: "\<not> (\<exists>r'. ipc_run_change (Inr m) args r r')"
  shows "ipc_over r"
proof -
  note o = run_okD [OF ok] and w = run_wakesD [OF run_okD(6) [OF ok]] and i = run_stuck_idle [OF assms]
  have cnt: "ir_mute_send_num r + length (reqs nb) + ir_req_num r = SEND_NUM" "ir_reply_count r + length (ress nb) = ir_req_num r"
    "0 \<in> live (cex r) \<longleftrightarrow> ir_reply_count r < SEND_NUM" "0 \<in> live (sex r) \<longleftrightarrow> ir_req_num r < SEND_NUM"
    "ir_mute_send_num r = 0 \<or> live (cex r) - {0} \<noteq> {}" using o(5) by (simp_all add: counts_ok_def)
  have q: "reqs nb = []"
  proof (rule ccontr)
    assume ne: "reqs nb \<noteq> []"
    then have "0 < length (reqs nb)" by (simp only: length_greater_0_conv not_False_eq_True)
    then have "0 \<in> live (sex r)" using cnt(1,4) by linarith
    from w(3) [OF this w(1) [OF ne]] i(4) show False by simp
  qed
  have st: "fut (cex r) 0 \<noteq> RecvStart" using w(5) i(1) by auto
  have p: "ress nb = []"
  proof (rule ccontr)
    assume ne: "ress nb \<noteq> []"
    then have "0 < length (ress nb)" by (simp only: length_greater_0_conv not_False_eq_True)
    then have "0 \<in> live (cex r)" using cnt(1,2,3) by linarith
    then show False using w(9) [OF st] w(2) [OF ne] i(3) by simp
  qed
  have l: "live (cex r) - {0} = {}" using callers_okD(2) [OF o(4)] unfolding q p i(2) by simp
  then have m: "ir_mute_send_num r = 0" using cnt(5) by simp
  then have n: "ir_req_num r = SEND_NUM" "ir_reply_count r = SEND_NUM" using cnt(1,2) unfolding q p by simp_all
  have ex: "exec_ok 0 COROUTINE_NUM (cex r)" "exec_ok 1 0 (sex r)" using o(2,3) by (simp_all add: client_ok_def server_ok_def)
  have "live (cex r) = {}" "live (sex r) = {}" using l cnt(3,4) n exec_okD(5) [OF ex(2)] by auto
  then have "is_empty (cex r)" "is_empty (sex r)" using exec_okD(3) [OF ex(1)] exec_okD(3) [OF ex(2)] by (simp_all add: is_empty_def tasks_wf_def)
  then show ?thesis using m n by (simp add: ipc_over_def)
qed

section \<open>From the set-up to the end\<close>

lemma run_starts:
  assumes c: "channel_ready env tcb s" and sid: "\<forall>n. ie_sender env n \<noteq> Inr 63"
  shows "\<exists>sid rid. run_ok (is_args s) (ie_buffer env) sid rid (ipc_run_start s) new_buffer_new"
    and "run_work (ipc_run_start s) new_buffer_new = 102410"
proof -
  obtain rq rp sid rid where a: "is_args s = \<lparr>aa_req_ntfn = Some rq, aa_reply_ntfn = Some rp, aa_server_sender_id = Some rid, aa_client_sender_id = Some sid,
        aa_child_tcb = Some (of_nat tcb), aa_ipc_new_buffer = Some (ie_buffer env), aa_server_ready = True\<rparr>"
      "ie_sender env rq = Inr sid" "unat sid < 64" "th_sender_map (is_cth s) ! unat sid = ie_buffer env"
    and cl: "callers_spawned sid COROUTINE_NUM (th_exec (is_cth s))" "idle_thread env (is_cth s)"
    and sv: "one_coroutine env 1 ServerStart (is_sth s)" using c by (auto simp: channel_ready_def)
  let ?r = "ipc_run_start s" and ?nb = new_buffer_new and ?ex = "th_exec (is_cth s)"
  have nb: "reqs ?nb = []" "ress ?nb = []" "\<not> nb_recv_req_status ?nb" "\<not> nb_recv_reply_status ?nb"
    using new_buffer_new_wf by (simp_all add: new_buffer_new_def items_queue_new_def srb_new_def srb_list_def)
  have ex: "exec_ok 0 COROUTINE_NUM ?ex" "live ?ex = {..COROUTINE_NUM}" "ready ?ex 0 = [0]" "ready ?ex 1 = map of_nat [1..<Suc COROUTINE_NUM]"
      "ex_delay_wake_cids ?ex = 0" "fut ?ex 0 = RecvStart" "\<forall>i<COROUTINE_NUM. fut ?ex (Suc i) = CallStart sid (of_nat (100 + i))"
    using cl(1) by (simp_all add: callers_spawned_def)
  have "channel_args (is_args s) (ie_buffer env) sid rid" using a spec [OF sid, of rq] cl(2) by (auto simp: channel_args_def idle_thread_def)
  moreover have "client_ok (ie_buffer env) sid (ir_cth ?r) ?nb" using cl(2) ex(1,6) a(4) by (simp add: client_ok_def ipc_run_start_def idle_thread_def)
  moreover have "server_ok (ie_buffer env) rid (ir_sth ?r) ?nb" using sv by (simp add: server_ok_def ipc_run_start_def one_coroutine_def idle_thread_def)
  moreover have "callers_ok sid (ir_cth ?r) ?nb"
  proof -
    have u: "unat (of_nat i :: coroutine_id) = i" if "i \<le> COROUTINE_NUM" for i using that by (simp add: unat_of_nat COROUTINE_NUM_def)
    have "inj_on (of_nat :: nat \<Rightarrow> coroutine_id) {1..<Suc COROUTINE_NUM}" by (rule inj_onI) (metis atLeastLessThan_iff less_Suc_eq_le u)
    then have "distinct (ready ?ex 1)" unfolding ex(4) by (simp add: distinct_map del: upt_Suc)
    moreover have im: "unat ` set (ready ?ex 1) = {1..<Suc COROUTINE_NUM}" unfolding ex(4) using u by (force simp: image_iff)
    then have "unat ` set (ready ?ex 1) = live ?ex - {0}" using ex(2) by auto
    moreover have fu: "\<exists>msg. fut ?ex i = CallStart sid msg" if "i \<in> {1..<Suc COROUTINE_NUM}" for i
      using that ex(7) by (cases i) auto
    have "\<exists>msg. fut ?ex i \<in> {CallStart sid msg, CallWait sid msg}" if "i \<in> live ?ex - {0}" for i using fu [of i] that unfolding ex(2) by auto
    then have "\<forall>i\<in>live ?ex - {0}. \<exists>msg. fut ?ex i \<in> {CallStart sid msg, CallWait sid msg}" by blast
    moreover have "\<exists>msg. fut ?ex (unat c) = CallStart sid msg" if "c \<in> set (ready ?ex 1)" for c using fu imageI [OF that, of unat] unfolding im by blast
    ultimately show ?thesis unfolding callers_ok_def Let_def nb by (simp add: ipc_run_start_def)
  qed
  moreover have "counts_ok ?r ?nb"
  proof -
    have "Suc 0 \<in> live ?ex - {0}" "0 \<in> live ?ex" unfolding ex(2) by (simp_all add: COROUTINE_NUM_def)
    moreover have "live (th_exec (is_sth s)) = {0}" "th_signals (is_sth s) = []" "th_signals (is_cth s) = []" "th_uint_trigger (is_cth s) = 0" "th_uint_trigger (is_sth s) = 0"
      using sv cl(2) by (simp_all add: one_coroutine_def idle_thread_def)
    ultimately show ?thesis unfolding counts_ok_def nb ipc_run_start_def by (auto simp: SEND_NUM_def)
  qed
  moreover have tok: "ctok ?r = 1" "stok ?r = 1" using ex(3,5) sv cl(2) by (simp_all add: wake_tokens_def ipc_run_start_def one_coroutine_def idle_thread_def)
  then have "run_wakes_ok ?r ?nb" unfolding run_wakes_ok_def tok using nb ex(3,6) by (simp add: ipc_run_start_def)
  ultimately show "\<exists>sid rid. run_ok (is_args s) (ie_buffer env) sid rid (ipc_run_start s) new_buffer_new" unfolding run_ok_def by blast
  have "length (ready ?ex 1) = 8" unfolding ex(4) by (simp add: COROUTINE_NUM_def)
  then show "run_work ?r ?nb = 102410" unfolding run_work_def tok nb using sv cl(2)
    by (simp add: ipc_run_start_def one_coroutine_def idle_thread_def SEND_NUM_def)
qed

text \<open>C2. The IPC benchmark as a whole, once its channel is set up, in a build without overflow checks, in which the
  server's workload wraps around (the next section is about a build with them), with senders other than the number 63 of the
  system-call handler.  The threads interleave at the turns of their run loops, between which the interrupts arrive;
  what can go wrong inside a turn is the subject of theory \<open>Channel\<close>.  However turns and interrupts are interleaved: no turn and no
  interrupt panics, at most 102410 steps change anything, and in a state that no step changes the benchmark
  is over: both threads have run out of coroutines, 20480 calls have been made, and as many requests
  served and replies received.  The client's receiver, which has the higher priority, never leaves a
  stale entry in its queue, which would starve the callers.\<close>

theorem ipc_test_runs_to_the_end:
  assumes "channel_ready env tcb s" and "\<forall>n. ie_sender env n \<noteq> Inr 63"
  defines "workload \<equiv> matrix_test_in False MATRIX_SIZE"
  shows "\<forall>k r. (ipc_run_change workload (is_args s) ^^ k) (ipc_run_start s) r \<longrightarrow>
    k \<le> 102410 \<and> (\<forall>mv\<in>set (ipc_moves workload (is_args s) r). \<not> isl mv) \<and> ((\<exists>r'. ipc_run_change workload (is_args s) r r') \<or> ipc_over r)"
proof (intro allI impI)
  fix k r
  obtain m where m: "workload = Inr m" by (simp add: workload_def matrix_test_in_def)
  assume "(ipc_run_change workload (is_args s) ^^ k) (ipc_run_start s) r"
  note run = this [unfolded m]
  obtain sid rid where st: "run_ok (is_args s) (ie_buffer env) sid rid (ipc_run_start s) new_buffer_new" using run_starts(1) [OF assms(1,2)] by blast
  obtain nb where ok: "run_ok (is_args s) (ie_buffer env) sid rid r nb" and k: "k + run_work r nb \<le> 102410"
    using run_change_ok [OF run st] run_starts(2) [OF assms(1,2)] by auto
  have "\<not> isl mv" if "mv \<in> set (ipc_moves workload (is_args s) r)" for mv using moves_ok [OF ok that [unfolded m]] by (auto simp: move_ok_def)
  then show "k \<le> 102410 \<and> (\<forall>mv\<in>set (ipc_moves workload (is_args s) r). \<not> isl mv) \<and> ((\<exists>r'. ipc_run_change workload (is_args s) r r') \<or> ipc_over r)"
    using k run_stuck_over [OF ok, of m] unfolding m by auto
qed

lemma ipc_sender_example: "\<forall>n. ie_sender ipc_env_example n \<noteq> Inr 63"
proof -
  have "(ntfn AND 31 :: u64) \<noteq> 63" for ntfn using word_and_le1 [of ntfn 31] by (auto simp: word_le_nat_alt)
  then show ?thesis by (simp add: ipc_env_example_def)
qed

theorem ipc_test_runs_to_the_end_witness:
  "\<exists>s k r. channel_ready ipc_env_example 202 (s :: u64 ipc_sys) \<and>
     (ipc_run_change (matrix_test_in False MATRIX_SIZE) (is_args s) ^^ k) (ipc_run_start s) r \<and> k \<le> 102410 \<and> ipc_over r"
proof -
  let ?w = "matrix_test_in False MATRIX_SIZE"
  obtain s :: "u64 ipc_sys" where s: "channel_ready ipc_env_example 202 s" using channel_ready_example by blast
  note run = ipc_test_runs_to_the_end [OF s ipc_sender_example]
  then have "\<forall>k r. (ipc_run_change ?w (is_args s) ^^ k) (ipc_run_start s) r \<longrightarrow> k \<le> 102410 \<and> ((\<exists>r'. ipc_run_change ?w (is_args s) r r') \<or> ipc_over r)" by blast
  from bounded_run_ends [OF this] run s show ?thesis by blast
qed

section \<open>A build that checks for overflow\<close>

text \<open>The client alone comes to a state in which requests wait, and the server has not run.\<close>

lemma client_alone:
  assumes "run_ok args ptr sid rid r nb" and "ir_req_num r = 0"
  shows "\<exists>k r' nb'. (ipc_run_change matrix args ^^ k) r r' \<and> run_ok args ptr sid rid r' nb' \<and> reqs nb' \<noteq> [] \<and> sex r' = sex r"
  using assms
proof (induction "run_work r nb" arbitrary: r nb rule: less_induct)
  case less
  note ok = less.prems(1) and o = run_okD [OF less.prems(1)]
  show ?case
  proof (cases "client_moves matrix args ptr sid rid r nb")
    case True
    then obtain r1 nb1 where r1: "client_turn matrix args r = Inr r1" "run_ok args ptr sid rid r1 nb1" "run_work r1 nb1 < run_work r nb" "sex r1 = sex r" "ir_req_num r1 = 0"
      using less.prems(2) by (auto simp: client_moves_def)
    have "r1 \<noteq> r"
    proof
      assume "r1 = r"
      then have "nb1 = nb" using run_okD(2) [OF r1(2)] o(2) by (simp add: client_ok_def)
      with \<open>r1 = r\<close> r1(3) show False by simp
    qed
    then have st: "ipc_run_change matrix args r r1" using r1(1) by (simp add: ipc_run_change_def ipc_moves_def)
    obtain k r' nb' where "(ipc_run_change matrix args ^^ k) r1 r'" "run_ok args ptr sid rid r' nb'" "reqs nb' \<noteq> []" "sex r' = sex r"
      using less.hyps [OF r1(3,2,5)] r1(4) by auto
    with relpowp_Suc_I2 [of "ipc_run_change matrix args", OF st] show ?thesis by blast
  next
    case False
    with client_turn_cases [OF ok, of matrix] have rd: "ready (cex r) 1 = []" by blast
    have cnt: "ir_mute_send_num r + length (reqs nb) = SEND_NUM" "length (ress nb) = 0" "ir_mute_send_num r = 0 \<or> live (cex r) - {0} \<noteq> {}"
      using o(5) less.prems(2) by (simp_all add: counts_ok_def)
    have p: "ress nb = []" using cnt(2) by (simp only: length_0_conv)
    have "reqs nb \<noteq> []"
    proof
      assume q: "reqs nb = []"
      then have "live (cex r) - {0} = {}" using callers_okD(2) [OF o(4)] unfolding rd q p by simp
      then show False using cnt(1,3) unfolding q by (simp add: SEND_NUM_def)
    qed
    then show ?thesis using ok by (intro exI [of _ 0] exI [of _ r] exI [of _ nb]) simp
  qed
qed

lemma recv_req_panics:
  assumes "th_buffers th ptr = Some nb" "nb_wf nb" "reqs nb \<noteq> []" and M: "matrix = Inl e"
  shows "ipc_recv_req_loop matrix args ptr n th = Inl e"
proof -
  obtain it its where q: "reqs nb = it # its" using assms(3) by (cases "reqs nb") auto
  obtain q' where "get_first_item (nb_req_items nb) = Inr (Some it, q')" using iq.pop_ok [of "nb_req_items nb" it its] assms(2) q by (auto simp: nb_wf_def)
  then show ?thesis using assms(1) by (subst ipc_recv_req_loop.simps) (simp add: recv_req_turn_def M)
qed

lemma server_turn_panics:
  assumes ok: "run_ok args ptr sid rid r nb" and q: "reqs nb \<noteq> []" and rd: "ready (sex r) 1 = [0]" "fut (sex r) 0 = ServerStart" and M: "matrix = Inl e"
  shows "server_turn matrix args r = Inl e"
proof -
  note o = run_okD [OF ok]
  have s: "exec_ok 1 0 (sex r)" "ready (sex r) 0 = []" "th_buffers (ir_sth r) ptr = Some nb" and a: "aa_ipc_new_buffer args = Some ptr"
    using o(1,3) by (auto simp: server_ok_def channel_args_def)
  have "0 < length (reqs nb)" using q by (simp only: length_greater_0_conv not_False_eq_True)
  then have l: "0 \<in> live (sex r)" using o(5) by (simp add: counts_ok_def)
  have "length (ready (sex r) 1) < MAX_TASK_NUM - 1" using callers_bound(3) [OF ok] by (simp add: ex_consts)
  from fetch_cases_receiver_last [OF s(1) this] obtain r1 ex1 where f: "fetched_from 1 0 (sex r) (Some 0) [] r1 ex1"
    using l unfolding s(2) rd(1) by auto
  then have k: "fetch (sex r) = Inr (Some 0, ex1)" "fut ex1 = fut (sex r)" by (auto simp: fetched_from_def fut_def fun_eq_iff)
  have "ipc_recv_req_loop matrix args ptr (ir_req_num r) ((ir_sth r)\<lparr>th_exec := ex1\<rparr>) = Inl e"
    by (rule recv_req_panics [OF _ o(7) q M]) (simp add: s(3))
  then have "ipc_poll matrix args (fut ex1 0) ex1 (ipc_world_of (ir_sth r) r) = Inl e"
    using rd(2) a k(2) by (simp add: ipc_poll_def ipc_poll_future_def recv_req_coroutine_poll_def ipc_world_of_def)
  then have "run_turn (ipc_poll matrix args) (sex r) (ipc_world_of (ir_sth r) r) = Inl e"
    using k(1) by (simp add: run_turn_def execute_def fut_def)
  then show ?thesis by (simp add: server_turn_def)
qed

text \<open>C32. In a build that checks for overflow the IPC benchmark panics: the server's workload is the fourth squaring
  of a matrix, which overflows, so that the thread panics at its first request.\<close>

theorem ipc_test_panics_when_checked:
  assumes "channel_ready env tcb s" and "\<forall>n. ie_sender env n \<noteq> Inr 63"
  shows "\<exists>k r. (ipc_run_change (matrix_test MATRIX_SIZE) (is_args s) ^^ k) (ipc_run_start s) r \<and>
    server_turn (matrix_test MATRIX_SIZE) (is_args s) r = Inl ArithOverflow"
proof -
  let ?M = "matrix_test MATRIX_SIZE"
  have M: "?M = Inl ArithOverflow" unfolding MATRIX_SIZE_def using matrix_test_4_overflows by simp
  obtain sid rid where st: "run_ok (is_args s) (ie_buffer env) sid rid (ipc_run_start s) new_buffer_new" using run_starts(1) [OF assms] by blast
  obtain k r nb where run: "(ipc_run_change ?M (is_args s) ^^ k) (ipc_run_start s) r" and ok: "run_ok (is_args s) (ie_buffer env) sid rid r nb" "reqs nb \<noteq> []" "sex r = sex (ipc_run_start s)"
    using client_alone [OF st, of ?M] by (auto simp: ipc_run_start_def)
  have "ready (sex r) 1 = [0]" "fut (sex r) 0 = ServerStart" using assms(1) unfolding ok(3) by (simp_all add: channel_ready_def one_coroutine_def ipc_run_start_def)
  from server_turn_panics [OF ok(1,2) this M] run show ?thesis by blast
qed

theorem ipc_test_panics_when_checked_witness:
  "\<exists>s k r. channel_ready ipc_env_example 202 (s :: u64 ipc_sys) \<and> (ipc_run_change (matrix_test MATRIX_SIZE) (is_args s) ^^ k) (ipc_run_start s) r \<and>
     server_turn (matrix_test MATRIX_SIZE) (is_args s) r = Inl ArithOverflow"
proof -
  obtain s :: "u64 ipc_sys" where s: "channel_ready ipc_env_example 202 s" using channel_ready_example by blast
  from ipc_test_panics_when_checked [OF s ipc_sender_example] s show ?thesis by blast
qed

end
