(* ===== verification/Channel.thy ===== *)
theory Channel
  imports Ipc_Setup "HOL-Library.Multiset"
begin

text \<open>
  The running IPC benchmark (\<^verbatim>\<open>src/ipc_test.rs\<close>) at the granularity of its accesses to the shared buffer, for every
  interleaving.  Theory \<open>Ipc_Run\<close> takes a turn of a thread as one step; here a step is one access: a push or a pop of a
  queue, which theory \<open>Spsc\<close> shows to be atomic, a load or a store of a flag, or the sending of an interrupt.

  The client is the thread of \<^verbatim>\<open>recv_reply_coroutine\<close>, whose priority is the higher one, and of the callers, each
  in \<^verbatim>\<open>seL4_Call_with_item\<close>.  The server is the thread of \<^verbatim>\<open>recv_req_coroutine\<close>.  A caller is its number.  The queues
  never fill, for they hold at most one item of each caller, and the computation of the server between its accesses is left out.
\<close>

section \<open>Model\<close>

text \<open>Where the client is: between coroutines, in a call after its push, before its store and before its signal, or in
  the receiver's loop and after it has found no reply.\<close>

datatype chan_client_pc = KRun | KPushed | KStore | KSignal | KRecv | KEmpty

text \<open>Where the server is: in its loop, with a request taken, after the push of the reply, before its store and before
  its signal, after it has found no request, asleep, or at its end.\<close>

datatype chan_server_pc = VLoop | VTook nat | VPushed | VStore | VSignal | VEmpty | VAsleep | VDone

record chan =
  k_req :: "nat list"
  k_res :: "nat list"
  k_req_flag :: bool
  k_res_flag :: bool
  k_req_irq :: bool
  k_res_irq :: bool
  k_ready :: "nat list"
  k_left :: usize
  k_recv_queued :: nat
  k_recv_marked :: bool
  k_recv_done :: bool
  k_serv_queued :: nat
  k_serv_marked :: bool
  k_client :: chan_client_pc
  k_server :: chan_server_pc
  k_served :: usize
  k_replies :: usize
  k_ended :: "nat list"

definition chan_start :: "nat list \<Rightarrow> usize \<Rightarrow> chan" where
  "chan_start callers num = \<lparr>k_req = [], k_res = [], k_req_flag = False, k_res_flag = False, k_req_irq = False, k_res_irq = False,
     k_ready = callers, k_left = num, k_recv_queued = 1, k_recv_marked = False, k_recv_done = False, k_serv_queued = 1,
     k_serv_marked = False, k_client = KRun, k_server = VAsleep, k_served = 0, k_replies = 0, k_ended = []\<rparr>"

text \<open>The entries of the receiver in its ready queue when a coroutine is fetched: an interrupt has only marked it, and the mark
  becomes an entry then, unless the receiver has ended.\<close>

definition recv_fetch :: "chan \<Rightarrow> nat" where
  "recv_fetch s = k_recv_queued s + (if k_recv_marked s \<and> \<not> k_recv_done s then 1 else 0)"

definition serv_fetch :: "chan \<Rightarrow> nat" where
  "serv_fetch s = k_serv_queued s + (if k_serv_marked s then 1 else 0)"

text \<open>A caller that is polled makes its next call, up to the push of the request, or ends.\<close>

definition chan_caller :: "nat \<Rightarrow> chan \<Rightarrow> chan" where
  "chan_caller c s =
     (if 0 < k_left s then s\<lparr>k_left := k_left s - 1, k_req := k_req s @ [c], k_client := KPushed\<rparr>
      else s\<lparr>k_ended := k_ended s @ [c]\<rparr>)"

text \<open>The receiver of replies takes a reply and wakes its caller, or finds none and then clears its flag.\<close>

definition chan_recv :: "usize \<Rightarrow> chan \<Rightarrow> chan" where
  "chan_recv num s =
     (if k_client s = KEmpty then s\<lparr>k_res_flag := False, k_client := KRun\<rparr>
      else case k_res s of
        [] \<Rightarrow> s\<lparr>k_client := KEmpty\<rparr>
      | c # cs \<Rightarrow> s\<lparr>k_res := cs, k_ready := k_ready s @ [c], k_replies := k_replies s + 1,
          k_recv_done := (k_replies s + 1 = num), k_client := if k_replies s + 1 = num then KRun else KRecv\<rparr>)"

text \<open>A step of the client: the choice of the next coroutine, with what it does up to its next access, or an access of a caller
  or of the receiver.  An entry of a receiver that has ended blocks the choice.\<close>

definition chan_client :: "usize \<Rightarrow> chan \<Rightarrow> chan option" where
  "chan_client num s =
     (case k_client s of
        KRun \<Rightarrow>
          if 0 < recv_fetch s
          then if k_recv_done s then None
            else Some (s\<lparr>k_recv_queued := recv_fetch s - 1, k_recv_marked := False, k_client := KRecv\<rparr>)
          else (case k_ready s of
            [] \<Rightarrow> None
          | c # cs \<Rightarrow> Some (chan_caller c (s\<lparr>k_recv_marked := False, k_ready := cs\<rparr>)))
      | KPushed \<Rightarrow> Some (s\<lparr>k_client := if k_req_flag s then KRun else KStore\<rparr>)
      | KStore \<Rightarrow> Some (s\<lparr>k_req_flag := True, k_client := KSignal\<rparr>)
      | KSignal \<Rightarrow> Some (s\<lparr>k_req_irq := True, k_client := KRun\<rparr>)
      | KRecv \<Rightarrow> Some (chan_recv num s)
      | KEmpty \<Rightarrow> Some (chan_recv num s))"

text \<open>A step of the server; its loop ends when it has counted the last request.\<close>

definition chan_next :: "usize \<Rightarrow> chan \<Rightarrow> chan" where
  "chan_next num s = s\<lparr>k_served := k_served s + 1, k_server := if k_served s + 1 = num then VDone else VLoop\<rparr>"

definition chan_server :: "usize \<Rightarrow> chan \<Rightarrow> chan option" where
  "chan_server num s =
     (case k_server s of
        VLoop \<Rightarrow> (case k_req s of [] \<Rightarrow> Some (s\<lparr>k_server := VEmpty\<rparr>) | c # cs \<Rightarrow> Some (s\<lparr>k_req := cs, k_server := VTook c\<rparr>))
      | VTook c \<Rightarrow> Some (s\<lparr>k_res := k_res s @ [c], k_server := VPushed\<rparr>)
      | VPushed \<Rightarrow> if k_res_flag s then Some (chan_next num s) else Some (s\<lparr>k_server := VStore\<rparr>)
      | VStore \<Rightarrow> Some (s\<lparr>k_res_flag := True, k_server := VSignal\<rparr>)
      | VSignal \<Rightarrow> Some (chan_next num (s\<lparr>k_res_irq := True\<rparr>))
      | VEmpty \<Rightarrow> Some (s\<lparr>k_req_flag := False, k_server := VAsleep\<rparr>)
      | VAsleep \<Rightarrow> if 0 < serv_fetch s then Some (s\<lparr>k_serv_queued := serv_fetch s - 1, k_serv_marked := False, k_server := VLoop\<rparr>) else None
      | VDone \<Rightarrow> None)"

text \<open>A pending interrupt marks the coroutine it is for.\<close>

definition chan_client_irq :: "chan \<Rightarrow> chan option" where
  "chan_client_irq s = (if k_res_irq s then Some (s\<lparr>k_res_irq := False, k_recv_marked := True\<rparr>) else None)"

definition chan_server_irq :: "chan \<Rightarrow> chan option" where
  "chan_server_irq s = (if k_req_irq s then Some (s\<lparr>k_req_irq := False, k_serv_marked := True\<rparr>) else None)"

datatype chan_actor = Client | Server | ClientIrq | ServerIrq

fun chan_step :: "usize \<Rightarrow> chan_actor \<Rightarrow> chan \<Rightarrow> chan option" where
  "chan_step num Client s = chan_client num s"
| "chan_step num Server s = chan_server num s"
| "chan_step num ClientIrq s = chan_client_irq s"
| "chan_step num ServerIrq s = chan_server_irq s"

text \<open>A schedule says who makes the next step.\<close>

fun chan_run :: "usize \<Rightarrow> chan_actor list \<Rightarrow> chan \<Rightarrow> chan option" where
  "chan_run num [] s = Some s"
| "chan_run num (a # as) s = Option.bind (chan_step num a s) (chan_run num as)"

definition chan_stuck :: "usize \<Rightarrow> chan \<Rightarrow> bool" where
  "chan_stuck num s \<longleftrightarrow> (\<forall>a. chan_step num a s = None)"

definition chan_over :: "nat list \<Rightarrow> usize \<Rightarrow> chan \<Rightarrow> bool" where
  "chan_over callers num s \<longleftrightarrow> mset (k_ended s) = mset callers \<and> k_left s = 0 \<and> k_served s = num \<and> k_replies s = num"

section \<open>Invariant\<close>

fun taken :: "chan_server_pc \<Rightarrow> nat list" where
  "taken (VTook c) = [c]"
| "taken _ = []"

text \<open>Every caller is in exactly one place, every call is counted once, callers end only when no call is left, and the
  receiver is polled first of all.\<close>

definition recv_first :: "chan \<Rightarrow> bool" where
  "recv_first s \<longleftrightarrow> k_recv_queued s = 1 \<and> \<not> k_recv_done s \<and> \<not> k_recv_marked s \<and> \<not> k_res_irq s \<and> k_client s = KRun \<and>
     k_req s = [] \<and> k_server s \<in> {VLoop, VEmpty, VAsleep}"

definition chan_inv :: "nat list \<Rightarrow> usize \<Rightarrow> chan \<Rightarrow> bool" where
  "chan_inv callers num s \<longleftrightarrow>
     mset (k_ready s) + mset (k_req s) + mset (taken (k_server s)) + mset (k_res s) + mset (k_ended s) = mset callers \<and>
     k_left s + length (k_req s) + length (taken (k_server s)) + length (k_res s) + k_replies s = num \<and>
     k_served s + (if k_server s \<in> {VPushed, VStore, VSignal} then 1 else 0) = k_replies s + length (k_res s) \<and>
     (k_ended s \<noteq> [] \<longrightarrow> k_left s = 0) \<and>
     (0 < k_recv_queued s \<longrightarrow> recv_first s)"

lemma chan_inv_start: "chan_inv callers num (chan_start callers num)"
  by (simp add: chan_inv_def chan_start_def recv_first_def)

lemma chan_inv_frame [simp]:
  "k_recv_queued s = 0 \<Longrightarrow> chan_inv callers num (s\<lparr>k_client := p\<rparr>) = chan_inv callers num s"
  "chan_inv callers num (s\<lparr>k_req_flag := b\<rparr>) = chan_inv callers num s" "chan_inv callers num (s\<lparr>k_res_flag := b\<rparr>) = chan_inv callers num s"
  "chan_inv callers num (s\<lparr>k_req_irq := b\<rparr>) = chan_inv callers num s" "chan_inv callers num (s\<lparr>k_serv_marked := b\<rparr>) = chan_inv callers num s"
  by (simp_all add: chan_inv_def recv_first_def)

lemma chan_inv_client:
  assumes st: "chan_client num s = Some s'" and inv: "chan_inv callers num s"
  shows "chan_inv callers num s'"
proof -
  have idle: "k_recv_queued s = 0" if "k_client s \<noteq> KRun" using inv that by (simp add: chan_inv_def recv_first_def)
  show ?thesis
  proof (cases "k_client s")
    case KRun
    show ?thesis
    proof (cases "recv_fetch s")
      case 0
      then obtain c cs where c: "k_ready s = c # cs" using st KRun by (cases "k_ready s") (simp_all add: chan_client_def)
      have q: "k_recv_queued s = 0" using 0 by (simp add: recv_fetch_def)
      show ?thesis
      proof (cases "k_left s")
        case 0
        then have "s' = s\<lparr>k_recv_marked := False, k_ready := cs, k_ended := k_ended s @ [c]\<rparr>"
          using st KRun \<open>recv_fetch s = 0\<close> c by (simp add: chan_client_def chan_caller_def)
        then show ?thesis using inv c 0 q by (simp add: chan_inv_def)
      next
        case (Suc n)
        then have "s' = s\<lparr>k_recv_marked := False, k_ready := cs, k_left := n, k_req := k_req s @ [c], k_client := KPushed\<rparr>"
          using st KRun \<open>recv_fetch s = 0\<close> c by (simp add: chan_client_def chan_caller_def)
        then show ?thesis using inv c Suc q by (auto simp: chan_inv_def)
      qed
    next
      case (Suc n)
      then have s': "s' = s\<lparr>k_recv_queued := n, k_recv_marked := False, k_client := KRecv\<rparr>"
        using st KRun by (simp add: chan_client_def split: if_split_asm)
      have "n = 0" using Suc inv by (auto simp: chan_inv_def recv_first_def recv_fetch_def split: if_split_asm)
      then show ?thesis using inv unfolding s' by (simp add: chan_inv_def)
    qed
  next
    case KRecv
    then show ?thesis using st inv idle by (cases "k_res s") (auto simp: chan_client_def chan_recv_def chan_inv_def)
  qed (use st inv idle in \<open>auto simp: chan_client_def chan_recv_def\<close>)+
qed

lemma chan_inv_server:
  assumes st: "chan_server num s = Some s'" and inv: "chan_inv callers num s"
  shows "chan_inv callers num s'"
proof (cases "k_server s")
  case VLoop
  then show ?thesis using st inv by (cases "k_req s") (auto simp: chan_server_def chan_inv_def recv_first_def)
next
  case VPushed
  then show ?thesis using st inv by (cases "k_res_flag s") (auto simp: chan_server_def chan_next_def chan_inv_def recv_first_def split: if_split_asm)
next
  case VSignal
  then show ?thesis using st inv by (auto simp: chan_server_def chan_next_def chan_inv_def recv_first_def split: if_split_asm)
next
  case VAsleep
  then show ?thesis using st inv by (auto simp: chan_server_def chan_inv_def recv_first_def split: if_split_asm)
qed (use st inv in \<open>clarsimp simp: chan_server_def chan_inv_def recv_first_def\<close>)+

lemma chan_inv_client_irq:
  assumes "chan_client_irq s = Some s'" and inv: "chan_inv callers num s"
  shows "chan_inv callers num s'"
proof -
  have i: "k_res_irq s" "s' = s\<lparr>k_res_irq := False, k_recv_marked := True\<rparr>" using assms(1) by (simp_all add: chan_client_irq_def split: if_split_asm)
  then have "k_recv_queued s = 0" using inv by (simp add: chan_inv_def recv_first_def)
  then show ?thesis using inv unfolding i(2) by (simp add: chan_inv_def)
qed

lemma chan_inv_server_irq:
  assumes "chan_server_irq s = Some s'" and inv: "chan_inv callers num s"
  shows "chan_inv callers num s'"
proof -
  have "s' = s\<lparr>k_req_irq := False, k_serv_marked := True\<rparr>" using assms(1) by (simp add: chan_server_irq_def split: if_split_asm)
  then show ?thesis using inv by simp
qed

lemma chan_inv_step: "chan_step num a s = Some s' \<Longrightarrow> chan_inv callers num s \<Longrightarrow> chan_inv callers num s'"
  by (cases a) (simp_all add: chan_inv_client chan_inv_server chan_inv_client_irq chan_inv_server_irq)

lemma chan_inv_run: "chan_run num as s = Some s' \<Longrightarrow> chan_inv callers num s \<Longrightarrow> chan_inv callers num s'"
proof (induction "as" arbitrary: s)
  case (Cons a "as")
  then obtain s1 where "chan_step num a s = Some s1" "chan_run num as s1 = Some s'" by (auto simp: bind_eq_Some_conv)
  then show ?case using Cons.IH chan_inv_step Cons.prems(2) by blast
qed simp

text \<open>Where no step is possible, nobody is ready and both coroutines sleep or have ended.\<close>

lemma chan_stuckD:
  assumes "chan_stuck num s" "chan_inv callers num s"
  shows "k_client s = KRun" "k_ready s = []" "k_server s = VAsleep \<or> k_server s = VDone" "\<not> k_res_irq s" "\<not> k_req_irq s"
proof -
  have n: "chan_client num s = None" "chan_server num s = None" "chan_client_irq s = None" "chan_server_irq s = None"
    using assms(1) by (simp_all add: chan_stuck_def) (metis chan_step.simps)+
  show k: "k_client s = KRun" using n(1) by (cases "k_client s"; simp add: chan_client_def split: list.splits if_split_asm)
  have "recv_fetch s = 0 \<or> k_recv_done s" using n(1) k by (simp add: chan_client_def split: if_split_asm)
  moreover have "0 < k_recv_queued s \<Longrightarrow> \<not> k_recv_done s" using assms(2) by (simp add: chan_inv_def recv_first_def)
  ultimately have "recv_fetch s = 0" by (auto simp: recv_fetch_def split: if_split_asm)
  then show "k_ready s = []" using n(1) k by (simp add: chan_client_def split: list.splits if_split_asm)
  show "k_server s = VAsleep \<or> k_server s = VDone" using n(2) by (cases "k_server s") (auto simp: chan_server_def split: list.splits if_split_asm)
  show "\<not> k_res_irq s" "\<not> k_req_irq s" using n(3,4) by (simp_all add: chan_client_irq_def chan_server_irq_def split: if_split_asm)
qed

section \<open>Properties\<close>

text \<open>C10. In every interleaving, at the granularity of memory accesses, no call and no caller is lost or
  duplicated: each caller is ready, in one of the queues, with the server, or has ended, and each call is still to be
  made, in a queue, with the server, or answered.  The threads can come to a standstill before the benchmark is over only with
  an item in a queue whose receiver sleeps: a lost wake-up is the only way to fail.\<close>

theorem channel_standstill:
  assumes "chan_run num as (chan_start callers num) = Some s" and "callers \<noteq> []"
  shows "mset (k_ready s) + mset (k_req s) + mset (taken (k_server s)) + mset (k_res s) + mset (k_ended s) = mset callers \<and>
    k_left s + length (k_req s) + length (taken (k_server s)) + length (k_res s) + k_replies s = num \<and>
    (chan_stuck num s \<longrightarrow> chan_over callers num s \<or> k_req s \<noteq> [] \<or> k_res s \<noteq> [])"
proof -
  have inv: "chan_inv callers num s" by (rule chan_inv_run [OF assms(1) chan_inv_start])
  have "chan_over callers num s" if "chan_stuck num s" "k_req s = []" "k_res s = []"
  proof -
    note st = chan_stuckD [OF that(1) inv]
    have t: "taken (k_server s) = []" "k_server s \<notin> {VPushed, VStore, VSignal}" using st(3) by auto
    then have e: "mset (k_ended s) = mset callers" using inv st(2) that(2,3) by (simp add: chan_inv_def)
    then have "k_ended s \<noteq> []" using assms(2) by auto
    then show ?thesis using inv e t that(2,3) by (simp add: chan_inv_def chan_over_def)
  qed
  then show ?thesis using inv by (auto simp: chan_inv_def)
qed

text \<open>A schedule with the benchmark's own numbers.  The server runs once and sleeps; the eight callers
  call; the server answers two of them, and pauses after its second push; the receiver takes both replies, clears its flag, and the two call again; the server, which now finds the flag
  clear, sets it and interrupts.  The receiver runs, finds no reply and pauses before it clears the flag; the server
  answers all eight requests, with the flag set, and sleeps; the receiver clears the flag.\<close>

definition lost_replies :: "chan_actor list" where
  "lost_replies = replicate 3 Server @ replicate 21 Client @ ServerIrq # replicate 8 Server @ ClientIrq # replicate 9 Client @ replicate 3 Server @
     ClientIrq # replicate 2 Client @ replicate 26 Server @ [Client]"

text \<open>Another one: the server has slept, is woken, answers all callers and pauses before it clears its flag; the callers take their replies and
  call again; the server clears the flag and sleeps.\<close>

definition lost_requests :: "chan_actor list" where
  "lost_requests = replicate 3 Server @ replicate 21 Client @ ServerIrq # replicate 28 Server @ ClientIrq # replicate 27 Client @ [Server]"

lemma replicate_unfold: "replicate (numeral v) x = x # replicate (pred_numeral v) x"
  by (simp add: numeral_eq_Suc)

lemmas chan_eval = chan_client_def chan_caller_def chan_recv_def chan_server_def chan_next_def chan_client_irq_def chan_server_irq_def recv_fetch_def serv_fetch_def replicate_unfold

lemma lost_replies_run:
  "chan_run 20480 lost_replies (chan_start [1, 2, 3, 4, 5, 6, 7, 8] 20480) =
     Some \<lparr>k_req = [], k_res = [3, 4, 5, 6, 7, 8, 1, 2], k_req_flag = False, k_res_flag = False, k_req_irq = False, k_res_irq = False,
       k_ready = [], k_left = 20470,
       k_recv_queued = 0, k_recv_marked = False, k_recv_done = False, k_serv_queued = 0, k_serv_marked = False, k_client = KRun, k_server = VAsleep, k_served = 10, k_replies = 2, k_ended = []\<rparr>"
  by (simp add: lost_replies_def chan_start_def chan_eval)

lemma lost_requests_run:
  "chan_run 20480 lost_requests (chan_start [1, 2, 3, 4, 5, 6, 7, 8] 20480) =
     Some \<lparr>k_req = [1, 2, 3, 4, 5, 6, 7, 8], k_res = [], k_req_flag = False, k_res_flag = False, k_req_irq = False, k_res_irq = False,
       k_ready = [], k_left = 20464,
       k_recv_queued = 0, k_recv_marked = False, k_recv_done = False, k_serv_queued = 0, k_serv_marked = False, k_client = KRun, k_server = VAsleep, k_served = 8, k_replies = 8, k_ended = []\<rparr>"
  by (simp add: lost_requests_def chan_start_def chan_eval)

lemma chan_stuckI:
  assumes "k_client s = KRun" "recv_fetch s = 0" "k_ready s = []" "k_server s = VAsleep" "serv_fetch s = 0" "\<not> k_res_irq s" "\<not> k_req_irq s"
  shows "chan_stuck num s"
  unfolding chan_stuck_def
proof
  show "chan_step num a s = None" for a using assms by (cases a) (simp_all add: chan_eval)
qed

theorem channel_standstill_witness:
  "\<exists>s. chan_run 20480 lost_requests (chan_start [1, 2, 3, 4, 5, 6, 7, 8] 20480) = Some s \<and> chan_stuck 20480 s \<and>
     k_left s = 20464 \<and> k_replies s = 8 \<and> mset (k_req s) = mset [1, 2, 3, 4, 5, 6, 7, 8] \<and>
     (chan_over [1, 2, 3, 4, 5, 6, 7, 8] 20480 s \<or> k_req s \<noteq> [] \<or> k_res s \<noteq> [])"
proof (intro exI conjI)
  let ?r = "chan_run 20480 lost_requests (chan_start [1, 2, 3, 4, 5, 6, 7, 8] 20480)"
  show run: "?r = Some (the ?r)" by (simp only: lost_requests_run option.sel)
  have thr: "the ?r = \<lparr>k_req = [1, 2, 3, 4, 5, 6, 7, 8], k_res = [], k_req_flag = False, k_res_flag = False, k_req_irq = False, k_res_irq = False,
      k_ready = [], k_left = 20464, k_recv_queued = 0, k_recv_marked = False, k_recv_done = False, k_serv_queued = 0, k_serv_marked = False, k_client = KRun, k_server = VAsleep, k_served = 8, k_replies = 8, k_ended = []\<rparr>"
    by (simp only: lost_requests_run option.sel)
  show stuck: "chan_stuck 20480 (the ?r)" unfolding thr by (simp add: chan_stuckI recv_fetch_def serv_fetch_def)
  show "k_left (the ?r) = 20464" "k_replies (the ?r) = 8" "mset (k_req (the ?r)) = mset [1, 2, 3, 4, 5, 6, 7, 8]" unfolding thr by simp_all
  show "chan_over [1, 2, 3, 4, 5, 6, 7, 8] 20480 (the ?r) \<or> k_req (the ?r) \<noteq> [] \<or> k_res (the ?r) \<noteq> []"
    using channel_standstill [OF run] stuck by blast
qed

text \<open>C31. With the benchmark's own numbers, eight callers and 20480 calls, both directions can lose a wake-up for good: there is an
  interleaving after which every caller's reply is in the queue and both threads sleep for ever, and one
  after which every caller's request is.\<close>

theorem channel_lost_wakeups:
  "(\<exists>as s. chan_run SEND_NUM as (chan_start [1..<Suc COROUTINE_NUM] SEND_NUM) = Some s \<and> chan_stuck SEND_NUM s \<and>
      0 < k_left s \<and> length (k_res s) = COROUTINE_NUM) \<and>
   (\<exists>as s. chan_run SEND_NUM as (chan_start [1..<Suc COROUTINE_NUM] SEND_NUM) = Some s \<and> chan_stuck SEND_NUM s \<and>
      0 < k_left s \<and> length (k_req s) = COROUTINE_NUM)" (is "(\<exists>as s. ?replies as s) \<and> (\<exists>as s. ?requests as s)")
proof -
  have c: "[1..<Suc COROUTINE_NUM] = [1, 2, 3, 4, 5, 6, 7, 8]" by (simp add: COROUTINE_NUM_def upt_rec)
  have "\<exists>s. ?replies lost_replies s" unfolding c SEND_NUM_def lost_replies_run by (simp add: COROUTINE_NUM_def chan_stuckI recv_fetch_def serv_fetch_def)
  moreover have "\<exists>s. ?requests lost_requests s" unfolding c SEND_NUM_def lost_requests_run by (simp add: COROUTINE_NUM_def chan_stuckI recv_fetch_def serv_fetch_def)
  ultimately show ?thesis by blast
qed

end
