(* ===== verification/Spec2Isabelle.thy ===== *)
theory Spec2Isabelle
  imports Spsc Notify Memory_Allocator Matrix Executor_Props Async_Lib_Props
    Sync_Server Net_Props Net_Safety Axi_Init Axi_Test Virtio_Net Uintr Runtime Syscall_Start Ipc_Run Channel
begin

text \<open>
  Verification development of the seL4 root task demo (\<^verbatim>\<open>src/crates/example\<close>): a coroutine runtime,
  asynchronous IPC and system calls over shared rings and user interrupts, a network stack thread
  built on them, two network drivers, the allocators they use, the benchmark of asynchronous
  system calls that \<^verbatim>\<open>main\<close> runs, and the benchmark of asynchronous IPC.

  \<^bold>\<open>Parts and their theories\<close>

  \<^item> \<^emph>\<open>Prelude\<close>: Rust's integers and panics (\<open>res\<close>, \<open>rbind\<close>), checked arithmetic, bounded search, words.
  \<^item> \<^emph>\<open>Index_Allocator, Bitmaps, Ring_Buffer\<close> (\<^verbatim>\<open>async_runtime/src/utils.rs\<close>): the index allocator with the
    contract \<open>index_pool\<close>, the two bitmaps with the contract of a bit set, the two ring buffers with the
    contract \<open>bounded_queue\<close>.  Each contract is a locale, interpreted on the code's data structure;
    the clients below use only the interpreted facts.
  \<^item> \<^emph>\<open>Spsc\<close>: \<^verbatim>\<open>SafeRingBuffer\<close> shared by one producer and one consumer, every memory operation a step.
  \<^item> \<^emph>\<open>Ipc_Item\<close> (\<^verbatim>\<open>message_info.rs\<close>, \<^verbatim>\<open>new_buffer.rs\<close>): labels, items, item queues, the shared buffer.
  \<^item> \<^emph>\<open>Executor, Executor_Sched, Executor_Props\<close> (\<^verbatim>\<open>coroutine.rs\<close>, \<^verbatim>\<open>executor.rs\<close>): tasks, ready queues by
    priority, delayed wake-ups, the run loops.  A future is a state with a poll function as parameter.
  \<^item> \<^emph>\<open>Notify\<close>: the \<^verbatim>\<open>recv_req_status\<close> handshake between a client and the serving coroutine, interleaved.
  \<^item> \<^emph>\<open>Async_Lib, Async_Lib_Props\<close> (\<^verbatim>\<open>async_lib.rs\<close>): a thread's registrations, user-interrupt handler,
    calls, replies and suspension; \<^emph>\<open>Async_Syscall\<close> (\<^verbatim>\<open>async_lib.rs\<close>, \<^verbatim>\<open>async_syscall.rs\<close>): the requests.
  \<^item> \<^emph>\<open>Uintr\<close> (\<^verbatim>\<open>uintr/src/lib.rs\<close>): control registers, trap entry, registration.
  \<^item> \<^emph>\<open>Runtime\<close> (\<^verbatim>\<open>async_runtime/src/lib.rs\<close>, \<^verbatim>\<open>main.rs\<close>, \<^verbatim>\<open>heap.rs\<close>): the thread-local executor, the start of
    the program, and the invariant of a thread's whole state.
  \<^item> \<^emph>\<open>Image_Utils\<close> (\<^verbatim>\<open>image_utils.rs\<close>), \<^emph>\<open>Object_Allocator\<close> (\<^verbatim>\<open>object_allocator.rs\<close>), \<^emph>\<open>Memory_Allocator\<close>
    (\<^verbatim>\<open>memory_allocator.rs\<close>), \<^emph>\<open>Matrix\<close> (\<^verbatim>\<open>matrix.rs\<close>).
  \<^item> \<^emph>\<open>Net_Message\<close> (\<^verbatim>\<open>net/message.rs\<close>), \<^emph>\<open>Listen_Table\<close> (\<^verbatim>\<open>net/listen_table.rs\<close>), \<^emph>\<open>Net_Stack\<close>
    (\<^verbatim>\<open>net/mod.rs\<close>), \<^emph>\<open>Tcp_Client\<close> (\<^verbatim>\<open>net/tcp.rs\<close>, \<^verbatim>\<open>net/sync_tcp.rs\<close>), with their properties in
    \<^emph>\<open>Net_Props\<close> and \<^emph>\<open>Net_Safety\<close>; \<^emph>\<open>Sync_Server\<close> (\<^verbatim>\<open>sync_tcp_test.rs\<close>) is the synchronous server of the network
    benchmark, with the lock its loop holds.
  \<^item> \<^emph>\<open>Net_Mmio\<close>, \<^emph>\<open>Axi_Net\<close>, \<^emph>\<open>Axi_Init\<close>, \<^emph>\<open>Axi_Test\<close>, \<^emph>\<open>Virtio_Net\<close> (\<^verbatim>\<open>device\<close>): register mapping, the DMA
    buffer pool and tokens of the Ethernet driver, its configuration and initialisation up to the
    addressed interface, its two test loops, and the VirtIO driver.
  \<^item> \<^emph>\<open>Reply_Server\<close> (\<^verbatim>\<open>ipc_test.rs\<close>): the contract \<open>reply_server\<close> between the clients of a shared buffer and
    whoever serves it, interpreted on the server coroutine of the IPC benchmark.  \<^emph>\<open>Ipc_Setup\<close> (\<^verbatim>\<open>ipc_test.rs\<close>):
    how the two threads of that benchmark set up their channel through \<^verbatim>\<open>AsyncArgs\<close>, interleaved.  \<^emph>\<open>Ipc_Sys\<close> composes the
    two run loops, the buffer they share and their interrupts and states the invariant, \<^emph>\<open>Ipc_Turn\<close>, \<^emph>\<open>Ipc_Client\<close> and
    \<^emph>\<open>Ipc_Caller\<close> show that the turns of the server, of the receiver of replies and of the callers keep it, and
    \<^emph>\<open>Ipc_Run\<close> that the benchmark runs to its end.  \<^emph>\<open>Channel\<close> is the same benchmark with one access to the buffer per step.
  \<^item> \<^emph>\<open>Syscall_Test\<close> (\<^verbatim>\<open>syscall_test.rs\<close>, \<^verbatim>\<open>main.rs\<close>): the program \<^verbatim>\<open>main\<close> runs.  \<^emph>\<open>Run_Loop\<close> describes the turns of the
    benchmarks' executors, \<^emph>\<open>Test_Polls\<close> describes the polls of the program's coroutines, \<^emph>\<open>Syscall_Sys\<close> composes the program
    with a handler of system calls and its interrupts in one step relation and states the
    invariant, \<^emph>\<open>Syscall_Turn\<close> shows that turns keep it, \<^emph>\<open>Syscall_Run\<close> that the whole runs to its end, and
    \<^emph>\<open>Syscall_Start\<close> that the set-up establishes it.

  \<^bold>\<open>How the code is read\<close>

  A Rust struct is a record, an enumeration a datatype, a method a definition that takes and
  returns the state.  Every panic is a value \<open>Inl\<close>: failed assertions, \<^verbatim>\<open>unwrap\<close>, indexing, and
  arithmetic overflow, which the development profile of \<^verbatim>\<open>cargo build\<close> checks; of \<^verbatim>\<open>matrix.rs\<close>, the only
  arithmetic here that does overflow in a benchmark, the wrap-around of a build without checks is modelled too.  A dereference of an address where
  no object lives is \<^const>\<open>BadPointer\<close>, and taking a spin lock the thread holds is \<^const>\<open>SelfDeadlock\<close>.  An \<^verbatim>\<open>async fn\<close> is cut at its suspensions.  Shared buffers live in a
  store indexed by their address; what leaves a thread (user interrupts, wake-ups of the kernel,
  messages) is recorded in lists.

  \<^bold>\<open>What is shown\<close>

  \<^item> \<^emph>\<open>The program as a whole\<close>: from its set-up, with every handler that keeps the contract and in every
    interleaving of turns, handler steps and interrupts, nothing panics, the number of changing
    steps is bounded, and the program can stop only when every frame was mapped and unmapped ten
    times in order, every reply was counted and no coroutine is left.
  \<^item> \<^emph>\<open>The IPC benchmark as a whole\<close>: once the channel is set up, in every interleaving of turns and interrupts
    and in a build without overflow checks, nothing panics, the number of changing steps is bounded, and the threads can
    stop only when all 20480 calls were made, served and answered; a build that checks for overflow panics at the first
    request.  Interleaved at single accesses, no call is lost or duplicated, and the threads can come
    to a standstill only by a lost wake-up, which can happen in both directions.
  \<^item> \<^emph>\<open>Executor\<close>: every ready coroutine is polled once, by priority and in order; the invariant holds
    after every turn whatever coroutines do, and a turn panics only when delayed wake-ups overflow a ready queue or the
    polled coroutine does; which delayed wake-ups are delivered and which are lost; when the
    executor stalls; termination of the run loops.
  \<^item> \<^emph>\<open>Rings and bitmaps\<close>: first in, first out, sequentially and in every interleaving, with
    wait-free operations; the two-level bitmap as a set.
  \<^item> \<^emph>\<open>Clients\<close>: a call reaches the queue and signals exactly when the receiver is marked idle; its
    reply wakes the coroutine that made it and is returned to it once; an interrupt wakes the registered coroutines; the
    state of a thread stays well formed under every sequence of operations; where a wake-up can
    be lost between threads; in every interleaving two threads that set up a channel get it.
  \<^item> \<^emph>\<open>Network\<close>: a send call from the client to the socket and back; accepting a connection; deferred
    receives; which listener gets which socket; safety of every turn of the network thread, whether its run
    returns or not; the
    requests that are dropped or panic; the synchronous server answers every receive once, deadlocks
    when a client connects while it handles requests, and returns more than was asked for.
  \<^item> \<^emph>\<open>Drivers\<close>: outstanding frames never share a buffer and keep their contents; a transmitted frame
    is what the library wrote; the registers are mapped, and when not; when a DMA region is
    physically contiguous.
  \<^item> \<^emph>\<open>Allocators and start\<close>: kernel objects get distinct regions and slots; pages are mapped and
    recycled; the program starts in the states the theorems assume or panics, and when.

  \<^bold>\<open>Fuel\<close>

  The two run loops of the executor may run for ever and take fuel, one unit per task fetched (and
  one per round of \<^verbatim>\<open>run_until_complete\<close>); \<open>None\<close> means that it ran out.  The theorems on dispatching
  and completion give the fuel that is enough, one more than the coroutines that are ready.  All other
  loops of the code are functions with a termination proof.  The two test loops of the Ethernet
  driver take fuel, one unit per iteration; the composed system is a step relation and takes none.

  \<^bold>\<open>Parameters\<close>

  The kernel (which invocations it accepts, frame addresses, object sizes), the smoltcp sockets
  (\<open>socket_api\<close>), the DMA engine and Ethernet controller (\<open>axi_api\<close>, \<open>axi_board\<close>), the VirtIO library
  (\<open>virtio_api\<close>), the user-interrupt unit (\<open>uipi_unit\<close>) and the heap are not part of the repository.  The
  definitions take them as arguments, and a theorem names what it assumes of them.  The kernel's handler of asynchronous
  system calls is assumed to serve its buffer as the contract \<open>reply_server\<close> says, which is modelled after the server of the
  IPC benchmark and proved of it.

  \<^bold>\<open>Not modelled\<close>

  Logging and timing output; of the benchmarks, the demonstrations \<^verbatim>\<open>main\<close> does not run, the
  synchronous IPC variant, the asynchronous network benchmark (\<^verbatim>\<open>async_tcp_test.rs\<close>), whose channel is set up as
  that of the IPC benchmark, the threads that drive the synchronous one, and \<^verbatim>\<open>poll_net_test.rs\<close>, a loop
  over calls of smoltcp; spin locks that are taken and released around sequential code, other than
  the one of \<^emph>\<open>Sync_Server\<close>; the saved register frame of the trap handler, written in
  assembly.  In the composed systems a turn of the run loop and a step of the handler are each one
  step; what can go wrong when the two sides are interleaved at the flags of the shared buffer is
  the subject of \<^emph>\<open>Notify\<close> and \<^emph>\<open>Channel\<close>.  That no identifier of a sender is 63, which the code keeps for
  the channel of system calls, is a hypothesis of the theorems on the IPC benchmark.  Memory is sequentially consistent
  where threads are interleaved.
\<close>

end
